(* ===== verification/Prelude.thy ===== *)
theory Prelude
  imports Main "HOL-Library.List_Lexorder" "HOL-Library.Char_ord" "HOL-Library.Product_Lexorder"
    "HOL-Library.Sublist" "HOL-Library.Multiset"
    "HOL-Library.Code_Target_Numeral"
begin

text \<open>
  What every other theory of the development shares: the two collections of rewrite rules,
  Python exceptions as values, the string operations of Python the modelled modules call, and a few
  facts on lists and sorting.

  A Python \<open>str\<close> is a \<^typ>\<open>string\<close> holding its UTF-8 bytes.  Comparison of \<open>str\<close> values is by code
  point, which for UTF-8 is the lexicographic order of the bytes, so the order of
  \<^theory_text>\<open>HOL-Library.List_Lexorder\<close> over the character order of \<^theory_text>\<open>HOL-Library.Char_ord\<close> is Python's.
  Case conversion and white space are modelled on the ASCII range.
\<close>

named_theorems res_simps \<open>rewrite rules for results that may be exceptions\<close>
named_theorems str_simps \<open>rewrite rules for the Python string operations\<close>

section \<open>Exceptions as values\<close>

text \<open>
  The exception classes the modelled modules raise or catch.  A raised exception is its class and
  its message; a call that may raise returns a sum, the left side being the exception.
\<close>

datatype exc_class =
    ValueError | KeyError | TypeError | AttributeError | OverflowError | ZeroDivisionError
  | AcquisitionContractError | HashConflictError | ProtectedRootWriteError | IncompleteObservationError
  | QualificationError | ProviderRuntimeContractError | ProviderExecutionGuardError
  | UnsupportedLegacyProviderOperation | RetiredProviderOperation | GovernedProviderExecutionRequired
  | AcquisitionBudgetExceeded | OSError | RuntimeError | DurableCaseStoreError | AdmissionPolicyError
  | GovernedTradingSessionCalendarError | CompletedSessionGateError | PaginationError | VCIPilotError

datatype py_exc = Raise (exc_class: exc_class) (exc_message: string)

type_synonym 'a res = "py_exc + 'a"

definition bindE :: "'a res \<Rightarrow> ('a \<Rightarrow> 'b res) \<Rightarrow> 'b res" where
  "bindE r k = (case r of Inl e \<Rightarrow> Inl e | Inr v \<Rightarrow> k v)"

definition raise :: "exc_class \<Rightarrow> string \<Rightarrow> 'a res" where
  "raise c m = Inl (Raise c m)"

fun is_ok :: "'a res \<Rightarrow> bool" where
  "is_ok (Inl e) = False"
| "is_ok (Inr v) = True"

lemma is_okE: "is_ok r \<Longrightarrow> (\<And>v. r = Inr v \<Longrightarrow> thesis) \<Longrightarrow> thesis"
  by (cases r) auto

lemma bindE_Inl [simp, res_simps]: "bindE (Inl e) k = Inl e"
  by (simp add: bindE_def)

lemma bindE_Inr [simp, res_simps]: "bindE (Inr v) k = k v"
  by (simp add: bindE_def)

lemma bindE_raise [simp, res_simps]: "bindE (raise c m) k = raise c m"
  by (simp add: bindE_def raise_def)

lemma raise_neq_Inr [simp, res_simps]: "raise c m \<noteq> Inr v" "Inr v \<noteq> raise c m"
  by (simp_all add: raise_def)

lemma bindE_eq_Inr [res_simps]: "bindE r k = Inr w \<longleftrightarrow> (\<exists>v. r = Inr v \<and> k v = Inr w)"
  by (cases r) simp_all

lemma if_raise_eq_Inr [simp, res_simps]:
  "(if b then raise c m else r) = Inr v \<longleftrightarrow> \<not> b \<and> r = Inr v"
  "(if b then r else raise c m) = Inr v \<longleftrightarrow> b \<and> r = Inr v"
  by simp_all

lemma bindE_cong [fundef_cong]:
  "r = r' \<Longrightarrow> (\<And>v. r' = Inr v \<Longrightarrow> k v = k' v) \<Longrightarrow> bindE r k = bindE r' k'"
  by (cases r') simp_all

declare bindE_def [code_unfold]

text \<open>Mapping a function that may raise over a list: the first exception ends the loop.\<close>

fun mapE :: "('a \<Rightarrow> 'b res) \<Rightarrow> 'a list \<Rightarrow> 'b list res" where
  "mapE f [] = Inr []"
| "mapE f (x # xs) = bindE (f x) (\<lambda>y. bindE (mapE f xs) (\<lambda>ys. Inr (y # ys)))"

lemma mapE_Inr_length: "mapE f xs = Inr ys \<Longrightarrow> length ys = length xs"
  by (induction xs arbitrary: ys) (auto simp: res_simps)

lemma mapE_Inr_set: "mapE f xs = Inr ys \<Longrightarrow> y \<in> set ys \<Longrightarrow> \<exists>x\<in>set xs. f x = Inr y"
  by (induction xs arbitrary: ys) (auto simp: res_simps)

lemma mapE_cong: "(\<And>x. x \<in> set xs \<Longrightarrow> f x = g x) \<Longrightarrow> mapE f xs = mapE g xs"
  by (induction xs) simp_all

text \<open>A stateful call that may raise: the state it leaves is kept either way.\<close>

type_synonym ('s, 'a) act = "'s \<Rightarrow> 'a res \<times> 's"

definition act_bind :: "('s, 'a) act \<Rightarrow> ('a \<Rightarrow> ('s, 'b) act) \<Rightarrow> ('s, 'b) act" where
  "act_bind m k = (\<lambda>s. case m s of (Inl e, s') \<Rightarrow> (Inl e, s') | (Inr v, s') \<Rightarrow> k v s')"

definition act_return :: "'a \<Rightarrow> ('s, 'a) act" where
  "act_return v = (\<lambda>s. (Inr v, s))"

definition act_raise :: "exc_class \<Rightarrow> string \<Rightarrow> ('s, 'a) act" where
  "act_raise c m = (\<lambda>s. (raise c m, s))"

definition act_upd :: "('s \<Rightarrow> 's) \<Rightarrow> ('s, unit) act" where
  "act_upd f = (\<lambda>s. (Inr (), f s))"

declare act_bind_def [code_unfold]

lemma act_bind_eq_Inr [res_simps]:
  "act_bind m k s = (Inr w, t) \<longleftrightarrow> (\<exists>v u. m s = (Inr v, u) \<and> k v u = (Inr w, t))"
  by (auto simp: act_bind_def split: prod.splits sum.splits)

lemma act_bind_eq_Inl [res_simps]:
  "act_bind m k s = (Inl e, t) \<longleftrightarrow> m s = (Inl e, t) \<or> (\<exists>v u. m s = (Inr v, u) \<and> k v u = (Inl e, t))"
  by (auto simp: act_bind_def split: prod.splits sum.splits)

lemma act_simps [simp, res_simps]:
  "act_return v s = (Inr v, s)" "act_raise c m s = (Inl (Raise c m), s)" "act_upd f s = (Inr (), f s)"
  "act_bind (act_return v) k = k v" "act_bind (act_upd f) k' s = k' () (f s)"
  by (simp_all add: act_return_def act_raise_def act_upd_def act_bind_def raise_def)

section \<open>Strings\<close>

definition lead_bytes :: "string \<Rightarrow> string" where
  \<comment> \<open>one byte for each code point: the bytes that do not continue an earlier one\<close>
  "lead_bytes s = filter (\<lambda>c. \<not> (128 \<le> (of_char c :: nat) \<and> (of_char c :: nat) < 192)) s"

definition py_len :: "string \<Rightarrow> nat" where
  "py_len s = length (lead_bytes s)"

definition starts_with :: "string \<Rightarrow> string \<Rightarrow> bool" where
  "starts_with s p \<longleftrightarrow> take (length p) s = p"

fun str_contains :: "string \<Rightarrow> string \<Rightarrow> bool" where
  "str_contains needle [] \<longleftrightarrow> needle = []"
| "str_contains needle (c # cs) \<longleftrightarrow> starts_with (c # cs) needle \<or> str_contains needle cs"

fun str_replace :: "string \<Rightarrow> string \<Rightarrow> string \<Rightarrow> string" where
  \<comment> \<open>\<open>s.replace(old, new)\<close> for a non-empty \<open>old\<close>\<close>
  "str_replace old new [] = []"
| "str_replace old new (c # cs) =
     (if old \<noteq> [] \<and> starts_with (c # cs) old then new @ str_replace old new (drop (length old - 1) cs)
      else c # str_replace old new cs)"

definition char_upper :: "char \<Rightarrow> char" where
  "char_upper c = (let n = (of_char c :: nat) in if 97 \<le> n \<and> n \<le> 122 then char_of (n - 32) else c)"

definition char_lower :: "char \<Rightarrow> char" where
  "char_lower c = (let n = (of_char c :: nat) in if 65 \<le> n \<and> n \<le> 90 then char_of (n + 32) else c)"

definition str_upper :: "string \<Rightarrow> string" where "str_upper s = map char_upper s"
definition str_lower :: "string \<Rightarrow> string" where "str_lower s = map char_lower s"

definition is_space :: "char \<Rightarrow> bool" where
  "is_space c \<longleftrightarrow> (let n = (of_char c :: nat) in n = 32 \<or> (9 \<le> n \<and> n \<le> 13) \<or> (28 \<le> n \<and> n \<le> 31))"

definition str_strip :: "string \<Rightarrow> string" where
  "str_strip s = rev (dropWhile is_space (rev (dropWhile is_space s)))"

fun str_join :: "string \<Rightarrow> string list \<Rightarrow> string" where
  "str_join sep [] = []"
| "str_join sep [x] = x"
| "str_join sep (x # y # zs) = x @ sep @ str_join sep (y # zs)"

definition is_digit :: "char \<Rightarrow> bool" where
  "is_digit c \<longleftrightarrow> 48 \<le> (of_char c :: nat) \<and> (of_char c :: nat) \<le> 57"

definition digit_value :: "char \<Rightarrow> nat" where
  "digit_value c = (of_char c :: nat) - 48"

definition digit_char :: "nat \<Rightarrow> char" where
  "digit_char n = char_of (48 + n mod 10)"

fun digits_of_nat :: "nat \<Rightarrow> string" where
  "digits_of_nat n = (if n < 10 then [digit_char n] else digits_of_nat (n div 10) @ [digit_char n])"

declare digits_of_nat.simps [simp del]

definition str_of_int :: "int \<Rightarrow> string" where
  "str_of_int i = (if i < 0 then CHR ''-'' # digits_of_nat (nat (- i)) else digits_of_nat (nat i))"

lemma starts_with_self [simp, str_simps]: "starts_with (p @ s) p"
  by (simp add: starts_with_def)

lemma starts_with_Nil [simp, str_simps]: "starts_with s []"
  by (simp add: starts_with_def)

lemma starts_with_prefix: "starts_with s p \<longleftrightarrow> (\<exists>r. s = p @ r)"
  by (auto simp: starts_with_def) (metis append_take_drop_id)

lemma of_char_digit_char [simp, str_simps]: "(of_char (digit_char n) :: nat) = 48 + n mod 10"
proof -
  have "n mod 10 < 10" by simp
  then show ?thesis by (simp add: digit_char_def)
qed

lemma is_digit_digit_char [simp, str_simps]: "is_digit (digit_char n)"
proof -
  have "n mod 10 < 10" by simp
  then show ?thesis by (simp add: is_digit_def)
qed

lemma digit_value_digit_char [simp, str_simps]: "digit_value (digit_char n) = n mod 10"
  by (simp add: digit_value_def)

lemma digit_char_less_iff [str_simps]: "digit_char m < digit_char n \<longleftrightarrow> m mod 10 < n mod 10"
  by (simp add: less_char_def)

lemma digit_char_eq_iff [str_simps]: "digit_char m = digit_char n \<longleftrightarrow> m mod 10 = n mod 10"
proof
  assume "digit_char m = digit_char n"
  then have "(of_char (digit_char m) :: nat) = of_char (digit_char n)" by simp
  then show "m mod 10 = n mod 10" by simp
qed (simp add: digit_char_def)

section \<open>Lists and sorting\<close>

text \<open>
  \<open>sorted(set(xs))\<close> of Python, and the fact that a stable sort by an injective key does not depend on
  the order its input comes in.
\<close>

definition sorted_set :: "'a::linorder list \<Rightarrow> 'a list" where
  "sorted_set xs = sort (remdups xs)"

lemma set_sorted_set [simp]: "set (sorted_set xs) = set xs"
  by (simp add: sorted_set_def)

lemma sorted_sorted_set [simp]: "sorted (sorted_set xs)"
  by (simp add: sorted_set_def)

lemma distinct_sorted_set [simp]: "distinct (sorted_set xs)"
  by (simp add: sorted_set_def)

lemma sorted_set_cong: "set xs = set ys \<Longrightarrow> sorted_set xs = sorted_set ys"
  by (metis distinct_sorted_set set_sorted_set sorted_distinct_set_unique sorted_sorted_set)

lemma sort_key_perm_inj:
  assumes perm: "mset xs = mset ys" and inj: "inj_on k (set xs)"
  shows "sort_key k xs = sort_key k ys"
proof -
  have fil: "filter (\<lambda>x. k a = k x) zs = replicate (count (mset xs) a) a"
    if a: "a \<in> set xs" and zs: "mset zs = mset xs" for a zs
  proof -
    have "set zs = set xs" using zs by (metis set_mset_mset)
    then have "filter (\<lambda>x. k a = k x) zs = filter (\<lambda>x. a = x) zs"
      using a inj by (intro filter_cong) (auto simp: inj_on_def)
    also have "\<dots> = replicate (length (filter (\<lambda>x. a = x) zs)) a"
      by (simp add: replicate_length_filter)
    also have "length (filter (\<lambda>x. a = x) zs) = count (mset zs) a"
      by (simp add: count_mset count_list_eq_length_filter)
    finally show ?thesis using zs by simp
  qed
  show ?thesis
  proof (rule properties_for_sort_key)
    show "mset (sort_key k ys) = mset xs" using perm by simp
    show "filter (\<lambda>x. k a = k x) (sort_key k ys) = filter (\<lambda>x. k a = k x) xs"
      if "a \<in> set (sort_key k ys)" for a
    proof -
      have "a \<in> set xs" using that perm by (metis set_mset_mset set_sort)
      then show ?thesis using perm by (simp add: fil)
    qed
    show "sorted (map k (sort_key k ys))" by simp
  qed
qed

end
