(* ===== verification/PyTime.thy ===== *)
theory PyTime
  imports Prelude
begin

text \<open>
  The part of Python's \<open>datetime\<close> module the temporal components use, for CPython 3.11: calendar
  arithmetic on proleptic ordinals, \<open>date.fromisoformat\<close>, \<open>datetime.fromisoformat\<close>, \<open>isoformat\<close> and
  the conversion of an aware datetime to another zone.  The parsers follow the C implementation
  digit by digit, its quirks included: ISO week dates are accepted, a date is not required to end
  where the string ends, and any character may separate date and time.

  An instant is an integer number of microseconds; a date is a triple year, month, day.  The last
  part shows that the ISO text of a date is ordered as the date, which is what every comparison of
  session strings in the repository relies on.
\<close>

section \<open>Calendar arithmetic\<close>

type_synonym date = "nat \<times> nat \<times> nat"

definition is_leap :: "nat \<Rightarrow> bool" where
  "is_leap y \<longleftrightarrow> y mod 4 = 0 \<and> (y mod 100 \<noteq> 0 \<or> y mod 400 = 0)"

definition days_in_month :: "nat \<Rightarrow> nat \<Rightarrow> nat" where
  "days_in_month y m =
     (if m = 2 then if is_leap y then 29 else 28
      else if m = 4 \<or> m = 6 \<or> m = 9 \<or> m = 11 then 30 else 31)"

definition days_before_year :: "nat \<Rightarrow> nat" where
  "days_before_year y = (let k = y - 1 in k * 365 + k div 4 - k div 100 + k div 400)"

definition days_before_month :: "nat \<Rightarrow> nat \<Rightarrow> nat" where
  "days_before_month y m = sum_list (map (days_in_month y) [1..<m])"

fun ymd_to_ord :: "date \<Rightarrow> nat" where
  "ymd_to_ord (y, m, d) = days_before_year y + days_before_month y m + d"

fun month_of_offset :: "nat \<Rightarrow> nat list \<Rightarrow> nat \<Rightarrow> nat \<times> nat" where
  \<comment> \<open>walk the months from the given one, as long as the offset reaches past the month\<close>
  "month_of_offset y [] n = (12, n)"
| "month_of_offset y (m # ms) n =
     (if ms = [] \<or> n < days_in_month y m then (m, n) else month_of_offset y ms (n - days_in_month y m))"

definition ord_to_ymd :: "nat \<Rightarrow> date" where
  "ord_to_ymd ord =
     (let n = ord - 1;
          n400 = n div 146097; n = n mod 146097;
          n100 = n div 36524; n = n mod 36524;
          n4 = n div 1461; n = n mod 1461;
          n1 = n div 365; n = n mod 365;
          y = n400 * 400 + 1 + n100 * 100 + n4 * 4 + n1
      in if n1 = 4 \<or> n100 = 4 then (y - 1, 12, 31)
         else (let (m, k) = month_of_offset y [1..<13] n in (y, m, k + 1)))"

fun valid_date :: "date \<Rightarrow> bool" where
  "valid_date (y, m, d) \<longleftrightarrow> 1 \<le> y \<and> y \<le> 9999 \<and> 1 \<le> m \<and> m \<le> 12 \<and> 1 \<le> d \<and> d \<le> days_in_month y m"

definition iso_to_ymd :: "nat \<Rightarrow> nat \<Rightarrow> nat \<Rightarrow> date option" where
  "iso_to_ymd y w d =
     (if y < 1 \<or> 9999 < y then None
      else let first = ymd_to_ord (y, 1, 1); weekday = (first + 6) mod 7 in
        if \<not> (1 \<le> w \<and> w \<le> 52 \<or> w = 53 \<and> (weekday = 3 \<or> weekday = 2 \<and> is_leap y)) then None
        else if d < 1 \<or> 7 < d then None
        else Some (ord_to_ymd (first + (if 3 < weekday then 7 else 0) + (w - 1) * 7 + (d - 1) - weekday)))"

section \<open>date.fromisoformat\<close>

fun parse_digits_from :: "nat \<Rightarrow> nat \<Rightarrow> string \<Rightarrow> (nat \<times> string) option" where
  "parse_digits_from acc 0 s = Some (acc, s)"
| "parse_digits_from acc (Suc n) [] = None"
| "parse_digits_from acc (Suc n) (c # cs) =
     (if is_digit c then parse_digits_from (10 * acc + digit_value c) n cs else None)"

lemma parse_digits_from_code [code]:
  "parse_digits_from acc n s =
     (if n = 0 then Some (acc, s)
      else (case s of [] \<Rightarrow> None
        | c # cs \<Rightarrow> if is_digit c then parse_digits_from (10 * acc + digit_value c) (n - 1) cs else None))"
  by (cases n; cases s) simp_all

definition parse_digits :: "nat \<Rightarrow> string \<Rightarrow> (nat \<times> string) option" where
  "parse_digits n s = parse_digits_from 0 n s"

fun skip_char :: "char \<Rightarrow> string \<Rightarrow> string option" where
  "skip_char c [] = None"
| "skip_char c (x # xs) = (if x = c then Some xs else None)"

definition head_is :: "char \<Rightarrow> string \<Rightarrow> bool" where
  "head_is c s \<longleftrightarrow> take 1 s = [c]"

definition parse_isoformat_date :: "string \<Rightarrow> nat \<Rightarrow> date option" where
  \<comment> \<open>the date at the start of the string, which ends at the given position\<close>
  "parse_isoformat_date s len =
     (case parse_digits 4 s of None \<Rightarrow> None
      | Some (y, p) \<Rightarrow>
        let sep = head_is CHR ''-'' p; p = (if sep then tl p else p) in
        if head_is CHR ''W'' p then
          (case parse_digits 2 (tl p) of None \<Rightarrow> None
           | Some (w, q) \<Rightarrow>
             if length s - length q < len then
               (case (if sep then skip_char CHR ''-'' q else Some q) of None \<Rightarrow> None
                | Some q' \<Rightarrow> (case parse_digits 1 q' of None \<Rightarrow> None | Some (d, _) \<Rightarrow> iso_to_ymd y w d))
             else iso_to_ymd y w 1)
        else
          (case parse_digits 2 p of None \<Rightarrow> None
           | Some (m, q) \<Rightarrow>
             (case (if sep then skip_char CHR ''-'' q else Some q) of None \<Rightarrow> None
              | Some q' \<Rightarrow> (case parse_digits 2 q' of None \<Rightarrow> None | Some (d, _) \<Rightarrow> Some (y, m, d)))))"

definition date_fromisoformat :: "string \<Rightarrow> date option" where
  "date_fromisoformat s =
     (if length s = 7 \<or> length s = 8 \<or> length s = 10 then
        (case parse_isoformat_date s (length s) of None \<Rightarrow> None
         | Some d \<Rightarrow> if valid_date d then Some d else None)
      else None)"

definition digits2 :: "nat \<Rightarrow> string" where
  "digits2 n = [digit_char (n div 10), digit_char n]"

definition digits4 :: "nat \<Rightarrow> string" where
  "digits4 n = [digit_char (n div 1000), digit_char (n div 100), digit_char (n div 10), digit_char n]"

fun date_isoformat :: "date \<Rightarrow> string" where
  "date_isoformat (y, m, d) = digits4 y @ CHR ''-'' # digits2 m @ CHR ''-'' # digits2 d"

lemma parse_digits_1 [simp, str_simps]:
  "parse_digits (Suc 0) (a # r) = (if is_digit a then Some (digit_value a, r) else None)"
  by (simp add: parse_digits_def)

lemma parse_digits_2 [simp, str_simps]:
  "parse_digits 2 (a # b # r) =
     (if is_digit a \<and> is_digit b then Some (10 * digit_value a + digit_value b, r) else None)"
proof -
  have two: "parse_digits 2 s = parse_digits_from 0 (Suc (Suc 0)) s" for s
    by (simp add: parse_digits_def numeral_2_eq_2)
  show ?thesis by (simp add: two)
qed

lemma parse_digits_4 [simp, str_simps]:
  "parse_digits 4 (a # b # c # d # r) =
     (if is_digit a \<and> is_digit b \<and> is_digit c \<and> is_digit d
      then Some (1000 * digit_value a + 100 * digit_value b + 10 * digit_value c + digit_value d, r)
      else None)"
proof -
  have four: "parse_digits 4 s = parse_digits_from 0 (Suc (Suc (Suc (Suc 0)))) s" for s
  proof -
    have "(4::nat) = Suc (Suc (Suc (Suc 0)))" by simp
    then show ?thesis by (simp only: parse_digits_def)
  qed
  show ?thesis by (simp add: four)
qed

section \<open>ISO dates read back and ordered\<close>

lemma length_digits [simp]: "length (digits2 n) = 2" "length (digits4 n) = 4"
  by (simp_all add: digits2_def digits4_def)

lemma length_date_isoformat [simp]: "length (date_isoformat d) = 10"
  by (cases d) simp

lemma nat2_digits: "n < 100 \<Longrightarrow> 10 * (n div 10 mod 10) + n mod 10 = (n::nat)"
  by (simp add: less_mult_imp_div_less)

lemma nat4_split:
  "n div 1000 = (n::nat) div 100 div 10" "n mod 100 div 10 mod 10 = n div 10 mod 10" "n mod 100 mod 10 = n mod 10"
proof -
  show "n div 1000 = n div 100 div 10" by (simp flip: div_mult2_eq)
  have "n mod 100 = 10 * (n div 10 mod 10) + n mod 10"
    using mod_mult2_eq [of n 10 10] by simp
  then show "n mod 100 div 10 mod 10 = n div 10 mod 10" "n mod 100 mod 10 = n mod 10" by simp_all
qed

lemma nat4_digits:
  assumes "(n::nat) < 10000"
  shows "1000 * (n div 1000 mod 10) + 100 * (n div 100 mod 10) + 10 * (n div 10 mod 10) + n mod 10 = n"
proof -
  have "n div 100 < 100" using assms by (simp add: less_mult_imp_div_less)
  from nat2_digits [OF this] have "100 * (10 * (n div 1000 mod 10) + n div 100 mod 10) = 100 * (n div 100)"
    by (simp add: nat4_split)
  moreover have "10 * (n div 10 mod 10) + n mod 10 = n mod 100"
    using nat2_digits [of "n mod 100"] by (simp add: nat4_split)
  moreover have "1000 * a + 100 * b + 10 * c + d = n"
    if "100 * (10 * a + b) = 100 * q" "10 * c + d = r" "q * 100 + r = n" for a b c d q r :: nat
    using that by simp
  ultimately show ?thesis using div_mult_mod_eq [of n 100] by blast
qed

lemma lex_base:
  assumes "b < k" "d < k"
  shows "k * a + b < k * c + d \<longleftrightarrow> a < c \<or> a = c \<and> b < (d::nat)"
proof (cases a c rule: linorder_cases)
  case less
  then have "k * a + k \<le> k * c" by (metis Suc_leI mult_Suc_right add.commute mult_le_mono2)
  with less assms show ?thesis by simp
next
  case greater
  then have "k * c + k \<le> k * a" by (metis Suc_leI mult_Suc_right add.commute mult_le_mono2)
  with greater assms show ?thesis by simp
qed simp

lemma digits2_less_append:
  assumes "m < 100" "n < 100"
  shows "digits2 m @ s < digits2 n @ t \<longleftrightarrow> m < n \<or> m = n \<and> s < t"
proof -
  have "m div 10 < 10" "n div 10 < 10" using assms by (simp_all add: less_mult_imp_div_less)
  then have "digits2 m @ s < digits2 n @ t \<longleftrightarrow>
      m div 10 < n div 10 \<or> m div 10 = n div 10 \<and> (m mod 10 < n mod 10 \<or> m mod 10 = n mod 10 \<and> s < t)"
    by (simp add: digits2_def digit_char_less_iff digit_char_eq_iff)
  moreover have "m < n \<longleftrightarrow> m div 10 < n div 10 \<or> m div 10 = n div 10 \<and> m mod 10 < n mod 10"
    using lex_base [of "m mod 10" 10 "n mod 10" "m div 10" "n div 10"] by simp
  moreover have "m = n \<longleftrightarrow> m div 10 = n div 10 \<and> m mod 10 = n mod 10"
    by (metis div_mult_mod_eq)
  ultimately show ?thesis by blast
qed

lemma digits4_split: "digits4 n = digits2 (n div 100) @ digits2 (n mod 100)"
  by (simp add: digits4_def digits2_def digit_char_eq_iff nat4_split)

lemma digits4_less_append:
  assumes "m < 10000" "n < 10000"
  shows "digits4 m @ s < digits4 n @ t \<longleftrightarrow> m < n \<or> m = n \<and> s < t"
proof -
  have "m div 100 < 100" "n div 100 < 100" using assms by (simp_all add: less_mult_imp_div_less)
  then have "digits4 m @ s < digits4 n @ t \<longleftrightarrow>
      m div 100 < n div 100 \<or> m div 100 = n div 100 \<and> (m mod 100 < n mod 100 \<or> m mod 100 = n mod 100 \<and> s < t)"
    by (simp add: digits4_split digits2_less_append)
  moreover have "m < n \<longleftrightarrow> m div 100 < n div 100 \<or> m div 100 = n div 100 \<and> m mod 100 < n mod 100"
    using lex_base [of "m mod 100" 100 "n mod 100" "m div 100" "n div 100"] by simp
  moreover have "m = n \<longleftrightarrow> m div 100 = n div 100 \<and> m mod 100 = n mod 100"
    by (metis div_mult_mod_eq)
  ultimately show ?thesis by blast
qed

lemma days_in_month_le: "days_in_month y m \<le> 31"
  by (simp add: days_in_month_def)

lemma date_isoformat_less_iff:
  assumes "valid_date a" "valid_date b"
  shows "date_isoformat a < date_isoformat b \<longleftrightarrow> a < b"
proof -
  obtain y m d y' m' d' where [simp]: "a = (y, m, d)" "b = (y', m', d')" by (metis prod_cases3)
  have "d < 100" "d' < 100"
    using assms days_in_month_le [of y m] days_in_month_le [of y' m'] by simp_all
  with assms have "digits2 d < digits2 d' \<longleftrightarrow> d < d'"
    using digits2_less_append [of d d' "[]" "[]"] by simp
  with assms show ?thesis
    by (auto simp add: digits4_less_append digits2_less_append less_prod_simp)
qed

lemma date_isoformat_eq_iff:
  assumes "valid_date a" "valid_date b"
  shows "date_isoformat a = date_isoformat b \<longleftrightarrow> a = b"
  by (metis assms date_isoformat_less_iff less_irrefl linorder_neqE)

lemma date_isoformat_le_iff:
  assumes "valid_date a" "valid_date b"
  shows "date_isoformat a \<le> date_isoformat b \<longleftrightarrow> a \<le> b"
  using assms by (simp add: le_less date_isoformat_less_iff date_isoformat_eq_iff)

lemma digit_char_neqI: "\<not> is_digit c \<Longrightarrow> digit_char n \<noteq> c"
  by (metis is_digit_digit_char)

lemma digit_char_neq_letter [simp]:
  "digit_char n \<noteq> CHR ''-''" "digit_char n \<noteq> CHR ''W''" "digit_char n \<noteq> CHR ''Z''"
  "digit_char n \<noteq> CHR ''+''" "digit_char n \<noteq> CHR '':''" "digit_char n \<noteq> CHR ''.''" "digit_char n \<noteq> CHR '',''"
  by (rule digit_char_neqI, simp add: is_digit_def)+

lemma date_fromisoformat_isoformat:
  assumes "valid_date a"
  shows "date_fromisoformat (date_isoformat a) = Some a"
proof -
  obtain y m d where [simp]: "a = (y, m, d)" by (metis prod_cases3)
  have "d < 100" using assms days_in_month_le [of y m] by simp
  then show ?thesis using assms nat4_digits [of y] nat2_digits [of m] nat2_digits [of d]
    by (simp add: date_fromisoformat_def parse_isoformat_date_def digits2_def digits4_def head_is_def Let_def)
qed

lemma date_fromisoformat_valid: "date_fromisoformat s = Some d \<Longrightarrow> valid_date d"
  by (auto simp: date_fromisoformat_def split: if_splits option.splits)

section \<open>datetime.fromisoformat\<close>

text \<open>
  The time part is read the way the C code reads it: up to three two-digit fields, a separator
  after the first field deciding whether all are separated, then an optional fraction of which six
  digits count.  Reading past the end of the string sees the terminating NUL.
\<close>

record datetime =
  dt_date :: date
  dt_hour :: nat
  dt_minute :: nat
  dt_second :: nat
  dt_micro :: nat
  dt_offset :: "int option" \<comment> \<open>\<open>utcoffset()\<close> in microseconds; \<open>None\<close> for a naive datetime\<close>

definition char_at :: "string \<Rightarrow> nat \<Rightarrow> char" where
  "char_at s i = (if i < length s then s ! i else CHR 0x00)"

fun hms_fields :: "nat \<Rightarrow> bool \<Rightarrow> string \<Rightarrow> nat \<Rightarrow> nat \<Rightarrow> (nat list \<times> (bool + nat)) option" where
  "hms_fields 0 sep s p stop = Some ([], Inr p)"
| "hms_fields (Suc i) sep s p stop =
     (case parse_digits 2 (drop p s) of None \<Rightarrow> None
      | Some (v, _) \<Rightarrow>
        let c = char_at s (p + 2); p' = p + 3; sep' = (if i = 2 then c = CHR '':'' else sep) in
        if stop \<le> p' then Some ([v], Inl (c \<noteq> CHR 0x00))
        else if sep' \<and> c = CHR '':'' then map_option (apfst (Cons v)) (hms_fields i sep' s p' stop)
        else if c = CHR ''.'' \<or> c = CHR '','' then Some ([v], Inr p')
        else if \<not> sep' then map_option (apfst (Cons v)) (hms_fields i sep' s (p + 2) stop)
        else None)"

lemma hms_fields_code [code]:
  "hms_fields n sep s p stop =
     (if n = 0 then Some ([], Inr p)
      else (let i = n - 1 in
        case parse_digits 2 (drop p s) of None \<Rightarrow> None
        | Some (v, _) \<Rightarrow>
          let c = char_at s (p + 2); p' = p + 3; sep' = (if i = 2 then c = CHR '':'' else sep) in
          if stop \<le> p' then Some ([v], Inl (c \<noteq> CHR 0x00))
          else if sep' \<and> c = CHR '':'' then map_option (apfst (Cons v)) (hms_fields i sep' s p' stop)
          else if c = CHR ''.'' \<or> c = CHR '','' then Some ([v], Inr p')
          else if \<not> sep' then map_option (apfst (Cons v)) (hms_fields i sep' s (p + 2) stop)
          else None))"
  by (cases n) (simp_all add: Let_def)

definition parse_hms :: "string \<Rightarrow> nat \<Rightarrow> (bool \<times> (nat \<times> nat \<times> nat) \<times> nat) option" where
  \<comment> \<open>whether characters are left over, the three fields, the microseconds\<close>
  "parse_hms s stop =
     (case hms_fields 3 True s 0 stop of None \<Rightarrow> None
      | Some (vs, r) \<Rightarrow>
        let hms = (\<lambda>ws. (ws ! 0, ws ! 1, ws ! 2)) (vs @ [0, 0, 0]) in
        (case r of Inl extra \<Rightarrow> Some (extra, hms, 0)
         | Inr p \<Rightarrow>
           let n = min (stop - p) 6 in
           (case parse_digits n (drop p s) of None \<Rightarrow> None
            | Some (f, rest) \<Rightarrow>
              Some (dropWhile is_digit rest \<noteq> [] \<and> hd (dropWhile is_digit rest) \<noteq> CHR 0x00,
                    hms, f * 10 ^ (6 - n)))))"

definition parse_isoformat_time :: "string \<Rightarrow> ((nat \<times> nat \<times> nat) \<times> nat \<times> (int \<times> int) option) option" where
  \<comment> \<open>fields, microseconds, and the offset in seconds and microseconds\<close>
  "parse_isoformat_time s =
     (let k = length (takeWhile (\<lambda>c. c \<noteq> CHR ''+'' \<and> c \<noteq> CHR ''-'' \<and> c \<noteq> CHR ''Z'') s) in
      case parse_hms s k of None \<Rightarrow> None
      | Some (extra, hms, us) \<Rightarrow>
        if k = length s then (if extra then None else Some (hms, us, None))
        else if s ! k = CHR ''Z'' then
          (if char_at s (k + 1) \<noteq> CHR 0x00 then None else Some (hms, us, Some (0, 0)))
        else let sgn = (if s ! k = CHR ''-'' then -1 else 1 :: int); t = drop (k + 1) s in
          (case parse_hms t (length t) of None \<Rightarrow> None
           | Some (extra', (h, m, sec), tus) \<Rightarrow>
             if extra' then None
             else Some (hms, us, Some (sgn * int (h * 3600 + m * 60 + sec), sgn * int tus))))"

definition find_datetime_separator :: "string \<Rightarrow> nat option" where
  "find_datetime_separator s =
     (let n = length s in
      if n = 7 then Some 7
      else if char_at s 4 = CHR ''-'' then
        (if char_at s 5 = CHR ''W'' then
           (if 8 < n \<and> char_at s 8 = CHR ''-'' then
              (if n = 9 then None else if 10 < n \<and> is_digit (char_at s 10) then Some 8 else Some 10)
            else Some 8)
         else Some 10)
      else if char_at s 4 = CHR ''W'' then
        (let pos = 7 + length (takeWhile is_digit (drop 7 s))
         in if pos < 9 then Some pos else if pos mod 2 = 0 then Some 7 else Some 8)
      else Some 8)"

definition separator_width :: "char \<Rightarrow> nat" where
  "separator_width c =
     (let b = (of_char c :: nat) in if b < 128 then 1 else if b div 16 = 14 then 3 else if b div 16 = 15 then 4 else 2)"

definition day_us :: int where "day_us = 86400 * 10 ^ 6"

definition datetime_fromisoformat :: "string \<Rightarrow> datetime option" where
  "datetime_fromisoformat s =
     (if length s < 7 then None
      else case find_datetime_separator s of None \<Rightarrow> None
      | Some sep \<Rightarrow>
        (case parse_isoformat_date s sep of None \<Rightarrow> None
         | Some d \<Rightarrow>
           (case (if sep < length s then parse_isoformat_time (drop (sep + separator_width (s ! sep)) s)
                  else Some ((0, 0, 0), 0, None)) of None \<Rightarrow> None
            | Some ((h, m, sec), us, tz) \<Rightarrow>
              let off = (case tz of None \<Rightarrow> None
                         | Some (osec, ous) \<Rightarrow> Some (if osec = 0 then 0 else osec * 10 ^ 6 + ous)) in
              if valid_date d \<and> h \<le> 23 \<and> m \<le> 59 \<and> sec \<le> 59 \<and> (case off of None \<Rightarrow> True | Some v \<Rightarrow> \<bar>v\<bar> < day_us)
              then Some \<lparr>dt_date = d, dt_hour = h, dt_minute = m, dt_second = sec, dt_micro = us, dt_offset = off\<rparr>
              else None)))"

section \<open>Instants and conversion between zones\<close>

definition instant :: "datetime \<Rightarrow> int" where
  \<comment> \<open>microseconds on the UTC time line, day 1 being 0001-01-01\<close>
  "instant t = int (ymd_to_ord (dt_date t)) * day_us
     + int ((dt_hour t * 3600 + dt_minute t * 60 + dt_second t) * 10 ^ 6 + dt_micro t)
     - (case dt_offset t of None \<Rightarrow> 0 | Some v \<Rightarrow> v)"

definition in_datetime_range :: "int \<Rightarrow> bool" where
  "in_datetime_range t \<longleftrightarrow> day_us \<le> t \<and> t < 3652060 * day_us"

definition shift_instant :: "(int \<Rightarrow> int) \<Rightarrow> int \<Rightarrow> int res" where
  \<comment> \<open>\<open>astimezone\<close>: the wall-clock microseconds in a zone with the given UTC offset function\<close>
  "shift_instant zone t =
     (if in_datetime_range t \<and> in_datetime_range (t + zone t) then Inr (t + zone t)
      else raise OverflowError ''date value out of range'')"

definition wall_date :: "int \<Rightarrow> date" where
  "wall_date w = ord_to_ymd (nat (w div day_us))"

definition digits6 :: "nat \<Rightarrow> string" where
  "digits6 n = digits2 (n div 10000) @ digits4 n"

definition utc_isoformat :: "int \<Rightarrow> string" where
  \<comment> \<open>\<open>isoformat()\<close> of the UTC datetime, with \<open>+00:00\<close> written \<open>Z\<close>\<close>
  "utc_isoformat t =
     (let us = nat (t mod day_us); sec = us div 10 ^ 6; f = us mod 10 ^ 6 in
      date_isoformat (wall_date t) @ ''T'' @ digits2 (sec div 3600) @ '':'' @ digits2 (sec div 60 mod 60) @ '':''
        @ digits2 (sec mod 60) @ (if f = 0 then [] else ''.'' @ digits6 f) @ ''Z'')"

end
