(* ===== verification/Bitemporal.thy ===== *)
theory Bitemporal
  imports PyTime
begin

text \<open>
  \<open>stocklookup_core/evidence/bitemporal_semantic_contract.py\<close>: the dataclasses of the bitemporal
  contract, the resolution of when a piece of evidence became knowable for end-of-day research, the
  propagation of that bound to derived values, and the guard for historical reconstruction.

  Fields the source types as \<open>str | None\<close> are \<^typ>\<open>string option\<close>.  The zone database is not part of
  the repository: the UTC offset of \<open>OPERATING_TIMEZONE\<close> is the argument \<open>zone\<close>, a function of the
  UTC instant.  A dictionary built by \<open>to_dict\<close> is the record it is built from.
\<close>

section \<open>Enumerations\<close>

datatype temporal_precision = EXACT_DATETIME | DATE_ONLY | PARTIAL_DATE | PRECISION_UNKNOWN

datatype publication_tier =
  OFFICIAL_ISSUER_IR_OR_EXCHANGE | REGULATOR_DISCLOSURE | PROVIDER_REPORTED | UNVERIFIED

datatype knowledge_time_status =
    KNOWLEDGE_RESOLVED_SOURCE_PUBLICATION | KNOWLEDGE_RESOLVED_SOURCE_PUBLICATION_DATE_ONLY
  | KNOWLEDGE_RESOLVED_FIRST_OBSERVED_CONSERVATIVE | KNOWLEDGE_RESOLVED_DERIVED | KNOWLEDGE_UNKNOWN

datatype reconstruction_scope =
    FROM_QUALIFIED_SOURCE_PUBLICATION | FROM_FIRST_OBSERVED_FORWARD_ONLY | FROM_REQUIRED_INPUT_BOUNDS
  | SCOPE_NONE

datatype eod_rule =
    EXACT_TIMESTAMP_CUTOFF | DATE_ONLY_CONSERVATIVE_NEXT_SESSION | FIRST_OBSERVED_CONSERVATIVE
  | DERIVED_REQUIRED_INPUT_MAX | UNRESOLVED

datatype observation_identity_status =
  OBSERVATION_IDENTITY_READY | OBSERVATION_IDENTITY_DERIVED_NORMALIZED | OBSERVATION_IDENTITY_UNKNOWN

datatype revision_status =
  REVISION_IDENTITY_READY | REVISION_IDENTITY_PARTIAL | REVISION_HISTORY_UNKNOWN | REVISION_NOT_APPLICABLE

datatype temporal_fitness = FITNESS_READY | FITNESS_PARTIAL | VALID_TIME_INSUFFICIENT | FITNESS_UNKNOWN

datatype close_price_eligibility = CLOSE_NOT_ESTABLISHED

fun precision_value :: "temporal_precision \<Rightarrow> string" where
  "precision_value EXACT_DATETIME = ''EXACT_DATETIME''"
| "precision_value DATE_ONLY = ''DATE_ONLY''"
| "precision_value PARTIAL_DATE = ''PARTIAL_DATE''"
| "precision_value PRECISION_UNKNOWN = ''UNKNOWN''"

fun tier_value :: "publication_tier \<Rightarrow> string" where
  "tier_value OFFICIAL_ISSUER_IR_OR_EXCHANGE = ''OFFICIAL_ISSUER_IR_OR_EXCHANGE''"
| "tier_value REGULATOR_DISCLOSURE = ''REGULATOR_DISCLOSURE''"
| "tier_value PROVIDER_REPORTED = ''PROVIDER_REPORTED''"
| "tier_value UNVERIFIED = ''UNVERIFIED''"

fun status_value :: "knowledge_time_status \<Rightarrow> string" where
  "status_value KNOWLEDGE_RESOLVED_SOURCE_PUBLICATION = ''KNOWLEDGE_RESOLVED_SOURCE_PUBLICATION''"
| "status_value KNOWLEDGE_RESOLVED_SOURCE_PUBLICATION_DATE_ONLY =
     ''KNOWLEDGE_RESOLVED_SOURCE_PUBLICATION_DATE_ONLY''"
| "status_value KNOWLEDGE_RESOLVED_FIRST_OBSERVED_CONSERVATIVE =
     ''KNOWLEDGE_RESOLVED_FIRST_OBSERVED_CONSERVATIVE''"
| "status_value KNOWLEDGE_RESOLVED_DERIVED = ''KNOWLEDGE_RESOLVED_DERIVED''"
| "status_value KNOWLEDGE_UNKNOWN = ''KNOWLEDGE_UNKNOWN''"

fun scope_value :: "reconstruction_scope \<Rightarrow> string" where
  "scope_value FROM_QUALIFIED_SOURCE_PUBLICATION = ''FROM_QUALIFIED_SOURCE_PUBLICATION''"
| "scope_value FROM_FIRST_OBSERVED_FORWARD_ONLY = ''FROM_FIRST_OBSERVED_FORWARD_ONLY''"
| "scope_value FROM_REQUIRED_INPUT_BOUNDS = ''FROM_REQUIRED_INPUT_BOUNDS''"
| "scope_value SCOPE_NONE = ''NONE''"

fun rule_value :: "eod_rule \<Rightarrow> string" where
  "rule_value EXACT_TIMESTAMP_CUTOFF = ''EXACT_TIMESTAMP_CUTOFF''"
| "rule_value DATE_ONLY_CONSERVATIVE_NEXT_SESSION = ''DATE_ONLY_CONSERVATIVE_NEXT_SESSION''"
| "rule_value FIRST_OBSERVED_CONSERVATIVE = ''FIRST_OBSERVED_CONSERVATIVE''"
| "rule_value DERIVED_REQUIRED_INPUT_MAX = ''DERIVED_REQUIRED_INPUT_MAX''"
| "rule_value UNRESOLVED = ''UNRESOLVED''"

text \<open>Calling an \<open>Enum\<close> class with a value: the member with that value, or \<open>ValueError\<close>.\<close>

definition enum_of :: "('a \<Rightarrow> string) \<Rightarrow> 'a list \<Rightarrow> string option \<Rightarrow> 'a res" where
  "enum_of value members v =
     (case v of None \<Rightarrow> raise ValueError ''None is not a valid member''
      | Some s \<Rightarrow>
        (case find (\<lambda>m. value m = s) members of
           None \<Rightarrow> raise ValueError (s @ '' is not a valid member'')
         | Some m \<Rightarrow> Inr m))"

definition precisions :: "temporal_precision list" where
  "precisions = [EXACT_DATETIME, DATE_ONLY, PARTIAL_DATE, PRECISION_UNKNOWN]"

definition tiers :: "publication_tier list" where
  "tiers = [OFFICIAL_ISSUER_IR_OR_EXCHANGE, REGULATOR_DISCLOSURE, PROVIDER_REPORTED, UNVERIFIED]"

definition statuses :: "knowledge_time_status list" where
  "statuses = [KNOWLEDGE_RESOLVED_SOURCE_PUBLICATION, KNOWLEDGE_RESOLVED_SOURCE_PUBLICATION_DATE_ONLY,
     KNOWLEDGE_RESOLVED_FIRST_OBSERVED_CONSERVATIVE, KNOWLEDGE_RESOLVED_DERIVED, KNOWLEDGE_UNKNOWN]"

definition scopes :: "reconstruction_scope list" where
  "scopes = [FROM_QUALIFIED_SOURCE_PUBLICATION, FROM_FIRST_OBSERVED_FORWARD_ONLY,
     FROM_REQUIRED_INPUT_BOUNDS, SCOPE_NONE]"

definition rules :: "eod_rule list" where
  "rules = [EXACT_TIMESTAMP_CUTOFF, DATE_ONLY_CONSERVATIVE_NEXT_SESSION, FIRST_OBSERVED_CONSERVATIVE,
     DERIVED_REQUIRED_INPUT_MAX, UNRESOLVED]"

definition qualified_publication_tiers :: "publication_tier list" where
  "qualified_publication_tiers = [OFFICIAL_ISSUER_IR_OR_EXCHANGE, REGULATOR_DISCLOSURE]"

section \<open>Dataclasses\<close>

record valid_time =
  vt_domain :: string
  vt_fitness_status :: temporal_fitness
  vt_reference_session :: "string option"
  vt_period_start :: "string option"
  vt_period_end :: "string option"
  vt_effective_from :: "string option"
  vt_effective_to :: "string option"
  vt_statement_scope :: "string option"
  vt_warnings :: "string list"

record publication_time =
  pt_source_published_at :: "string option"
  pt_precision :: temporal_precision
  pt_tier :: publication_tier
  pt_source_identity :: "string option"
  pt_qualification_status :: string
  pt_timezone_status :: string

record provider_temporal_metadata =
  pm_reported_date :: "string option"
  pm_record_update_time :: "string option"
  pm_event_time :: "string option"
  pm_time_precision :: temporal_precision
  pm_timezone_status :: string
  pm_warnings :: "string list"

record observation_time =
  ot_first_observed_at :: "string option"
  ot_first_observed_status :: string
  ot_identity :: "string option"
  ot_identity_status :: observation_identity_status
  ot_identity_method :: "string option"

record pipeline_time =
  pl_processing_at :: "string option"
  pl_parsed_at :: "string option"
  pl_verified_at :: "string option"

record knowledge_resolution =
  kr_status :: knowledge_time_status
  kr_available_at :: "string option"
  kr_session :: "string option"
  kr_scope :: reconstruction_scope
  kr_rule :: eod_rule
  kr_close_price :: close_price_eligibility
  kr_warnings :: "string list"

record revision_metadata =
  rm_status :: revision_status
  rm_identity :: "string option"
  rm_supersedes :: "string option"
  rm_variant_index :: "int option"
  rm_variant_disposition :: "string option"

record temporal_lineage =
  tl_source_identity :: "string option"
  tl_raw_identity :: "string option"
  tl_provider_metadata :: provider_temporal_metadata
  tl_pipeline_time :: pipeline_time

record temporal_envelope =
  te_valid_time :: valid_time
  te_publication_time :: publication_time
  te_observation_time :: observation_time
  te_knowledge :: knowledge_resolution
  te_revision :: revision_metadata
  te_lineage :: temporal_lineage
  te_authority_boundaries :: "(string \<times> string) list"

section \<open>Reading dates and timestamps\<close>

text \<open>\<open>truthy\<close> is Python's truth value of a \<open>str | None\<close>: neither \<open>None\<close> nor empty.\<close>

fun truthy :: "string option \<Rightarrow> bool" where
  "truthy None = False"
| "truthy (Some s) = (s \<noteq> [])"

definition or_str :: "string option \<Rightarrow> string option \<Rightarrow> string option" where
  "or_str a b = (if truthy a then a else b)"

fun parse_date_only :: "string option \<Rightarrow> string option" where
  "parse_date_only None = None"
| "parse_date_only (Some s) =
     (if py_len s \<noteq> 10 then None else map_option date_isoformat (date_fromisoformat s))"

fun parse_aware :: "string option \<Rightarrow> datetime option" where
  "parse_aware None = None"
| "parse_aware (Some s) =
     (if str_strip s = [] then None
      else (case datetime_fromisoformat (str_replace ''Z'' ''+00:00'' s) of
          None \<Rightarrow> None
        | Some t \<Rightarrow> if dt_offset t = None then None else Some t))"

definition infer_precision :: "string option \<Rightarrow> temporal_precision" where
  "infer_precision value =
     (if truthy (parse_date_only value) then DATE_ONLY
      else if parse_aware value \<noteq> None then EXACT_DATETIME
      else (case value of None \<Rightarrow> PRECISION_UNKNOWN
            | Some s \<Rightarrow> if py_len s = 7 \<and> char_at (lead_bytes s) 4 = CHR ''-'' then PARTIAL_DATE else PRECISION_UNKNOWN))"

section \<open>Valid time, identity and revision\<close>

definition base_valid_time :: "string \<Rightarrow> temporal_fitness \<Rightarrow> valid_time" where
  \<comment> \<open>the constructor with its defaults\<close>
  "base_valid_time domain fitness =
     \<lparr>vt_domain = domain, vt_fitness_status = fitness, vt_reference_session = None, vt_period_start = None,
      vt_period_end = None, vt_effective_from = None, vt_effective_to = None, vt_statement_scope = None,
      vt_warnings = []\<rparr>"

definition ok_date :: "string option \<Rightarrow> bool" where
  "ok_date v \<longleftrightarrow> truthy (parse_date_only v)"

definition validate_valid_time ::
  "string \<Rightarrow> string option \<Rightarrow> string option \<Rightarrow> string option \<Rightarrow> string option
     \<Rightarrow> (string \<times> string option) list \<Rightarrow> string option \<Rightarrow> string option \<Rightarrow> string option \<Rightarrow> valid_time" where
  "validate_valid_time domain reference_session period_start period_end event_type event_dates
       effective_from effective_to statement_scope =
     (if domain = ''MARKET_OBSERVATION'' then
        (base_valid_time domain (if ok_date reference_session then FITNESS_READY else VALID_TIME_INSUFFICIENT))
          \<lparr>vt_reference_session := reference_session\<rparr>
      else if domain = ''FINANCIAL_STOCK_FACT'' then
        (base_valid_time domain (if ok_date period_end then FITNESS_READY else VALID_TIME_INSUFFICIENT))
          \<lparr>vt_period_end := period_end, vt_effective_from := effective_from, vt_effective_to := effective_to,
           vt_statement_scope := statement_scope\<rparr>
      else if domain = ''FINANCIAL_FLOW_FACT'' then
        (base_valid_time domain
           (if ok_date period_start \<and> ok_date period_end then FITNESS_READY
            else if ok_date period_end then FITNESS_PARTIAL else VALID_TIME_INSUFFICIENT))
          \<lparr>vt_period_start := (if ok_date period_start then period_start else None),
           vt_period_end := (if ok_date period_end then period_end else None),
           vt_statement_scope := statement_scope\<rparr>
      else if domain = ''CORPORATE_EVENT'' then
        (let qualified_dates = filter (\<lambda>(k, v). ok_date v) event_dates;
             get = (\<lambda>k. case map_of qualified_dates k of None \<Rightarrow> None | Some v \<Rightarrow> v);
             fit = truthy event_type \<and> qualified_dates \<noteq> []
         in (base_valid_time domain (if fit then FITNESS_READY else VALID_TIME_INSUFFICIENT))
          \<lparr>vt_effective_from := or_str (get ''effective_date'') (get ''listing_effective_date''),
           vt_warnings := (if fit then [] else [''EVENT_TYPE_AND_QUALIFIED_EVENT_DATE_REQUIRED''])\<rparr>)
      else if domain = ''STATIC_PROFILE_FACT'' then
        (base_valid_time domain FITNESS_READY)
          \<lparr>vt_effective_from := effective_from, vt_effective_to := effective_to\<rparr>
      else (base_valid_time domain FITNESS_UNKNOWN)\<lparr>vt_warnings := [''UNKNOWN_VALID_TIME_DOMAIN'']\<rparr>)"

definition classify_observation_identity :: "string option \<Rightarrow> string option \<Rightarrow> observation_time" where
  "classify_observation_identity raw_identity normalized_identity =
     (let obs = (\<lambda>i st meth. \<lparr>ot_first_observed_at = None, ot_first_observed_status = ''LEGACY_UNKNOWN'',
                   ot_identity = i, ot_identity_status = st, ot_identity_method = meth\<rparr>)
      in if truthy raw_identity then
           obs raw_identity OBSERVATION_IDENTITY_READY (Some ''IMMUTABLE_RETAINED_RAW_IDENTITY'')
         else if truthy normalized_identity then
           obs normalized_identity OBSERVATION_IDENTITY_DERIVED_NORMALIZED (Some ''NORMALIZED_RECORD_IDENTITY'')
         else obs None OBSERVATION_IDENTITY_UNKNOWN None)"

definition build_revision_metadata ::
  "string option \<Rightarrow> string option \<Rightarrow> int option \<Rightarrow> string option \<Rightarrow> revision_metadata" where
  "build_revision_metadata revision_identity supersedes variant_index variant_disposition =
     \<lparr>rm_status = (if truthy revision_identity then REVISION_IDENTITY_READY
                  else if truthy variant_disposition then REVISION_IDENTITY_PARTIAL
                  else REVISION_HISTORY_UNKNOWN),
      rm_identity = revision_identity, rm_supersedes = supersedes, rm_variant_index = variant_index,
      rm_variant_disposition = variant_disposition\<rparr>"

section \<open>Resolving the first research session\<close>

definition sessions_of :: "string option list option \<Rightarrow> string list" where
  "sessions_of values =
     sorted_set (concat (map (\<lambda>v. case parse_date_only v of None \<Rightarrow> [] | Some d \<Rightarrow> [d])
       (case values of None \<Rightarrow> [] | Some vs \<Rightarrow> vs)))"

definition next_session_strictly_after :: "string \<Rightarrow> string list \<Rightarrow> string option" where
  "next_session_strictly_after day sessions =
     find (\<lambda>session. day < session) (sessions_of (Some (map Some sessions)))"

definition eod_research_cutoff :: int where
  "eod_research_cutoff = 18 * 3600 * 10 ^ 6"

definition unavailable_if_none :: "string option \<Rightarrow> string list" where
  "unavailable_if_none result = (if truthy result then [] else [''SESSION_RESOLUTION_UNAVAILABLE''])"

definition resolve_eod_research_session ::
  "(int \<Rightarrow> int) \<Rightarrow> string option \<Rightarrow> string option \<Rightarrow> string option list option
     \<Rightarrow> (string option \<times> eod_rule \<times> string list) res" where
  "resolve_eod_research_session zone timestamp publication_date governed_sessions =
     (let sessions = sessions_of governed_sessions in
      if publication_date \<noteq> None then
        (case parse_date_only publication_date of
           None \<Rightarrow> Inr (None, UNRESOLVED, [''PUBLICATION_DATE_INVALID''])
         | Some day \<Rightarrow>
           let result = next_session_strictly_after day sessions in
           Inr (result, DATE_ONLY_CONSERVATIVE_NEXT_SESSION, unavailable_if_none result))
      else
        (case parse_aware timestamp of
           None \<Rightarrow> Inr (None, UNRESOLVED, [''EXACT_TIMESTAMP_TIMEZONE_UNKNOWN_OR_MISSING''])
         | Some t \<Rightarrow>
           bindE (shift_instant zone (instant t)) (\<lambda>local.
             let day = date_isoformat (wall_date local) in
             if day \<in> set sessions \<and> local mod day_us < eod_research_cutoff
             then Inr (Some day, EXACT_TIMESTAMP_CUTOFF, [])
             else let result = next_session_strictly_after day sessions in
               Inr (result, EXACT_TIMESTAMP_CUTOFF, unavailable_if_none result))))"

definition knowledge_unresolved :: "string \<Rightarrow> knowledge_resolution" where
  "knowledge_unresolved warning =
     \<lparr>kr_status = KNOWLEDGE_UNKNOWN, kr_available_at = None, kr_session = None, kr_scope = SCOPE_NONE,
      kr_rule = UNRESOLVED, kr_close_price = CLOSE_NOT_ESTABLISHED, kr_warnings = [warning]\<rparr>"

definition resolve_knowledge_availability ::
  "(int \<Rightarrow> int) \<Rightarrow> publication_time \<Rightarrow> string option \<Rightarrow> string option list option \<Rightarrow> knowledge_resolution res" where
  "resolve_knowledge_availability zone publication first_observed_at governed_sessions =
     (let kr = (\<lambda>st at sess scope rule warns.
          \<lparr>kr_status = st, kr_available_at = at, kr_session = sess, kr_scope = scope, kr_rule = rule,
           kr_close_price = CLOSE_NOT_ESTABLISHED, kr_warnings = warns\<rparr>);
        published = pt_source_published_at publication;
        qualified = pt_tier publication \<in> set qualified_publication_tiers in
      if qualified \<and> pt_precision publication = EXACT_DATETIME \<and> parse_aware published \<noteq> None then
        bindE (resolve_eod_research_session zone published None governed_sessions) (\<lambda>(session, rule, warnings).
          Inr (kr KNOWLEDGE_RESOLVED_SOURCE_PUBLICATION published session FROM_QUALIFIED_SOURCE_PUBLICATION
                 rule warnings))
      else if qualified \<and> pt_precision publication = DATE_ONLY \<and> ok_date published then
        bindE (resolve_eod_research_session zone None published governed_sessions) (\<lambda>(session, rule, warnings).
          Inr (kr KNOWLEDGE_RESOLVED_SOURCE_PUBLICATION_DATE_ONLY None session FROM_QUALIFIED_SOURCE_PUBLICATION
                 rule warnings))
      else if parse_aware first_observed_at \<noteq> None then
        bindE (resolve_eod_research_session zone first_observed_at None governed_sessions) (\<lambda>(session, rule, warnings).
          Inr (kr KNOWLEDGE_RESOLVED_FIRST_OBSERVED_CONSERVATIVE first_observed_at session
                 FROM_FIRST_OBSERVED_FORWARD_ONLY FIRST_OBSERVED_CONSERVATIVE warnings))
      else Inr (knowledge_unresolved ''QUALIFIED_PUBLICATION_AND_TRUSTWORTHY_FIRST_OBSERVED_UNAVAILABLE''))"

section \<open>Propagation to derived values and the reconstruction guard\<close>

text \<open>
  An input of \<open>propagate_derived_knowledge\<close> is a \<open>KnowledgeResolution\<close> or a mapping with its fields;
  \<open>sget\<close> is \<open>m.get(k)\<close> on a dictionary whose values are \<open>str | None\<close>.
\<close>

type_synonym str_dict = "(string \<times> string option) list"

definition sget :: "str_dict \<Rightarrow> string \<Rightarrow> string option" where
  "sget m k = (case map_of m k of None \<Rightarrow> None | Some v \<Rightarrow> v)"

definition sget_default :: "str_dict \<Rightarrow> string \<Rightarrow> string option \<Rightarrow> string option" where
  "sget_default m k dflt = (case map_of m k of None \<Rightarrow> dflt | Some v \<Rightarrow> v)"

datatype knowledge_input = Resolution knowledge_resolution | Mapping_input str_dict

fun coerce_knowledge :: "knowledge_input \<Rightarrow> knowledge_resolution res" where
  "coerce_knowledge (Resolution k) = Inr k"
| "coerce_knowledge (Mapping_input m) =
     bindE (enum_of status_value statuses
              (sget_default m ''knowledge_time_status'' (Some ''KNOWLEDGE_UNKNOWN''))) (\<lambda>st.
     bindE (enum_of scope_value scopes
              (sget_default m ''historical_reconstruction_scope'' (Some ''NONE''))) (\<lambda>sc.
     bindE (enum_of rule_value rules (sget_default m ''eod_resolution_rule'' (Some ''UNRESOLVED''))) (\<lambda>ru.
       Inr \<lparr>kr_status = st, kr_available_at = sget m ''knowledge_available_at'',
            kr_session = sget m ''knowledge_available_research_session'', kr_scope = sc, kr_rule = ru,
            kr_close_price = CLOSE_NOT_ESTABLISHED, kr_warnings = []\<rparr>)))"

definition input_unresolved :: "knowledge_resolution \<Rightarrow> bool" where
  "input_unresolved k \<longleftrightarrow> kr_status k = KNOWLEDGE_UNKNOWN \<or> \<not> truthy (kr_session k)"

text \<open>\<open>any(...)\<close> over the optional inputs stops at the first unresolved one, before coercing the rest.\<close>

fun any_optional_unknown :: "knowledge_input list \<Rightarrow> bool res" where
  "any_optional_unknown [] = Inr False"
| "any_optional_unknown (x # xs) =
     bindE (coerce_knowledge x) (\<lambda>k.
       if kr_status k = KNOWLEDGE_UNKNOWN then Inr True else any_optional_unknown xs)"

definition max_str :: "string list \<Rightarrow> string" where
  "max_str xs = foldl max (hd xs) (tl xs)"

definition propagate_derived_knowledge ::
  "knowledge_input list \<Rightarrow> knowledge_input list \<Rightarrow> knowledge_resolution res" where
  "propagate_derived_knowledge required_inputs optional_inputs =
     bindE (mapE coerce_knowledge required_inputs) (\<lambda>required.
       if required = [] \<or> list_ex input_unresolved required then
         Inr (knowledge_unresolved ''REQUIRED_INPUT_KNOWLEDGE_UNRESOLVED'')
       else
         (let session = max_str (map (\<lambda>k. the (kr_session k)) required);
              instants = map kr_available_at required;
              exact = (if list_all (\<lambda>i. parse_aware i \<noteq> None) instants
                       then Some (max_str (map the instants)) else None)
          in bindE (any_optional_unknown optional_inputs) (\<lambda>unknown.
               Inr \<lparr>kr_status = KNOWLEDGE_RESOLVED_DERIVED, kr_available_at = exact, kr_session = Some session,
                    kr_scope = FROM_REQUIRED_INPUT_BOUNDS, kr_rule = DERIVED_REQUIRED_INPUT_MAX,
                    kr_close_price = CLOSE_NOT_ESTABLISHED,
                    kr_warnings = (if unknown then [''OPTIONAL_INPUT_KNOWLEDGE_UNRESOLVED_IGNORED''] else [])\<rparr>)))"

definition historical_reconstruction_eligible :: "knowledge_resolution \<Rightarrow> string option \<Rightarrow> bool" where
  "historical_reconstruction_eligible knowledge requested =
     (kr_scope knowledge \<noteq> SCOPE_NONE \<and> truthy (kr_session knowledge) \<and> truthy (parse_date_only requested)
      \<and> the (kr_session knowledge) \<le> the requested)"

section \<open>Projections of records\<close>

definition timezone_status :: "temporal_precision \<Rightarrow> string" where
  "timezone_status p = (if p = EXACT_DATETIME then ''AWARE'' else if p = DATE_ONLY then ''DATE_ONLY'' else ''UNKNOWN'')"

definition with_first_observed :: "string option \<Rightarrow> observation_time \<Rightarrow> observation_time" where
  "with_first_observed first identity =
     identity\<lparr>ot_first_observed_at := (if parse_aware first \<noteq> None then first else None),
              ot_first_observed_status := (if parse_aware first \<noteq> None then ''RETAINED'' else ''LEGACY_UNKNOWN'')\<rparr>"

definition project_official_evidence_temporal_metadata ::
  "(int \<Rightarrow> int) \<Rightarrow> str_dict \<Rightarrow> string option list option
     \<Rightarrow> (publication_time \<times> observation_time \<times> knowledge_resolution) res" where
  "project_official_evidence_temporal_metadata zone r governed_sessions =
     (let published = or_str (sget r ''published_at'') (sget r ''publication_date'');
          precision = infer_precision published;
          authority = str_lower (the (or_str (sget r ''source_authority'')
                                       (or_str (sget r ''source_id'') (Some []))));
          publication =
            \<lparr>pt_source_published_at = published, pt_precision = precision,
             pt_tier = (if authority \<notin> {[], ''provider''} then OFFICIAL_ISSUER_IR_OR_EXCHANGE else UNVERIFIED),
             pt_source_identity = or_str (sget r ''document_id'') (sget r ''sha256''),
             pt_qualification_status = the (or_str (sget r ''qualification_state'') (Some ''UNKNOWN'')),
             pt_timezone_status = timezone_status precision\<rparr>;
          first = or_str (sget r ''observed_at'') (sget r ''retrieved_at'')
      in bindE (resolve_knowledge_availability zone publication first governed_sessions) (\<lambda>knowledge.
           let identity = classify_observation_identity
                            (or_str (sget r ''sha256'') (sget r ''document_sha256'')) None
           in Inr (publication, with_first_observed first identity, knowledge)))"

datatype meta_value = MetaStr string | MetaBool bool

definition get_or_other :: "str_dict \<Rightarrow> string \<Rightarrow> string \<Rightarrow> string option" where
  \<comment> \<open>\<open>m.get(k) if k in m else m.get(k2)\<close>\<close>
  "get_or_other m k k2 = (if map_of m k \<noteq> None then sget m k else sget m k2)"

definition default_provider_metadata :: provider_temporal_metadata where
  "default_provider_metadata =
     \<lparr>pm_reported_date = None, pm_record_update_time = None, pm_event_time = None,
      pm_time_precision = PRECISION_UNKNOWN, pm_timezone_status = ''UNKNOWN'', pm_warnings = []\<rparr>"

definition aware_status :: "string option \<Rightarrow> string" where
  "aware_status v = (if parse_aware v \<noteq> None then ''AWARE'' else ''UNKNOWN'')"

definition later_instant :: "string option \<Rightarrow> string option \<Rightarrow> bool" where
  "later_instant a b =
     (case (parse_aware a, parse_aware b) of (Some t, Some u) \<Rightarrow> instant u < instant t | _ \<Rightarrow> False)"

definition project_provider_temporal_metadata ::
  "(int \<Rightarrow> int) \<Rightarrow> string \<Rightarrow> str_dict \<Rightarrow> string option
     \<Rightarrow> (provider_temporal_metadata \<times> knowledge_resolution \<times> (string \<times> meta_value) list) res" where
  "project_provider_temporal_metadata zone provider metadata first_observed_at =
     (let name = str_upper provider;
          (provider_meta, mapping) =
            (if name = ''KBS'' then
               (let update = get_or_other metadata ''LastUpdate'' ''provider_update_date'';
                    reported = get_or_other metadata ''ReportDate'' ''report_date'';
                    warnings = (if truthy update \<and> parse_aware update = None
                                then [''KBS_LASTUPDATE_TIMEZONE_NAIVE_OR_UNKNOWN''] else [])
                in (\<lparr>pm_reported_date = reported, pm_record_update_time = update, pm_event_time = None,
                     pm_time_precision = infer_precision update, pm_timezone_status = aware_status update,
                     pm_warnings = warnings\<rparr>,
                    [(''report_date_semantics'', MetaStr ''PROVIDER_REPORTED_REPORT_DATE''),
                     (''last_update_semantics'', MetaStr ''PROVIDER_RECORD_UPDATE_TIME_EXACT''),
                     (''publication_resolution_prohibited'', MetaBool True)]))
             else if name \<in> {''DNSE'', ''DNSE/LIVESPEED''} then
               (let event = get_or_other metadata ''lastUpdated'' ''source_event_time'';
                    warnings = (if later_instant event first_observed_at
                                then [''PROVIDER_CLIENT_CLOCK_CONFLICT''] else [])
                in (\<lparr>pm_reported_date = None, pm_record_update_time = None, pm_event_time = event,
                     pm_time_precision = infer_precision event, pm_timezone_status = aware_status event,
                     pm_warnings = warnings\<rparr>,
                    [(''last_updated_semantics'', MetaStr ''PROVIDER_EVENT_TIME_EXACT''),
                     (''publication_resolution_prohibited'', MetaBool True),
                     (''first_observed_required_for_knowledge'', MetaBool True)]))
             else
               (default_provider_metadata\<lparr>pm_warnings := [''PROVIDER_TEMPORAL_MAPPING_UNAVAILABLE'']\<rparr>,
                [(''publication_resolution_prohibited'', MetaBool True)]));
          publication =
            \<lparr>pt_source_published_at = None, pt_precision = PRECISION_UNKNOWN, pt_tier = PROVIDER_REPORTED,
             pt_source_identity = Some provider, pt_qualification_status = ''PROVIDER_METADATA_ONLY'',
             pt_timezone_status = ''UNKNOWN''\<rparr>
      in bindE (resolve_knowledge_availability zone publication first_observed_at None) (\<lambda>knowledge.
           Inr (provider_meta, knowledge, mapping)))"

definition authority_boundaries :: "(string \<times> string) list" where
  "authority_boundaries =
     [(''raw_as_traded'', ''NOT_PROMOTED''), (''historical_price_pit'', ''BLOCKED''),
      (''historical_full_system_backtest'', ''BLOCKED''), (''same_session_close_execution'', ''NOT_ESTABLISHED''),
      (''invariant'', ''BITEMPORAL_RESEARCH_SESSION_DOES_NOT_GRANT_SAME_SESSION_CLOSE_EXECUTION'')]"

definition build_temporal_envelope ::
  "(int \<Rightarrow> int) \<Rightarrow> valid_time \<Rightarrow> publication_time \<Rightarrow> string option \<Rightarrow> string option \<Rightarrow> string option
     \<Rightarrow> provider_temporal_metadata option \<Rightarrow> pipeline_time option \<Rightarrow> revision_metadata option
     \<Rightarrow> string option list option \<Rightarrow> temporal_envelope res" where
  "build_temporal_envelope zone valid publication first_observed_at raw_identity normalized_identity
       provider_metadata pipeline revision governed_sessions =
     bindE (resolve_knowledge_availability zone publication first_observed_at governed_sessions) (\<lambda>knowledge.
       Inr \<lparr>te_valid_time = valid, te_publication_time = publication,
            te_observation_time = with_first_observed first_observed_at
                                    (classify_observation_identity raw_identity normalized_identity),
            te_knowledge = knowledge,
            te_revision = (case revision of Some r \<Rightarrow> r | None \<Rightarrow> build_revision_metadata None None None None),
            te_lineage = \<lparr>tl_source_identity = pt_source_identity publication, tl_raw_identity = raw_identity,
              tl_provider_metadata = (case provider_metadata of Some m \<Rightarrow> m | None \<Rightarrow> default_provider_metadata),
              tl_pipeline_time = (case pipeline of Some p \<Rightarrow> p
                | None \<Rightarrow> \<lparr>pl_processing_at = None, pl_parsed_at = None, pl_verified_at = None\<rparr>)\<rparr>,
            te_authority_boundaries = authority_boundaries\<rparr>)"

section \<open>Facts about dates and sessions\<close>

definition canonical_day :: "string \<Rightarrow> bool" where
  \<comment> \<open>a day written the way \<open>date.isoformat\<close> writes it\<close>
  "canonical_day s \<longleftrightarrow> parse_date_only (Some s) = Some s"

declare parse_date_only.simps(2) [simp del] parse_aware.simps(2) [simp del]

lemma digit_char_ascii: "(of_char (digit_char n) :: nat) < 128"
proof -
  have "n mod 10 < 10" by simp
  then show ?thesis unfolding of_char_digit_char by linarith
qed

lemma lead_bytes_isoformat [simp]: "lead_bytes (date_isoformat d) = date_isoformat d"
proof -
  have "\<forall>c\<in>set (date_isoformat d). (of_char c :: nat) < 128"
    by (cases d) (simp add: digits2_def digits4_def digit_char_ascii del: of_char_digit_char)
  then show ?thesis unfolding lead_bytes_def filter_id_conv by (meson not_less)
qed

lemma parse_date_only_isoformat [simp]:
  "valid_date d \<Longrightarrow> parse_date_only (Some (date_isoformat d)) = Some (date_isoformat d)"
  by (simp add: parse_date_only.simps py_len_def date_fromisoformat_isoformat)

lemma parse_date_only_SomeE:
  assumes "parse_date_only v = Some s"
  obtains d where "valid_date d" "s = date_isoformat d" "v \<noteq> None"
  using assms by (cases v) (auto simp: parse_date_only.simps split: if_splits dest: date_fromisoformat_valid)

lemma canonical_day_iff: "canonical_day s \<longleftrightarrow> (\<exists>d. valid_date d \<and> s = date_isoformat d)"
  unfolding canonical_day_def by (metis parse_date_only_SomeE parse_date_only_isoformat)

lemma parse_date_only_canonical: "parse_date_only v = Some s \<Longrightarrow> canonical_day s"
  by (metis canonical_day_iff parse_date_only_SomeE)

lemma parse_date_only_nonempty: "parse_date_only v = Some s \<Longrightarrow> s \<noteq> []"
  by (erule parse_date_only_SomeE) (metis length_date_isoformat list.size(3) zero_neq_numeral)

lemma truthy_parse_date_only [simp]: "truthy (parse_date_only v) \<longleftrightarrow> parse_date_only v \<noteq> None"
  using parse_date_only_nonempty[of v] by (cases "parse_date_only v") auto

lemma ok_date_iff: "ok_date v \<longleftrightarrow> parse_date_only v \<noteq> None"
  by (simp add: ok_date_def)

lemma canonical_day_nonempty: "canonical_day s \<Longrightarrow> s \<noteq> []"
  by (auto simp: canonical_day_def dest: parse_date_only_nonempty)

lemma truthyE:
  assumes "truthy v"
  obtains s where "v = Some s" "s \<noteq> []"
  using assms by (cases v) auto

lemma set_sessions_of:
  "set (sessions_of values) = {d. \<exists>v\<in>set (case values of None \<Rightarrow> [] | Some vs \<Rightarrow> vs). parse_date_only v = Some d}"
  by (force simp: sessions_of_def split: option.splits)

lemma sorted_sessions_of [simp]: "sorted (sessions_of values)"
  by (simp add: sessions_of_def)

lemma distinct_sessions_of [simp]: "distinct (sessions_of values)"
  by (simp add: sessions_of_def)

lemma sessions_of_canonical: "s \<in> set (sessions_of values) \<Longrightarrow> canonical_day s"
  by (auto simp: set_sessions_of dest: parse_date_only_canonical)

lemma sessions_of_idem: "sessions_of (Some (map Some (sessions_of values))) = sessions_of values"
proof (rule sorted_distinct_set_unique)
  show "set (sessions_of (Some (map Some (sessions_of values)))) = set (sessions_of values)"
    using sessions_of_canonical[of _ "values"]
    by (auto simp: set_sessions_of[of "Some _"] canonical_day_def)
qed simp_all

lemma next_session_Some_iff:
  "next_session_strictly_after day (sessions_of g) = Some s
     \<longleftrightarrow> s \<in> set (sessions_of g) \<and> day < s \<and> (\<forall>x\<in>set (sessions_of g). day < x \<longrightarrow> s \<le> x)"
proof -
  have first: "find (\<lambda>x. day < x) xs = Some s
     \<longleftrightarrow> s \<in> set xs \<and> day < s \<and> (\<forall>x\<in>set xs. day < x \<longrightarrow> s \<le> x)" if "sorted xs" for xs
    using that by (induction xs) (auto intro: antisym)
  show ?thesis unfolding next_session_strictly_after_def sessions_of_idem by (rule first) simp
qed

lemma truthy_next_session [simp]:
  "truthy (next_session_strictly_after day (sessions_of g))
     \<longleftrightarrow> next_session_strictly_after day (sessions_of g) \<noteq> None"
proof (cases "next_session_strictly_after day (sessions_of g)")
  case (Some s)
  then have "canonical_day s" using next_session_Some_iff sessions_of_canonical by blast
  then show ?thesis using Some canonical_day_nonempty by simp
qed simp

lemma next_session_None_iff:
  "next_session_strictly_after day (sessions_of g) = None \<longleftrightarrow> (\<forall>x\<in>set (sessions_of g). x \<le> day)"
  by (auto simp: next_session_strictly_after_def sessions_of_idem find_None_iff not_less)

text \<open>
  The interface the resolution of knowledge times relies on: a governed calendar, given as the ascending
  list of its sessions, and the earliest session after a day.  A client needs no more than these laws.
\<close>

locale governed_calendar =
  fixes calendar :: "'v \<Rightarrow> string list"
    and session_after :: "string \<Rightarrow> string list \<Rightarrow> string option"
  assumes after_Some: "session_after day (calendar g) = Some s \<Longrightarrow>
      s \<in> set (calendar g) \<and> day < s \<and> (\<forall>x\<in>set (calendar g). day < x \<longrightarrow> s \<le> x)"
    and after_None: "session_after day (calendar g) = None \<Longrightarrow> \<forall>x\<in>set (calendar g). x \<le> day"
begin

lemma after_mono:
  assumes "d1 \<le> d2" "session_after d1 (calendar g) = Some s1" "session_after d2 (calendar g) = Some s2"
  shows "s1 \<le> s2"
  using after_Some[OF assms(2)] after_Some[OF assms(3)] assms(1) by (meson le_less_trans)

lemma after_available:
  assumes "s \<in> set (calendar g)" "day < s"
  obtains s' where "session_after day (calendar g) = Some s'" "s' \<le> s"
  using assms after_None[of day g] after_Some[of day g]
  by (cases "session_after day (calendar g)") (auto simp: not_less[symmetric])

lemma same_day_or_after:
  \<comment> \<open>choosing the day itself when it is a session and \<open>early\<close>, and the next session otherwise\<close>
  assumes "(if day \<in> set (calendar g) \<and> early then Some day else session_after day (calendar g)) = Some s"
  shows "s \<in> set (calendar g) \<and> day \<le> s \<and> (s = day \<longrightarrow> early)
    \<and> (\<forall>x\<in>set (calendar g). (if early then day \<le> x else day < x) \<longrightarrow> s \<le> x)"
  using assms after_Some[of day g s] by (auto split: if_splits simp: le_less)

end

interpretation gov: governed_calendar sessions_of next_session_strictly_after
  by unfold_locales (simp_all add: next_session_Some_iff next_session_None_iff)

lemma eod_timestamp_cases:
  assumes "resolve_eod_research_session zone ts None g = Inr (Some s, rule, w)"
  obtains t local where "parse_aware ts = Some t" "shift_instant zone (instant t) = Inr local"
    "rule = EXACT_TIMESTAMP_CUTOFF" "w = []"
    "(if date_isoformat (wall_date local) \<in> set (sessions_of g) \<and> local mod day_us < eod_research_cutoff
      then Some (date_isoformat (wall_date local))
      else next_session_strictly_after (date_isoformat (wall_date local)) (sessions_of g)) = Some s"
  using assms
  by (auto simp: resolve_eod_research_session_def Let_def bindE_eq_Inr unavailable_if_none_def
      split: option.splits if_splits)

section \<open>Properties\<close>

definition sample_zone :: "int \<Rightarrow> int" where
  \<comment> \<open>the offset of \<open>Asia/Ho_Chi_Minh\<close> since 1975, the zone function of the witnesses\<close>
  "sample_zone t = 7 * 3600 * 10 ^ 6"

definition evidence_within :: "(int \<Rightarrow> int) \<Rightarrow> string option \<Rightarrow> string \<Rightarrow> bool" where
  \<comment> \<open>a timestamp lies on or before a research day, and before the close of research if on that day\<close>
  "evidence_within zone ts session =
     (case parse_aware ts of None \<Rightarrow> False
      | Some t \<Rightarrow>
        (case shift_instant zone (instant t) of Inl _ \<Rightarrow> False
         | Inr local \<Rightarrow>
           let day = date_isoformat (wall_date local) in
           day < session \<or> day = session \<and> local mod day_us < eod_research_cutoff))"

lemma eod_timestamp_within:
  assumes "resolve_eod_research_session zone ts None g = Inr (Some s, rule, w)"
  shows "evidence_within zone ts s \<and> s \<in> set (sessions_of g)
    \<and> (\<forall>x\<in>set (sessions_of g). evidence_within zone ts x \<longrightarrow> s \<le> x)"
  using assms
proof (rule eod_timestamp_cases)
  fix t local
  let ?day = "date_isoformat (wall_date local)"
  assume ts: "parse_aware ts = Some t" "shift_instant zone (instant t) = Inr local"
    and "(if ?day \<in> set (sessions_of g) \<and> local mod day_us < eod_research_cutoff
      then Some ?day else next_session_strictly_after ?day (sessions_of g)) = Some s"
  from gov.same_day_or_after[OF this(3)] show ?thesis
    by (auto simp: evidence_within_def ts Let_def le_less split: if_splits)
qed

lemma eod_date_within:
  assumes "resolve_eod_research_session zone ts (Some d) g = Inr (Some s, rule, w)"
  shows "\<exists>day. parse_date_only (Some d) = Some day \<and> day < s \<and> s \<in> set (sessions_of g)
    \<and> (\<forall>x\<in>set (sessions_of g). day < x \<longrightarrow> s \<le> x)"
  using assms gov.after_Some[of _ g s]
  by (auto simp: resolve_eod_research_session_def Let_def split: option.splits)

lemma resolve_knowledge_casesE:
  assumes "resolve_knowledge_availability zone p first g = Inr k"
  obtains (Exact) "pt_tier p \<in> set qualified_publication_tiers" "parse_aware (pt_source_published_at p) \<noteq> None"
      "kr_status k = KNOWLEDGE_RESOLVED_SOURCE_PUBLICATION" "kr_scope k = FROM_QUALIFIED_SOURCE_PUBLICATION"
      "kr_available_at k = pt_source_published_at p"
      "\<exists>rule w. resolve_eod_research_session zone (pt_source_published_at p) None g = Inr (kr_session k, rule, w)"
  | (Dated) "pt_tier p \<in> set qualified_publication_tiers" "ok_date (pt_source_published_at p)"
      "kr_status k = KNOWLEDGE_RESOLVED_SOURCE_PUBLICATION_DATE_ONLY"
      "kr_scope k = FROM_QUALIFIED_SOURCE_PUBLICATION" "kr_available_at k = None"
      "\<exists>rule w. resolve_eod_research_session zone None (pt_source_published_at p) g = Inr (kr_session k, rule, w)"
  | (Received) "parse_aware first \<noteq> None" "kr_status k = KNOWLEDGE_RESOLVED_FIRST_OBSERVED_CONSERVATIVE"
      "kr_scope k = FROM_FIRST_OBSERVED_FORWARD_ONLY" "kr_available_at k = first"
      "\<exists>rule w. resolve_eod_research_session zone first None g = Inr (kr_session k, rule, w)"
  | (Unresolved) "kr_status k = KNOWLEDGE_UNKNOWN" "kr_scope k = SCOPE_NONE" "kr_session k = None"
  using assms
  by (auto simp: resolve_knowledge_availability_def Let_def bindE_eq_Inr knowledge_unresolved_def
      split: if_splits)

definition date_before :: "string option \<Rightarrow> string \<Rightarrow> bool" where
  \<comment> \<open>a date-only publication lies strictly before a research day\<close>
  "date_before published session =
     (case parse_date_only published of None \<Rightarrow> False | Some day \<Rightarrow> day < session)"

lemma evidence_within_mono: "evidence_within zone ts s \<Longrightarrow> s \<le> s' \<Longrightarrow> evidence_within zone ts s'"
  by (auto simp: evidence_within_def Let_def split: option.splits sum.splits dest: less_le_trans)

lemma date_before_mono: "date_before p s \<Longrightarrow> s \<le> s' \<Longrightarrow> date_before p s'"
  by (auto simp: date_before_def split: option.splits dest: less_le_trans)

definition sample_publication :: publication_time where
  "sample_publication =
     \<lparr>pt_source_published_at = Some ''2024-01-02T09:30:00+07:00'', pt_precision = EXACT_DATETIME,
      pt_tier = REGULATOR_DISCLOSURE, pt_source_identity = Some ''doc-1'',
      pt_qualification_status = ''QUALIFIED'', pt_timezone_status = ''AWARE''\<rparr>"

definition sample_knowledge :: knowledge_resolution where
  "sample_knowledge =
     \<lparr>kr_status = KNOWLEDGE_RESOLVED_SOURCE_PUBLICATION, kr_available_at = Some ''2024-01-02T09:30:00+07:00'',
      kr_session = Some ''2024-01-02'', kr_scope = FROM_QUALIFIED_SOURCE_PUBLICATION,
      kr_rule = EXACT_TIMESTAMP_CUTOFF, kr_close_price = CLOSE_NOT_ESTABLISHED, kr_warnings = []\<rparr>"

lemma sample_resolution:
  "resolve_knowledge_availability sample_zone sample_publication None
     (Some [Some ''2024-01-02'', Some ''2024-01-03'']) = Inr sample_knowledge"
  by code_simp

text \<open>
  C33. The session resolved from an exact timestamp is a governed session on which the evidence is
  knowable: its local day is earlier, or it is that day and the local time is before the 18:00
  cutoff.  It is the first governed session with that property.
\<close>

theorem resolve_timestamp_first_session:
  assumes "resolve_eod_research_session zone ts None g = Inr (Some s, rule, w)"
  shows "s \<in> set (sessions_of g) \<and> evidence_within zone ts s
    \<and> (\<forall>x\<in>set (sessions_of g). evidence_within zone ts x \<longrightarrow> s \<le> x)"
  using eod_timestamp_within[OF assms] by simp

theorem resolve_timestamp_first_session_witness:
  "\<exists>s. resolve_eod_research_session sample_zone (Some ''2024-01-02T11:00:00Z'') None
         (Some [Some ''2024-01-03'', Some ''2024-01-02'']) = Inr (Some s, EXACT_TIMESTAMP_CUTOFF, [])
       \<and> s = ''2024-01-03'' \<and> evidence_within sample_zone (Some ''2024-01-02T11:00:00Z'') s"
proof -
  have run: "resolve_eod_research_session sample_zone (Some ''2024-01-02T11:00:00Z'') None
         (Some [Some ''2024-01-03'', Some ''2024-01-02''])
       = Inr (Some ''2024-01-03'', EXACT_TIMESTAMP_CUTOFF, [])" by code_simp
  from resolve_timestamp_first_session[OF run] run show ?thesis by simp
qed

text \<open>
  C30. No look-ahead: a resolved piece of evidence that is eligible for the reconstruction of a
  canonical research day was, by its own trusted evidence, knowable on that day: a qualified
  publication instant or a trusted first observation before the cutoff of the day, or a qualified
  publication date strictly before it.
\<close>

theorem no_look_ahead:
  assumes "resolve_knowledge_availability zone p first g = Inr k" "canonical_day r"
    and "historical_reconstruction_eligible k (Some r)"
  shows "(pt_tier p \<in> set qualified_publication_tiers
            \<and> (evidence_within zone (pt_source_published_at p) r \<or> date_before (pt_source_published_at p) r))
         \<or> evidence_within zone first r"
  using assms(1)
proof (cases rule: resolve_knowledge_casesE)
  note el = assms(3)[unfolded historical_reconstruction_eligible_def]
  have s: "truthy (kr_session k)" "the (kr_session k) \<le> r" using el by auto
  then obtain s where ks: "kr_session k = Some s" and sr: "s \<le> r" by (cases "kr_session k") auto
  {
    case Exact
    then show ?thesis using eod_timestamp_within ks sr evidence_within_mono by metis
  next
    case Dated
    then obtain d where "pt_source_published_at p = Some d"
      by (cases "pt_source_published_at p") (auto simp: ok_date_def)
    with Dated ks sr show ?thesis
      using eod_date_within[of zone None d g s] by (auto simp: date_before_def)
  next
    case Received
    then show ?thesis using eod_timestamp_within ks sr evidence_within_mono by metis
  next
    case Unresolved
    then show ?thesis using ks by simp
  }
qed

theorem no_look_ahead_witness:
  "historical_reconstruction_eligible sample_knowledge (Some ''2024-01-02'')
   \<and> (evidence_within sample_zone (Some ''2024-01-02T09:30:00+07:00'') ''2024-01-02''
      \<or> date_before (Some ''2024-01-02T09:30:00+07:00'') ''2024-01-02''
      \<or> evidence_within sample_zone None ''2024-01-02'')"
proof -
  have can: "canonical_day ''2024-01-02''" by code_simp
  have el: "historical_reconstruction_eligible sample_knowledge (Some ''2024-01-02'')" by code_simp
  from no_look_ahead[OF sample_resolution can el] el show ?thesis by (auto simp: sample_publication_def)
qed

text \<open>
  Provider metadata never decides knowledge: the knowledge resolution projected for a provider
  record is a function of its first observation alone, whatever the provider and its fields say, and
  it never claims a source publication.
\<close>

theorem provider_metadata_not_knowledge:
  "map_sum id (\<lambda>(_, k, _). k) (project_provider_temporal_metadata zone provider m first)
     = resolve_knowledge_availability zone
         (sample_publication\<lparr>pt_tier := UNVERIFIED\<rparr>) first None"
proof -
  have "map_sum id (\<lambda>(_, k, _). k) (project_provider_temporal_metadata zone provider m first)
      = resolve_knowledge_availability zone
          \<lparr>pt_source_published_at = None, pt_precision = PRECISION_UNKNOWN, pt_tier = PROVIDER_REPORTED,
           pt_source_identity = Some provider, pt_qualification_status = ''PROVIDER_METADATA_ONLY'',
           pt_timezone_status = ''UNKNOWN''\<rparr> first None" (is "_ = ?r")
    by (cases ?r) (simp_all add: project_provider_temporal_metadata_def Let_def split_beta)
  also have "\<dots> = resolve_knowledge_availability zone (sample_publication\<lparr>pt_tier := UNVERIFIED\<rparr>) first None"
    by (simp add: resolve_knowledge_availability_def qualified_publication_tiers_def Let_def)
  finally show ?thesis .
qed

lemma max_str_eq_Max: "xs \<noteq> [] \<Longrightarrow> max_str xs = Max (set xs)"
proof (cases xs)
  case (Cons a as)
  have "foldl max a as = fold max as a" by (simp add: foldl_conv_fold max.commute)
  then show ?thesis using Cons by (simp add: max_str_def Max.set_eq_fold[symmetric] del: list.set)
qed simp

lemma propagate_InrE:
  assumes "propagate_derived_knowledge req opt = Inr d" "mapE coerce_knowledge req = Inr ks"
  obtains (Unresolved) "ks = [] \<or> (\<exists>k\<in>set ks. input_unresolved k)"
      "d = knowledge_unresolved ''REQUIRED_INPUT_KNOWLEDGE_UNRESOLVED''"
  | (Derived) "ks \<noteq> []" "\<forall>k\<in>set ks. \<not> input_unresolved k" "kr_status d = KNOWLEDGE_RESOLVED_DERIVED"
      "kr_scope d = FROM_REQUIRED_INPUT_BOUNDS"
      "kr_session d = Some (Max ((\<lambda>k. the (kr_session k)) ` set ks))"
      "kr_available_at d = (if \<forall>k\<in>set ks. parse_aware (kr_available_at k) \<noteq> None
         then Some (Max ((\<lambda>k. the (kr_available_at k)) ` set ks)) else None)"
  using assms
  by (auto simp: propagate_derived_knowledge_def Let_def bindE_eq_Inr list_ex_iff list_all_iff max_str_eq_Max
      image_image split: if_splits)

text \<open>
  Derived knowledge is no more eligible than its inputs: a value derived from required inputs
  that each have a reconstruction scope is eligible for a requested session exactly if there is an
  input, every input is resolved, and every input alone is eligible for that session.
\<close>

theorem derived_eligible_iff_inputs:
  assumes "propagate_derived_knowledge req opt = Inr d" "mapE coerce_knowledge req = Inr ks"
    and scopes: "\<forall>k\<in>set ks. kr_scope k \<noteq> SCOPE_NONE"
  shows "historical_reconstruction_eligible d r \<longleftrightarrow>
    ks \<noteq> [] \<and> (\<forall>k\<in>set ks. kr_status k \<noteq> KNOWLEDGE_UNKNOWN \<and> historical_reconstruction_eligible k r)"
  using assms(1,2)
proof (cases rule: propagate_InrE)
  case Unresolved
  then show ?thesis
    by (auto simp: historical_reconstruction_eligible_def knowledge_unresolved_def input_unresolved_def)
next
  case Derived
  let ?S = "(\<lambda>k. the (kr_session k)) ` set ks"
  have S: "finite ?S" "?S \<noteq> {}" using Derived by auto
  have inp: "truthy (kr_session k)" "kr_status k \<noteq> KNOWLEDGE_UNKNOWN" if "k \<in> set ks" for k
    using Derived(2) that by (auto simp: input_unresolved_def)
  have "Max ?S \<in> ?S" using S by (rule Max_in)
  then have "Max ?S \<noteq> []" using inp by (fastforce elim: truthyE)
  moreover have "Max ?S \<le> the r \<longleftrightarrow> (\<forall>k\<in>set ks. the (kr_session k) \<le> the r)" using S by simp
  moreover obtain k0 where "k0 \<in> set ks" using Derived(1) by (cases ks) auto
  ultimately show ?thesis
    using Derived S inp scopes by (auto simp: historical_reconstruction_eligible_def)
qed

definition sample_receipt_knowledge :: knowledge_resolution where
  "sample_receipt_knowledge =
     sample_knowledge\<lparr>kr_status := KNOWLEDGE_RESOLVED_FIRST_OBSERVED_CONSERVATIVE, kr_session := Some ''2024-01-03'',
       kr_available_at := Some ''2024-01-02T12:00:00Z'', kr_scope := FROM_FIRST_OBSERVED_FORWARD_ONLY\<rparr>"

theorem derived_eligible_iff_inputs_witness:
  "\<exists>d. propagate_derived_knowledge [Resolution sample_knowledge, Resolution sample_receipt_knowledge] [] = Inr d
     \<and> \<not> historical_reconstruction_eligible d (Some ''2024-01-02'')
     \<and> historical_reconstruction_eligible sample_knowledge (Some ''2024-01-02'')"
proof -
  let ?req = "[Resolution sample_knowledge, Resolution sample_receipt_knowledge]"
  obtain d where d: "propagate_derived_knowledge ?req [] = Inr d"
  proof -
    have "is_ok (propagate_derived_knowledge ?req [])" by code_simp
    then show thesis using that by (cases "propagate_derived_knowledge ?req []") auto
  qed
  have "\<not> historical_reconstruction_eligible sample_receipt_knowledge (Some ''2024-01-02'')" by code_simp
  moreover have "historical_reconstruction_eligible sample_knowledge (Some ''2024-01-02'')" by code_simp
  ultimately show ?thesis
    using d derived_eligible_iff_inputs[OF d, of "[sample_knowledge, sample_receipt_knowledge]" "Some ''2024-01-02''"]
    by (simp add: sample_knowledge_def sample_receipt_knowledge_def)
qed

text \<open>
  The bound of a derived value is the latest text of its inputs' instants, which is not the latest
  instant when their UTC offsets differ: here the derived value is said to be available two hours
  before one of its required inputs.
\<close>

theorem derived_instant_before_input:
  "\<exists>d. propagate_derived_knowledge
         [Resolution (sample_knowledge\<lparr>kr_available_at := Some ''2024-01-02T10:00:00+07:00''\<rparr>),
          Resolution (sample_knowledge\<lparr>kr_available_at := Some ''2024-01-02T05:00:00Z''\<rparr>)] [] = Inr d
     \<and> kr_available_at d = Some ''2024-01-02T10:00:00+07:00''
     \<and> later_instant (Some ''2024-01-02T05:00:00Z'') (kr_available_at d)"
proof -
  have "later_instant (Some ''2024-01-02T05:00:00Z'') (Some ''2024-01-02T10:00:00+07:00'')" by code_simp
  moreover have "parse_aware (Some ''2024-01-02T10:00:00+07:00'') \<noteq> None"
    "parse_aware (Some ''2024-01-02T05:00:00Z'') \<noteq> None" by code_simp+
  ultimately show ?thesis
    by (simp add: propagate_derived_knowledge_def sample_knowledge_def input_unresolved_def max_str_def Let_def)
qed

text \<open>
  The reconstruction guard compares the requested text as it stands, and a ten-character ISO week
  date passes its date check: the first day of 2024 in that notation is eligible for evidence that
  only became known on the last day of the year.
\<close>

theorem week_date_looks_ahead:
  "parse_date_only (Some ''2024-W01-1'') = Some ''2024-01-01''
   \<and> historical_reconstruction_eligible (sample_knowledge\<lparr>kr_session := Some ''2024-12-31''\<rparr>) (Some ''2024-W01-1'')
   \<and> \<not> historical_reconstruction_eligible (sample_knowledge\<lparr>kr_session := Some ''2024-12-31''\<rparr>)
        (parse_date_only (Some ''2024-W01-1''))"
proof -
  have week: "parse_date_only (Some ''2024-W01-1'') = Some ''2024-01-01''" by code_simp
  then have "parse_date_only (parse_date_only (Some ''2024-W01-1'')) = Some ''2024-01-01''"
    using parse_date_only_canonical canonical_day_def by metis
  with week show ?thesis
    by (simp add: historical_reconstruction_eligible_def sample_knowledge_def)
qed

end
