(* ===== verification/AsofLedger.thy ===== *)
theory AsofLedger
  imports Bitemporal
begin

text \<open>
  \<open>stocklookup_core/evidence/asof_query_ledger.py\<close>: the ledger of retained observations, whether each
  was knowable at a research cutoff, and the as-of query that selects one of them or says why not.

  An observation is a dictionary of \<open>str | None\<close> values with up to four nested dictionaries (the
  nested format of the bitemporal projection); a missing nested dictionary is the empty one, as in
  \<open>obs.get(...) or {}\<close>.  The serialisation and hashing of results (\<open>to_dict\<close>,
  \<open>deterministic_ledger_hash\<close>, \<open>canonical_result_identity\<close>) are not modelled.
\<close>

datatype asof_result_code =
  AS_READY | AS_UNKNOWN_TEMPORAL | AS_NOT_YET_KNOWABLE | AS_NO_QUALIFYING_OBSERVATION | AS_CONFLICT

datatype revision_knowability = KNOWABLE | NOT_YET_KNOWABLE | UNKNOWN_TEMPORAL

record ledger_entry =
  le_observation_identity :: "string option"
  le_valid_time_reference :: "string option"
  le_publication_time :: "string option"
  le_publication_precision :: "string option"
  le_first_observed_at :: "string option"
  le_first_observed_status :: string
  le_knowledge_session :: "string option"
  le_knowledge_time_status :: string
  le_reconstruction_scope :: string
  le_supersedes_identity :: "string option"
  le_content_provenance :: "string option"
  le_knowability :: revision_knowability
  le_warnings :: "string list"

record asof_result =
  ar_result_code :: asof_result_code
  ar_as_of :: string
  ar_selected_identity :: "string option"
  ar_selected_valid_time :: "string option"
  ar_selected_session :: "string option"
  ar_excluded_future :: "string option list"
  ar_conflicts :: "string option list"
  ar_ledger :: "ledger_entry list"
  ar_boundaries :: "(string \<times> string) list"
  ar_warnings :: "string list"

record observation =
  ob_flat :: str_dict
  ob_knowledge_resolution :: str_dict
  ob_observation_time :: str_dict
  ob_publication_time :: str_dict
  ob_valid_time :: str_dict

definition authority_invariants :: "(string \<times> string) list" where
  "authority_invariants =
     [(''raw_as_traded'', ''NOT_PROMOTED''), (''historical_price_pit'', ''BLOCKED''),
      (''historical_full_system_backtest'', ''BLOCKED''), (''same_session_close_execution'', ''NOT_ESTABLISHED''),
      (''invariant'', ''ASOF_QUERY_DOES_NOT_PROMOTE_ANY_AUTHORITY'')]"

definition asof_parse_date :: "string option \<Rightarrow> string option" where
  "asof_parse_date v =
     (case v of None \<Rightarrow> None
      | Some s \<Rightarrow> if py_len s \<noteq> 10 then None else map_option date_isoformat (date_fromisoformat s))"

record knowledge_proxy =
  kp_status :: string
  kp_session :: "string option"
  kp_scope :: string

definition is_reconstruction_eligible :: "knowledge_proxy \<Rightarrow> string \<Rightarrow> bool" where
  "is_reconstruction_eligible kr as_of =
     (if kp_status kr = ''KNOWLEDGE_UNKNOWN'' then False
      else if kp_scope kr = ''NONE'' then False
      else (case (asof_parse_date (kp_session kr), asof_parse_date (Some as_of)) of
              (Some session, Some as_of_date) \<Rightarrow> session \<le> as_of_date
            | _ \<Rightarrow> False))"

definition knowability_code :: "knowledge_proxy \<Rightarrow> string \<Rightarrow> revision_knowability" where
  "knowability_code kr as_of =
     (if kp_status kr = ''KNOWLEDGE_UNKNOWN'' then UNKNOWN_TEMPORAL
      else if is_reconstruction_eligible kr as_of then KNOWABLE else NOT_YET_KNOWABLE)"

fun or_else :: "string option list \<Rightarrow> string option" where
  \<comment> \<open>\<open>a or b or ... or z\<close>\<close>
  "or_else [] = None"
| "or_else [v] = v"
| "or_else (v # w # vs) = (if truthy v then v else or_else (w # vs))"

definition proxy_of :: "observation \<Rightarrow> knowledge_proxy" where
  "proxy_of obs =
     (let kr = ob_knowledge_resolution obs; flat = ob_flat obs in
      \<lparr>kp_status = the (or_else [sget kr ''knowledge_time_status'', sget flat ''knowledge_time_status'',
                               Some ''KNOWLEDGE_UNKNOWN'']),
       kp_session = or_else [sget kr ''knowledge_available_research_session'',
                             sget flat ''knowledge_available_research_session''],
       kp_scope = the (or_else [sget kr ''historical_reconstruction_scope'',
                               sget flat ''historical_reconstruction_scope'', Some ''NONE''])\<rparr>)"

definition extract_ledger_entry :: "observation \<Rightarrow> string \<Rightarrow> ledger_entry" where
  "extract_ledger_entry obs as_of =
     (let flat = ob_flat obs; obs_time = ob_observation_time obs;
          pub = ob_publication_time obs; valid = ob_valid_time obs;
          pub_at = or_else [sget pub ''source_published_at'', sget flat ''source_published_at''];
          first_status = the (or_else [sget obs_time ''first_observed_status'',
                                       sget flat ''first_observed_status'', Some ''LEGACY_UNKNOWN'']);
          kr = proxy_of obs
      in \<lparr>le_observation_identity =
            or_else [sget flat ''observation_identity'', sget obs_time ''observation_identity'',
                     sget flat ''sha256'', sget flat ''document_sha256''],
          le_valid_time_reference =
            or_else [sget flat ''valid_time_reference'', sget valid ''reference_session'',
                     sget valid ''period_end'', sget valid ''effective_from''],
          le_publication_time = pub_at,
          le_publication_precision =
            or_else [sget pub ''source_published_at_precision'', sget flat ''source_published_at_precision''],
          le_first_observed_at = or_else [sget obs_time ''first_observed_at'', sget flat ''first_observed_at''],
          le_first_observed_status = first_status,
          le_knowledge_session = kp_session kr,
          le_knowledge_time_status = kp_status kr,
          le_reconstruction_scope = kp_scope kr,
          le_supersedes_identity = or_else [sget flat ''supersedes_identity'', sget flat ''supersedes_sha256''],
          le_content_provenance =
            or_else [sget flat ''content_provenance'', sget pub ''source_identity'',
                     sget flat ''source_identity'', sget flat ''document_id''],
          le_knowability = knowability_code kr as_of,
          le_warnings =
            (if kp_status kr = ''KNOWLEDGE_UNKNOWN'' then [''TEMPORAL_EVIDENCE_INSUFFICIENT_KNOWLEDGE_UNKNOWN''] else [])
            @ (if first_status = ''LEGACY_UNKNOWN'' \<and> \<not> truthy pub_at
               then [''NO_TRUSTWORTHY_RECEIPT_AND_NO_QUALIFIED_PUBLICATION''] else [])\<rparr>)"

definition ledger_sort_key :: "ledger_entry \<Rightarrow> string \<times> string" where
  "ledger_sort_key e =
     (the (or_str (le_knowledge_session e) (Some ''9999-99-99'')),
      the (or_str (le_observation_identity e) (Some [])))"

definition asof_result_of ::
  "asof_result_code \<Rightarrow> string \<Rightarrow> ledger_entry option \<Rightarrow> string option list \<Rightarrow> string option list
     \<Rightarrow> ledger_entry list \<Rightarrow> string list \<Rightarrow> asof_result" where
  "asof_result_of code as_of selected excluded conflicts ledger warnings =
     \<lparr>ar_result_code = code, ar_as_of = as_of,
      ar_selected_identity = (case selected of None \<Rightarrow> None | Some e \<Rightarrow> le_observation_identity e),
      ar_selected_valid_time = (case selected of None \<Rightarrow> None | Some e \<Rightarrow> le_valid_time_reference e),
      ar_selected_session = (case selected of None \<Rightarrow> None | Some e \<Rightarrow> le_knowledge_session e),
      ar_excluded_future = excluded, ar_conflicts = conflicts, ar_ledger = ledger,
      ar_boundaries = authority_invariants, ar_warnings = warnings\<rparr>"

definition superseded_ids :: "ledger_entry list \<Rightarrow> string option list" where
  "superseded_ids es = filter truthy (map le_supersedes_identity es)"

definition non_superseded :: "ledger_entry list \<Rightarrow> ledger_entry list" where
  "non_superseded es = filter (\<lambda>e. le_observation_identity e \<notin> set (superseded_ids es)) es"

definition ordered_ledger :: "observation list \<Rightarrow> string \<Rightarrow> ledger_entry list" where
  "ordered_ledger observations as_of =
     sort_key ledger_sort_key (map (\<lambda>obs. extract_ledger_entry obs as_of) observations)"

definition with_code :: "revision_knowability \<Rightarrow> ledger_entry list \<Rightarrow> ledger_entry list" where
  "with_code c = filter (\<lambda>e. le_knowability e = c)"

definition query_as_of :: "observation list \<Rightarrow> string \<Rightarrow> asof_result" where
  "query_as_of observations session =
     (case asof_parse_date (Some session) of
        None \<Rightarrow> asof_result_of AS_UNKNOWN_TEMPORAL session None [] [] [] [''AS_OF_RESEARCH_SESSION_NOT_A_VALID_DATE'']
      | Some as_of \<Rightarrow>
        if observations = [] then asof_result_of AS_NO_QUALIFYING_OBSERVATION as_of None [] [] [] []
        else
          (let ledger = ordered_ledger observations as_of;
               knowable = with_code KNOWABLE ledger;
               excluded = map le_observation_identity (with_code NOT_YET_KNOWABLE ledger);
               unknown_temporal = with_code UNKNOWN_TEMPORAL ledger
           in if knowable = [] \<and> unknown_temporal = [] then
                asof_result_of AS_NOT_YET_KNOWABLE as_of None excluded [] ledger
                  [''ALL_OBSERVATIONS_NOT_YET_KNOWABLE_AT_CUTOFF'']
              else if knowable = [] then
                asof_result_of AS_UNKNOWN_TEMPORAL as_of None excluded [] ledger
                  [''TEMPORAL_EVIDENCE_INSUFFICIENT_FAIL_CLOSED'']
              else if length knowable = 1 then
                asof_result_of AS_READY as_of (Some (hd knowable)) excluded [] ledger []
              else if length (non_superseded knowable) = 1 then
                asof_result_of AS_READY as_of (Some (hd (non_superseded knowable))) excluded [] ledger
                  [''SUPERSESSION_CHAIN_RESOLVED_SINGLE_NON_SUPERSEDED'']
              else
                asof_result_of AS_CONFLICT as_of None excluded (map le_observation_identity knowable) ledger
                  [''MULTIPLE_KNOWABLE_CANDIDATES_DETERMINISTIC_RESOLUTION_NOT_PERMITTED'']))"

definition build_revision_ledger :: "observation list \<Rightarrow> string \<Rightarrow> ledger_entry list" where
  "build_revision_ledger observations session =
     ordered_ledger observations (the (or_str (asof_parse_date (Some session)) (Some session)))"

section \<open>Facts about the ledger\<close>

lemma asof_parse_date_eq: "asof_parse_date v = parse_date_only v"
  by (cases v) (simp_all add: asof_parse_date_def parse_date_only.simps)

lemma extract_knowability [simp]: "le_knowability (extract_ledger_entry obs as_of) = knowability_code (proxy_of obs) as_of"
  by (simp add: extract_ledger_entry_def Let_def)

lemma extract_proxy [simp]:
  "le_knowledge_session (extract_ledger_entry obs as_of) = kp_session (proxy_of obs)"
  "le_knowledge_time_status (extract_ledger_entry obs as_of) = kp_status (proxy_of obs)"
  "le_reconstruction_scope (extract_ledger_entry obs as_of) = kp_scope (proxy_of obs)"
  by (simp_all add: extract_ledger_entry_def Let_def)

lemma knowable_iff:
  "knowability_code kr as_of = KNOWABLE \<longleftrightarrow>
     kp_status kr \<noteq> ''KNOWLEDGE_UNKNOWN'' \<and> kp_scope kr \<noteq> ''NONE''
     \<and> (\<exists>s d. parse_date_only (kp_session kr) = Some s \<and> parse_date_only (Some as_of) = Some d \<and> s \<le> d)"
  by (auto simp: knowability_code_def is_reconstruction_eligible_def asof_parse_date_eq split: option.splits)

lemma set_ordered_ledger: "set (ordered_ledger obs d) = (\<lambda>o1. extract_ledger_entry o1 d) ` set obs"
  by (simp add: ordered_ledger_def)

lemma with_code_ordered:
  "with_code c (ordered_ledger obs d) =
     ordered_ledger (filter (\<lambda>x. knowability_code (proxy_of x) d = c) obs) d"
  by (simp add: with_code_def ordered_ledger_def filter_sort filter_map comp_def)

lemma with_code_eq_Nil: "with_code c (ordered_ledger obs d) = [] \<longleftrightarrow> (\<forall>x\<in>set obs. knowability_code (proxy_of x) d \<noteq> c)"
  by (auto simp: with_code_def filter_empty_conv set_ordered_ledger)

lemma result_of_simps [simp]:
  "ar_result_code (asof_result_of c d sel ex cf l w) = c"
  "ar_ledger (asof_result_of c d sel ex cf l w) = l"
  "ar_selected_identity (asof_result_of c d sel ex cf l w) = (case sel of None \<Rightarrow> None | Some e \<Rightarrow> le_observation_identity e)"
  "ar_selected_session (asof_result_of c d sel ex cf l w) = (case sel of None \<Rightarrow> None | Some e \<Rightarrow> le_knowledge_session e)"
  "ar_selected_valid_time (asof_result_of c d sel ex cf l w) = (case sel of None \<Rightarrow> None | Some e \<Rightarrow> le_valid_time_reference e)"
  "ar_conflicts (asof_result_of c d sel ex cf l w) = cf"
  by (simp_all add: asof_result_of_def)

definition select_entry :: "ledger_entry list \<Rightarrow> ledger_entry option" where
  \<comment> \<open>the entry a query with these knowable entries selects\<close>
  "select_entry knowable =
     (if length knowable = 1 then Some (hd knowable)
      else if length (non_superseded knowable) = 1 then Some (hd (non_superseded knowable)) else None)"

lemma select_entry_in: "select_entry es = Some e \<Longrightarrow> e \<in> set es"
  by (cases "non_superseded es"; cases es)
     (auto simp: select_entry_def non_superseded_def split: if_splits dest: filter_eq_ConsD)

lemma query_as_of_eq:
  assumes "parse_date_only (Some session) = Some d" "obs \<noteq> []"
  defines "k \<equiv> with_code KNOWABLE (ordered_ledger obs d)"
  shows "ar_result_code (query_as_of obs session) =
      (if k = [] then if \<exists>x\<in>set obs. knowability_code (proxy_of x) d = UNKNOWN_TEMPORAL
                      then AS_UNKNOWN_TEMPORAL else AS_NOT_YET_KNOWABLE
       else if select_entry k \<noteq> None then AS_READY else AS_CONFLICT)"
    and "ar_selected_identity (query_as_of obs session) =
      (case select_entry k of None \<Rightarrow> None | Some e \<Rightarrow> le_observation_identity e)"
    and "ar_selected_session (query_as_of obs session) =
      (case select_entry k of None \<Rightarrow> None | Some e \<Rightarrow> le_knowledge_session e)"
    and "ar_selected_valid_time (query_as_of obs session) =
      (case select_entry k of None \<Rightarrow> None | Some e \<Rightarrow> le_valid_time_reference e)"
    and "ar_conflicts (query_as_of obs session) =
      (if k \<noteq> [] \<and> select_entry k = None then map le_observation_identity k else [])"
    and "ar_ledger (query_as_of obs session) = ordered_ledger obs d"
  using assms(1,2)
  by (cases "k = []"; auto simp: query_as_of_def asof_parse_date_eq Let_def k_def[symmetric] select_entry_def
      non_superseded_def with_code_eq_Nil[of UNKNOWN_TEMPORAL])+

lemma query_as_of_invalid:
  "parse_date_only (Some session) = None \<Longrightarrow> ar_result_code (query_as_of obs session) = AS_UNKNOWN_TEMPORAL"
  "obs = [] \<Longrightarrow> ar_selected_session (query_as_of obs session) = None
     \<and> ar_result_code (query_as_of obs session) \<noteq> AS_READY"
  by (simp_all add: query_as_of_def asof_parse_date_eq split: option.splits)


definition obs_knowable_at :: "observation \<Rightarrow> string \<Rightarrow> bool" where
  \<comment> \<open>the retained temporal evidence of an observation says it was known on the day\<close>
  "obs_knowable_at obs d \<longleftrightarrow>
     kp_status (proxy_of obs) \<noteq> ''KNOWLEDGE_UNKNOWN'' \<and> kp_scope (proxy_of obs) \<noteq> ''NONE''
     \<and> (case parse_date_only (kp_session (proxy_of obs)) of None \<Rightarrow> False | Some s \<Rightarrow> s \<le> d)"

lemma knowable_iff_obs:
  assumes "canonical_day d"
  shows "knowability_code (proxy_of x) d = KNOWABLE \<longleftrightarrow> obs_knowable_at x d"
  using assms by (auto simp: knowable_iff obs_knowable_at_def canonical_day_def split: option.splits)

section \<open>Properties of the as-of query\<close>

definition sample_obs :: "string \<Rightarrow> string \<Rightarrow> string option \<Rightarrow> observation" where
  "sample_obs ident session supersedes =
     \<lparr>ob_flat = [(''observation_identity'', Some ident), (''supersedes_identity'', supersedes)],
      ob_knowledge_resolution =
        [(''knowledge_available_research_session'', Some session),
         (''knowledge_time_status'', Some ''KNOWLEDGE_RESOLVED_SOURCE_PUBLICATION''),
         (''historical_reconstruction_scope'', Some ''FROM_QUALIFIED_SOURCE_PUBLICATION'')],
      ob_observation_time = [], ob_publication_time = [], ob_valid_time = [(''period_end'', Some ''2023-12-31'')]\<rparr>"

lemma sample_query:
  "ar_result_code (query_as_of [sample_obs ''b'' ''2024-02-01'' (Some ''a''), sample_obs ''a'' ''2024-01-02'' None,
      sample_obs ''c'' ''2024-03-01'' (Some ''b'')] ''2024-02-15'') = AS_READY"
  by code_simp

text \<open>
  C31. No hindsight: when a query is \<open>READY\<close>, what it selects is one of the given observations, and
  that observation's own evidence resolves its knowledge, gives it a reconstruction scope, and puts
  its knowledge session on or before the cutoff.
\<close>

theorem ready_selects_known_observation:
  assumes "ar_result_code (query_as_of obs session) = AS_READY"
  shows "\<exists>d x. parse_date_only (Some session) = Some d \<and> x \<in> set obs \<and> obs_knowable_at x d
     \<and> ar_selected_identity (query_as_of obs session) = le_observation_identity (extract_ledger_entry x d)
     \<and> ar_selected_session (query_as_of obs session) = kp_session (proxy_of x)"
proof (cases "parse_date_only (Some session)")
  case None
  then show ?thesis using assms by (simp add: query_as_of_invalid)
next
  case (Some d)
  let ?k = "with_code KNOWABLE (ordered_ledger obs d)"
  have ne: "obs \<noteq> []" using assms query_as_of_invalid(2) by blast
  note eq = query_as_of_eq[OF Some ne]
  from assms obtain e where e: "select_entry ?k = Some e" unfolding eq(1) by (auto split: if_splits)
  have "e \<in> set ?k" using select_entry_in[OF e] .
  then obtain x where x: "x \<in> set obs" "e = extract_ledger_entry x d" "knowability_code (proxy_of x) d = KNOWABLE"
    by (auto simp: with_code_def set_ordered_ledger)
  have "canonical_day d" using Some by (rule parse_date_only_canonical)
  then have "obs_knowable_at x d" using x(3) by (simp add: knowable_iff_obs)
  then show ?thesis using Some x(1,2) eq(2,3) e by auto
qed

theorem ready_selects_known_observation_witness:
  "\<exists>d x. x \<in> set [sample_obs ''b'' ''2024-02-01'' (Some ''a''), sample_obs ''a'' ''2024-01-02'' None,
      sample_obs ''c'' ''2024-03-01'' (Some ''b'')] \<and> obs_knowable_at x d"
  using ready_selects_known_observation[OF sample_query] by blast

lemma query_as_of_known:
  fixes obs :: "observation list"
  assumes d: "parse_date_only (Some session) = Some d"
  defines "k \<equiv> ordered_ledger (filter (\<lambda>x. obs_knowable_at x d) obs) d"
  shows "ar_result_code (query_as_of obs session) =
      (if k \<noteq> [] then if select_entry k \<noteq> None then AS_READY else AS_CONFLICT
       else if obs = [] then AS_NO_QUALIFYING_OBSERVATION
       else if \<exists>x\<in>set obs. kp_status (proxy_of x) = ''KNOWLEDGE_UNKNOWN'' then AS_UNKNOWN_TEMPORAL
       else AS_NOT_YET_KNOWABLE)"
    and "ar_selected_identity (query_as_of obs session) =
      (case select_entry k of None \<Rightarrow> None | Some e \<Rightarrow> le_observation_identity e)"
    and "ar_selected_session (query_as_of obs session) =
      (case select_entry k of None \<Rightarrow> None | Some e \<Rightarrow> le_knowledge_session e)"
    and "ar_selected_valid_time (query_as_of obs session) =
      (case select_entry k of None \<Rightarrow> None | Some e \<Rightarrow> le_valid_time_reference e)"
    and "ar_conflicts (query_as_of obs session) =
      (if k \<noteq> [] \<and> select_entry k = None then map le_observation_identity k else [])"
proof -
  have k: "with_code KNOWABLE (ordered_ledger obs d) = k"
    unfolding k_def with_code_ordered knowable_iff_obs[OF parse_date_only_canonical[OF d]] ..
  have u: "knowability_code (proxy_of x) d = UNKNOWN_TEMPORAL \<longleftrightarrow> kp_status (proxy_of x) = ''KNOWLEDGE_UNKNOWN''" for x
    by (simp add: knowability_code_def)
  have empty: "obs = [] \<Longrightarrow> k = []" by (simp add: k_def ordered_ledger_def)
  note eq = query_as_of_eq[OF d, of obs, unfolded k u]
  show "ar_result_code (query_as_of obs session) =
      (if k \<noteq> [] then if select_entry k \<noteq> None then AS_READY else AS_CONFLICT
       else if obs = [] then AS_NO_QUALIFYING_OBSERVATION
       else if \<exists>x\<in>set obs. kp_status (proxy_of x) = ''KNOWLEDGE_UNKNOWN'' then AS_UNKNOWN_TEMPORAL
       else AS_NOT_YET_KNOWABLE)"
    using eq(1) empty by (cases "obs = []") (simp_all add: query_as_of_def asof_parse_date_eq d)
  have none: "obs = [] \<Longrightarrow> select_entry k = None" using empty by (simp add: select_entry_def non_superseded_def)
  show "ar_selected_identity (query_as_of obs session) =
      (case select_entry k of None \<Rightarrow> None | Some e \<Rightarrow> le_observation_identity e)"
    "ar_selected_session (query_as_of obs session) =
      (case select_entry k of None \<Rightarrow> None | Some e \<Rightarrow> le_knowledge_session e)"
    "ar_selected_valid_time (query_as_of obs session) =
      (case select_entry k of None \<Rightarrow> None | Some e \<Rightarrow> le_valid_time_reference e)"
    "ar_conflicts (query_as_of obs session) =
      (if k \<noteq> [] \<and> select_entry k = None then map le_observation_identity k else [])"
    using eq(2-5) none empty by (cases "obs = []"; simp add: query_as_of_def asof_parse_date_eq d)+
qed

text \<open>
  C32. What is not knowable at the cutoff does not leak into an as-of query: two lists of observations
  that agree on those knowable at the cutoff, in their order, give the same selection and the same
  conflicts, whatever else each contains, and the same result code if anything is knowable.  If nothing
  is, the code says only whether there is evidence at all and whether the knowledge time of any is unknown.
\<close>

theorem future_observations_do_not_matter:
  assumes "parse_date_only (Some session) = Some d"
    and same: "filter (\<lambda>x. obs_knowable_at x d) obs1 = filter (\<lambda>x. obs_knowable_at x d) obs2"
  shows "ar_selected_identity (query_as_of obs1 session) = ar_selected_identity (query_as_of obs2 session)
    \<and> ar_selected_valid_time (query_as_of obs1 session) = ar_selected_valid_time (query_as_of obs2 session)
    \<and> ar_selected_session (query_as_of obs1 session) = ar_selected_session (query_as_of obs2 session)
    \<and> ar_conflicts (query_as_of obs1 session) = ar_conflicts (query_as_of obs2 session)
    \<and> (if filter (\<lambda>x. obs_knowable_at x d) obs1 \<noteq> []
       then ar_result_code (query_as_of obs1 session) = ar_result_code (query_as_of obs2 session)
       else ar_result_code (query_as_of obs1 session) =
         (if obs1 = [] then AS_NO_QUALIFYING_OBSERVATION
          else if \<exists>x\<in>set obs1. kp_status (proxy_of x) = ''KNOWLEDGE_UNKNOWN'' then AS_UNKNOWN_TEMPORAL
          else AS_NOT_YET_KNOWABLE))"
proof -
  have empty: "ordered_ledger xs d = [] \<longleftrightarrow> xs = []" for xs
    using set_ordered_ledger[of xs d] by (metis image_is_empty set_empty)
  show ?thesis
    unfolding query_as_of_known[OF assms(1), of obs1] query_as_of_known[OF assms(1), of obs2] same[symmetric] empty by simp
qed

theorem future_observations_do_not_matter_witness:
  "ar_selected_identity (query_as_of [sample_obs ''a'' ''2024-01-02'' None] ''2024-02-15'')
   = ar_selected_identity (query_as_of [sample_obs ''b'' ''2024-03-01'' (Some ''a''), sample_obs ''a'' ''2024-01-02'' None]
       ''2024-02-15'')"
proof -
  have "\<not> obs_knowable_at (sample_obs ''b'' ''2024-03-01'' (Some ''a'')) ''2024-02-15''"
    "parse_date_only (Some ''2024-02-15'') = Some ''2024-02-15''" by code_simp+
  then show ?thesis
    using future_observations_do_not_matter[of "''2024-02-15''" "''2024-02-15''"
        "[sample_obs ''a'' ''2024-01-02'' None]"
        "[sample_obs ''b'' ''2024-03-01'' (Some ''a''), sample_obs ''a'' ''2024-01-02'' None]"]
    by simp
qed

text \<open>
  The answer does not depend on the order the evidence is supplied in, as long as no two different
  ledger entries have the same session and identity.
\<close>

theorem query_order_independent:
  assumes perm: "mset obs1 = mset obs2"
    and keys: "\<forall>d. inj_on ledger_sort_key ((\<lambda>x. extract_ledger_entry x d) ` set obs1)"
  shows "query_as_of obs1 session = query_as_of obs2 session"
proof -
  have "ordered_ledger obs1 d = ordered_ledger obs2 d" for d
    unfolding ordered_ledger_def
  proof (rule sort_key_perm_inj)
    show "mset (map (\<lambda>x. extract_ledger_entry x d) obs1) = mset (map (\<lambda>x. extract_ledger_entry x d) obs2)"
      using perm by simp
  qed (use keys in simp)
  moreover have "obs1 = [] \<longleftrightarrow> obs2 = []" using perm by (metis mset_zero_iff)
  ultimately show ?thesis by (simp add: query_as_of_def split: option.split)
qed

theorem query_order_independent_witness:
  "query_as_of [sample_obs ''b'' ''2024-02-01'' None, sample_obs ''a'' ''2024-01-02'' None] ''2024-02-15''
   = query_as_of [sample_obs ''a'' ''2024-01-02'' None, sample_obs ''b'' ''2024-02-01'' None] ''2024-02-15''"
proof (rule query_order_independent)
  have "ledger_sort_key (extract_ledger_entry (sample_obs i s None) d) = (s, i)" if "s \<noteq> []" "i \<noteq> []" for d i s
    using that by (simp add: ledger_sort_key_def extract_ledger_entry_def proxy_of_def sample_obs_def sget_def
        Let_def or_str_def)
  then show "\<forall>d. inj_on ledger_sort_key ((\<lambda>x. extract_ledger_entry x d) `
      set [sample_obs ''b'' ''2024-02-01'' None, sample_obs ''a'' ''2024-01-02'' None])"
    by (simp add: inj_on_def)
qed simp

text \<open>
  Knowledge only accumulates: an observation that is knowable at a cutoff is knowable at every
  later one, and the ledger of a query lists exactly the given observations, ordered by session and
  then identity.
\<close>

theorem knowability_accumulates:
  assumes "parse_date_only (Some s1) = Some d1" "parse_date_only (Some s2) = Some d2" "d1 \<le> d2" "obs \<noteq> []"
  shows "length (with_code KNOWABLE (ar_ledger (query_as_of obs s1)))
           \<le> length (with_code KNOWABLE (ar_ledger (query_as_of obs s2)))
    \<and> (\<forall>x\<in>set obs. extract_ledger_entry x d1 \<in> set (with_code KNOWABLE (ar_ledger (query_as_of obs s1)))
         \<longrightarrow> extract_ledger_entry x d2 \<in> set (with_code KNOWABLE (ar_ledger (query_as_of obs s2))))
    \<and> mset (ar_ledger (query_as_of obs s1)) = image_mset (\<lambda>x. extract_ledger_entry x d1) (mset obs)
    \<and> sorted (map ledger_sort_key (ar_ledger (query_as_of obs s1)))"
proof -
  have can: "canonical_day d1" "canonical_day d2" using assms(1,2) by (auto intro: parse_date_only_canonical)
  have l: "ar_ledger (query_as_of obs s1) = ordered_ledger obs d1" "ar_ledger (query_as_of obs s2) = ordered_ledger obs d2"
    using query_as_of_eq(6) assms(1,2,4) by simp_all
  have mono: "knowability_code (proxy_of x) d1 = KNOWABLE \<Longrightarrow> knowability_code (proxy_of x) d2 = KNOWABLE" for x
    using assms(3) by (auto simp: knowable_iff_obs can obs_knowable_at_def split: option.splits)
  have "length (filter (\<lambda>x. knowability_code (proxy_of x) d1 = KNOWABLE) obs)
      \<le> length (filter (\<lambda>x. knowability_code (proxy_of x) d2 = KNOWABLE) obs)"
    by (induction obs) (auto dest: mono)
  then have "length (with_code KNOWABLE (ordered_ledger obs d1)) \<le> length (with_code KNOWABLE (ordered_ledger obs d2))"
    unfolding with_code_ordered by (simp add: ordered_ledger_def)
  moreover have "extract_ledger_entry x d1 \<in> set (with_code KNOWABLE (ordered_ledger obs d1))
      \<longrightarrow> extract_ledger_entry x d2 \<in> set (with_code KNOWABLE (ordered_ledger obs d2))" if "x \<in> set obs" for x
    using that mono[of x] by (auto simp: with_code_def set_ordered_ledger)
  ultimately show ?thesis unfolding l by (simp add: ordered_ledger_def)
qed

theorem knowability_accumulates_witness:
  "length (with_code KNOWABLE (ar_ledger (query_as_of [sample_obs ''a'' ''2024-01-02'' None] ''2024-01-01'')))
     \<le> length (with_code KNOWABLE (ar_ledger (query_as_of [sample_obs ''a'' ''2024-01-02'' None] ''2024-01-03'')))"
proof -
  have "parse_date_only (Some ''2024-01-01'') = Some ''2024-01-01''"
    "parse_date_only (Some ''2024-01-03'') = Some ''2024-01-03''" by code_simp+
  from knowability_accumulates[OF this, of "[sample_obs ''a'' ''2024-01-02'' None]", THEN conjunct1]
  show ?thesis by simp
qed

text \<open>
  The ledger orders by session text alone: an entry of unknown knowledge that carries a session is
  listed before a knowable one of a later session, although the ledger is documented to list
  observations of unknown knowledge last.
\<close>

theorem unknown_knowledge_not_last:
  "map le_knowability
     (build_revision_ledger
       [sample_obs ''a'' ''2024-02-01'' None,
        (sample_obs ''u'' ''2024-01-02'' None)
          \<lparr>ob_knowledge_resolution := [(''knowledge_available_research_session'', Some ''2024-01-02'')]\<rparr>]
       ''2024-02-15'')
   = [UNKNOWN_TEMPORAL, KNOWABLE]"
  by code_simp

end
