(* ===== verification/TemporalRetention.thy ===== *)
theory TemporalRetention
  imports Bitemporal
begin

text \<open>
  \<open>stocklookup_core/evidence/temporal_retention.py\<close>: the receipt envelope captured at the raw-byte
  boundary, its merge with a re-observation of the same bytes, and its projection onto the bitemporal
  contract.

  The envelope dictionary \<open>capture_raw_receipt\<close> builds is the record \<open>receipt\<close>, field by key.  SHA-256 is
  the argument \<open>sha\<close>; bytes are a \<^typ>\<open>string\<close>.
\<close>

record receipt =
  rc_observation_identity :: "string option"
  rc_identity_status :: string
  rc_identity_method :: "string option"
  rc_source_identity :: "string option"
  rc_provider_or_source :: string
  rc_raw_received_at :: "string option"
  rc_raw_received_timezone :: string
  rc_first_observed_at :: "string option"
  rc_first_observed_status :: string
  rc_last_observed_at :: "string option"
  rc_observation_count :: int
  rc_source_published_at :: "string option"
  rc_precision :: string
  rc_tier :: string
  rc_provider_reported_date :: "string option"
  rc_provider_record_update_at :: "string option"
  rc_provider_event_at :: "string option"
  rc_http_response_date :: "string option"
  rc_http_last_modified :: "string option"
  rc_http_etag :: "string option"
  rc_content_type :: "string option"
  rc_acquisition_method :: string
  rc_warnings :: "string list"

section \<open>Canonical UTC timestamps\<close>

text \<open>A timestamp argument is \<open>None\<close>, text, or a \<open>datetime\<close> object.\<close>

datatype timestamp = No_time | Text_time string | Datetime datetime

definition time_of_text :: "string option \<Rightarrow> timestamp" where
  "time_of_text v = (case v of None \<Rightarrow> No_time | Some s \<Rightarrow> Text_time s)"

definition utc_text :: "datetime \<Rightarrow> string option res" where
  "utc_text t =
     (if dt_offset t = None then Inr None
      else bindE (shift_instant (\<lambda>_. 0) (instant t)) (\<lambda>u. Inr (Some (utc_isoformat u))))"

fun aware_iso :: "timestamp \<Rightarrow> string option res" where
  "aware_iso No_time = Inr None"
| "aware_iso (Datetime t) = utc_text t"
| "aware_iso (Text_time s) =
     (if s = [] then Inr None
      else (case datetime_fromisoformat (str_replace ''Z'' ''+00:00'' s) of
              None \<Rightarrow> Inr None | Some t \<Rightarrow> utc_text t))"

section \<open>Fitness\<close>

definition official_tier_names :: "string list" where
  "official_tier_names = [''OFFICIAL_ISSUER_IR_OR_EXCHANGE'', ''REGULATOR_DISCLOSURE'']"

definition str_or :: "string \<Rightarrow> string \<Rightarrow> string" where
  "str_or s dflt = (if s = [] then dflt else s)"

definition retention_fitness :: "receipt \<Rightarrow> (string \<times> string) res" where
  \<comment> \<open>the status and the reason; the other keys of the result are constants\<close>
  "retention_fitness envelope =
     (let tier = str_or (rc_tier envelope) ''UNVERIFIED'';
          precision = str_or (rc_precision envelope) ''UNKNOWN''
      in bindE (aware_iso (time_of_text (rc_first_observed_at envelope))) (\<lambda>first.
           if tier \<in> set official_tier_names \<and> precision = ''EXACT_DATETIME'' then
             Inr (''QUALIFIED_SOURCE_PUBLICATION_EXACT'', ''qualified_official_publication_timestamp'')
           else if tier \<in> set official_tier_names \<and> precision = ''DATE_ONLY'' then
             Inr (''QUALIFIED_SOURCE_PUBLICATION_DATE_ONLY'', ''conservative_next_session_required'')
           else if truthy first then
             Inr (''FIRST_OBSERVED_FORWARD_ONLY'', ''provider_or_unqualified_source_receipt'')
           else Inr (''BLOCKED'', ''legacy_or_timezone_unknown_receipt'')))"

section \<open>Capture\<close>

definition header_value :: "str_dict \<Rightarrow> string \<Rightarrow> string option" where
  \<comment> \<open>lookup in the dictionary of lower-cased keys, in which a later key replaces an earlier one\<close>
  "header_value headers k = sget (rev (map (apfst str_lower) headers)) k"

definition present :: "string option list \<Rightarrow> string list" where
  \<comment> \<open>the truthy items\<close>
  "present vs = map the (filter truthy vs)"

definition min_str :: "string list \<Rightarrow> string option" where
  "min_str xs = (case xs of [] \<Rightarrow> None | y # ys \<Rightarrow> Some (foldl min y ys))"

record capture_args =
  ca_data :: "string option"
  ca_source_identity :: "string option"
  ca_provider_or_source :: string
  ca_acquisition_method :: string
  ca_source_published_at :: "string option"
  ca_tier :: string
  ca_provider_reported_date :: "string option"
  ca_provider_record_update_at :: "string option"
  ca_provider_event_at :: "string option"
  ca_http_headers :: str_dict
  ca_content_type :: "string option"
  ca_known_first_observed_at :: "string option"
  ca_raw_identity :: "string option"
  ca_legacy_first_observed_unknown :: bool
  ca_warnings :: "string list"

definition capture_raw_receipt ::
  "(string \<Rightarrow> string) \<Rightarrow> timestamp \<Rightarrow> capture_args \<Rightarrow> receipt res" where
  "capture_raw_receipt sha raw_received_at a =
     bindE (aware_iso raw_received_at) (\<lambda>received.
     if raw_received_at \<noteq> No_time \<and> received = None then
       raise ValueError ''RAW_RECEIPT_TIMESTAMP_TIMEZONE_REQUIRED''
     else if ca_data a \<noteq> None \<and> ca_raw_identity a \<noteq> None \<and> Some (sha (the (ca_data a))) \<noteq> ca_raw_identity a then
       raise ValueError ''RAW_IDENTITY_DOES_NOT_MATCH_BYTES''
     else
       bindE (aware_iso (time_of_text (ca_known_first_observed_at a))) (\<lambda>known.
       let identity = (case ca_data a of Some d \<Rightarrow> Some (sha d) | None \<Rightarrow> ca_raw_identity a);
           first = (if ca_legacy_first_observed_unknown a then None else min_str (present [received, known]))
       in Inr
         \<lparr>rc_observation_identity = identity,
          rc_identity_status = (if truthy identity then ''OBSERVATION_IDENTITY_READY''
                                else ''OBSERVATION_IDENTITY_UNKNOWN''),
          rc_identity_method = (if truthy identity then Some ''RAW_BYTES_SHA256'' else None),
          rc_source_identity = ca_source_identity a,
          rc_provider_or_source = ca_provider_or_source a,
          rc_raw_received_at = received,
          rc_raw_received_timezone = (if truthy received then ''UTC'' else ''UNKNOWN''),
          rc_first_observed_at = first,
          rc_first_observed_status = (if truthy first then ''RETAINED'' else ''LEGACY_UNKNOWN''),
          rc_last_observed_at = received,
          rc_observation_count = 1,
          rc_source_published_at = ca_source_published_at a,
          rc_precision = precision_value (infer_precision (ca_source_published_at a)),
          rc_tier = ca_tier a,
          rc_provider_reported_date = ca_provider_reported_date a,
          rc_provider_record_update_at = ca_provider_record_update_at a,
          rc_provider_event_at = ca_provider_event_at a,
          rc_http_response_date = header_value (ca_http_headers a) ''date'',
          rc_http_last_modified = header_value (ca_http_headers a) ''last-modified'',
          rc_http_etag = header_value (ca_http_headers a) ''etag'',
          rc_content_type = or_str (ca_content_type a) (header_value (ca_http_headers a) ''content-type''),
          rc_acquisition_method = ca_acquisition_method a,
          rc_warnings = sorted_set (ca_warnings a @ [''HTTP_METADATA_NOT_PUBLICATION_AUTHORITY''])\<rparr>))"

definition capture_with_clock :: "(string \<Rightarrow> string) \<Rightarrow> datetime \<Rightarrow> capture_args \<Rightarrow> receipt res" where
  \<comment> \<open>the second argument is the reading of the injected clock\<close>
  "capture_with_clock sha now a = capture_raw_receipt sha (Datetime now) a"

section \<open>Re-observation of identical bytes\<close>

definition newer :: "string option \<Rightarrow> string option \<Rightarrow> string option" where
  \<comment> \<open>a key of the incoming envelope replaces the old one unless it is \<open>None\<close>\<close>
  "newer existing incoming = (if incoming \<noteq> None then incoming else existing)"

definition merge_identical_reobservation :: "receipt option \<Rightarrow> receipt \<Rightarrow> receipt res" where
  "merge_identical_reobservation existing_or_none incoming =
     (case existing_or_none of None \<Rightarrow> Inr incoming
      | Some existing \<Rightarrow>
        if rc_observation_identity existing \<noteq> rc_observation_identity incoming then
          raise ValueError ''IDENTICAL_REOBSERVATION_IDENTITY_MISMATCH''
        else
          bindE (aware_iso (time_of_text (rc_first_observed_at existing))) (\<lambda>t1.
          bindE (aware_iso (time_of_text (rc_first_observed_at incoming))) (\<lambda>t2.
          let earliest = min_str (present [t1, t2]) in
          Inr (existing
            \<lparr>rc_first_observed_at := earliest,
             rc_first_observed_status := (if truthy earliest then ''RETAINED'' else ''LEGACY_UNKNOWN''),
             rc_last_observed_at := or_str (rc_last_observed_at incoming) (rc_last_observed_at existing),
             rc_observation_count :=
               (if rc_observation_count existing = 0 then 1 else rc_observation_count existing) + 1,
             rc_provider_reported_date :=
               newer (rc_provider_reported_date existing) (rc_provider_reported_date incoming),
             rc_provider_record_update_at :=
               newer (rc_provider_record_update_at existing) (rc_provider_record_update_at incoming),
             rc_provider_event_at := newer (rc_provider_event_at existing) (rc_provider_event_at incoming),
             rc_http_response_date := newer (rc_http_response_date existing) (rc_http_response_date incoming),
             rc_http_last_modified := newer (rc_http_last_modified existing) (rc_http_last_modified incoming),
             rc_http_etag := newer (rc_http_etag existing) (rc_http_etag incoming),
             rc_content_type := newer (rc_content_type existing) (rc_content_type incoming),
             rc_warnings := sorted_set (rc_warnings existing @ rc_warnings incoming)\<rparr>))))"

section \<open>Projection onto the bitemporal contract\<close>

definition enum_or :: "('a \<Rightarrow> string) \<Rightarrow> 'a list \<Rightarrow> 'a \<Rightarrow> string \<Rightarrow> 'a" where
  \<comment> \<open>the member with the value, and the given one where the class raises \<open>ValueError\<close>\<close>
  "enum_or value members dflt s = (case enum_of value members (Some s) of Inl _ \<Rightarrow> dflt | Inr m \<Rightarrow> m)"

record a1_projection =
  ap_publication_time :: publication_time
  ap_provider_metadata :: provider_temporal_metadata
  ap_first_observed_at :: "string option"
  ap_first_observed_status :: string
  ap_observation_identity :: "string option"
  ap_identity_status :: string
  ap_knowledge :: knowledge_resolution
  ap_fitness :: "string \<times> string"

definition project_retention_to_a1 :: "(int \<Rightarrow> int) \<Rightarrow> receipt \<Rightarrow> a1_projection res" where
  "project_retention_to_a1 zone envelope =
     (let tier = enum_or tier_value tiers UNVERIFIED (str_or (rc_tier envelope) ''UNVERIFIED'');
          precision = enum_or precision_value precisions PRECISION_UNKNOWN
                        (str_or (rc_precision envelope) ''UNKNOWN'');
          first = rc_first_observed_at envelope;
          publication =
            \<lparr>pt_source_published_at = rc_source_published_at envelope, pt_precision = precision, pt_tier = tier,
             pt_source_identity = rc_source_identity envelope, pt_qualification_status = ''RETAINED_METADATA'',
             pt_timezone_status = timezone_status precision\<rparr>
      in bindE (project_provider_temporal_metadata zone (rc_provider_or_source envelope)
                  [(''ReportDate'', rc_provider_reported_date envelope),
                   (''LastUpdate'', rc_provider_record_update_at envelope),
                   (''lastUpdated'', rc_provider_event_at envelope)] first) (\<lambda>(provider_meta, _, _).
         bindE (resolve_knowledge_availability zone publication first None) (\<lambda>knowledge.
         bindE (retention_fitness envelope) (\<lambda>fitness.
         Inr \<lparr>ap_publication_time = publication, ap_provider_metadata = provider_meta,
              ap_first_observed_at = first, ap_first_observed_status = rc_first_observed_status envelope,
              ap_observation_identity = rc_observation_identity envelope,
              ap_identity_status = rc_identity_status envelope, ap_knowledge = knowledge,
              ap_fitness = fitness\<rparr>))))"

section \<open>Facts about the receipt operations\<close>

lemma utc_text_Some: "utc_text t = Inr (Some x) \<Longrightarrow> \<exists>u. dt_offset t \<noteq> None \<and> x = utc_isoformat u"
  by (auto simp: utc_text_def bindE_eq_Inr split: if_splits)

lemma utc_isoformat_nonempty [simp]: "utc_isoformat t \<noteq> []"
  by (simp add: utc_isoformat_def Let_def)

lemma truthy_aware_iso: "aware_iso ts = Inr v \<Longrightarrow> truthy v \<longleftrightarrow> v \<noteq> None"
proof (cases v)
  case (Some x)
  moreover assume "aware_iso ts = Inr v"
  ultimately have "\<exists>u. x = utc_isoformat u"
    by (cases ts) (auto dest: utc_text_Some split: if_splits option.splits)
  then show ?thesis using Some by auto
qed simp

lemma fromisoformat_space: "is_space c \<Longrightarrow> datetime_fromisoformat (c # cs) = None"
proof -
  assume "is_space c"
  then have "\<not> is_digit c" by (auto simp: is_space_def is_digit_def Let_def)
  then have "parse_digits 4 (c # cs) = None"
    by (subst parse_digits_def, subst parse_digits_from_code) simp
  then show ?thesis
    by (auto simp: datetime_fromisoformat_def parse_isoformat_date_def split: option.splits)
qed

lemma parse_aware_space:
  assumes "str_strip s = []" "s \<noteq> []"
  shows "datetime_fromisoformat (str_replace ''Z'' new s) = None"
proof -
  obtain c cs where s: "s = c # cs" using assms(2) by (cases s) auto
  have "\<forall>x\<in>set s. is_space x"
    using assms(1) by (auto simp: str_strip_def dropWhile_eq_Nil_conv dest: set_dropWhileD)
       (metis dropWhile_append3 set_takeWhileD takeWhile_dropWhile_id Un_iff set_append)
  then have c: "is_space c" using s by simp
  then have "c \<noteq> CHR ''Z''" by (auto simp: is_space_def)
  then have "str_replace ''Z'' new s = c # str_replace ''Z'' new cs" using s by (simp add: starts_with_def)
  then show ?thesis using fromisoformat_space[OF c] by simp
qed

lemma aware_iso_parse_aware:
  "aware_iso (time_of_text v) = Inr w \<Longrightarrow> w \<noteq> None \<longleftrightarrow> parse_aware v \<noteq> None"
  by (cases v) (auto simp: time_of_text_def parse_aware.simps utc_text_def bindE_eq_Inr parse_aware_space str_strip_def
      split: if_splits option.splits)

lemma min_str_Some_iff: "min_str xs \<noteq> None \<longleftrightarrow> xs \<noteq> []"
  by (auto simp: min_str_def split: list.splits)

lemma min_str_eq_Min: "xs \<noteq> [] \<Longrightarrow> min_str xs = Some (Min (set xs))"
proof (cases xs)
  case (Cons a as)
  have "foldl min a as = fold min as a" by (simp add: foldl_conv_fold min.commute)
  then show ?thesis using Cons by (simp add: min_str_def Min.set_eq_fold[symmetric] del: list.set)
qed simp

lemma present_pair: "present [a, b] = (if truthy a then [the a] else []) @ (if truthy b then [the b] else [])"
  by (simp add: present_def)

lemma enum_or_precision [simp]:
  "enum_or precision_value precisions d (str_or (precision_value p) x) = p"
  by (cases p) (simp_all add: enum_or_def enum_of_def precisions_def str_or_def)

lemma qualified_tier_iff:
  "enum_or tier_value tiers UNVERIFIED t \<in> set qualified_publication_tiers \<longleftrightarrow> t \<in> set official_tier_names"
  by (auto simp: enum_or_def enum_of_def tiers_def qualified_publication_tiers_def official_tier_names_def
      raise_def)

lemma infer_precision_exact: "infer_precision v = EXACT_DATETIME \<Longrightarrow> parse_aware v \<noteq> None"
  by (auto simp: infer_precision_def split: if_splits option.splits)

lemma infer_precision_date: "infer_precision v = DATE_ONLY \<Longrightarrow> ok_date v"
  by (auto simp: infer_precision_def ok_date_def split: if_splits option.splits)


definition same_resolution :: "string \<Rightarrow> knowledge_time_status \<Rightarrow> bool" where
  "same_resolution fitness status \<longleftrightarrow>
     fitness = (case status of
         KNOWLEDGE_RESOLVED_SOURCE_PUBLICATION \<Rightarrow> ''QUALIFIED_SOURCE_PUBLICATION_EXACT''
       | KNOWLEDGE_RESOLVED_SOURCE_PUBLICATION_DATE_ONLY \<Rightarrow> ''QUALIFIED_SOURCE_PUBLICATION_DATE_ONLY''
       | KNOWLEDGE_RESOLVED_FIRST_OBSERVED_CONSERVATIVE \<Rightarrow> ''FIRST_OBSERVED_FORWARD_ONLY''
       | _ \<Rightarrow> ''BLOCKED'')"

lemma capture_precision:
  "capture_raw_receipt sha ts a = Inr r \<Longrightarrow> rc_precision r = precision_value (infer_precision (rc_source_published_at r))"
  by (auto simp: capture_raw_receipt_def bindE_eq_Inr Let_def)

lemma capture_first_observed:
  assumes "capture_raw_receipt sha ts a = Inr r"
  obtains known where "aware_iso ts = Inr (rc_raw_received_at r)"
    "aware_iso (time_of_text (ca_known_first_observed_at a)) = Inr known"
    "rc_first_observed_at r = (if ca_legacy_first_observed_unknown a then None
       else min_str (present [rc_raw_received_at r, known]))"
  using assms by (auto simp: capture_raw_receipt_def bindE_eq_Inr Let_def)

lemma resolve_knowledge_status:
  "resolve_knowledge_availability zone p first g = Inr k \<Longrightarrow> kr_status k =
    (if pt_tier p \<in> set qualified_publication_tiers \<and> pt_precision p = EXACT_DATETIME
        \<and> parse_aware (pt_source_published_at p) \<noteq> None then KNOWLEDGE_RESOLVED_SOURCE_PUBLICATION
     else if pt_tier p \<in> set qualified_publication_tiers \<and> pt_precision p = DATE_ONLY
        \<and> ok_date (pt_source_published_at p) then KNOWLEDGE_RESOLVED_SOURCE_PUBLICATION_DATE_ONLY
     else if parse_aware first \<noteq> None then KNOWLEDGE_RESOLVED_FIRST_OBSERVED_CONSERVATIVE
     else KNOWLEDGE_UNKNOWN)"
  by (auto simp: resolve_knowledge_availability_def Let_def bindE_eq_Inr knowledge_unresolved_def)

lemma project_fitness_agrees:
  assumes prec: "rc_precision r = precision_value (infer_precision (rc_source_published_at r))"
    and tier: "rc_tier r \<noteq> []"
    and proj: "project_retention_to_a1 zone r = Inr p"
  shows "same_resolution (fst (ap_fitness p)) (kr_status (ap_knowledge p))"
proof -
  define t where "t = enum_or tier_value tiers UNVERIFIED (rc_tier r)"
  define q where "q = infer_precision (rc_source_published_at r)"
  have q: "str_or (rc_precision r) ''UNKNOWN'' = precision_value q"
    unfolding prec q_def[symmetric] by (cases q) (simp_all add: str_or_def)
  have q': "enum_or precision_value precisions PRECISION_UNKNOWN (precision_value q) = q"
    using enum_or_precision[of _ q "[]"] by (cases q) (simp_all add: str_or_def)
  define pub where "pub =
    \<lparr>pt_source_published_at = rc_source_published_at r, pt_precision = q, pt_tier = t,
     pt_source_identity = rc_source_identity r, pt_qualification_status = ''RETAINED_METADATA'',
     pt_timezone_status = timezone_status q\<rparr>"
  have pub: "pt_source_published_at pub = rc_source_published_at r" "pt_precision pub = q" "pt_tier pub = t"
    by (simp_all add: pub_def)
  have t: "enum_or tier_value tiers UNVERIFIED (str_or (rc_tier r) ''UNVERIFIED'') = t"
    using tier by (simp add: t_def str_or_def)
  have know: "resolve_knowledge_availability zone pub (rc_first_observed_at r) None = Inr (ap_knowledge p)"
    and fit: "retention_fitness r = Inr (ap_fitness p)"
    using proj unfolding project_retention_to_a1_def Let_def q q' t pub_def[symmetric]
    by (auto simp: bindE_eq_Inr split_beta)
  have official: "pt_tier pub \<in> set qualified_publication_tiers \<longleftrightarrow> rc_tier r \<in> set official_tier_names"
    unfolding pub(3) t_def by (rule qualified_tier_iff)
  have names: "precision_value q = ''EXACT_DATETIME'' \<longleftrightarrow> q = EXACT_DATETIME" "precision_value q = ''DATE_ONLY'' \<longleftrightarrow> q = DATE_ONLY"
    by (cases q; simp)+
  have str_tier: "str_or (rc_tier r) ''UNVERIFIED'' = rc_tier r" using tier by (simp add: str_or_def)
  obtain first where first: "aware_iso (time_of_text (rc_first_observed_at r)) = Inr first"
    using fit by (auto simp: retention_fitness_def Let_def bindE_eq_Inr)
  have fitd: "fst (ap_fitness p) =
      (if rc_tier r \<in> set official_tier_names \<and> q = EXACT_DATETIME then ''QUALIFIED_SOURCE_PUBLICATION_EXACT''
       else if rc_tier r \<in> set official_tier_names \<and> q = DATE_ONLY then ''QUALIFIED_SOURCE_PUBLICATION_DATE_ONLY''
       else if truthy first then ''FIRST_OBSERVED_FORWARD_ONLY'' else ''BLOCKED'')"
    using fit[symmetric] unfolding retention_fitness_def Let_def q str_tier first bindE_Inr names
    by (simp split: if_splits)
  have truthy_first: "truthy first \<longleftrightarrow> parse_aware (rc_first_observed_at r) \<noteq> None"
    using truthy_aware_iso[OF first] aware_iso_parse_aware[OF first] by simp
  have "q = EXACT_DATETIME \<Longrightarrow> parse_aware (rc_source_published_at r) \<noteq> None"
    "q = DATE_ONLY \<Longrightarrow> ok_date (rc_source_published_at r)"
    unfolding q_def by (rule infer_precision_exact infer_precision_date, assumption)+
  then show ?thesis
    unfolding fitd truthy_first same_resolution_def resolve_knowledge_status[OF know] pub(1,2) official
    by auto
qed


definition sample_capture :: capture_args where
  "sample_capture =
     \<lparr>ca_data = Some ''%PDF-'', ca_source_identity = Some ''https://a/doc'', ca_provider_or_source = ''exchange'',
      ca_acquisition_method = ''http'', ca_source_published_at = Some ''2024-01-02'',
      ca_tier = ''REGULATOR_DISCLOSURE'', ca_provider_reported_date = None, ca_provider_record_update_at = None,
      ca_provider_event_at = None, ca_http_headers = [(''Content-Type'', Some ''application/pdf'')],
      ca_content_type = None, ca_known_first_observed_at = None, ca_raw_identity = None,
      ca_legacy_first_observed_unknown = False, ca_warnings = []\<rparr>"

definition sample_receipt :: "string \<Rightarrow> receipt" where
  \<comment> \<open>what \<open>sample_capture\<close> yields for a canonical UTC receipt time\<close>
  "sample_receipt at =
     \<lparr>rc_observation_identity = Some ''%PDF-'', rc_identity_status = ''OBSERVATION_IDENTITY_READY'',
      rc_identity_method = Some ''RAW_BYTES_SHA256'', rc_source_identity = Some ''https://a/doc'',
      rc_provider_or_source = ''exchange'', rc_raw_received_at = Some at, rc_raw_received_timezone = ''UTC'',
      rc_first_observed_at = Some at, rc_first_observed_status = ''RETAINED'', rc_last_observed_at = Some at,
      rc_observation_count = 1, rc_source_published_at = Some ''2024-01-02'', rc_precision = ''DATE_ONLY'',
      rc_tier = ''REGULATOR_DISCLOSURE'', rc_provider_reported_date = None, rc_provider_record_update_at = None,
      rc_provider_event_at = None, rc_http_response_date = None, rc_http_last_modified = None,
      rc_http_etag = None, rc_content_type = Some ''application/pdf'', rc_acquisition_method = ''http'',
      rc_warnings = [''HTTP_METADATA_NOT_PUBLICATION_AUTHORITY'']\<rparr>"

lemma sample_captured:
  "capture_raw_receipt id (Text_time ''2024-01-03T01:02:03Z'') sample_capture
     = Inr (sample_receipt ''2024-01-03T01:02:03Z'')"
  by code_simp

section \<open>Properties of retention\<close>

text \<open>
  The two classifications of a captured receipt agree: the fitness \<open>retention_fitness\<close> reports is
  the one of the knowledge status the bitemporal contract resolves for the same envelope, although the
  former only looks at the names of tier and precision.
\<close>

theorem captured_fitness_agrees:
  assumes "capture_raw_receipt sha ts a = Inr r" "ca_tier a \<noteq> []" "project_retention_to_a1 zone r = Inr p"
  shows "same_resolution (fst (ap_fitness p)) (kr_status (ap_knowledge p))"
proof (rule project_fitness_agrees[OF _ _ assms(3)])
  show "rc_tier r \<noteq> []"
    using assms(1,2) by (auto simp: capture_raw_receipt_def bindE_eq_Inr Let_def)
qed (rule capture_precision[OF assms(1)])

theorem captured_fitness_agrees_witness:
  "\<exists>p. project_retention_to_a1 sample_zone (sample_receipt ''2024-01-03T01:02:03Z'') = Inr p
     \<and> same_resolution (fst (ap_fitness p)) (kr_status (ap_knowledge p))"
proof -
  let ?p = "project_retention_to_a1 sample_zone (sample_receipt ''2024-01-03T01:02:03Z'')"
  have "is_ok ?p" by code_simp
  then obtain p where p: "?p = Inr p" by (cases ?p) auto
  have "ca_tier sample_capture \<noteq> []" by (simp add: sample_capture_def)
  then show ?thesis using captured_fitness_agrees[OF sample_captured _ p] p by blast
qed

text \<open>
  A re-observation of the same bytes keeps the earliest receipt: identities agree, the count grows
  by one, and the merged first observation is the least of the canonical UTC texts of both, present as
  soon as one of the two receipts has a trustworthy time.
\<close>

theorem merge_keeps_earliest:
  assumes "merge_identical_reobservation (Some e) i = Inr m"
  shows "\<exists>t1 t2. aware_iso (time_of_text (rc_first_observed_at e)) = Inr t1
      \<and> aware_iso (time_of_text (rc_first_observed_at i)) = Inr t2
      \<and> rc_first_observed_at m \<in> {t1, t2}
      \<and> (\<forall>x. Some x \<in> {t1, t2} \<longrightarrow> (\<exists>f. rc_first_observed_at m = Some f \<and> f \<le> x))
      \<and> rc_observation_identity m = rc_observation_identity i
      \<and> rc_observation_identity m = rc_observation_identity e
      \<and> (0 < rc_observation_count e \<longrightarrow> rc_observation_count m = rc_observation_count e + 1)"
proof -
  from assms obtain t1 t2 where t: "aware_iso (time_of_text (rc_first_observed_at e)) = Inr t1"
      "aware_iso (time_of_text (rc_first_observed_at i)) = Inr t2"
    and m: "rc_first_observed_at m = min_str (present [t1, t2])"
      "rc_observation_identity m = rc_observation_identity i" "rc_observation_identity m = rc_observation_identity e"
      "0 < rc_observation_count e \<longrightarrow> rc_observation_count m = rc_observation_count e + 1"
    by (auto simp: merge_identical_reobservation_def bindE_eq_Inr Let_def)
  show ?thesis
    using t m truthy_aware_iso[OF t(1)] truthy_aware_iso[OF t(2)]
    by (cases t1; cases t2) (auto simp: present_pair min_str_def min_def)
qed

theorem merge_keeps_earliest_witness:
  "\<exists>m. merge_identical_reobservation (Some (sample_receipt ''2024-01-04T00:00:00Z''))
         (sample_receipt ''2024-01-03T00:00:00Z'') = Inr m
     \<and> rc_first_observed_at m = Some ''2024-01-03T00:00:00Z'' \<and> rc_observation_count m = 2"
proof -
  define a b where ab: "a = ''2024-01-04T00:00:00Z''" "b = ''2024-01-03T00:00:00Z''"
  let ?e = "sample_receipt a" and ?i = "sample_receipt b"
  have t: "aware_iso (Text_time a) = Inr (Some a)" "aware_iso (Text_time b) = Inr (Some b)" "\<not> a \<le> b"
    unfolding ab by code_simp+
  then have r: "aware_iso (time_of_text (rc_first_observed_at ?e)) = Inr (Some a)"
    "aware_iso (time_of_text (rc_first_observed_at ?i)) = Inr (Some b)"
    by (simp_all add: sample_receipt_def time_of_text_def del: aware_iso.simps)
  have same: "rc_observation_identity ?e = rc_observation_identity ?i" "rc_observation_count ?e = 1"
    by (simp_all add: sample_receipt_def)
  obtain m where m: "merge_identical_reobservation (Some ?e) ?i = Inr m"
    by (simp add: merge_identical_reobservation_def Let_def same(1) r)
  from merge_keeps_earliest[OF m, unfolded r same] t(3)
  have "rc_first_observed_at m = Some b" "rc_observation_count m = 2" by auto
  with m show ?thesis unfolding ab by blast
qed

text \<open>
  The least text is not the earliest instant: \<open>.\<close> sorts before \<open>Z\<close>, so a re-observation half a
  second later replaces the first observation retained at a whole second.
\<close>

theorem later_fraction_replaces_first_observation:
  "\<exists>m. merge_identical_reobservation (Some (sample_receipt ''2024-01-03T00:00:00Z''))
         (sample_receipt ''2024-01-03T00:00:00.5Z'') = Inr m
     \<and> later_instant (rc_first_observed_at m) (rc_first_observed_at (sample_receipt ''2024-01-03T00:00:00Z''))"
proof -
  have t: "aware_iso (Text_time ''2024-01-03T00:00:00Z'') = Inr (Some ''2024-01-03T00:00:00Z'')"
    "aware_iso (Text_time ''2024-01-03T00:00:00.5Z'') = Inr (Some ''2024-01-03T00:00:00.500000Z'')"
    by code_simp+
  have "later_instant (Some ''2024-01-03T00:00:00.500000Z'') (Some ''2024-01-03T00:00:00Z'')" by code_simp
  then show ?thesis
    using t by (simp add: merge_identical_reobservation_def Let_def sample_receipt_def time_of_text_def present_pair
        min_str_def min_def del: aware_iso.simps)
qed

end
