(* ===== verification/Landing.thy ===== *)
theory Landing
  imports TemporalRetention
begin

text \<open>
  The document-level half of the acquisition landing framework:
  \<open>acquisition_landing_contract.py\<close>, \<open>acquisition_landing_identity.py\<close>,
  \<open>acquisition_landing_isolation.py\<close>, \<open>acquisition_landing_atomic_io.py\<close>,
  \<open>acquisition_landing_quarantine.py\<close> and \<open>acquisition_landing_retention.py\<close>.

  The file system is a map from resolved paths to contents.  What a JSON file holds is the value that
  was written to it.  An operation takes the file system and returns a result or an exception together
  with the file system it leaves, so the effects before an exception are kept.  A replace by
  \<open>os.replace\<close> is atomic; failures of the operating system itself are not modelled.  Resolving a path
  (\<open>Path.expanduser().resolve()\<close>) and SHA-256 are parameters.
\<close>

section \<open>Contract\<close>

datatype acquisition_outcome =
    ACQUIRED | ALREADY_PRESENT_IDENTICAL | QUARANTINED | FAILED_RETRYABLE | FAILED_PERMANENT | UNSUPPORTED
  | BLOCKED_BY_POLICY

fun outcome_value :: "acquisition_outcome \<Rightarrow> string" where
  "outcome_value ACQUIRED = ''ACQUIRED''"
| "outcome_value ALREADY_PRESENT_IDENTICAL = ''ALREADY_PRESENT_IDENTICAL''"
| "outcome_value QUARANTINED = ''QUARANTINED''"
| "outcome_value FAILED_RETRYABLE = ''FAILED_RETRYABLE''"
| "outcome_value FAILED_PERMANENT = ''FAILED_PERMANENT''"
| "outcome_value UNSUPPORTED = ''UNSUPPORTED''"
| "outcome_value BLOCKED_BY_POLICY = ''BLOCKED_BY_POLICY''"

definition success_outcomes :: "acquisition_outcome list" where
  "success_outcomes = [ACQUIRED, ALREADY_PRESENT_IDENTICAL]"

definition retryable_outcomes :: "acquisition_outcome list" where
  "retryable_outcomes = [FAILED_RETRYABLE]"

definition permanent_failure_outcomes :: "acquisition_outcome list" where
  "permanent_failure_outcomes = [FAILED_PERMANENT, UNSUPPORTED, BLOCKED_BY_POLICY]"

record fetch_error =
  fe_category :: string
  fe_detail :: string

definition valid_categories :: "string list" where
  "valid_categories = [''retryable'', ''permanent'', ''unsupported'', ''blocked_by_policy'']"

definition make_fetch_error :: "string \<Rightarrow> string \<Rightarrow> fetch_error res" where
  \<comment> \<open>the constructor with its \<open>__post_init__\<close>\<close>
  "make_fetch_error category detail =
     (if category \<notin> set valid_categories
      then raise AcquisitionContractError (''invalid FetchError category '' @ category)
      else Inr \<lparr>fe_category = category, fe_detail = detail\<rparr>)"

definition fetch_error_outcome :: "fetch_error \<Rightarrow> acquisition_outcome res" where
  "fetch_error_outcome e =
     (case map_of [(''retryable'', FAILED_RETRYABLE), (''permanent'', FAILED_PERMANENT),
                   (''unsupported'', UNSUPPORTED), (''blocked_by_policy'', BLOCKED_BY_POLICY)] (fe_category e) of
        None \<Rightarrow> raise KeyError (fe_category e) | Some oc \<Rightarrow> Inr oc)"

record acquisition_spec =
  as_domain :: string
  as_source_locator :: string
  as_authority_class :: string
  as_issuer_identity :: "string option"
  as_document_type :: "string option"
  as_method :: string
  as_method_version :: string

definition logical_identity_basis :: "acquisition_spec \<Rightarrow> string" where
  "logical_identity_basis spec = as_domain spec @ [CHR 0x0A] @ as_source_locator spec"

record raw_record =
  rr_run_id :: string
  rr_spec :: acquisition_spec \<comment> \<open>the seven fields copied from the specification\<close>
  rr_observed_at :: string
  rr_source_published_at :: "string option"
  rr_http_status :: "int option"
  rr_original_filename :: "string option"
  rr_content_type :: "string option"
  rr_byte_size :: "nat option"
  rr_sha256 :: "string option"
  rr_storage_locator :: "string option"
  rr_supersedes :: "string option"
  rr_outcome :: acquisition_outcome
  rr_outcome_reason :: "string option"
  rr_qualification_state :: string
  rr_temporal :: "receipt option"

definition build_record ::
  "string \<Rightarrow> acquisition_spec \<Rightarrow> string \<Rightarrow> acquisition_outcome \<Rightarrow> string option \<Rightarrow> string option
     \<Rightarrow> int option \<Rightarrow> string option \<Rightarrow> string option \<Rightarrow> nat option \<Rightarrow> string option \<Rightarrow> string option
     \<Rightarrow> string option \<Rightarrow> receipt option \<Rightarrow> raw_record res" where
  "build_record run_id spec observed_at oc reason published http_status filename content_type byte_size sha256
       storage_locator supersedes temporal =
     (if oc \<in> set success_outcomes \<and> sha256 = None then
        raise IncompleteObservationError
          (''outcome '' @ outcome_value oc @ '' requires a sha256; a success record may never be empty'')
      else if oc \<notin> set success_outcomes \<and> reason = None then
        raise IncompleteObservationError (''outcome '' @ outcome_value oc @ '' requires an outcome_reason'')
      else Inr
        \<lparr>rr_run_id = run_id, rr_spec = spec, rr_observed_at = observed_at, rr_source_published_at = published,
         rr_http_status = http_status, rr_original_filename = filename, rr_content_type = content_type,
         rr_byte_size = byte_size, rr_sha256 = sha256, rr_storage_locator = storage_locator,
         rr_supersedes = supersedes, rr_outcome = oc, rr_outcome_reason = reason,
         rr_qualification_state = ''unknown'', rr_temporal = temporal\<rparr>)"

definition logical_identity :: "(string \<Rightarrow> string) \<Rightarrow> acquisition_spec \<Rightarrow> string" where
  "logical_identity sha spec = sha (logical_identity_basis spec)"

section \<open>Files\<close>

type_synonym path = "string list"

record quarantine_record =
  qr_run_id :: string
  qr_domain :: string
  qr_source_locator :: string
  qr_reason :: string
  qr_observed_at :: string
  qr_byte_size :: "nat option"
  qr_sha256 :: "string option"
  qr_stored_path :: "string option"
  qr_content_type :: "string option"
  qr_original_filename :: "string option"

record blob_entry =
  be_sha256 :: string
  be_byte_size :: "nat option"
  be_storage_locator :: "string option"
  be_content_type :: "string option"
  be_first_observed_at :: "string option"
  be_first_run_id :: string
  be_temporal :: "receipt option"

record content_manifest =
  cm_blobs :: "string \<rightharpoonup> blob_entry"
  cm_latest :: "string \<rightharpoonup> string"

text \<open>
  What a checkpoint remembers of a finished item: the record, or what is known of an item that violated
  the contract.
\<close>

datatype item_record =
    Recorded raw_record
  | Contract_failure string string string string \<comment> \<open>run, domain, locator, reason\<close>

record run_checkpoint =
  ck_run_id :: string
  ck_status :: string
  ck_completed :: "string \<rightharpoonup> item_record"

record run_report =
  rp_run_id :: string
  rp_domain :: string
  rp_status :: string
  rp_attempted :: nat
  rp_succeeded :: nat
  rp_skipped :: nat
  rp_quarantined :: nat
  rp_failed_retryable :: nat
  rp_failed_permanent :: nat
  rp_records :: "item_record list"

datatype content =
    Blob string
  | Manifest_file content_manifest
  | Checkpoint_file run_checkpoint
  | Quarantine_file "quarantine_record list"
  | Report_file run_report

type_synonym fs = "path \<rightharpoonup> content"
type_synonym 'a io = "fs \<Rightarrow> 'a res \<times> fs"

definition io_return :: "'a \<Rightarrow> 'a io" where
  "io_return v = (\<lambda>s. (Inr v, s))"

definition io_lift :: "'a res \<Rightarrow> 'a io" where
  "io_lift r = (\<lambda>s. (r, s))"

definition io_bind :: "'a io \<Rightarrow> ('a \<Rightarrow> 'b io) \<Rightarrow> 'b io" where
  "io_bind m k = (\<lambda>s. case m s of (Inl e, s') \<Rightarrow> (Inl e, s') | (Inr v, s') \<Rightarrow> k v s')"

declare io_bind_def [code_unfold]

definition write_file :: "path \<Rightarrow> content \<Rightarrow> unit io" where
  \<comment> \<open>\<open>atomic_write_bytes\<close> and \<open>atomic_write_json\<close>, on a resolved path\<close>
  "write_file p c = (\<lambda>s. (Inr (), s(p \<mapsto> c)))"

definition bytes_at :: "content \<Rightarrow> string" where
  \<comment> \<open>a content-addressed path that holds a JSON file reads as the bytes of that file, which are no
     document: they are represented by the empty bytes\<close>
  "bytes_at c = (case c of Blob d \<Rightarrow> d | _ \<Rightarrow> [])"

section \<open>Write isolation\<close>

record landing_env =
  env_sha :: "string \<Rightarrow> string"
  env_resolve :: "path \<Rightarrow> path"
  env_landing_root :: path
  env_allowed_root :: path
  env_protected_roots :: "path list"
  env_extra_protected :: "path list"

definition path_str :: "path \<Rightarrow> string" where
  "path_str p = ''/'' @ str_join ''/'' p"

definition is_under_or_equal :: "path \<Rightarrow> path \<Rightarrow> bool" where
  \<comment> \<open>\<open>candidate == root or root in candidate.parents\<close>\<close>
  "is_under_or_equal candidate root = (take (length root) candidate = root)"

definition path_name :: "path \<Rightarrow> string" where
  "path_name p = (if p = [] then [] else last p)"

definition protected_filename_prefixes :: "string list" where
  "protected_filename_prefixes = [''vn_stock.db'']"

definition default_protected_root_names :: "string list" where
  "default_protected_root_names =
     [''dashboard-runtime'', ''ai-runtime'', ''ai-core-private'', ''publish'', ''stock-core-private'']"

definition default_protected_roots :: "(path \<Rightarrow> path) \<Rightarrow> path \<Rightarrow> path list" where
  "default_protected_roots resolve workspace_root =
     map (\<lambda>name. resolve workspace_root @ [name]) default_protected_root_names"

definition assert_write_allowed :: "landing_env \<Rightarrow> path \<Rightarrow> path res" where
  "assert_write_allowed env target =
     (let resolved = env_resolve env target; allowed = env_resolve env (env_allowed_root env) in
      (case find (\<lambda>p. is_under_or_equal resolved (env_resolve env p))
              (env_protected_roots env @ env_extra_protected env) of
         Some p \<Rightarrow> raise ProtectedRootWriteError
                     (''refusing to write under protected root '' @ path_str (env_resolve env p)
                      @ '': target='' @ path_str resolved)
       | None \<Rightarrow>
         if list_ex (\<lambda>prefix. starts_with (str_lower (path_name resolved)) prefix) protected_filename_prefixes then
           raise ProtectedRootWriteError
             (''refusing to write a file matching protected production-database name (''
              @ ''vn_stock.db): '' @ path_str resolved)
         else if \<not> is_under_or_equal resolved allowed then
           raise ProtectedRootWriteError
             (''refusing to write outside the allowed landing root '' @ path_str allowed @ '': '' @ path_str resolved)
         else Inr resolved))"

definition guarded_write :: "landing_env \<Rightarrow> path \<Rightarrow> content \<Rightarrow> unit io" where
  \<comment> \<open>the guard, then the atomic write\<close>
  "guarded_write env target c =
     io_bind (io_lift (assert_write_allowed env target)) (\<lambda>_. write_file (env_resolve env target) c)"

section \<open>Quarantine\<close>

definition quarantine_manifest_path :: "landing_env \<Rightarrow> path" where
  "quarantine_manifest_path env = env_landing_root env @ [''quarantine'', ''quarantine_manifest.json'']"

definition load_quarantine_manifest :: "landing_env \<Rightarrow> quarantine_record list io" where
  "load_quarantine_manifest env =
     (\<lambda>s. case s (env_resolve env (quarantine_manifest_path env)) of
            None \<Rightarrow> (Inr [], s)
          | Some (Quarantine_file rs) \<Rightarrow> (Inr rs, s)
          | Some _ \<Rightarrow> (raise ValueError ''JSONDecodeError'', s))"

definition quarantine_blob_name :: "landing_env \<Rightarrow> string \<Rightarrow> string \<Rightarrow> string option \<Rightarrow> string" where
  "quarantine_blob_name env run_id source_locator sha256 =
     (if truthy sha256 then the sha256 @ ''.bin''
      else ''unhashable-'' @ env_sha env (run_id @ [CHR 0x0A] @ source_locator) @ ''.bin'')"

definition quarantine_item ::
  "landing_env \<Rightarrow> string \<Rightarrow> acquisition_spec \<Rightarrow> string \<Rightarrow> string \<Rightarrow> string option \<Rightarrow> string option
     \<Rightarrow> string option \<Rightarrow> string option \<Rightarrow> quarantine_record io" where
  "quarantine_item env run_id spec reason observed data sha256 content_type original_filename =
     (let name = quarantine_blob_name env run_id (as_source_locator spec) sha256;
          blob = env_landing_root env @ [''quarantine'', ''blobs'', name];
          record =
            \<lparr>qr_run_id = run_id, qr_domain = as_domain spec, qr_source_locator = as_source_locator spec,
             qr_reason = reason, qr_observed_at = observed, qr_byte_size = map_option length data,
             qr_sha256 = sha256,
             qr_stored_path = (if data \<noteq> None then Some (''quarantine/blobs/'' @ name) else None),
             qr_content_type = content_type, qr_original_filename = original_filename\<rparr>
      in io_bind (case data of None \<Rightarrow> io_return () | Some d \<Rightarrow> guarded_write env blob (Blob d)) (\<lambda>_.
         io_bind (io_lift (assert_write_allowed env (quarantine_manifest_path env))) (\<lambda>_.
         io_bind (load_quarantine_manifest env) (\<lambda>existing.
         io_bind (write_file (env_resolve env (quarantine_manifest_path env))
                    (Quarantine_file (existing @ [record]))) (\<lambda>_.
         io_return record)))))"

section \<open>Retention of one document\<close>

definition blob_path :: "landing_env \<Rightarrow> string \<Rightarrow> string \<Rightarrow> path" where
  "blob_path env sha256 ext = env_landing_root env @ [''raw'', ''blobs'', sha256 @ ext]"

definition blob_locator :: "string \<Rightarrow> string \<Rightarrow> string" where
  \<comment> \<open>the blob path relative to the landing root\<close>
  "blob_locator sha256 ext = ''raw/blobs/'' @ sha256 @ ext"

definition default_pdf_validator :: "string \<Rightarrow> string option \<Rightarrow> string option" where
  "default_pdf_validator data content_type =
     (if data = [] then Some ''empty_document''
      else if \<not> starts_with data ''%PDF-'' then Some ''not_a_pdf_header''
      else if content_type \<noteq> None \<and> content_type \<noteq> Some ''application/pdf''
      then Some (''content_type_mismatch:'' @ the content_type)
      else None)"

record retain_args =
  ra_data :: "string option"
  ra_fetch_error :: "fetch_error option"
  ra_declared_sha256 :: "string option"
  ra_http_status :: "int option"
  ra_content_type :: "string option"
  ra_original_filename :: "string option"
  ra_source_published_at :: "string option"
  ra_tier :: string
  ra_provider_or_source :: "string option"
  ra_provider_reported_date :: "string option"
  ra_provider_record_update_at :: "string option"
  ra_provider_event_at :: "string option"
  ra_http_headers :: str_dict
  ra_validator :: "(string \<Rightarrow> string option \<Rightarrow> string option) option"
  ra_file_suffix :: string

definition receipt_args :: "acquisition_spec \<Rightarrow> retain_args \<Rightarrow> string \<Rightarrow> string option \<Rightarrow> bool \<Rightarrow> capture_args" where
  "receipt_args spec a data known_first legacy =
     \<lparr>ca_data = Some data, ca_source_identity = Some (as_source_locator spec),
      ca_provider_or_source = the (or_str (ra_provider_or_source a) (Some (as_authority_class spec))),
      ca_acquisition_method = as_method spec, ca_source_published_at = ra_source_published_at a,
      ca_tier = ra_tier a, ca_provider_reported_date = ra_provider_reported_date a,
      ca_provider_record_update_at = ra_provider_record_update_at a,
      ca_provider_event_at = ra_provider_event_at a, ca_http_headers = ra_http_headers a,
      ca_content_type = ra_content_type a, ca_known_first_observed_at = known_first, ca_raw_identity = None,
      ca_legacy_first_observed_unknown = legacy, ca_warnings = []\<rparr>"

definition quarantined_record ::
  "landing_env \<Rightarrow> string \<Rightarrow> acquisition_spec \<Rightarrow> string \<Rightarrow> retain_args \<Rightarrow> string \<Rightarrow> receipt \<Rightarrow> string
     \<Rightarrow> string option \<Rightarrow> raw_record io" where
  \<comment> \<open>quarantine the bytes for the reason and record that outcome\<close>
  "quarantined_record env run_id spec observed a data temporal reason sha256 =
     io_bind (quarantine_item env run_id spec reason observed (Some data) sha256
                (ra_content_type a) (ra_original_filename a)) (\<lambda>q.
     io_lift (build_record run_id spec observed QUARANTINED (Some (qr_reason q)) (ra_source_published_at a)
                (ra_http_status a) (ra_original_filename a) (ra_content_type a) (Some (length data))
                sha256 None None (Some temporal)))"

definition retain_valid ::
  "landing_env \<Rightarrow> string \<Rightarrow> acquisition_spec \<Rightarrow> string \<Rightarrow> string option \<Rightarrow> retain_args \<Rightarrow> string \<Rightarrow> receipt
     \<Rightarrow> raw_record io" where
  \<comment> \<open>the store: present already, or written and read back\<close>
  "retain_valid env run_id spec observed known_latest a data temporal =
     (let sha256 = env_sha env data;
          target = blob_path env sha256 (ra_file_suffix a);
          finish = (\<lambda>oc supersedes. io_lift
            (build_record run_id spec observed oc None (ra_source_published_at a) (ra_http_status a)
               (ra_original_filename a) (ra_content_type a) (Some (length data)) (Some sha256)
               (Some (blob_locator sha256 (ra_file_suffix a))) supersedes (Some temporal)))
      in io_bind (io_lift (assert_write_allowed env target)) (\<lambda>_. (\<lambda>s.
           case s (env_resolve env target) of
             Some c \<Rightarrow>
               if env_sha env (bytes_at c) \<noteq> sha256 then
                 (raise HashConflictError
                    (''existing blob at '' @ path_str target @ '' hashes to '' @ env_sha env (bytes_at c)
                     @ '', expected '' @ sha256), s)
               else finish ALREADY_PRESENT_IDENTICAL None s
           | None \<Rightarrow>
               io_bind (write_file (env_resolve env target) (Blob data)) (\<lambda>_. (\<lambda>s'.
                 case s' (env_resolve env target) of
                   None \<Rightarrow> (raise KeyError ''FileNotFoundError'', s')
                 | Some c' \<Rightarrow>
                   if env_sha env (bytes_at c') \<noteq> sha256 then
                     (raise HashConflictError
                        (''post-write verification failed for '' @ path_str target @ '': wrote '' @ sha256
                         @ '', read back '' @ env_sha env (bytes_at c')), s')
                   else finish ACQUIRED
                          (if truthy known_latest \<and> known_latest \<noteq> Some sha256 then known_latest else None) s')) s)))"

definition retain ::
  "landing_env \<Rightarrow> string \<Rightarrow> acquisition_spec \<Rightarrow> string \<Rightarrow> string option \<Rightarrow> string option \<Rightarrow> bool
     \<Rightarrow> retain_args \<Rightarrow> raw_record io" where
  "retain env run_id spec observed known_latest known_first legacy a =
     (case (ra_data a, ra_fetch_error a) of
        (None, None) \<Rightarrow> io_lift (raise ValueError ''retain() requires data or fetch_error - never a silent empty success'')
      | (None, Some e) \<Rightarrow>
          io_bind (io_lift (fetch_error_outcome e)) (\<lambda>oc.
          io_lift (build_record run_id spec observed oc (Some (fe_detail e)) (ra_source_published_at a)
                     (ra_http_status a) None None None None None None None))
      | (Some data, _) \<Rightarrow>
          io_bind (io_lift (capture_raw_receipt (env_sha env) (Text_time observed)
                              (receipt_args spec a data known_first legacy))) (\<lambda>temporal.
          if ra_declared_sha256 a \<noteq> None \<and> Some (env_sha env data) \<noteq> ra_declared_sha256 a then
            quarantined_record env run_id spec observed a data temporal
              (''declared_sha256_mismatch:declared='' @ the (ra_declared_sha256 a) @ '':actual='' @ env_sha env data)
              (Some (env_sha env data))
          else
            (let invalid_reason = (case ra_validator a of None \<Rightarrow> None | Some v \<Rightarrow> v data (ra_content_type a)) in
             if truthy invalid_reason then
               quarantined_record env run_id spec observed a data temporal (the invalid_reason)
                 (if data \<noteq> [] then Some (env_sha env data) else None)
             else retain_valid env run_id spec observed known_latest a data temporal)))"

end
