(* ===== verification/LandingBatch.thy ===== *)
theory LandingBatch
  imports Landing
begin

text \<open>
  The batch half of the acquisition landing framework,
  \<open>stocklookup_core/acquisition/acquisition_landing_checkpoint.py\<close>: the content manifest, the per-run
  checkpoint, and \<open>process_batch\<close>, which retains one document after the other, recording each in the
  manifest and the checkpoint before the next.

  The clock \<open>observed_at_fn\<close> is a function of the number of its earlier calls in the run.
\<close>

definition content_manifest_path :: "landing_env \<Rightarrow> path" where
  "content_manifest_path env = env_landing_root env @ [''manifests'', ''content_manifest.json'']"

definition checkpoint_path :: "landing_env \<Rightarrow> string \<Rightarrow> path" where
  "checkpoint_path env run_id = env_landing_root env @ [''checkpoints'', run_id @ ''.checkpoint.json'']"

definition run_report_path :: "landing_env \<Rightarrow> string \<Rightarrow> path" where
  "run_report_path env run_id = env_landing_root env @ [''run-reports'', run_id @ ''.report.json'']"

definition empty_manifest :: content_manifest where
  "empty_manifest = \<lparr>cm_blobs = Map.empty, cm_latest = Map.empty\<rparr>"

definition fresh_checkpoint :: "string \<Rightarrow> run_checkpoint" where
  "fresh_checkpoint run_id = \<lparr>ck_run_id = run_id, ck_status = ''not_started'', ck_completed = Map.empty\<rparr>"

definition load_content_manifest :: "landing_env \<Rightarrow> fs \<Rightarrow> content_manifest res" where
  "load_content_manifest env s =
     (case s (env_resolve env (content_manifest_path env)) of
        None \<Rightarrow> Inr empty_manifest
      | Some (Manifest_file m) \<Rightarrow> Inr m
      | Some _ \<Rightarrow> raise ValueError ''JSONDecodeError'')"

definition load_checkpoint :: "landing_env \<Rightarrow> string \<Rightarrow> fs \<Rightarrow> run_checkpoint res" where
  "load_checkpoint env run_id s =
     (case s (env_resolve env (checkpoint_path env run_id)) of
        None \<Rightarrow> Inr (fresh_checkpoint run_id)
      | Some (Checkpoint_file c) \<Rightarrow> Inr c
      | Some _ \<Rightarrow> raise ValueError ''JSONDecodeError'')"

definition write_content_manifest :: "landing_env \<Rightarrow> content_manifest \<Rightarrow> unit io" where
  "write_content_manifest env m = guarded_write env (content_manifest_path env) (Manifest_file m)"

definition write_checkpoint :: "landing_env \<Rightarrow> run_checkpoint \<Rightarrow> unit io" where
  "write_checkpoint env c = guarded_write env (checkpoint_path env (ck_run_id c)) (Checkpoint_file c)"

definition first_observed_of :: "raw_record \<Rightarrow> string option" where
  \<comment> \<open>\<open>(record.temporal_retention or {}).get("first_observed_at")\<close>\<close>
  "first_observed_of r = (case rr_temporal r of None \<Rightarrow> None | Some t \<Rightarrow> rc_first_observed_at t)"

definition record_into_manifest ::
  "(string \<Rightarrow> string) \<Rightarrow> content_manifest \<Rightarrow> acquisition_spec \<Rightarrow> raw_record \<Rightarrow> content_manifest" where
  "record_into_manifest sha m spec r =
     (case (rr_outcome r \<in> set success_outcomes, rr_sha256 r) of
        (True, Some h) \<Rightarrow>
          (let entry =
             (case cm_blobs m h of
                None \<Rightarrow> \<lparr>be_sha256 = h, be_byte_size = rr_byte_size r, be_storage_locator = rr_storage_locator r,
                         be_content_type = rr_content_type r,
                         be_first_observed_at = or_str (first_observed_of r) (Some (rr_observed_at r)),
                         be_first_run_id = rr_run_id r, be_temporal = rr_temporal r\<rparr>
              | Some e \<Rightarrow>
                  if rr_temporal r \<noteq> None then
                    e\<lparr>be_temporal := rr_temporal r,
                      be_first_observed_at := or_str (first_observed_of r) (be_first_observed_at e)\<rparr>
                  else e)
           in \<lparr>cm_blobs = (cm_blobs m)(h \<mapsto> entry), cm_latest = (cm_latest m)(logical_identity sha spec \<mapsto> h)\<rparr>)
      | _ \<Rightarrow> m)"

record batch_state =
  bs_manifest :: content_manifest
  bs_checkpoint :: run_checkpoint
  bs_report :: run_report
  bs_tick :: nat

definition contract_errors :: "exc_class list" where
  \<comment> \<open>\<open>AcquisitionContractError\<close> and its subclasses\<close>
  "contract_errors = [AcquisitionContractError, HashConflictError, ProtectedRootWriteError, IncompleteObservationError]"

fun exc_name :: "exc_class \<Rightarrow> string" where
  "exc_name HashConflictError = ''HashConflictError''"
| "exc_name ProtectedRootWriteError = ''ProtectedRootWriteError''"
| "exc_name IncompleteObservationError = ''IncompleteObservationError''"
| "exc_name _ = ''AcquisitionContractError''"

definition known_first_of :: "(string \<Rightarrow> string) \<Rightarrow> content_manifest \<Rightarrow> string option \<Rightarrow> string option \<times> bool" where
  \<comment> \<open>the first observation known for the bytes, and whether they are retained without one\<close>
  "known_first_of sha m data =
     (case data of None \<Rightarrow> (None, False)
      | Some d \<Rightarrow>
        (case cm_blobs m (sha d) of None \<Rightarrow> (None, False)
         | Some e \<Rightarrow> if be_temporal e = None then (None, True) else (be_first_observed_at e, False)))"

definition finish_item :: "landing_env \<Rightarrow> string \<Rightarrow> item_record \<Rightarrow> batch_state \<Rightarrow> batch_state io" where
  \<comment> \<open>append to the report, mark completed, and write the checkpoint\<close>
  "finish_item env li item st =
     (let c = (bs_checkpoint st)\<lparr>ck_completed := (ck_completed (bs_checkpoint st))(li \<mapsto> item)\<rparr>;
          rep = (bs_report st)\<lparr>rp_records := rp_records (bs_report st) @ [item]\<rparr>
      in io_bind (write_checkpoint env c) (\<lambda>_.
         io_return (st\<lparr>bs_checkpoint := c, bs_report := rep\<rparr>)))"

definition merge_with_manifest :: "content_manifest \<Rightarrow> raw_record \<Rightarrow> raw_record res" where
  \<comment> \<open>a success whose bytes already have a retained receipt gets the merged receipt\<close>
  "merge_with_manifest m r =
     (case (rr_temporal r, (case rr_sha256 r of None \<Rightarrow> None | Some h \<Rightarrow> cm_blobs m h)) of
        (Some t, Some e) \<Rightarrow>
          (case be_temporal e of None \<Rightarrow> Inr r
           | Some t0 \<Rightarrow> bindE (merge_identical_reobservation (Some t0) t) (\<lambda>t'. Inr (r\<lparr>rr_temporal := Some t'\<rparr>)))
      | _ \<Rightarrow> Inr r)"

definition count_attempt :: "batch_state \<Rightarrow> batch_state" where
  "count_attempt st = st\<lparr>bs_report := (bs_report st)\<lparr>rp_attempted := Suc (rp_attempted (bs_report st))\<rparr>\<rparr>"

definition record_item ::
  "landing_env \<Rightarrow> acquisition_spec \<Rightarrow> string \<Rightarrow> raw_record \<Rightarrow> batch_state \<Rightarrow> batch_state io" where
  \<comment> \<open>what follows a \<open>retain\<close> that returned\<close>
  "record_item env spec li r st =
     (let rep = bs_report st in
      if rr_outcome r \<in> set success_outcomes then
        io_bind (io_lift (merge_with_manifest (bs_manifest st) r)) (\<lambda>r'.
        let m = record_into_manifest (env_sha env) (bs_manifest st) spec r' in
        io_bind (write_content_manifest env m) (\<lambda>_.
        finish_item env li (Recorded r')
          (st\<lparr>bs_manifest := m, bs_report := rep\<lparr>rp_succeeded := Suc (rp_succeeded rep)\<rparr>\<rparr>)))
      else
        finish_item env li (Recorded r)
          (st\<lparr>bs_report :=
             (if rr_outcome r = QUARANTINED then rep\<lparr>rp_quarantined := Suc (rp_quarantined rep)\<rparr>
              else if rr_outcome r \<in> set retryable_outcomes
              then rep\<lparr>rp_failed_retryable := Suc (rp_failed_retryable rep)\<rparr>
              else if rr_outcome r \<in> set permanent_failure_outcomes
              then rep\<lparr>rp_failed_permanent := Suc (rp_failed_permanent rep)\<rparr> else rep)\<rparr>))"

definition batch_step ::
  "landing_env \<Rightarrow> string \<Rightarrow> (nat \<Rightarrow> string) \<Rightarrow> acquisition_spec \<times> retain_args \<Rightarrow> batch_state \<Rightarrow> batch_state io" where
  "batch_step env run_id clock item st0 =
     (let (spec, args) = item; st = count_attempt st0; rep = bs_report st;
          li = logical_identity (env_sha env) spec in
      case ck_completed (bs_checkpoint st) li of
        Some done \<Rightarrow>
          io_return (st\<lparr>bs_report := rep\<lparr>rp_skipped := Suc (rp_skipped rep), rp_records := rp_records rep @ [done]\<rparr>\<rparr>)
      | None \<Rightarrow>
          (let (known_first, legacy) = known_first_of (env_sha env) (bs_manifest st) (ra_data args);
               st' = st\<lparr>bs_tick := Suc (bs_tick st)\<rparr>
           in (\<lambda>s. case retain env run_id spec (clock (bs_tick st)) (cm_latest (bs_manifest st) li)
                        known_first legacy args s of
                     (Inr r, s') \<Rightarrow> record_item env spec li r st' s'
                   | (Inl e, s') \<Rightarrow>
                       if exc_class e \<in> set contract_errors then
                         finish_item env li
                           (Contract_failure run_id (as_domain spec) (as_source_locator spec)
                              (exc_name (exc_class e) @ '': '' @ exc_message e))
                           (st'\<lparr>bs_report := rep\<lparr>rp_failed_permanent := Suc (rp_failed_permanent rep)\<rparr>\<rparr>) s'
                       else (Inl e, s'))))"

fun batch_loop ::
  "landing_env \<Rightarrow> string \<Rightarrow> (nat \<Rightarrow> string) \<Rightarrow> (acquisition_spec \<times> retain_args) list \<Rightarrow> batch_state
     \<Rightarrow> batch_state io" where
  "batch_loop env run_id clock [] st = io_return st"
| "batch_loop env run_id clock (item # items) st =
     io_bind (batch_step env run_id clock item st) (batch_loop env run_id clock items)"

definition new_report :: "string \<Rightarrow> string \<Rightarrow> run_report" where
  "new_report run_id domain =
     \<lparr>rp_run_id = run_id, rp_domain = domain, rp_status = ''in_progress'', rp_attempted = 0, rp_succeeded = 0,
      rp_skipped = 0, rp_quarantined = 0, rp_failed_retryable = 0, rp_failed_permanent = 0, rp_records = []\<rparr>"

definition start_batch :: "landing_env \<Rightarrow> string \<Rightarrow> string \<Rightarrow> bool \<Rightarrow> fs \<Rightarrow> batch_state res" where
  "start_batch env run_id domain resume s =
     bindE (load_content_manifest env s) (\<lambda>m.
     bindE (if resume then load_checkpoint env run_id s else Inr (fresh_checkpoint run_id)) (\<lambda>c.
     Inr \<lparr>bs_manifest = m, bs_checkpoint = c\<lparr>ck_status := ''in_progress''\<rparr>,
          bs_report = new_report run_id domain, bs_tick = 0\<rparr>))"

definition finish_batch :: "landing_env \<Rightarrow> string \<Rightarrow> batch_state \<Rightarrow> run_report io" where
  "finish_batch env run_id st =
     (let report = (bs_report st)\<lparr>rp_status := ''completed''\<rparr> in
      io_bind (write_checkpoint env ((bs_checkpoint st)\<lparr>ck_status := ''completed''\<rparr>)) (\<lambda>_.
      io_bind (guarded_write env (run_report_path env run_id) (Report_file report)) (\<lambda>_.
      io_return report)))"

definition process_batch ::
  "landing_env \<Rightarrow> (acquisition_spec \<times> retain_args) list \<Rightarrow> string \<Rightarrow> string \<Rightarrow> (nat \<Rightarrow> string) \<Rightarrow> bool
     \<Rightarrow> run_report io" where
  "process_batch env items run_id domain clock resume =
     (\<lambda>s. io_bind (io_lift (start_batch env run_id domain resume s)) (\<lambda>st.
          io_bind (batch_loop env run_id clock items st) (finish_batch env run_id)) s)"

end
