(* ===== verification/LandingSafety.thy ===== *)
theory LandingSafety
  imports LandingBatch
begin

text \<open>
  What the landing framework never does, whatever the input and even when it raises: write outside its
  allowed root or into a protected one, change a blob that exists, or store a blob under another name
  than its hash.  Each is a relation between the file systems before and after an operation; the locale
  \<open>io_effect\<close> lifts such a relation through the composition of operations, and is interpreted for both.
\<close>

definition io_keeps :: "(fs \<Rightarrow> fs \<Rightarrow> bool) \<Rightarrow> 'a io \<Rightarrow> bool" where
  "io_keeps R m \<longleftrightarrow> (\<forall>s. R s (snd (m s)))"

locale io_effect =
  fixes R :: "fs \<Rightarrow> fs \<Rightarrow> bool"
  assumes refl: "R s s"
    and trans: "R s t \<Longrightarrow> R t u \<Longrightarrow> R s u"
begin

lemma return: "io_keeps R (io_return v)"
  by (simp add: io_keeps_def io_return_def refl)

lemma lift: "io_keeps R (io_lift r)"
  by (simp add: io_keeps_def io_lift_def refl)

lemma bind:
  assumes "io_keeps R m" "\<And>v. io_keeps R (k v)"
  shows "io_keeps R (io_bind m k)"
  unfolding io_keeps_def
proof
  fix s
  have "R s (snd (m s))" using assms(1) by (simp add: io_keeps_def)
  then show "R s (snd (io_bind m k s))"
    using assms(2) trans by (auto simp: io_bind_def io_keeps_def split: prod.splits sum.splits)
qed

lemma bind_if_ok:
  \<comment> \<open>what follows a lifted result only has to respect the relation if the result is no exception\<close>
  assumes "\<And>v. r = Inr v \<Longrightarrow> io_keeps R (k v)"
  shows "io_keeps R (io_bind (io_lift r) k)"
  using assms by (cases r) (auto simp: io_bind_def io_lift_def io_keeps_def refl)

end

section \<open>Permitted writes\<close>

definition write_permitted :: "landing_env \<Rightarrow> path \<Rightarrow> bool" where
  "write_permitted env p \<longleftrightarrow>
     is_under_or_equal p (env_resolve env (env_allowed_root env))
     \<and> (\<forall>root\<in>set (env_protected_roots env @ env_extra_protected env). \<not> is_under_or_equal p (env_resolve env root))
     \<and> \<not> starts_with (str_lower (path_name p)) ''vn_stock.db''"

lemma assert_write_allowed_iff:
  "assert_write_allowed env target = Inr p \<longleftrightarrow> p = env_resolve env target \<and> write_permitted env p"
proof (cases "find (\<lambda>p. is_under_or_equal (env_resolve env target) (env_resolve env p))
    (env_protected_roots env @ env_extra_protected env)")
  case None
  then have "\<forall>p\<in>set (env_protected_roots env @ env_extra_protected env).
      \<not> is_under_or_equal (env_resolve env target) (env_resolve env p)"
    unfolding find_None_iff by blast
  then show ?thesis
    unfolding assert_write_allowed_def Let_def None write_permitted_def protected_filename_prefixes_def by auto
next
  case (Some q)
  then have "q \<in> set (env_protected_roots env @ env_extra_protected env)"
    "is_under_or_equal (env_resolve env target) (env_resolve env q)"
    by (metis find_Some_iff nth_mem)+
  then show ?thesis using Some by (auto simp: assert_write_allowed_def Let_def write_permitted_def)
qed

text \<open>
  The writes of the framework: files below \<open>quarantine\<close> and new blobs under the name of their hash by
  the retention of one document, and the bookkeeping files of a batch.  A relation that allows the
  former is kept by \<open>retain\<close>, one that allows all of them by every operation.
\<close>

locale retain_effect = io_effect R for R :: "fs \<Rightarrow> fs \<Rightarrow> bool" +
  fixes env :: landing_env
  assumes quarantine_write: "write_permitted env (env_resolve env (env_landing_root env @ ''quarantine'' # rest))
      \<Longrightarrow> R s (s(env_resolve env (env_landing_root env @ ''quarantine'' # rest) \<mapsto> c))"
    and new_blob: "write_permitted env (env_resolve env (blob_path env (env_sha env d) ext))
      \<Longrightarrow> s (env_resolve env (blob_path env (env_sha env d) ext)) = None
      \<Longrightarrow> R s (s(env_resolve env (blob_path env (env_sha env d) ext) \<mapsto> Blob d))"
begin

lemma quarantine_guarded: "io_keeps R (guarded_write env (env_landing_root env @ ''quarantine'' # rest) c)"
  unfolding guarded_write_def
  by (rule bind_if_ok) (auto simp: io_keeps_def write_file_def assert_write_allowed_iff intro: quarantine_write)

lemma read_only: "(\<And>s. snd (m s) = s) \<Longrightarrow> io_keeps R m"
  by (simp add: io_keeps_def refl)

lemma quarantine_item: "io_keeps R (quarantine_item env run spec why at d h ct fn)"
proof -
  have load: "io_keeps R (load_quarantine_manifest env)"
    by (rule read_only) (simp add: load_quarantine_manifest_def split: option.split content.split)
  have blob: "io_keeps R (guarded_write env (env_landing_root env @ [''quarantine'', ''blobs'', n]) c)" for n c
    by (rule quarantine_guarded)
  have man: "assert_write_allowed env (quarantine_manifest_path env) = Inr p \<Longrightarrow>
      io_keeps R (write_file (env_resolve env (quarantine_manifest_path env)) c)" for p c
    unfolding quarantine_manifest_path_def
    by (auto simp: io_keeps_def write_file_def assert_write_allowed_iff intro: quarantine_write)
  show ?thesis
    unfolding quarantine_item_def Let_def
    by (intro bind bind_if_ok return load man) (auto intro: return blob split: option.split)
qed

lemma read_or_create:
  assumes "write_permitted env (env_resolve env (blob_path env (env_sha env d) ext))"
    and "\<And>c. io_keeps R (A c)" "io_keeps R B"
  shows "io_keeps R (\<lambda>s. case s (env_resolve env (blob_path env (env_sha env d) ext)) of
      None \<Rightarrow> io_bind (write_file (env_resolve env (blob_path env (env_sha env d) ext)) (Blob d)) (\<lambda>_. B) s
    | Some c \<Rightarrow> A c s)"
  using assms(2,3) new_blob[OF assms(1)] trans
  by (auto simp: io_keeps_def io_bind_def write_file_def split: option.split) blast

lemma stop_if:
  "io_keeps R f \<Longrightarrow> io_keeps R (\<lambda>s. if b then (r, s) else f s)"
  "io_keeps R f \<Longrightarrow> io_keeps R (\<lambda>s. if b then f s else (r, s))"
  by (simp_all add: io_keeps_def refl)

lemma read_back: "(\<And>c. io_keeps R (f c)) \<Longrightarrow> io_keeps R (\<lambda>s. case s p of None \<Rightarrow> (r, s) | Some c \<Rightarrow> f c s)"
  by (simp add: io_keeps_def refl split: option.split)

lemma retain_valid: "io_keeps R (retain_valid env run spec at known a d temporal)"
  unfolding retain_valid_def Let_def
  by (intro bind_if_ok read_or_create stop_if read_back lift) (auto simp: assert_write_allowed_iff)

lemma retain: "io_keeps R (retain env run spec at known first legacy a)"
  unfolding retain_def quarantined_record_def Let_def
  by (auto intro!: bind lift quarantine_item retain_valid split: option.split)

end

locale landing_effect = retain_effect +
  assumes record_write: "area \<in> {''manifests'', ''checkpoints'', ''run-reports''}
      \<Longrightarrow> write_permitted env (env_resolve env (env_landing_root env @ area # rest))
      \<Longrightarrow> R s (s(env_resolve env (env_landing_root env @ area # rest) \<mapsto> c))"
begin

lemma bookkeeping_guarded:
  "area \<in> {''manifests'', ''checkpoints'', ''run-reports''} \<Longrightarrow>
     io_keeps R (guarded_write env (env_landing_root env @ area # rest) c)"
  unfolding guarded_write_def
  by (rule bind_if_ok) (simp add: io_keeps_def write_file_def assert_write_allowed_iff record_write)

lemma write_checkpoint: "io_keeps R (write_checkpoint env c)"
  unfolding write_checkpoint_def checkpoint_path_def by (rule bookkeeping_guarded) simp

lemma finish_item: "io_keeps R (finish_item env li item st)"
  unfolding finish_item_def Let_def by (intro bind write_checkpoint return)

lemma record_item: "io_keeps R (record_item env spec li r st)"
proof -
  have "io_keeps R (write_content_manifest env m)" for m
    unfolding write_content_manifest_def content_manifest_path_def by (rule bookkeeping_guarded) simp
  then show ?thesis
    unfolding record_item_def Let_def by (auto intro!: bind lift finish_item)
qed

lemma handle:
  assumes "io_keeps R m" "\<And>v. io_keeps R (k v)" "\<And>e. io_keeps R (h e)"
  shows "io_keeps R (\<lambda>s. case m s of (Inl e, s') \<Rightarrow> h e s' | (Inr v, s') \<Rightarrow> k v s')"
  unfolding io_keeps_def
proof
  fix s
  have "R s (snd (m s))" using assms(1) by (simp add: io_keeps_def)
  then show "R s (snd (case m s of (Inl e, s') \<Rightarrow> h e s' | (Inr v, s') \<Rightarrow> k v s'))"
    using assms(2,3) trans by (auto simp: io_keeps_def split: prod.splits sum.splits)
qed

lemma batch_step: "io_keeps R (batch_step env run clock item st)"
  unfolding batch_step_def Let_def
  by (auto intro!: return handle retain record_item finish_item stop_if split: prod.split option.split)

lemma batch_loop: "io_keeps R (batch_loop env run clock items st)"
  by (induction items arbitrary: st) (auto intro: return bind batch_step)

lemma process_batch: "io_keeps R (process_batch env items run domain clock resume)"
proof -
  have "io_keeps R (finish_batch env run st)" for st
    unfolding finish_batch_def Let_def run_report_path_def
    by (intro bind write_checkpoint return bookkeeping_guarded) simp
  then have "io_keeps R (io_bind (io_lift r) (\<lambda>st. io_bind (batch_loop env run clock items st) (finish_batch env run)))" for r
    by (intro bind lift batch_loop)
  then show ?thesis by (simp add: process_batch_def io_keeps_def)
qed

end
section \<open>The three effects\<close>

definition confined :: "landing_env \<Rightarrow> fs \<Rightarrow> fs \<Rightarrow> bool" where
  "confined env s s' \<longleftrightarrow> (\<forall>p. s' p = s p \<or> write_permitted env p)"

interpretation conf: landing_effect "confined env" env for env
  by unfold_locales (auto simp: confined_def, metis+)

definition stored_blob :: "landing_env \<Rightarrow> fs \<Rightarrow> string \<Rightarrow> content option" where
  "stored_blob env s name = s (env_resolve env (env_landing_root env @ [''raw'', ''blobs'', name]))"

lemma stored_blob_upd:
  assumes "inj (env_resolve env)"
  shows "area \<noteq> ''raw'' \<Longrightarrow>
      stored_blob env (s(env_resolve env (env_landing_root env @ area # rest) \<mapsto> c)) name = stored_blob env s name"
    and "stored_blob env (s(env_resolve env (blob_path env h ext) \<mapsto> c)) name
      = (if name = h @ ext then Some c else stored_blob env s name)"
  using assms by (auto simp: stored_blob_def inj_eq blob_path_def)

definition keeps_blobs :: "landing_env \<Rightarrow> fs \<Rightarrow> fs \<Rightarrow> bool" where
  "keeps_blobs env s s' \<longleftrightarrow>
     (inj (env_resolve env) \<longrightarrow> (\<forall>name. stored_blob env s name \<noteq> None \<longrightarrow> stored_blob env s' name = stored_blob env s name))"

interpretation immut: landing_effect "keeps_blobs env" env for env
proof
  fix d ext and s :: fs
  assume "s (env_resolve env (blob_path env (env_sha env d) ext)) = None"
  then have "stored_blob env s (env_sha env d @ ext) = None"
    by (simp add: stored_blob_def blob_path_def)
  then show "keeps_blobs env s (s(env_resolve env (blob_path env (env_sha env d) ext) \<mapsto> Blob d))"
    by (auto simp: keeps_blobs_def stored_blob_upd)
qed (auto simp: keeps_blobs_def stored_blob_upd)

definition addressed :: "landing_env \<Rightarrow> fs \<Rightarrow> bool" where
  \<comment> \<open>every file of the blob store holds bytes and is named after their hash, up to its extension\<close>
  "addressed env s \<longleftrightarrow>
     (\<forall>name c. stored_blob env s name = Some c \<longrightarrow> (\<exists>d ext. c = Blob d \<and> name = env_sha env d @ ext))"

definition keeps_addressed :: "landing_env \<Rightarrow> fs \<Rightarrow> fs \<Rightarrow> bool" where
  "keeps_addressed env s s' \<longleftrightarrow> (inj (env_resolve env) \<longrightarrow> addressed env s \<longrightarrow> addressed env s')"

lemma addressed_new_blob:
  "inj (env_resolve env) \<Longrightarrow> addressed env s \<Longrightarrow>
     addressed env (s(env_resolve env (blob_path env (env_sha env d) ext) \<mapsto> Blob d))"
  unfolding addressed_def by (metis stored_blob_upd(2) option.inject)

lemma addressed_bookkeeping:
  "inj (env_resolve env) \<Longrightarrow> area \<noteq> ''raw'' \<Longrightarrow> addressed env s \<Longrightarrow>
     addressed env (s(env_resolve env (env_landing_root env @ area # rest) \<mapsto> c))"
  by (simp add: addressed_def stored_blob_upd)

interpretation store: landing_effect "keeps_addressed env" env for env
  by unfold_locales (auto simp: keeps_addressed_def addressed_new_blob addressed_bookkeeping)

section \<open>Properties of every run\<close>

definition sample_env :: landing_env where
  "sample_env =
     \<lparr>env_sha = id, env_resolve = id, env_landing_root = [''ws'', ''landing''], env_allowed_root = [''ws'', ''landing''],
      env_protected_roots = default_protected_roots id [''ws''], env_extra_protected = []\<rparr>"

definition sample_spec :: acquisition_spec where
  "sample_spec =
     \<lparr>as_domain = ''filings'', as_source_locator = ''https://a/doc'', as_authority_class = ''exchange'',
      as_issuer_identity = None, as_document_type = None, as_method = ''http'', as_method_version = ''1''\<rparr>"

definition sample_args :: "string option \<Rightarrow> retain_args" where
  "sample_args data =
     \<lparr>ra_data = data, ra_fetch_error = (if data = None then Some \<lparr>fe_category = ''retryable'', fe_detail = ''timeout''\<rparr> else None),
      ra_declared_sha256 = None, ra_http_status = None, ra_content_type = None, ra_original_filename = None,
      ra_source_published_at = None, ra_tier = ''UNVERIFIED'', ra_provider_or_source = None,
      ra_provider_reported_date = None, ra_provider_record_update_at = None, ra_provider_event_at = None,
      ra_http_headers = [], ra_validator = Some default_pdf_validator, ra_file_suffix = ''.pdf''\<rparr>"

text \<open>
  C2. Write isolation: a batch, whether it returns or raises, changes no path but those under the
  allowed root, outside every protected root and path, and not named like the production database.
\<close>

theorem batch_writes_confined:
  "snd (process_batch env items run_id domain clock resume s) p = s p
   \<or> is_under_or_equal p (env_resolve env (env_allowed_root env))
     \<and> (\<forall>root\<in>set (env_protected_roots env @ env_extra_protected env). \<not> is_under_or_equal p (env_resolve env root))
     \<and> \<not> starts_with (str_lower (path_name p)) ''vn_stock.db''"
  using conf.process_batch[of env items run_id domain clock resume]
  by (auto simp: io_keeps_def confined_def write_permitted_def)

theorem batch_writes_confined_witness:
  "snd (process_batch sample_env [(sample_spec, sample_args (Some ''%PDF-1''))] ''r'' ''filings'' (\<lambda>_. ''t'') True Map.empty)
     [''ws'', ''publish'', ''x''] = None"
  using batch_writes_confined[of sample_env "[(sample_spec, sample_args (Some ''%PDF-1''))]" "''r''" "''filings''"
      "\<lambda>_. ''t''" True Map.empty "[''ws'', ''publish'', ''x'']"]
  by (simp add: sample_env_def is_under_or_equal_def)

text \<open>
  Blobs are immutable: a document in the content-addressed store is what it was, after any batch
  and after a batch that raised, when different paths resolve to different files.
\<close>

theorem blobs_immutable:
  assumes "inj (env_resolve env)" "stored_blob env s name = Some c"
  shows "stored_blob env (snd (process_batch env items run_id domain clock resume s)) name = Some c"
  using immut.process_batch[of env items run_id domain clock resume] assms
  by (auto simp: io_keeps_def keeps_blobs_def)

theorem blobs_immutable_witness:
  "stored_blob sample_env (snd (process_batch sample_env [(sample_spec, sample_args (Some ''%PDF-1''))] ''r'' ''filings''
       (\<lambda>_. ''t'') True [[''ws'', ''landing'', ''raw'', ''blobs'', ''%PDF-1.pdf''] \<mapsto> Blob ''broken''])) ''%PDF-1.pdf''
   = Some (Blob ''broken'')"
  by (rule blobs_immutable) (simp_all add: sample_env_def stored_blob_def)

text \<open>
  Content addressing: if every file of the blob store is named after the hash of its bytes, it still
  is after a batch, also one that raised.
\<close>

theorem store_stays_content_addressed:
  assumes "inj (env_resolve env)" "addressed env s"
  shows "addressed env (snd (process_batch env items run_id domain clock resume s))"
  using store.process_batch[of env items run_id domain clock resume] assms
  by (auto simp: io_keeps_def keeps_addressed_def)

theorem store_stays_content_addressed_witness:
  "addressed sample_env (snd (process_batch sample_env [(sample_spec, sample_args (Some ''%PDF-1''))] ''r'' ''filings''
       (\<lambda>_. ''2024-01-03T00:00:00Z'') True Map.empty))"
  by (rule store_stays_content_addressed) (simp_all add: sample_env_def addressed_def stored_blob_def)

end
