(* ===== verification/LandingResume.thy ===== *)
theory LandingResume
  imports LandingSafety
begin

text \<open>
  What a batch achieves: the outcome of \<open>retain\<close>, the invariant that the files of a run always determine
  the state the batch holds in memory, the consistency of the content manifest with the blob store, the
  arithmetic of the report, and the convergence of a resumed run with an uninterrupted one.
\<close>

section \<open>Outcomes of a single retention\<close>

lemma io_bind_eq_Inr [res_simps]:
  "io_bind m k s = (Inr v, s') \<longleftrightarrow> (\<exists>w s1. m s = (Inr w, s1) \<and> k w s1 = (Inr v, s'))"
  by (auto simp: io_bind_def split: prod.splits sum.splits)

lemma io_lift_eq [res_simps]: "io_lift r s = (v, s') \<longleftrightarrow> r = v \<and> s' = s"
  by (auto simp: io_lift_def)

lemma io_return_eq [res_simps]: "io_return w s = (v, s') \<longleftrightarrow> v = Inr w \<and> s' = s"
  by (auto simp: io_return_def)

lemma write_file_eq [res_simps]: "write_file p c s = (v, s') \<longleftrightarrow> v = Inr () \<and> s' = s(p \<mapsto> c)"
  by (auto simp: write_file_def)

lemma guarded_write_eq [res_simps]:
  "guarded_write env p c s = (Inr v, s') \<longleftrightarrow>
     write_permitted env (env_resolve env p) \<and> s' = s(env_resolve env p \<mapsto> c)"
  by (auto simp: guarded_write_def res_simps assert_write_allowed_iff)

lemma build_record_eq_Inr:
  "build_record run spec at oc why pub http fn ct n h loc prev temp = Inr r \<longleftrightarrow>
     (oc \<in> set success_outcomes \<longrightarrow> h \<noteq> None) \<and> (oc \<notin> set success_outcomes \<longrightarrow> why \<noteq> None)
     \<and> r = \<lparr>rr_run_id = run, rr_spec = spec, rr_observed_at = at, rr_source_published_at = pub,
            rr_http_status = http, rr_original_filename = fn, rr_content_type = ct, rr_byte_size = n,
            rr_sha256 = h, rr_storage_locator = loc, rr_supersedes = prev, rr_outcome = oc,
            rr_outcome_reason = why, rr_qualification_state = ''unknown'', rr_temporal = temp\<rparr>"
  by (auto simp: build_record_def)

lemma success_simps [simp]:
  "ACQUIRED \<in> set success_outcomes" "ALREADY_PRESENT_IDENTICAL \<in> set success_outcomes"
  "QUARANTINED \<notin> set success_outcomes" "FAILED_RETRYABLE \<notin> set success_outcomes"
  "FAILED_PERMANENT \<notin> set success_outcomes" "UNSUPPORTED \<notin> set success_outcomes"
  "BLOCKED_BY_POLICY \<notin> set success_outcomes"
  by (simp_all add: success_outcomes_def)

lemma fetch_error_outcome_not_success:
  "fetch_error_outcome e = Inr oc \<Longrightarrow> oc \<in> {FAILED_RETRYABLE, FAILED_PERMANENT, UNSUPPORTED, BLOCKED_BY_POLICY}"
  by (auto simp: fetch_error_outcome_def split: if_splits)

lemma capture_identity:
  "capture_raw_receipt sha ts a = Inr t \<Longrightarrow> ca_data a = Some d \<Longrightarrow> rc_observation_identity t = Some (sha d)"
  by (auto simp: capture_raw_receipt_def bindE_eq_Inr Let_def)

definition holds_hash :: "landing_env \<Rightarrow> fs \<Rightarrow> string \<Rightarrow> string \<Rightarrow> bool" where
  \<comment> \<open>the store has a file for the hash and extension, whose bytes have that hash\<close>
  "holds_hash env s h ext \<longleftrightarrow>
     (case stored_blob env s (h @ ext) of None \<Rightarrow> False | Some c \<Rightarrow> env_sha env (bytes_at c) = h)"

lemma stored_blob_path: "stored_blob env s (h @ ext) = s (env_resolve env (blob_path env h ext))"
  by (simp add: stored_blob_def blob_path_def)

lemma retain_valid_Inr:
  assumes "retain_valid env run spec at known a d temporal s = (Inr r, s')"
  shows "rr_sha256 r = Some (env_sha env d) \<and> rr_temporal r = Some temporal \<and> rr_spec r = spec
    \<and> rr_storage_locator r = Some (blob_locator (env_sha env d) (ra_file_suffix a))
    \<and> holds_hash env s' (env_sha env d) (ra_file_suffix a)
    \<and> rr_outcome r = (if stored_blob env s (env_sha env d @ ra_file_suffix a) = None then ACQUIRED
                      else ALREADY_PRESENT_IDENTICAL)
    \<and> rr_supersedes r = (if rr_outcome r = ACQUIRED \<and> truthy known \<and> known \<noteq> Some (env_sha env d) then known else None)"
  using assms
  by (auto simp: retain_valid_def Let_def res_simps build_record_eq_Inr holds_hash_def stored_blob_path raise_def
      split: option.splits if_splits)

lemma quarantined_record_Inr:
  assumes "quarantined_record env run spec at a d temporal why h s = (Inr r, s')"
  shows "rr_outcome r = QUARANTINED \<and> rr_outcome_reason r = Some why"
  using assms
  by (auto simp: quarantined_record_def res_simps build_record_eq_Inr quarantine_item_def Let_def)

definition declared_ok :: "landing_env \<Rightarrow> retain_args \<Rightarrow> string \<Rightarrow> bool" where
  "declared_ok env a d \<longleftrightarrow> ra_declared_sha256 a = None \<or> ra_declared_sha256 a = Some (env_sha env d)"

definition validated :: "retain_args \<Rightarrow> string \<Rightarrow> bool" where
  "validated a d \<longleftrightarrow>
     (case ra_validator a of None \<Rightarrow> True | Some v \<Rightarrow> \<not> truthy (v d (ra_content_type a)))"

lemma retain_InrE:
  assumes "retain env run spec at known first legacy a s = (Inr r, s')"
  obtains (Failed) e where "ra_data a = None" "ra_fetch_error a = Some e" "fetch_error_outcome e = Inr (rr_outcome r)"
      "rr_outcome_reason r = Some (fe_detail e)" "s' = s"
  | (Quarantined) d where "ra_data a = Some d" "\<not> (declared_ok env a d \<and> validated a d)"
      "rr_outcome r = QUARANTINED" "rr_outcome_reason r \<noteq> None"
  | (Stored) d temporal where "ra_data a = Some d" "declared_ok env a d" "validated a d"
      "rc_observation_identity temporal = Some (env_sha env d)"
      "retain_valid env run spec at known a d temporal s = (Inr r, s')"
proof (cases "ra_data a")
  case None
  then show thesis
    using assms Failed by (cases "ra_fetch_error a") (auto simp: retain_def res_simps build_record_eq_Inr raise_def)
next
  case (Some d)
  with assms obtain temporal where t: "capture_raw_receipt (env_sha env) (Text_time at) (receipt_args spec a d first legacy)
      = Inr temporal"
    and run: "(if \<not> declared_ok env a d then
        quarantined_record env run spec at a d temporal
          (''declared_sha256_mismatch:declared='' @ the (ra_declared_sha256 a) @ '':actual='' @ env_sha env d)
          (Some (env_sha env d))
      else if \<not> validated a d then
        quarantined_record env run spec at a d temporal
          (the (case ra_validator a of None \<Rightarrow> None | Some v \<Rightarrow> v d (ra_content_type a)))
          (if d \<noteq> [] then Some (env_sha env d) else None)
      else retain_valid env run spec at known a d temporal) s = (Inr r, s')"
    by (auto simp: retain_def res_simps declared_ok_def validated_def Let_def split: option.splits if_splits)
  have "rc_observation_identity temporal = Some (env_sha env d)"
    using capture_identity[OF t] by (simp add: receipt_args_def)
  then show thesis
    using run Some Quarantined Stored by (auto dest: quarantined_record_Inr split: if_splits)
qed

section \<open>The invariant of a batch\<close>

definition manifest_ok :: "landing_env \<Rightarrow> fs \<Rightarrow> content_manifest \<Rightarrow> bool" where
  "manifest_ok env s m \<longleftrightarrow>
     (\<forall>h e. cm_blobs m h = Some e \<longrightarrow>
        be_sha256 e = h \<and> (\<forall>t. be_temporal e = Some t \<longrightarrow> rc_observation_identity t = Some h)
        \<and> (\<exists>ext. be_storage_locator e = Some (blob_locator h ext) \<and> holds_hash env s h ext))
     \<and> (\<forall>li h. cm_latest m li = Some h \<longrightarrow> cm_blobs m h \<noteq> None)"

definition persisted :: "landing_env \<Rightarrow> string \<Rightarrow> fs \<Rightarrow> batch_state \<Rightarrow> bool" where
  \<comment> \<open>reading the files back gives the manifest and the checkpoint the batch holds in memory\<close>
  "persisted env run s st \<longleftrightarrow>
     load_content_manifest env s = Inr (bs_manifest st) \<and> ck_run_id (bs_checkpoint st) = run
     \<and> (\<exists>c. load_checkpoint env run s = Inr c \<and> c\<lparr>ck_status := ''in_progress''\<rparr> = bs_checkpoint st)"

definition report_ok :: "run_report \<Rightarrow> bool" where
  "report_ok rep \<longleftrightarrow>
     rp_attempted rep = rp_succeeded rep + rp_skipped rep + rp_quarantined rep + rp_failed_retryable rep
       + rp_failed_permanent rep
     \<and> length (rp_records rep) = rp_attempted rep"

definition batch_inv :: "landing_env \<Rightarrow> string \<Rightarrow> fs \<Rightarrow> batch_state \<Rightarrow> bool" where
  "batch_inv env run s st \<longleftrightarrow> manifest_ok env s (bs_manifest st) \<and> persisted env run s st \<and> report_ok (bs_report st)"

definition keeps_records :: "landing_env \<Rightarrow> string \<Rightarrow> fs \<Rightarrow> fs \<Rightarrow> bool" where
  "keeps_records env run s s' \<longleftrightarrow>
     (inj (env_resolve env) \<longrightarrow>
        s' (env_resolve env (content_manifest_path env)) = s (env_resolve env (content_manifest_path env))
        \<and> s' (env_resolve env (checkpoint_path env run)) = s (env_resolve env (checkpoint_path env run)))"

interpretation recs: retain_effect "keeps_records env run" env for env run
  by unfold_locales
     (auto simp: keeps_records_def content_manifest_path_def checkpoint_path_def blob_path_def inj_eq)

lemma retain_keeps_files:
  assumes "inj (env_resolve env)" "retain env run spec at known first legacy a s = (v, s1)"
  shows "load_content_manifest env s1 = load_content_manifest env s"
    and "load_checkpoint env run s1 = load_checkpoint env run s"
    and "holds_hash env s h ext \<Longrightarrow> holds_hash env s1 h ext"
proof -
  have "keeps_records env run s s1" "keeps_blobs env s s1"
    using recs.retain[of env run run spec at known first legacy a] immut.retain[of env run spec at known first legacy a]
      assms(2) by (auto simp: io_keeps_def dest: spec[where x = s])
  then show "load_content_manifest env s1 = load_content_manifest env s"
    "load_checkpoint env run s1 = load_checkpoint env run s"
    "holds_hash env s h ext \<Longrightarrow> holds_hash env s1 h ext"
    using assms(1)
    by (auto simp: keeps_records_def load_content_manifest_def load_checkpoint_def keeps_blobs_def holds_hash_def
        split: option.splits)
qed

lemma finish_item_eq [res_simps]:
  "finish_item env li item st s = (Inr st', s') \<longleftrightarrow>
    (let c = (bs_checkpoint st)\<lparr>ck_completed := (ck_completed (bs_checkpoint st))(li \<mapsto> item)\<rparr>;
         p = env_resolve env (checkpoint_path env (ck_run_id (bs_checkpoint st))) in
     write_permitted env p \<and> s' = s(p \<mapsto> Checkpoint_file c)
     \<and> st' = st\<lparr>bs_checkpoint := c,
               bs_report := (bs_report st)\<lparr>rp_records := rp_records (bs_report st) @ [item]\<rparr>\<rparr>)"
  by (auto simp: finish_item_def res_simps write_checkpoint_def Let_def)

lemma load_after_checkpoint:
  assumes "inj (env_resolve env)"
  shows "load_content_manifest env (s(env_resolve env (checkpoint_path env run) \<mapsto> Checkpoint_file c)) = load_content_manifest env s"
    and "load_checkpoint env run (s(env_resolve env (checkpoint_path env run) \<mapsto> Checkpoint_file c)) = Inr c"
    and "holds_hash env (s(env_resolve env (checkpoint_path env run) \<mapsto> x)) h ext = holds_hash env s h ext"
    and "load_content_manifest env (s(env_resolve env (content_manifest_path env) \<mapsto> Manifest_file m)) = Inr m"
    and "load_checkpoint env run (s(env_resolve env (content_manifest_path env) \<mapsto> Manifest_file m)) = load_checkpoint env run s"
    and "holds_hash env (s(env_resolve env (content_manifest_path env) \<mapsto> x)) h ext = holds_hash env s h ext"
  using assms
  by (simp_all add: load_content_manifest_def load_checkpoint_def holds_hash_def stored_blob_def
      content_manifest_path_def checkpoint_path_def inj_eq)

lemma merge_with_manifest_Inr:
  assumes "merge_with_manifest m r = Inr r'"
  shows "rr_outcome r' = rr_outcome r \<and> rr_sha256 r' = rr_sha256 r \<and> rr_storage_locator r' = rr_storage_locator r
    \<and> rr_observed_at r' = rr_observed_at r
    \<and> (rr_temporal r' = None \<longleftrightarrow> rr_temporal r = None)
    \<and> (\<forall>t t'. rr_temporal r = Some t \<longrightarrow> rr_temporal r' = Some t' \<longrightarrow>
          rc_observation_identity t' = rc_observation_identity t)"
  using assms
  by (auto simp: merge_with_manifest_def bindE_eq_Inr merge_identical_reobservation_def Let_def
      split: option.splits)

lemma manifest_ok_cong:
  "(\<And>h ext. holds_hash env s h ext \<Longrightarrow> holds_hash env s' h ext) \<Longrightarrow> manifest_ok env s m \<Longrightarrow> manifest_ok env s' m"
  unfolding manifest_ok_def by blast

lemma record_into_manifest_ok:
  assumes ok: "manifest_ok env s m" and h: "rr_sha256 r = Some h" "rr_outcome r \<in> set success_outcomes"
    and t: "rr_temporal r = Some t" "rc_observation_identity t = Some h"
    and loc: "rr_storage_locator r = Some (blob_locator h ext)" "holds_hash env s h ext"
  shows "manifest_ok env s (record_into_manifest (env_sha env) m spec r)"
  using assms by (auto simp: record_into_manifest_def manifest_ok_def Let_def split: option.split)

text \<open>The three ways a step of the batch can go, with what it was called on.\<close>

definition attempted :: "batch_state \<Rightarrow> batch_state" where
  "attempted st = (count_attempt st)\<lparr>bs_tick := Suc (bs_tick st)\<rparr>"

lemma attempted_simps [simp]:
  "bs_manifest (attempted st) = bs_manifest st" "bs_checkpoint (attempted st) = bs_checkpoint st"
  "bs_tick (attempted st) = Suc (bs_tick st)"
  "bs_report (attempted st) = (bs_report st)\<lparr>rp_attempted := Suc (rp_attempted (bs_report st))\<rparr>"
  "bs_manifest (count_attempt st) = bs_manifest st" "bs_checkpoint (count_attempt st) = bs_checkpoint st"
  "bs_tick (count_attempt st) = bs_tick st"
  "bs_report (count_attempt st) = (bs_report st)\<lparr>rp_attempted := Suc (rp_attempted (bs_report st))\<rparr>"
  by (simp_all add: attempted_def count_attempt_def)

lemma batch_step_InrE:
  assumes "batch_step env run clock (spec, args) st s = (Inr st', s')"
  defines "li \<equiv> logical_identity (env_sha env) spec"
    and "kf \<equiv> known_first_of (env_sha env) (bs_manifest st) (ra_data args)"
  defines "call \<equiv> retain env run spec (clock (bs_tick st)) (cm_latest (bs_manifest st) li) (fst kf) (snd kf) args s"
  obtains (Skipped) fin where "ck_completed (bs_checkpoint st) li = Some fin" "s' = s"
      "st' = (count_attempt st)\<lparr>bs_report := (bs_report (count_attempt st))
        \<lparr>rp_skipped := Suc (rp_skipped (bs_report st)), rp_records := rp_records (bs_report st) @ [fin]\<rparr>\<rparr>"
  | (Retained) r s1 where "ck_completed (bs_checkpoint st) li = None" "call = (Inr r, s1)"
      "record_item env spec li r (attempted st) s1 = (Inr st', s')"
  | (Violated) e s1 where "ck_completed (bs_checkpoint st) li = None" "call = (Inl e, s1)"
      "exc_class e \<in> set contract_errors"
      "finish_item env li
        (Contract_failure run (as_domain spec) (as_source_locator spec) (exc_name (exc_class e) @ '': '' @ exc_message e))
        ((attempted st)\<lparr>bs_report := (bs_report (attempted st))
        \<lparr>rp_failed_permanent := Suc (rp_failed_permanent (bs_report st))\<rparr>\<rparr>) s1 = (Inr st', s')"
proof (cases "ck_completed (bs_checkpoint st) li")
  case (Some fin)
  then show thesis using assms(1) Skipped unfolding batch_step_def li_def
    by (auto simp: Let_def res_simps)
next
  case None
  obtain f g where kf: "kf = (f, g)" by (cases kf)
  obtain v s1 where call: "call = (v, s1)" by (cases call)
  have "(case (v, s1) of
          (Inr r, s') \<Rightarrow> record_item env spec li r (attempted st) s'
        | (Inl e, s') \<Rightarrow>
            if exc_class e \<in> set contract_errors then
              finish_item env li
                (Contract_failure run (as_domain spec) (as_source_locator spec)
                   (exc_name (exc_class e) @ '': '' @ exc_message e))
                ((attempted st)\<lparr>bs_report := (bs_report (attempted st))
                   \<lparr>rp_failed_permanent := Suc (rp_failed_permanent (bs_report st))\<rparr>\<rparr>) s'
            else (Inl e, s')) = (Inr st', s')"
    using assms(1) None call kf unfolding batch_step_def li_def kf_def call_def
    by (cases v) (simp_all add: Let_def attempted_def split: if_split_asm)
  then show thesis using None Retained Violated call by (auto split: sum.splits if_splits)
qed

lemma record_item_InrE:
  assumes "record_item env spec li r st s = (Inr st', s')"
  obtains (Success) r' where "rr_outcome r \<in> set success_outcomes" "merge_with_manifest (bs_manifest st) r = Inr r'"
      "write_permitted env (env_resolve env (content_manifest_path env))"
      "finish_item env li (Recorded r')
         (st\<lparr>bs_manifest := record_into_manifest (env_sha env) (bs_manifest st) spec r',
             bs_report := (bs_report st)\<lparr>rp_succeeded := Suc (rp_succeeded (bs_report st))\<rparr>\<rparr>)
         (s(env_resolve env (content_manifest_path env) \<mapsto>
              Manifest_file (record_into_manifest (env_sha env) (bs_manifest st) spec r'))) = (Inr st', s')"
  | (Failure) rep where "rr_outcome r \<notin> set success_outcomes"
      "finish_item env li (Recorded r) (st\<lparr>bs_report := rep\<rparr>) s = (Inr st', s')"
      "rep \<in> {(bs_report st)\<lparr>rp_quarantined := Suc (rp_quarantined (bs_report st))\<rparr>,
              (bs_report st)\<lparr>rp_failed_retryable := Suc (rp_failed_retryable (bs_report st))\<rparr>,
              (bs_report st)\<lparr>rp_failed_permanent := Suc (rp_failed_permanent (bs_report st))\<rparr>}"
proof (cases "rr_outcome r \<in> set success_outcomes")
  case True
  then show thesis
    using assms Success by (auto simp: record_item_def Let_def write_content_manifest_def io_bind_eq_Inr io_lift_eq
        guarded_write_eq)
next
  case False
  then show thesis
    using assms Failure
    by (cases "rr_outcome r") (auto simp: record_item_def Let_def retryable_outcomes_def permanent_failure_outcomes_def)
qed

lemma finish_item_inv:
  assumes inj: "inj (env_resolve env)"
    and man: "load_content_manifest env s = Inr (bs_manifest st)" "manifest_ok env s (bs_manifest st)"
    and ck: "ck_run_id (bs_checkpoint st) = run" "ck_status (bs_checkpoint st) = ''in_progress''"
    and rep: "rp_attempted (bs_report st) = rp_succeeded (bs_report st) + rp_skipped (bs_report st)
        + rp_quarantined (bs_report st) + rp_failed_retryable (bs_report st) + rp_failed_permanent (bs_report st)"
      "Suc (length (rp_records (bs_report st))) = rp_attempted (bs_report st)"
    and fin: "finish_item env li item st s = (Inr st', s')"
  shows "batch_inv env run s' st'"
proof -
  from fin[unfolded finish_item_eq Let_def ck(1)] have
    s': "s' = s(env_resolve env (checkpoint_path env run) \<mapsto> Checkpoint_file (bs_checkpoint st'))"
    and st': "bs_manifest st' = bs_manifest st" "ck_run_id (bs_checkpoint st') = run"
      "ck_status (bs_checkpoint st') = ''in_progress''"
      "bs_report st' = (bs_report st)\<lparr>rp_records := rp_records (bs_report st) @ [item]\<rparr>"
    using ck by auto
  have "manifest_ok env s' (bs_manifest st')"
    unfolding st' s' using man(2) by (rule manifest_ok_cong[rotated]) (simp add: load_after_checkpoint(3)[OF inj])
  then show ?thesis
    using man(1) rep st' load_after_checkpoint(1,2)[OF inj]
    by (simp add: batch_inv_def persisted_def report_ok_def s')
qed

lemma batch_step_inv:
  assumes inj: "inj (env_resolve env)" and inv: "batch_inv env run s st"
    and step: "batch_step env run clock item st s = (Inr st', s')"
  shows "batch_inv env run s' st'"
proof -
  obtain spec args where item: "item = (spec, args)" by (cases item)
  from inv have ok: "manifest_ok env s (bs_manifest st)"
    and pers: "load_content_manifest env s = Inr (bs_manifest st)" "ck_run_id (bs_checkpoint st) = run"
      "\<exists>c. c\<lparr>ck_status := ''in_progress''\<rparr> = bs_checkpoint st"
    and rep: "rp_attempted (bs_report st) = rp_succeeded (bs_report st) + rp_skipped (bs_report st)
        + rp_quarantined (bs_report st) + rp_failed_retryable (bs_report st) + rp_failed_permanent (bs_report st)"
      "length (rp_records (bs_report st)) = rp_attempted (bs_report st)"
    unfolding batch_inv_def persisted_def report_ok_def by auto
  from pers(3) obtain c where c: "c\<lparr>ck_status := ''in_progress''\<rparr> = bs_checkpoint st" by blast
  have status: "ck_status (bs_checkpoint st) = ''in_progress''" unfolding c[symmetric] by simp
  from step[unfolded item] show ?thesis
  proof (cases rule: batch_step_InrE)
    case (Skipped fin)
    then show ?thesis using inv by (simp add: batch_inv_def persisted_def report_ok_def)
  next
    case (Violated e s1)
    note keep = retain_keeps_files[OF inj Violated(2)]
    show ?thesis
      using Violated(4) by (rule finish_item_inv[OF inj, rotated -1]) (use keep ok pers(1,2) status rep in \<open>auto intro: manifest_ok_cong\<close>)
  next
    case (Retained r s1)
    note keep = retain_keeps_files[OF inj Retained(2)]
    have ok1: "manifest_ok env s1 (bs_manifest st)" using keep(3) ok by (rule manifest_ok_cong)
    from Retained(3) show ?thesis
    proof (cases rule: record_item_InrE)
      case (Failure rp)
      show ?thesis
        using Failure(2) by (rule finish_item_inv[OF inj, rotated -1]) (use Failure(3) keep ok1 pers(1,2) status rep in auto)
    next
      case (Success r')
      let ?m = "record_into_manifest (env_sha env) (bs_manifest st) spec r'"
      from Retained(2) Success(1) obtain d t where r: "rr_sha256 r = Some (env_sha env d)" "rr_temporal r = Some t"
        "rc_observation_identity t = Some (env_sha env d)"
        "rr_storage_locator r = Some (blob_locator (env_sha env d) (ra_file_suffix args))"
        "holds_hash env s1 (env_sha env d) (ra_file_suffix args)"
        by (auto elim!: retain_InrE dest: retain_valid_Inr fetch_error_outcome_not_success)
      have "manifest_ok env s1 ?m"
        using merge_with_manifest_Inr[OF Success(2)] r Success(1)
        by (cases "rr_temporal r'") (auto intro!: record_into_manifest_ok[OF ok1])
      then show ?thesis
        using Success(4) by (intro finish_item_inv[OF inj, rotated -1, OF Success(4)])
          (use pers(1,2) status rep load_after_checkpoint[OF inj] in \<open>auto intro: manifest_ok_cong\<close>)
    qed
  qed
qed

lemma batch_loop_inv:
  assumes "inj (env_resolve env)" "batch_inv env run s st" "batch_loop env run clock items st s = (Inr st', s')"
  shows "batch_inv env run s' st'"
  using assms(2,3)
proof (induction items arbitrary: st s)
  case (Cons item items)
  then obtain w s1 where "batch_step env run clock item st s = (Inr w, s1)"
    "batch_loop env run clock items w s1 = (Inr st', s')" by (auto simp: io_bind_eq_Inr)
  then show ?case using Cons batch_step_inv[OF assms(1)] by blast
qed (simp add: io_return_eq)

section \<open>Resuming\<close>

definition item_key :: "landing_env \<Rightarrow> acquisition_spec \<times> retain_args \<Rightarrow> string" where
  "item_key env item = logical_identity (env_sha env) (fst item)"

definition completed :: "batch_state \<Rightarrow> string \<rightharpoonup> item_record" where
  "completed st = ck_completed (bs_checkpoint st)"

definition same_progress :: "(nat \<Rightarrow> string) \<Rightarrow> batch_state \<Rightarrow> (nat \<Rightarrow> string) \<Rightarrow> batch_state \<Rightarrow> bool" where
  \<comment> \<open>equal but for the report, with clocks that will read the same\<close>
  "same_progress clock1 st1 clock2 st2 \<longleftrightarrow>
     bs_manifest st1 = bs_manifest st2 \<and> bs_checkpoint st1 = bs_checkpoint st2
     \<and> (\<forall>k. clock1 (bs_tick st1 + k) = clock2 (bs_tick st2 + k))"

lemma same_progress_tick:
  assumes "same_progress clock1 st1 clock2 st2"
  shows "clock1 (bs_tick st1) = clock2 (bs_tick st2)"
    and "clock1 (Suc (bs_tick st1) + k) = clock2 (Suc (bs_tick st2) + k)"
  using assms unfolding same_progress_def by (metis add_0_right, metis add_Suc add_Suc_right)

lemma finish_item_same:
  assumes "finish_item env li item st1 s = (Inr st1', s')"
    and "bs_manifest st1 = bs_manifest st2" "bs_checkpoint st1 = bs_checkpoint st2"
  shows "\<exists>st2'. finish_item env li item st2 s = (Inr st2', s') \<and> bs_manifest st1' = bs_manifest st2'
      \<and> bs_checkpoint st1' = bs_checkpoint st2' \<and> bs_tick st1' = bs_tick st1 \<and> bs_tick st2' = bs_tick st2
      \<and> completed st1' = (completed st1)(li \<mapsto> item)
      \<and> rp_records (bs_report st1') = rp_records (bs_report st1) @ [item]"
  using assms by (simp add: finish_item_eq Let_def completed_def)

lemma record_item_same:
  assumes "record_item env spec li r st1 s = (Inr st1', s')"
    and "bs_manifest st1 = bs_manifest st2" "bs_checkpoint st1 = bs_checkpoint st2"
  shows "\<exists>st2' item. record_item env spec li r st2 s = (Inr st2', s') \<and> bs_manifest st1' = bs_manifest st2'
      \<and> bs_checkpoint st1' = bs_checkpoint st2' \<and> bs_tick st1' = bs_tick st1 \<and> bs_tick st2' = bs_tick st2
      \<and> completed st1' = (completed st1)(li \<mapsto> item)
      \<and> rp_records (bs_report st1') = rp_records (bs_report st1) @ [item]"
proof (cases "rr_outcome r \<in> set success_outcomes")
  case True
  with assms show ?thesis
    by (auto simp: record_item_def Let_def write_content_manifest_def io_bind_eq_Inr io_lift_eq guarded_write_eq
        finish_item_eq completed_def)
next
  case False
  with assms show ?thesis
    by (cases "rr_outcome r")
       (auto simp: record_item_def Let_def retryable_outcomes_def permanent_failure_outcomes_def finish_item_eq
          completed_def)
qed

lemma batch_step_same:
  assumes same: "same_progress clock1 st1 clock2 st2"
    and step: "batch_step env run clock1 item st1 s = (Inr st1', s')"
  shows "\<exists>st2'. batch_step env run clock2 item st2 s = (Inr st2', s') \<and> same_progress clock1 st1' clock2 st2'"
proof -
  obtain spec args where item: "item = (spec, args)" by (cases item)
  let ?li = "logical_identity (env_sha env) spec"
  note eq = same[unfolded same_progress_def] and tick = same_progress_tick[OF same]
  obtain f g where kf: "known_first_of (env_sha env) (bs_manifest st2) (ra_data args) = (f, g)"
    by (cases "known_first_of (env_sha env) (bs_manifest st2) (ra_data args)")
  from step[unfolded item] show ?thesis
  proof (cases rule: batch_step_InrE)
    case (Skipped fin)
    then show ?thesis
      using eq by (auto simp: item batch_step_def Let_def io_return_def same_progress_def)
  next
    case (Retained r s1)
    obtain st2' item' where st2': "record_item env spec ?li r ((count_attempt st2)\<lparr>bs_tick := Suc (bs_tick st2)\<rparr>) s1 = (Inr st2', s')"
      "bs_manifest st1' = bs_manifest st2'" "bs_checkpoint st1' = bs_checkpoint st2'"
      "bs_tick st1' = Suc (bs_tick st1)" "bs_tick st2' = Suc (bs_tick st2)"
      using record_item_same[OF Retained(3), of "(count_attempt st2)\<lparr>bs_tick := Suc (bs_tick st2)\<rparr>"] eq by auto
    have "batch_step env run clock2 item st2 s = (Inr st2', s')"
      using Retained(1,2) st2'(1) eq kf by (simp add: item batch_step_def Let_def tick(1))
    then show ?thesis using st2' tick(2) by (auto simp: same_progress_def)
  next
    case (Violated e s1)
    let ?st = "\<lambda>st. (count_attempt st)\<lparr>bs_tick := Suc (bs_tick st), bs_report := (bs_report (count_attempt st))
        \<lparr>rp_failed_permanent := Suc (rp_failed_permanent (bs_report st))\<rparr>\<rparr>"
    obtain st2' where st2': "finish_item env ?li (Contract_failure run (as_domain spec) (as_source_locator spec)
          (exc_name (exc_class e) @ '': '' @ exc_message e)) (?st st2) s1 = (Inr st2', s')"
      "bs_manifest st1' = bs_manifest st2'" "bs_checkpoint st1' = bs_checkpoint st2'"
      "bs_tick st1' = Suc (bs_tick st1)" "bs_tick st2' = Suc (bs_tick st2)"
      using finish_item_same[OF Violated(4), of "?st st2"] eq by auto
    have "batch_step env run clock2 item st2 s = (Inr st2', s')"
      using Violated(1,2,3) st2'(1) eq kf by (simp add: item batch_step_def Let_def tick(1))
    then show ?thesis using st2' tick(2) by (auto simp: same_progress_def)
  qed
qed


lemma batch_loop_same:
  assumes "same_progress clock1 st1 clock2 st2" "batch_loop env run clock1 items st1 s = (Inr st1', s')"
  shows "\<exists>st2'. batch_loop env run clock2 items st2 s = (Inr st2', s') \<and> same_progress clock1 st1' clock2 st2'"
  using assms
proof (induction items arbitrary: st1 st2 s)
  case (Cons item items)
  then obtain w s1 where w: "batch_step env run clock1 item st1 s = (Inr w, s1)"
    "batch_loop env run clock1 items w s1 = (Inr st1', s')" by (auto simp: io_bind_eq_Inr)
  from batch_step_same[OF Cons.prems(1) w(1)] obtain w2 where
    w2: "batch_step env run clock2 item st2 s = (Inr w2, s1)" "same_progress clock1 w clock2 w2" by blast
  from Cons.IH[OF w2(2) w(2)] show ?case using w2(1) by (auto simp: io_bind_eq_Inr)
qed (auto simp: io_return_eq)

text \<open>A step marks its item completed, keeps what was completed before, and reports what it marked.\<close>

lemma batch_step_completed:
  assumes "batch_step env run clock item st s = (Inr st', s')"
  shows "\<exists>v. completed st' (item_key env item) = Some v \<and> completed st \<subseteq>\<^sub>m completed st'
    \<and> rp_records (bs_report st') = rp_records (bs_report st) @ [v]"
proof -
  obtain spec args where item: "item = (spec, args)" by (cases item)
  have key: "item_key env item = logical_identity (env_sha env) spec" by (simp add: item_key_def item)
  from assms[unfolded item] show ?thesis
  proof (cases rule: batch_step_InrE)
    case (Skipped fin)
    then show ?thesis by (auto simp: completed_def key)
  next
    case (Retained r s1)
    then show ?thesis using record_item_same[OF Retained(3) refl refl] by (auto simp: completed_def map_le_def key)
  next
    case (Violated e s1)
    then show ?thesis using finish_item_same[OF Violated(4) refl refl] by (auto simp: completed_def map_le_def key)
  qed
qed

lemma batch_loop_completed:
  assumes "batch_loop env run clock items st s = (Inr st', s')"
  shows "completed st \<subseteq>\<^sub>m completed st' \<and> (\<forall>item\<in>set items. completed st' (item_key env item) \<noteq> None)
    \<and> rp_records (bs_report st')
        = rp_records (bs_report st) @ map (\<lambda>item. the (completed st' (item_key env item))) items"
  using assms
proof (induction items arbitrary: st s)
  case (Cons item items)
  then obtain w s1 where w: "batch_step env run clock item st s = (Inr w, s1)"
    "batch_loop env run clock items w s1 = (Inr st', s')" by (auto simp: io_bind_eq_Inr)
  from batch_step_completed[OF w(1)] obtain v where v: "completed w (item_key env item) = Some v"
    "completed st \<subseteq>\<^sub>m completed w" "rp_records (bs_report w) = rp_records (bs_report st) @ [v]" by blast
  have ih: "completed w \<subseteq>\<^sub>m completed st'" using Cons.IH[OF w(2)] by blast
  then have "completed st' (item_key env item) = Some v" using v(1) by (metis domI map_le_def)
  then show ?case using Cons.IH[OF w(2)] v ih by (auto intro: map_le_trans)
qed (auto simp: io_return_eq)

lemma batch_loop_skips:
  assumes "\<forall>item\<in>set items. completed st (item_key env item) \<noteq> None"
  shows "\<exists>st'. batch_loop env run clock items st s = (Inr st', s) \<and> bs_manifest st' = bs_manifest st
    \<and> bs_checkpoint st' = bs_checkpoint st \<and> bs_tick st' = bs_tick st"
  using assms
proof (induction items arbitrary: st)
  case (Cons item items)
  obtain spec args where item: "item = (spec, args)" by (cases item)
  obtain v where v: "ck_completed (bs_checkpoint st) (logical_identity (env_sha env) spec) = Some v"
    using Cons.prems by (auto simp: completed_def item_key_def item)
  define w where "w = (count_attempt st)\<lparr>bs_report := (bs_report (count_attempt st))
        \<lparr>rp_skipped := Suc (rp_skipped (bs_report st)), rp_records := rp_records (bs_report st) @ [v]\<rparr>\<rparr>"
  have w: "batch_step env run clock item st s = (Inr w, s)"
    using v by (simp add: item batch_step_def Let_def io_return_def w_def)
  have "\<forall>i\<in>set items. completed w (item_key env i) \<noteq> None" using Cons.prems by (simp add: completed_def w_def)
  from Cons.IH[OF this] show ?case
    using w by (auto simp: io_bind_def w_def)
qed (simp add: io_return_eq)

lemma batch_loop_skipped:
  assumes "\<forall>item\<in>set items. completed st (item_key env item) \<noteq> None"
    and "batch_loop env run clock items st s = (Inr st', s')"
  shows "s' = s \<and> rp_skipped (bs_report st') = rp_skipped (bs_report st) + length items
    \<and> bs_checkpoint st' = bs_checkpoint st"
  using assms
proof (induction items arbitrary: st)
  case (Cons item items)
  obtain spec args where item: "item = (spec, args)" by (cases item)
  obtain w s1 where w: "batch_step env run clock item st s = (Inr w, s1)" "batch_loop env run clock items w s1 = (Inr st', s')"
    using Cons.prems(2) by (auto simp: io_bind_eq_Inr)
  from w(1)[unfolded item] have step: "s1 = s" "bs_checkpoint w = bs_checkpoint st"
    "rp_skipped (bs_report w) = Suc (rp_skipped (bs_report st))"
    using Cons.prems(1) by (auto elim!: batch_step_InrE simp: completed_def item_key_def item)
  have "\<forall>i\<in>set items. completed w (item_key env i) \<noteq> None" using Cons.prems(1) step(2) by (simp add: completed_def)
  from Cons.IH[OF this w(2)[unfolded step(1)]] step show ?case by simp
qed (simp add: io_return_eq)

lemma batch_loop_append:
  "batch_loop env run clock (xs @ ys) st = io_bind (batch_loop env run clock xs st) (batch_loop env run clock ys)"
  by (induction xs arbitrary: st) (auto simp: io_bind_def io_return_def fun_eq_iff split: prod.splits sum.splits)

lemma process_batch_eq:
  "process_batch env items run domain clock resume s = (Inr rep, s') \<longleftrightarrow>
    (\<exists>st st1 s1. start_batch env run domain resume s = Inr st \<and> batch_loop env run clock items st s = (Inr st1, s1)
      \<and> write_permitted env (env_resolve env (checkpoint_path env (ck_run_id (bs_checkpoint st1))))
      \<and> write_permitted env (env_resolve env (run_report_path env run))
      \<and> rep = (bs_report st1)\<lparr>rp_status := ''completed''\<rparr>
      \<and> s' = s1(env_resolve env (checkpoint_path env (ck_run_id (bs_checkpoint st1))) \<mapsto>
                  Checkpoint_file ((bs_checkpoint st1)\<lparr>ck_status := ''completed''\<rparr>),
                env_resolve env (run_report_path env run) \<mapsto> Report_file rep))"
  by (auto simp: process_batch_def res_simps finish_batch_def Let_def write_checkpoint_def)

definition consistent :: "landing_env \<Rightarrow> string \<Rightarrow> fs \<Rightarrow> bool" where
  \<comment> \<open>the landing area a run starts from: its manifest agrees with the blob store, and its checkpoint, if
     there is one, is that of the run\<close>
  "consistent env run s \<longleftrightarrow>
     (case load_content_manifest env s of Inl _ \<Rightarrow> False | Inr m \<Rightarrow> manifest_ok env s m)
     \<and> (case load_checkpoint env run s of Inl _ \<Rightarrow> False | Inr c \<Rightarrow> ck_run_id c = run)"

lemma start_batch_inv:
  assumes "consistent env run s" "start_batch env run domain True s = Inr st"
  shows "batch_inv env run s st" "bs_tick st = 0" "bs_report st = new_report run domain"
  using assms by (auto simp: consistent_def start_batch_def bindE_eq_Inr batch_inv_def persisted_def report_ok_def
      new_report_def)

lemma consistent_start: "consistent env run s \<Longrightarrow> \<exists>st. start_batch env run domain True s = Inr st"
  by (auto simp: consistent_def start_batch_def split: sum.splits)

lemma batch_inv_consistent: "batch_inv env run s st \<Longrightarrow> consistent env run s"
  by (auto simp: batch_inv_def persisted_def consistent_def dest: arg_cong[where f = ck_run_id])

lemma restart:
  assumes "batch_inv env run s st" "start_batch env run domain True s = Inr st'"
  shows "bs_manifest st' = bs_manifest st \<and> bs_checkpoint st' = bs_checkpoint st \<and> bs_tick st' = 0"
  using assms by (auto simp: batch_inv_def persisted_def start_batch_def bindE_eq_Inr)

lemma load_after_report:
  assumes "inj (env_resolve env)"
  shows "load_content_manifest env (s(env_resolve env (run_report_path env run) \<mapsto> c)) = load_content_manifest env s"
    and "load_checkpoint env run (s(env_resolve env (run_report_path env run) \<mapsto> c)) = load_checkpoint env run s"
    and "holds_hash env (s(env_resolve env (run_report_path env run) \<mapsto> c)) h ext = holds_hash env s h ext"
  using assms
  by (simp_all add: load_content_manifest_def load_checkpoint_def holds_hash_def stored_blob_def
      content_manifest_path_def checkpoint_path_def run_report_path_def inj_eq)

lemma batch_step_attempted:
  "batch_step env run clock item st s = (Inr st', s') \<Longrightarrow>
     rp_attempted (bs_report st') = Suc (rp_attempted (bs_report st))"
  by (cases item) (auto elim!: batch_step_InrE record_item_InrE simp: finish_item_eq Let_def)

lemma batch_loop_attempted:
  "batch_loop env run clock items st s = (Inr st', s') \<Longrightarrow>
     rp_attempted (bs_report st') = rp_attempted (bs_report st) + length items"
  by (induction items arbitrary: st s) (auto simp: io_bind_eq_Inr io_return_eq dest: batch_step_attempted)

lemma finished_inv:
  \<comment> \<open>after the final writes, reading the files back still gives the state at the end of the loop\<close>
  assumes inj: "inj (env_resolve env)" and inv: "batch_inv env run s1 st1"
    and s': "s' = s1(env_resolve env (checkpoint_path env run) \<mapsto>
                  Checkpoint_file ((bs_checkpoint st1)\<lparr>ck_status := ''completed''\<rparr>),
                env_resolve env (run_report_path env run) \<mapsto> c)"
  shows "batch_inv env run s' st1"
proof -
  let ?s = "s1(env_resolve env (checkpoint_path env run) \<mapsto> Checkpoint_file ((bs_checkpoint st1)\<lparr>ck_status := ''completed''\<rparr>))"
  have "load_content_manifest env s' = load_content_manifest env s1"
    "load_checkpoint env run s' = Inr ((bs_checkpoint st1)\<lparr>ck_status := ''completed''\<rparr>)"
    "\<And>h ext. holds_hash env s' h ext = holds_hash env s1 h ext"
    unfolding s' by (simp_all add: load_after_report[OF inj] load_after_checkpoint[OF inj])
  moreover obtain c where c: "c\<lparr>ck_status := ''in_progress''\<rparr> = bs_checkpoint st1"
    using inv by (auto simp: batch_inv_def persisted_def)
  have "(bs_checkpoint st1)\<lparr>ck_status := ''completed'', ck_status := ''in_progress''\<rparr> = bs_checkpoint st1"
    unfolding c[symmetric] by simp
  ultimately show ?thesis using inv by (auto simp: batch_inv_def persisted_def manifest_ok_def)
qed


section \<open>Properties of retention and of a batch\<close>

text \<open>
  The outcome of \<open>retain\<close> tells the truth: it reports success exactly if there were bytes whose
  declared hash and validation hold, and then the store holds a file of that hash; it says \<open>ACQUIRED\<close>
  exactly if there was none before; any other outcome carries a reason.
\<close>

theorem retain_outcome:
  assumes "retain env run spec at known first legacy a s = (Inr r, s')"
  shows "(rr_outcome r \<in> set success_outcomes \<longleftrightarrow>
            (\<exists>d. ra_data a = Some d \<and> declared_ok env a d \<and> validated a d))
    \<and> (rr_outcome r \<in> set success_outcomes \<longrightarrow>
         (\<exists>d. ra_data a = Some d \<and> rr_sha256 r = Some (env_sha env d) \<and> holds_hash env s' (env_sha env d) (ra_file_suffix a)
            \<and> (rr_outcome r = ACQUIRED \<longleftrightarrow> stored_blob env s (env_sha env d @ ra_file_suffix a) = None)))
    \<and> (rr_outcome r \<notin> set success_outcomes \<longrightarrow> rr_outcome_reason r \<noteq> None)"
  using assms
proof (cases rule: retain_InrE)
  case (Stored d temporal)
  then show ?thesis using retain_valid_Inr[OF Stored(5)] by auto
qed (auto dest: fetch_error_outcome_not_success)

theorem retain_outcome_witness:
  "\<exists>r s'. retain sample_env ''r'' sample_spec ''t'' None None False (sample_args None) Map.empty = (Inr r, s')
     \<and> rr_outcome r = FAILED_RETRYABLE \<and> rr_outcome_reason r \<noteq> None"
proof -
  obtain r s' where r: "retain sample_env ''r'' sample_spec ''t'' None None False (sample_args None) Map.empty = (Inr r, s')"
    "rr_outcome r = FAILED_RETRYABLE"
    by (simp add: retain_def sample_args_def io_bind_def io_lift_def fetch_error_outcome_def build_record_def
        success_outcomes_def)
  then show ?thesis using retain_outcome[OF r(1)] by auto
qed

text \<open>
  C3. A batch that returns leaves a consistent landing area, in which every manifest entry is the entry
  of its hash, points to a stored file of that hash and carries a receipt of those bytes, and every latest
  version is an entry; its report accounts for every item once.
\<close>

theorem batch_keeps_landing_consistent:
  assumes "inj (env_resolve env)" "consistent env run s"
    and "process_batch env items run domain clock True s = (Inr rep, s')"
  shows "consistent env run s' \<and> report_ok rep \<and> rp_attempted rep = length items"
proof -
  from assms(3) obtain st st1 s1 where st: "start_batch env run domain True s = Inr st"
    and loop: "batch_loop env run clock items st s = (Inr st1, s1)"
    and rep: "rep = (bs_report st1)\<lparr>rp_status := ''completed''\<rparr>"
    and s': "s' = s1(env_resolve env (checkpoint_path env (ck_run_id (bs_checkpoint st1))) \<mapsto>
          Checkpoint_file ((bs_checkpoint st1)\<lparr>ck_status := ''completed''\<rparr>),
        env_resolve env (run_report_path env run) \<mapsto> Report_file rep)"
    unfolding process_batch_eq by blast
  note start = start_batch_inv[OF assms(2) st]
  have inv: "batch_inv env run s1 st1" using batch_loop_inv[OF assms(1) start(1) loop] .
  then have run: "ck_run_id (bs_checkpoint st1) = run" by (simp add: batch_inv_def persisted_def)
  have "consistent env run s'" using batch_inv_consistent finished_inv[OF assms(1) inv s'[unfolded run]] .
  moreover have "report_ok (bs_report st1)" using inv by (simp add: batch_inv_def)
  then have "report_ok rep" by (simp add: report_ok_def rep)
  moreover have "rp_attempted rep = length items"
    using batch_loop_attempted[OF loop] start(3) by (simp add: rep new_report_def)
  ultimately show ?thesis by blast
qed

lemma consistent_empty [simp]: "consistent env run Map.empty"
  by (simp add: consistent_def load_content_manifest_def load_checkpoint_def empty_manifest_def fresh_checkpoint_def
      manifest_ok_def)

lemma sample_env_inj [simp]: "inj (env_resolve sample_env)"
  by (simp add: sample_env_def)

definition sample_run :: "string option \<Rightarrow> fs \<Rightarrow> run_report res \<times> fs" where
  \<comment> \<open>a batch of one item, whose fetch fails if there are no bytes\<close>
  "sample_run data =
     process_batch sample_env [(sample_spec, sample_args data)] ''r'' ''filings'' (\<lambda>_. ''2024-01-03T00:00:00Z'') True"

lemma sample_run_ok:
  "is_ok (fst (sample_run (Some ''%PDF-'') Map.empty))"
  "is_ok (fst (sample_run None Map.empty))"
  by code_simp+

theorem batch_keeps_landing_consistent_witness:
  "consistent sample_env ''r'' (snd (sample_run (Some ''%PDF-'') Map.empty))"
proof -
  obtain rep s' where run: "sample_run (Some ''%PDF-'') Map.empty = (Inr rep, s')"
    using sample_run_ok(1) by (metis is_ok.elims(2) prod.collapse)
  show ?thesis
    using batch_keeps_landing_consistent[OF sample_env_inj consistent_empty run[unfolded sample_run_def]] run by simp
qed

text \<open>
  C1. Crash and resume: a run interrupted after any number of items, and started again with the same
  items, ends with every file but its report as the uninterrupted run leaves it, and with the same record
  for every item, provided its clock goes on where the interrupted one stopped.
\<close>

theorem resumed_run_converges:
  assumes inj: "inj (env_resolve env)" and cons: "consistent env run s"
    and whole: "process_batch env (xs @ ys) run domain clock True s = (Inr rep, s')"
    and start: "start_batch env run domain True s = Inr st"
    and crash: "batch_loop env run clock xs st s = (Inr st1, s1)"
    and clocks: "\<And>k. clock' k = clock (bs_tick st1 + k)"
  shows "\<exists>rep' s2. process_batch env (xs @ ys) run domain clock' True s1 = (Inr rep', s2)
    \<and> (\<forall>p. p \<noteq> env_resolve env (run_report_path env run) \<longrightarrow> s2 p = s' p) \<and> rp_records rep' = rp_records rep"
proof -
  note inv1 = batch_loop_inv[OF inj start_batch_inv(1)[OF cons start] crash]
  from whole start obtain st2 s2 where loop: "batch_loop env run clock (xs @ ys) st s = (Inr st2, s2)"
    and ok: "write_permitted env (env_resolve env (checkpoint_path env (ck_run_id (bs_checkpoint st2))))"
      "write_permitted env (env_resolve env (run_report_path env run))"
    and rep: "rep = (bs_report st2)\<lparr>rp_status := ''completed''\<rparr>"
    and s': "s' = s2(env_resolve env (checkpoint_path env (ck_run_id (bs_checkpoint st2))) \<mapsto>
          Checkpoint_file ((bs_checkpoint st2)\<lparr>ck_status := ''completed''\<rparr>),
        env_resolve env (run_report_path env run) \<mapsto> Report_file rep)"
    unfolding process_batch_eq by auto
  from loop have rest: "batch_loop env run clock ys st1 s1 = (Inr st2, s2)"
    using crash by (simp add: batch_loop_append io_bind_def)
  obtain st' where st': "start_batch env run domain True s1 = Inr st'"
    using consistent_start[OF batch_inv_consistent[OF inv1]] by blast
  note re = restart[OF inv1 st']
  have "\<forall>item\<in>set xs. completed st' (item_key env item) \<noteq> None"
    using batch_loop_completed[OF crash] re by (simp add: completed_def)
  from batch_loop_skips[OF this] obtain st3 where skip: "batch_loop env run clock' xs st' s1 = (Inr st3, s1)"
    "bs_manifest st3 = bs_manifest st1" "bs_checkpoint st3 = bs_checkpoint st1" "bs_tick st3 = 0"
    using re by metis
  have "same_progress clock st1 clock' st3" using skip clocks by (simp add: same_progress_def)
  from batch_loop_same[OF this rest] obtain st4 where
    st4: "batch_loop env run clock' ys st3 s1 = (Inr st4, s2)" "bs_checkpoint st4 = bs_checkpoint st2"
    by (auto simp: same_progress_def)
  have loop': "batch_loop env run clock' (xs @ ys) st' s1 = (Inr st4, s2)"
    using skip st4 by (simp add: batch_loop_append io_bind_def)
  let ?rep' = "(bs_report st4)\<lparr>rp_status := ''completed''\<rparr>"
  have "process_batch env (xs @ ys) run domain clock' True s1 =
      (Inr ?rep', s2(env_resolve env (checkpoint_path env (ck_run_id (bs_checkpoint st4))) \<mapsto>
          Checkpoint_file ((bs_checkpoint st4)\<lparr>ck_status := ''completed''\<rparr>),
        env_resolve env (run_report_path env run) \<mapsto> Report_file ?rep'))"
    unfolding process_batch_eq using st' loop' ok st4(2) by auto
  moreover have "rp_records ?rep' = rp_records rep"
    using batch_loop_completed[OF loop] batch_loop_completed[OF loop'] st4(2) start_batch_inv(3)[OF cons start]
      start_batch_inv(3)[OF batch_inv_consistent[OF inv1] st']
    by (simp add: rep completed_def new_report_def)
  ultimately show ?thesis using st4(2) by (auto simp: s')
qed

theorem resumed_run_converges_witness:
  "\<exists>st st1 s1 rep'. batch_loop sample_env ''r'' (\<lambda>_. ''2024-01-03T00:00:00Z'')
       [(sample_spec, sample_args (Some ''%PDF-''))] st Map.empty = (Inr st1, s1)
     \<and> fst (sample_run (Some ''%PDF-'') s1) = Inr rep'"
proof -
  let ?item = "(sample_spec, sample_args (Some ''%PDF-''))" and ?clock = "\<lambda>_. ''2024-01-03T00:00:00Z''"
  obtain rep s' where run: "process_batch sample_env [?item] ''r'' ''filings'' ?clock True Map.empty = (Inr rep, s')"
    using sample_run_ok(1) unfolding sample_run_def by (metis is_ok.elims(2) prod.collapse)
  then obtain st st1 s1 where st: "start_batch sample_env ''r'' ''filings'' True Map.empty = Inr st"
      "batch_loop sample_env ''r'' ?clock [?item] st Map.empty = (Inr st1, s1)"
    unfolding process_batch_eq by blast
  obtain rep' s2 where "process_batch sample_env ([?item] @ []) ''r'' ''filings'' ?clock True s1 = (Inr rep', s2)"
    using resumed_run_converges[OF sample_env_inj consistent_empty _ st, of "[]" rep s' ?clock] run by auto
  then have "fst (sample_run (Some ''%PDF-'') s1) = Inr rep'" by (simp add: sample_run_def)
  then show ?thesis using st(2) by blast
qed

text \<open>
  A finished run is never redone: running any items whose identities the finished run covered again
  skips every one of them and leaves the content store and the manifest as they are, also items that
  the first run recorded as retryable failures.
\<close>

theorem finished_items_never_redone:
  assumes inj: "inj (env_resolve env)" and cons: "consistent env run s"
    and first: "process_batch env items run domain clock True s = (Inr rep, s')"
    and again: "process_batch env items' run domain clock' True s' = (Inr rep', s'')"
    and keys: "item_key env ` set items' \<subseteq> item_key env ` set items"
  shows "rp_skipped rep' = length items' \<and> load_content_manifest env s'' = load_content_manifest env s'
    \<and> (\<forall>name. stored_blob env s'' name = stored_blob env s' name)"
proof -
  from first obtain st st1 s1 where st: "start_batch env run domain True s = Inr st"
    and loop: "batch_loop env run clock items st s = (Inr st1, s1)"
    and s': "s' = s1(env_resolve env (checkpoint_path env (ck_run_id (bs_checkpoint st1))) \<mapsto>
          Checkpoint_file ((bs_checkpoint st1)\<lparr>ck_status := ''completed''\<rparr>),
        env_resolve env (run_report_path env run) \<mapsto> Report_file rep)"
    unfolding process_batch_eq by blast
  have inv: "batch_inv env run s1 st1" using batch_loop_inv[OF inj start_batch_inv(1)[OF cons st] loop] .
  then have run: "ck_run_id (bs_checkpoint st1) = run" by (simp add: batch_inv_def persisted_def)
  note inv' = finished_inv[OF inj inv s'[unfolded run]]
  from again obtain st2 st3 s3 where st2: "start_batch env run domain True s' = Inr st2"
    and loop2: "batch_loop env run clock' items' st2 s' = (Inr st3, s3)"
    and rep': "rep' = (bs_report st3)\<lparr>rp_status := ''completed''\<rparr>"
    and s'': "s'' = s3(env_resolve env (checkpoint_path env (ck_run_id (bs_checkpoint st3))) \<mapsto>
          Checkpoint_file ((bs_checkpoint st3)\<lparr>ck_status := ''completed''\<rparr>),
        env_resolve env (run_report_path env run) \<mapsto> Report_file rep')"
    unfolding process_batch_eq by blast
  note re = restart[OF inv' st2]
  have "\<forall>item\<in>set items'. completed st2 (item_key env item) \<noteq> None"
  proof
    fix item assume "item \<in> set items'"
    then obtain i where "i \<in> set items" "item_key env item = item_key env i" using keys by auto
    then show "completed st2 (item_key env item) \<noteq> None"
      using batch_loop_completed[OF loop] re by (simp add: completed_def)
  qed
  from batch_loop_skipped[OF this loop2] have skip: "s3 = s'" "rp_skipped (bs_report st3) = rp_skipped (bs_report st2) + length items'"
    "bs_checkpoint st3 = bs_checkpoint st2" by auto
  have run3: "ck_run_id (bs_checkpoint st3) = run" using skip(3) re run by simp
  have "rp_skipped rep' = length items'"
    using skip(2) start_batch_inv(3)[OF batch_inv_consistent[OF inv'] st2] by (simp add: rep' new_report_def)
  moreover have "load_content_manifest env s'' = load_content_manifest env s'"
    unfolding s'' run3 skip(1) by (simp add: load_after_report[OF inj] load_after_checkpoint[OF inj])
  moreover have "stored_blob env s'' name = stored_blob env s' name" for name
    unfolding s'' run3 skip(1) checkpoint_path_def run_report_path_def by (simp add: stored_blob_upd(1)[OF inj])
  ultimately show ?thesis by blast
qed


lemma sample_run_twice: "is_ok (fst (sample_run (Some ''%PDF-'') (snd (sample_run None Map.empty))))"
  by code_simp

theorem finished_items_never_redone_witness:
  "\<exists>rep'. fst (sample_run (Some ''%PDF-'') (snd (sample_run None Map.empty))) = Inr rep' \<and> rp_skipped rep' = 1"
proof -
  obtain rep s' where run: "sample_run None Map.empty = (Inr rep, s')"
    using sample_run_ok(2) by (metis is_ok.elims(2) prod.collapse)
  obtain rep' s'' where again: "sample_run (Some ''%PDF-'') s' = (Inr rep', s'')"
    using sample_run_twice run by (metis is_ok.elims(2) prod.collapse snd_conv)
  have "rp_skipped rep' = length [(sample_spec, sample_args (Some ''%PDF-''))]"
    using finished_items_never_redone[OF sample_env_inj consistent_empty run[unfolded sample_run_def]
        again[unfolded sample_run_def]] by (simp add: item_key_def)
  then show ?thesis using run again by simp
qed

text \<open>
  A batch whose clock reads a time without a zone aborts at its first new document with
  \<open>ValueError\<close>, before anything is written and whatever the remaining items are: this failure is not
  recorded for the item, and unrelated items are not processed.
\<close>

theorem naive_clock_aborts_batch:
  assumes "start_batch env run domain True s = Inr st" "completed st (item_key env item) = None"
    and "ra_data (snd item) = Some d" "aware_iso (Text_time (clock 0)) = Inr None"
  shows "process_batch env (item # items) run domain clock True s
    = (raise ValueError ''RAW_RECEIPT_TIMESTAMP_TIMEZONE_REQUIRED'', s)"
proof -
  obtain spec args where item: "item = (spec, args)" by (cases item)
  have tick: "bs_tick st = 0" using assms(1) by (auto simp: start_batch_def bindE_eq_Inr)
  have capture: "capture_raw_receipt sha (Text_time (clock 0)) a = raise ValueError ''RAW_RECEIPT_TIMESTAMP_TIMEZONE_REQUIRED''" for sha a
    using assms(4) by (simp add: capture_raw_receipt_def)
  have ret: "retain env run spec (clock 0) known first legacy args s = (raise ValueError ''RAW_RECEIPT_TIMESTAMP_TIMEZONE_REQUIRED'', s)"
    for known first legacy
    using assms(3) by (cases "ra_fetch_error args") (simp_all add: item retain_def io_bind_def io_lift_def capture raise_def)
  have "batch_step env run clock item st s = (raise ValueError ''RAW_RECEIPT_TIMESTAMP_TIMEZONE_REQUIRED'', s)"
    using assms(2) ret
    by (simp add: item batch_step_def Let_def completed_def item_key_def tick split_beta contract_errors_def raise_def)
  then show ?thesis using assms(1) by (simp add: process_batch_def io_bind_def io_lift_def raise_def)
qed

theorem naive_clock_aborts_batch_witness:
  "process_batch sample_env [(sample_spec, sample_args (Some ''%PDF-'')), (sample_spec, sample_args None)] ''r'' ''filings''
     (\<lambda>_. ''2024-01-03T00:00:00'') True Map.empty
   = (raise ValueError ''RAW_RECEIPT_TIMESTAMP_TIMEZONE_REQUIRED'', Map.empty)"
proof -
  obtain st where st: "start_batch sample_env ''r'' ''filings'' True Map.empty = Inr st"
    using consistent_start[OF consistent_empty] by blast
  have "completed st k = None" for k
    using st by (auto simp: start_batch_def load_content_manifest_def load_checkpoint_def completed_def fresh_checkpoint_def)
  moreover have "aware_iso (Text_time ''2024-01-03T00:00:00'') = Inr None" by code_simp
  ultimately show ?thesis
    using st by (intro naive_clock_aborts_batch) (simp_all add: sample_args_def del: aware_iso.simps)
qed

definition legacy_area :: fs where
  \<comment> \<open>a landing area written before receipts were retained: the entry has a time but no receipt\<close>
  "legacy_area =
     [env_resolve sample_env (content_manifest_path sample_env) \<mapsto> Manifest_file
        \<lparr>cm_blobs = [''%PDF-'' \<mapsto> \<lparr>be_sha256 = ''%PDF-'', be_byte_size = Some 5,
             be_storage_locator = Some ''raw/blobs/%PDF-.pdf'', be_content_type = None,
             be_first_observed_at = Some ''2020-01-01T00:00:00Z'', be_first_run_id = ''r0'', be_temporal = None\<rparr>],
         cm_latest = Map.empty\<rparr>,
      env_resolve sample_env (blob_path sample_env ''%PDF-'' ''.pdf'') \<mapsto> Blob ''%PDF-'']"

definition receipt_after :: "string list \<Rightarrow> (string \<times> string option) option" where
  \<comment> \<open>the first observation of the retained receipt after runs with the given names over the legacy area\<close>
  "receipt_after runs =
     (let s = fold (\<lambda>run s. snd (process_batch sample_env [(sample_spec, sample_args (Some ''%PDF-''))] run ''filings''
                      (\<lambda>_. ''2024-01-03T00:00:00Z'') True s)) runs legacy_area in
      (case load_content_manifest sample_env s of Inl _ \<Rightarrow> None
       | Inr m \<Rightarrow> map_option (\<lambda>t. (rc_first_observed_status t, rc_first_observed_at t))
                    (case cm_blobs m ''%PDF-'' of None \<Rightarrow> None | Some e \<Rightarrow> be_temporal e)))"

text \<open>
  An unknown first observation does not stay unknown: content retained before receipts were kept is
  \<open>LEGACY_UNKNOWN\<close> after it is observed again, but a third observation makes the unqualified time of the
  old manifest entry its retained first observation, four years before any receipt.
\<close>

theorem legacy_unknown_becomes_retained:
  "receipt_after [''r1''] = Some (''LEGACY_UNKNOWN'', None)
   \<and> receipt_after [''r1'', ''r2''] = Some (''RETAINED'', Some ''2020-01-01T00:00:00Z'')"
  by code_simp

end
