(* ===== verification/PyValue.thy ===== *)
theory PyValue
  imports PyTime Complex_Main
begin

text \<open>
  The values of the modules that work on untyped mappings read from JSON: a value is one of the kinds
  below, a \<open>dict\<close> the association list of its items in insertion order.  A finite \<open>float\<close> is the rational
  number it denotes.  What Python prints for a float or a container is an argument of the definitions
  that need it, everything else is written out.
\<close>

datatype pyv =
    VNone
  | VBool (the_bool: bool)
  | VInt (the_int: int)
  | VFloat (the_float: rat)
  | VStr (the_str: string)
  | VList (the_list: "pyv list")
  | VDict (the_dict: "(string \<times> pyv) list")

type_synonym obj = "(string \<times> pyv) list"

named_theorems py_simps \<open>rewrite rules for operations on Python values\<close>

section \<open>Reading values\<close>

fun v_true :: "pyv \<Rightarrow> bool" where
  \<comment> \<open>\<open>bool(v)\<close>\<close>
  "v_true VNone = False"
| "v_true (VBool b) = b"
| "v_true (VInt i) = (i \<noteq> 0)"
| "v_true (VFloat r) = (r \<noteq> 0)"
| "v_true (VStr s) = (s \<noteq> [])"
| "v_true (VList xs) = (xs \<noteq> [])"
| "v_true (VDict kvs) = (kvs \<noteq> [])"

definition v_or :: "pyv \<Rightarrow> pyv \<Rightarrow> pyv" where
  "v_or a b = (if v_true a then a else b)"

definition oget :: "obj \<Rightarrow> string \<Rightarrow> pyv" where
  \<comment> \<open>\<open>d.get(k)\<close>\<close>
  "oget d k = (case map_of d k of None \<Rightarrow> VNone | Some v \<Rightarrow> v)"

definition oget_default :: "obj \<Rightarrow> string \<Rightarrow> pyv \<Rightarrow> pyv" where
  \<comment> \<open>\<open>d.get(k, default)\<close>\<close>
  "oget_default d k v = (case map_of d k of None \<Rightarrow> v | Some w \<Rightarrow> w)"

definition oitem :: "obj \<Rightarrow> string \<Rightarrow> pyv res" where
  \<comment> \<open>\<open>d[k]\<close>\<close>
  "oitem d k = (case map_of d k of None \<Rightarrow> raise KeyError k | Some v \<Rightarrow> Inr v)"

definition ohas :: "obj \<Rightarrow> string \<Rightarrow> bool" where
  "ohas d k \<longleftrightarrow> map_of d k \<noteq> None"

fun oset :: "obj \<Rightarrow> string \<Rightarrow> pyv \<Rightarrow> obj" where
  \<comment> \<open>\<open>d[k] = v\<close>: an existing key keeps its place\<close>
  "oset [] k v = [(k, v)]"
| "oset ((k', w) # d) k v = (if k' = k then (k, v) # d else (k', w) # oset d k v)"

fun is_str :: "pyv \<Rightarrow> bool" where
  "is_str (VStr s) = True" | "is_str _ = False"

fun is_bool :: "pyv \<Rightarrow> bool" where
  "is_bool (VBool b) = True" | "is_bool _ = False"

fun is_int :: "pyv \<Rightarrow> bool" where
  \<comment> \<open>\<open>isinstance(v, int)\<close>: \<open>bool\<close> is a subclass of \<open>int\<close>\<close>
  "is_int (VInt i) = True" | "is_int (VBool b) = True" | "is_int _ = False"

fun is_list :: "pyv \<Rightarrow> bool" where
  "is_list (VList xs) = True" | "is_list _ = False"

fun is_dict :: "pyv \<Rightarrow> bool" where
  "is_dict (VDict d) = True" | "is_dict _ = False"

fun as_dict :: "pyv \<Rightarrow> obj" where
  \<comment> \<open>\<open>v if isinstance(v, Mapping) else {}\<close>\<close>
  "as_dict (VDict d) = d" | "as_dict _ = []"

fun num_of :: "pyv \<Rightarrow> rat option" where
  \<comment> \<open>the number a value counts as in comparisons\<close>
  "num_of (VBool b) = Some (if b then 1 else 0)"
| "num_of (VInt i) = Some (of_int i)"
| "num_of (VFloat r) = Some r"
| "num_of _ = None"

primrec py_norm :: "pyv \<Rightarrow> pyv" where
  \<comment> \<open>numbers as floats and the items of each mapping in key order: equal values have equal forms\<close>
  "py_norm VNone = VNone"
| "py_norm (VBool b) = VFloat (if b then 1 else 0)"
| "py_norm (VInt i) = VFloat (of_int i)"
| "py_norm (VFloat r) = VFloat r"
| "py_norm (VStr s) = VStr s"
| "py_norm (VList xs) = VList (map py_norm xs)"
| "py_norm (VDict d) = VDict (sort_key fst (map (map_prod id py_norm) d))"

definition py_eq :: "pyv \<Rightarrow> pyv \<Rightarrow> bool" where
  "py_eq a b \<longleftrightarrow> py_norm a = py_norm b"

definition py_str :: "(pyv \<Rightarrow> string) \<Rightarrow> pyv \<Rightarrow> string" where
  \<comment> \<open>\<open>str(v)\<close>; \<open>rep\<close> is the text of floats and containers\<close>
  "py_str rep v =
     (case v of VNone \<Rightarrow> ''None'' | VBool b \<Rightarrow> (if b then ''True'' else ''False'')
      | VInt i \<Rightarrow> str_of_int i | VStr s \<Rightarrow> s | _ \<Rightarrow> rep v)"

fun code_points :: "string \<Rightarrow> string list" where
  \<comment> \<open>the characters of a \<open>str\<close>, each with its bytes\<close>
  "code_points [] = []"
| "code_points (c # cs) =
     (case code_points cs of
        [] \<Rightarrow> [[c]]
      | p # ps \<Rightarrow> if lead_bytes (take 1 p) = [] then (c # p) # ps else [c] # p # ps)"

fun py_iter :: "pyv \<Rightarrow> pyv list res" where
  \<comment> \<open>what \<open>for x in v\<close> ranges over\<close>
  "py_iter (VList xs) = Inr xs"
| "py_iter (VStr s) = Inr (map VStr (code_points s))"
| "py_iter (VDict d) = Inr (map (\<lambda>kv. VStr (fst kv)) d)"
| "py_iter _ = raise TypeError ''object is not iterable''"

fun hashable :: "pyv \<Rightarrow> bool" where
  "hashable (VList xs) = False" | "hashable (VDict d) = False" | "hashable _ = True"

definition attr_get :: "pyv \<Rightarrow> string \<Rightarrow> pyv res" where
  \<comment> \<open>\<open>v.get(k)\<close> on a value that need not be a mapping\<close>
  "attr_get v k = (case v of VDict d \<Rightarrow> Inr (oget d k) | _ \<Rightarrow> raise AttributeError ''get'')"

definition attr_item :: "pyv \<Rightarrow> string \<Rightarrow> pyv res" where
  \<comment> \<open>\<open>v[k]\<close> on a value that need not be a mapping\<close>
  "attr_item v k = (case v of VDict d \<Rightarrow> oitem d k | _ \<Rightarrow> raise TypeError ''not a mapping'')"

definition member_of :: "pyv \<Rightarrow> string list \<Rightarrow> bool res" where
  \<comment> \<open>\<open>v in s\<close> for a set \<open>s\<close> of strings\<close>
  "member_of v s = (if is_list v \<or> is_dict v then raise TypeError ''unhashable type'' else Inr (v \<in> VStr ` set s))"

definition odel :: "obj \<Rightarrow> string \<Rightarrow> obj" where
  \<comment> \<open>\<open>d.pop(k, None)\<close>, which leaves this\<close>
  "odel d k = filter (\<lambda>kv. fst kv \<noteq> k) d"

definition py_in :: "pyv \<Rightarrow> pyv \<Rightarrow> bool res" where
  \<comment> \<open>\<open>v in container\<close>\<close>
  "py_in v container =
     (case container of VList xs \<Rightarrow> Inr (list_ex (py_eq v) xs)
      | VDict d \<Rightarrow> if hashable v then Inr (list_ex (\<lambda>kv. v = VStr (fst kv)) d) else raise TypeError ''unhashable type''
      | VStr s \<Rightarrow> (case v of VStr t \<Rightarrow> Inr (str_contains t s) | _ \<Rightarrow> raise TypeError ''in <string> requires string'')
      | _ \<Rightarrow> raise TypeError ''argument is not iterable'')"

fun py_size :: "pyv \<Rightarrow> nat res" where
  \<comment> \<open>\<open>len(v)\<close>\<close>
  "py_size (VList xs) = Inr (length xs)"
| "py_size (VDict d) = Inr (length d)"
| "py_size (VStr s) = Inr (py_len s)"
| "py_size _ = raise TypeError ''object has no len()''"

fun anyE :: "('a \<Rightarrow> bool res) \<Rightarrow> 'a list \<Rightarrow> bool res" where
  \<comment> \<open>\<open>any(p(x) for x in xs)\<close>, which stops at the first that holds\<close>
  "anyE p [] = Inr False"
| "anyE p (x # xs) = bindE (p x) (\<lambda>b. if b then Inr True else anyE p xs)"

fun filterE :: "('a \<Rightarrow> bool res) \<Rightarrow> ('a \<Rightarrow> 'b res) \<Rightarrow> 'a list \<Rightarrow> 'b list res" where
  \<comment> \<open>\<open>[f(x) for x in xs if p(x)]\<close>\<close>
  "filterE p f [] = Inr []"
| "filterE p f (x # xs) =
     bindE (p x) (\<lambda>b. if b then bindE (f x) (\<lambda>y. bindE (filterE p f xs) (\<lambda>ys. Inr (y # ys))) else filterE p f xs)"

definition tally_names :: "pyv list \<Rightarrow> pyv res" where
  \<comment> \<open>\<open>dict(sorted(Counter(xs).items()))\<close>: the keys of a mapping are strings, as in JSON\<close>
  "tally_names xs =
     (if list_all is_str xs
      then Inr (VDict (map (\<lambda>k. (k, VInt (int (count_list (map the_str xs) k)))) (sorted_set (map the_str xs))))
      else raise TypeError ''keys are not strings'')"

definition aset :: "(string \<times> 'a) list \<Rightarrow> string \<Rightarrow> 'a \<Rightarrow> (string \<times> 'a) list" where
  \<comment> \<open>\<open>d[k] = v\<close> for a mapping of typed values\<close>
  "aset d k v = (if k \<in> set (map fst d) then map (\<lambda>(k', w). if k' = k then (k, v) else (k', w)) d else d @ [(k, v)])"

fun foldE :: "('a \<Rightarrow> 's \<Rightarrow> 's res) \<Rightarrow> 'a list \<Rightarrow> 's \<Rightarrow> 's res" where
  \<comment> \<open>a loop whose body may raise\<close>
  "foldE f [] s = Inr s"
| "foldE f (x # xs) s = bindE (f x s) (foldE f xs)"

lemma foldE_invariant:
  assumes "foldE f xs s = Inr t" "P s" "\<And>x s t. x \<in> set xs \<Longrightarrow> f x s = Inr t \<Longrightarrow> P s \<Longrightarrow> P t"
  shows "P t"
  using assms by (induction xs arbitrary: s) (auto simp: bindE_eq_Inr)

lemma anyE_False: "anyE p xs = Inr False \<longleftrightarrow> (\<forall>x\<in>set xs. p x = Inr False)"
  by (induction xs) (auto simp: res_simps)

lemma odel_simps [simp, py_simps]:
  "odel [] k = []" "odel ((k', v) # d) k = (if k' = k then odel d k else (k', v) # odel d k)"
  by (simp_all add: odel_def)

lemma odel_absent: "k \<notin> fst ` set d \<Longrightarrow> odel d k = d"
  by (force simp: odel_def filter_id_conv)

lemma v_or_simps [simp, py_simps]:
  "v_true a \<Longrightarrow> v_or a b = a" "\<not> v_true a \<Longrightarrow> v_or a b = b" "v_or VNone b = b"
  by (simp_all add: v_or_def)

lemma oget_Nil [simp, py_simps]: "oget [] k = VNone"
  by (simp add: oget_def)

lemma oget_Cons [simp, py_simps]: "oget ((k', v) # d) k = (if k' = k then v else oget d k)"
  by (simp add: oget_def)

lemma map_of_oset [simp, py_simps]: "map_of (oset d k v) = (map_of d)(k \<mapsto> v)"
  by (induction d k v rule: oset.induct) auto

lemma oget_append_keys: "oget (d @ e) k = (if k \<in> fst ` set d then oget d k else oget e k)"
  by (induction d) (auto simp: oget_def map_add_def)

lemma oget_oset [simp, py_simps]: "oget (oset d k v) k' = (if k' = k then v else oget d k')"
  by (simp add: oget_def)

lemma oget_odel [simp, py_simps]: "oget (odel d k) k' = (if k' = k then VNone else oget d k')"
  by (induction d) (auto simp: odel_def)

lemma oset_keys: "set (map fst (oset d k v)) = insert k (set (map fst d))"
  by (induction d k v rule: oset.induct) auto

lemma distinct_oset [simp]: "distinct (map fst d) \<Longrightarrow> distinct (map fst (oset d k v))"
proof (induction d k v rule: oset.induct)
  case (2 k' w d k v)
  then show ?case using oset_keys[of d k v] by auto
qed simp

lemma is_int_num: "is_int v \<Longrightarrow> \<exists>i. num_of v = Some (of_int i)"
  by (cases v) (auto intro: exI[of _ 0] exI[of _ 1])

lemma py_eq_refl [simp, py_simps]: "py_eq v v"
  by (simp add: py_eq_def)

lemma py_eq_sym: "py_eq a b \<Longrightarrow> py_eq b a"
  by (simp add: py_eq_def)

lemma py_eq_simps [simp, py_simps]:
  "py_eq v VNone \<longleftrightarrow> v = VNone" "py_eq VNone v \<longleftrightarrow> v = VNone"
  "py_eq v (VStr s) \<longleftrightarrow> v = VStr s" "py_eq (VStr s) v \<longleftrightarrow> v = VStr s"
  "py_eq v (VInt i) \<longleftrightarrow> num_of v = Some (of_int i)"
  by (cases v; auto simp: py_eq_def)+

lemma py_str_simps [simp, py_simps]:
  "py_str rep VNone = ''None''" "py_str rep (VStr s) = s" "py_str rep (VInt i) = str_of_int i"
  "py_str rep (VBool b) = (if b then ''True'' else ''False'')"
  "py_str rep (VFloat r) = rep (VFloat r)" "py_str rep (VList xs) = rep (VList xs)"
  "py_str rep (VDict d) = rep (VDict d)"
  by (simp_all add: py_str_def)

lemma map_of_aset: "map_of (aset d k v) = (map_of d)(k \<mapsto> v)"
proof -
  have "map_of (map (\<lambda>(k', w). if k' = k then (k, v) else (k', w)) d) x =
      (if x = k then (if k \<in> fst ` set d then Some v else None) else map_of d x)" for x
    by (induction d) (auto simp: rev_image_eqI)
  moreover have "map_of (d @ [(k, v)]) x = (if x = k then Some v else map_of d x)" if "k \<notin> fst ` set d" for x
    using that by (induction d) auto
  ultimately show ?thesis by (auto simp: aset_def fun_eq_iff)
qed

section \<open>Grouping by key\<close>

fun group_add :: "('k \<times> 'v list) list \<Rightarrow> 'k \<Rightarrow> 'v \<Rightarrow> ('k \<times> 'v list) list" where
  \<comment> \<open>\<open>groups.setdefault(session, []).append(index)\<close>\<close>
  "group_add [] s i = [(s, [i])]"
| "group_add ((t, is) # gs) s i = (if t = s then (t, is @ [i]) # gs else (t, is) # group_add gs s i)"

lemma group_add_keys: "map fst (group_add gs s i) = map fst gs @ (if s \<in> set (map fst gs) then [] else [s])"
  by (induction gs s i rule: group_add.induct) auto

lemma group_add_entries:
  "distinct (map fst gs) \<Longrightarrow> (t, js) \<in> set (group_add gs s i) \<longleftrightarrow>
     (if t = s then js = (case map_of gs s of None \<Rightarrow> [] | Some is \<Rightarrow> is) @ [i] else (t, js) \<in> set gs)"
proof (induction gs s i rule: group_add.induct)
  case (2 u "is" gs s i)
  then show ?case by (auto simp: rev_image_eqI)
qed auto

section \<open>The first greatest element\<close>

fun first_max :: "('a \<Rightarrow> nat) \<Rightarrow> 'a \<Rightarrow> 'a list \<Rightarrow> 'a" where
  \<comment> \<open>\<open>max(xs, key=f)\<close>: the first of the greatest\<close>
  "first_max f best [] = best"
| "first_max f best (x # xs) = first_max f (if f best < f x then x else best) xs"

lemma first_max_in: "first_max f x xs \<in> insert x (set xs)"
  by (induction f x xs rule: first_max.induct) (auto split: if_splits)

lemma first_max_greatest: "y \<in> insert x (set xs) \<Longrightarrow> f y \<le> f (first_max f x xs)"
proof (induction f x xs arbitrary: y rule: first_max.induct)
  case (2 f best x xs)
  let ?b = "if f best < f x then x else best"
  have "f ?b \<le> f (first_max f ?b xs)" using 2 by simp
  moreover have "f best \<le> f ?b" "f x \<le> f ?b" by auto
  ultimately show ?case using 2 by (metis first_max.simps(2) insert_iff le_trans list.set(2))
qed simp

section \<open>Canonical JSON\<close>

text \<open>
  \<open>json.dumps(value, ensure_ascii=False, sort_keys=True, separators=(",", ":"), allow_nan=False)\<close>, the
  text every content identity of the repository is the hash of; \<open>fl\<close> is \<open>float.__repr__\<close>.
\<close>

definition hex_char :: "nat \<Rightarrow> char" where
  "hex_char n = char_of (if n < 10 then 48 + n else 87 + n)"

definition json_escape :: "char \<Rightarrow> string" where
  "json_escape c =
     (let n = (of_char c :: nat) in
      if n = 34 then [char_of (92::nat), char_of (34::nat)]
      else if n = 92 then [char_of (92::nat), char_of (92::nat)]
      else if n = 10 then [char_of (92::nat), CHR ''n'']
      else if n = 13 then [char_of (92::nat), CHR ''r'']
      else if n = 9 then [char_of (92::nat), CHR ''t'']
      else if n = 12 then [char_of (92::nat), CHR ''f'']
      else if n = 8 then [char_of (92::nat), CHR ''b'']
      else if n < 32 then [char_of (92::nat), CHR ''u'', CHR ''0'', CHR ''0'', hex_char (n div 16), hex_char (n mod 16)]
      else [c])"

definition json_string :: "string \<Rightarrow> string" where
  "json_string s = char_of (34::nat) # concat (map json_escape s) @ [char_of (34::nat)]"

primrec sort_keys :: "pyv \<Rightarrow> pyv" where
  "sort_keys VNone = VNone"
| "sort_keys (VBool b) = VBool b"
| "sort_keys (VInt i) = VInt i"
| "sort_keys (VFloat r) = VFloat r"
| "sort_keys (VStr s) = VStr s"
| "sort_keys (VList xs) = VList (map sort_keys xs)"
| "sort_keys (VDict d) = VDict (sort_key fst (map (map_prod id sort_keys) d))"

primrec json_text :: "(rat \<Rightarrow> string) \<Rightarrow> pyv \<Rightarrow> string" where
  "json_text fl VNone = ''null''"
| "json_text fl (VBool b) = (if b then ''true'' else ''false'')"
| "json_text fl (VInt i) = str_of_int i"
| "json_text fl (VFloat r) = fl r"
| "json_text fl (VStr s) = json_string s"
| "json_text fl (VList xs) = ''['' @ str_join '','' (map (json_text fl) xs) @ '']''"
| "json_text fl (VDict d) =
     ''{'' @ str_join '','' (map (\<lambda>kv. json_string (fst kv) @ '':'' @ snd kv) (map (map_prod id (json_text fl)) d)) @ ''}''"

definition json_dumps :: "(rat \<Rightarrow> string) \<Rightarrow> pyv \<Rightarrow> string" where
  "json_dumps fl v = json_text fl (sort_keys v)"

end
