(* ===== verification/ProviderRuntime.thy ===== *)
theory ProviderRuntime
  imports PyValue
begin

text \<open>
  The provider runtime contract, \<open>provider_runtime_state.py\<close>: the owner's launch policy and its
  fail-closed loading, the twelve runtime states and how worker failures and observed responses map to
  them, and the construction of the worker's environment from an explicit allow-list.

  The policy file enters as its parsed content or the name of the exception that reading it raised;
  \<open>rep\<close> is Python's \<open>repr\<close>; the path functions of the operating system are fields of \<open>os_paths\<close>.
\<close>

section \<open>Vocabulary\<close>

definition runtime_states :: "string list" where
  "runtime_states = [''AVAILABLE'', ''NOT_CONFIGURED'', ''SECURITY_REVIEW_BLOCKED'', ''NOT_INSTALLED'',
     ''IMPORT_FAILED'', ''STARTUP_FAILED'', ''STARTUP_TIMEOUT'', ''PROTOCOL_VIOLATION'', ''PROCESS_CRASHED'',
     ''AUTH_FAILED'', ''RATE_LIMITED'', ''UNAVAILABLE_CAUSE_UNKNOWN'']"

definition phases :: "string list" where
  "phases = [''PREFLIGHT'', ''OPERATION'']"

definition provider_family_vnstock :: string where
  "provider_family_vnstock = ''VNSTOCK_KBS_VCI''"

definition policy_allow :: string where
  "policy_allow = ''ALLOW_CONFIGURED_PROVIDER_RUNTIME''"

definition policy_values :: "string list" where
  "policy_values = [''SECURITY_REVIEW_BLOCKED'', ''RETIRED_PROVIDER'', policy_allow]"

definition startup_kind_to_state :: "(string \<times> string \<times> string) list" where
  "startup_kind_to_state =
     [(''SPAWN_FAILED'', ''STARTUP_FAILED'', ''PROVIDER_WORKER_SPAWN_FAILED''),
      (''STARTUP_TIMEOUT'', ''STARTUP_TIMEOUT'', ''PROVIDER_WORKER_STARTUP_TIMEOUT''),
      (''EXITED_BEFORE_READY'', ''STARTUP_FAILED'', ''PROVIDER_WORKER_EXITED_BEFORE_READY''),
      (''PROVIDER_PACKAGE_NOT_INSTALLED'', ''NOT_INSTALLED'', ''PROVIDER_PACKAGE_NOT_INSTALLED''),
      (''PROVIDER_IMPORT_FAILED'', ''IMPORT_FAILED'', ''PROVIDER_IMPORT_FAILED''),
      (''WORKER_STARTUP_EXCEPTION'', ''STARTUP_FAILED'', ''PROVIDER_WORKER_STARTUP_EXCEPTION''),
      (''PROVIDER_RUNTIME_ATTESTATION_FAILED'', ''SECURITY_REVIEW_BLOCKED'', ''PROVIDER_WORKER_SELF_ATTESTATION_FAILED''),
      (''PROVIDER_STARTUP_CONTAINMENT_VIOLATION'', ''SECURITY_REVIEW_BLOCKED'', ''PROVIDER_STARTUP_CONTAINMENT_VIOLATION''),
      (''PROVIDER_INIT_FAILED_UNDER_CONTAINMENT'', ''STARTUP_FAILED'', ''PROVIDER_INIT_FAILED_UNDER_CONTAINMENT''),
      (''PROVIDER_OS_ENFORCEMENT_UNAVAILABLE'', ''SECURITY_REVIEW_BLOCKED'', ''PROVIDER_OS_ENFORCEMENT_UNAVAILABLE''),
      (''PROVIDER_OS_ENFORCEMENT_ATTESTATION_FAILED'', ''SECURITY_REVIEW_BLOCKED'', ''PROVIDER_OS_ENFORCEMENT_ATTESTATION_INVALID'')]"

definition failure_class_to_state :: "(string \<times> string \<times> string) list" where
  "failure_class_to_state =
     [(''WORKER_PROTOCOL_VIOLATION'', ''PROTOCOL_VIOLATION'', ''PROVIDER_WORKER_PROTOCOL_VIOLATION''),
      (''WORKER_PROCESS_EXIT'', ''PROCESS_CRASHED'', ''PROVIDER_WORKER_PROCESS_EXITED''),
      (''WORKER_TIMEOUT'', ''UNAVAILABLE_CAUSE_UNKNOWN'', ''PROVIDER_WORKER_REQUEST_TIMEOUT''),
      (''WORKER_REQUEST_PROCESSING_EXCEPTION'', ''UNAVAILABLE_CAUSE_UNKNOWN'', ''PROVIDER_WORKER_REQUEST_PROCESSING_EXCEPTION''),
      (''WORKER_CONTAINMENT_VIOLATION'', ''SECURITY_REVIEW_BLOCKED'', ''PROVIDER_CONTAINMENT_VIOLATION''),
      (''PROVIDER_BUILD_REVOKED'', ''SECURITY_REVIEW_BLOCKED'', ''PROVIDER_BUILD_REVOKED'')]"

definition failure_detail_keys :: "string list" where
  "failure_detail_keys = [''attestation_failures'', ''containment_events'', ''revocation'', ''reason_code'',
     ''provider_modules_loaded'']"

section \<open>Policy\<close>

definition denied_env_prefixes :: "string list" where
  "denied_env_prefixes = [''DNSE_'', ''LIVESPEED_'', ''FINHAY_'']"

definition secret_env_markers :: "string list" where
  "secret_env_markers = [''TOKEN'', ''SECRET'', ''PASSWORD'', ''PASSWD'', ''API_KEY'', ''APIKEY'', ''CREDENTIAL'',
     ''PRIVATE_KEY'', ''ACCESS_KEY'', ''COOKIE'', ''SIGNATURE'', ''AUTH'']"

definition drop_final_newline :: "string \<Rightarrow> string" where
  \<comment> \<open>\<open>$\<close> of a regular expression also matches before a final line feed\<close>
  "drop_final_newline s = (if s \<noteq> [] \<and> last s = char_of (10::nat) then butlast s else s)"

definition is_alpha_char :: "char \<Rightarrow> bool" where
  "is_alpha_char c \<longleftrightarrow> (let n = (of_char c :: nat) in (65 \<le> n \<and> n \<le> 90) \<or> (97 \<le> n \<and> n \<le> 122) \<or> n = 95)"

definition env_name_re :: "string \<Rightarrow> bool" where
  "env_name_re s \<longleftrightarrow>
     (case drop_final_newline s of [] \<Rightarrow> False
      | c # cs \<Rightarrow> is_alpha_char c \<and> list_all (\<lambda>d. is_alpha_char d \<or> is_digit d) cs)"

definition sha256_re :: "string \<Rightarrow> bool" where
  "sha256_re s \<longleftrightarrow>
     (let t = drop_final_newline s
      in length t = 64 \<and> list_all (\<lambda>c. is_digit c \<or> (97 \<le> (of_char c :: nat) \<and> (of_char c :: nat) \<le> 102)) t)"

record provider_policy =
  pp_provider_family :: string
  pp_policy :: string
  pp_reason :: string
  pp_evidence_ref :: pyv
  pp_set_by :: pyv
  pp_set_at :: pyv
  pp_allowed_provider_env :: "string list"
  pp_source :: string
  pp_load_reason_code :: "string option"
  pp_manifest_path :: "string option"
  pp_manifest_sha256 :: "string option"
  pp_decision_id :: "string option"

definition is_denied_family :: "string \<Rightarrow> bool" where
  "is_denied_family name \<longleftrightarrow> list_ex (\<lambda>p. starts_with (str_upper name) p) denied_env_prefixes"

definition is_secret_shaped :: "string \<Rightarrow> bool" where
  "is_secret_shaped name \<longleftrightarrow> list_ex (\<lambda>m. str_contains m (str_upper name)) secret_env_markers"

definition check_allowed_name :: "(pyv \<Rightarrow> string) \<Rightarrow> pyv \<Rightarrow> string res" where
  "check_allowed_name rep v =
     (case v of
        VStr name \<Rightarrow>
          if \<not> env_name_re name then raise ProviderRuntimeContractError (''PROVIDER_ENV_ALLOWLIST_NAME_INVALID:'' @ rep v)
          else if is_denied_family name then raise ProviderRuntimeContractError (''PROVIDER_ENV_ALLOWLIST_DENIED_FAMILY:'' @ name)
          else Inr name
      | _ \<Rightarrow> raise ProviderRuntimeContractError (''PROVIDER_ENV_ALLOWLIST_NAME_INVALID:'' @ rep v))"

definition make_policy ::
  "(pyv \<Rightarrow> string) \<Rightarrow> pyv list \<Rightarrow> provider_policy \<Rightarrow> provider_policy res" where
  \<comment> \<open>the constructor of \<open>ProviderPolicy\<close>, its allow-list still untyped\<close>
  "make_policy rep allowed p =
     (if pp_policy p \<notin> set policy_values
      then raise ProviderRuntimeContractError (''PROVIDER_POLICY_VALUE_UNKNOWN:'' @ rep (VStr (pp_policy p)))
      else bindE (mapE (check_allowed_name rep) allowed) (\<lambda>names.
        case pp_manifest_sha256 p of
          Some h \<Rightarrow> if sha256_re h then Inr (p\<lparr>pp_allowed_provider_env := names\<rparr>)
                    else raise ProviderRuntimeContractError ''PROVIDER_POLICY_MANIFEST_SHA256_INVALID''
        | None \<Rightarrow> Inr (p\<lparr>pp_allowed_provider_env := names\<rparr>)))"

definition allows_launch :: "provider_policy \<Rightarrow> bool" where
  "allows_launch p \<longleftrightarrow> pp_policy p = policy_allow"

definition opt_str :: "string option \<Rightarrow> pyv" where
  "opt_str x = (case x of None \<Rightarrow> VNone | Some s \<Rightarrow> VStr s)"

definition policy_record :: "provider_policy \<Rightarrow> obj" where
  "policy_record p =
     [(''contract_version'', VStr ''provider_runtime_policy/v1''),
      (''provider_family'', VStr (pp_provider_family p)),
      (''policy'', VStr (pp_policy p)),
      (''reason'', VStr (pp_reason p)),
      (''evidence_ref'', pp_evidence_ref p),
      (''set_by'', pp_set_by p),
      (''set_at'', pp_set_at p),
      (''allowed_provider_env'', VList (map VStr (sort (pp_allowed_provider_env p)))),
      (''source'', VStr (pp_source p)),
      (''load_reason_code'', opt_str (pp_load_reason_code p)),
      (''approved_build_manifest'',
         if pp_manifest_path p \<notin> {None, Some []} \<or> pp_manifest_sha256 p \<notin> {None, Some []}
         then VDict [(''path'', opt_str (pp_manifest_path p)), (''sha256'', opt_str (pp_manifest_sha256 p))]
         else VNone),
      (''decision_id'', opt_str (pp_decision_id p))]"

definition reason_policy_missing :: string where
  "reason_policy_missing = ''PROVIDER_POLICY_MISSING_OR_INVALID_FAIL_CLOSED''"

definition fail_closed_policy :: "string \<Rightarrow> string \<Rightarrow> provider_policy" where
  "fail_closed_policy reason_code detail =
     \<lparr>pp_provider_family = provider_family_vnstock, pp_policy = ''SECURITY_REVIEW_BLOCKED'',
      pp_reason = reason_code @ '':'' @ detail, pp_evidence_ref = VNone, pp_set_by = VNone, pp_set_at = VNone,
      pp_allowed_provider_env = [], pp_source = ''FAIL_CLOSED_DEFAULT'', pp_load_reason_code = Some reason_code,
      pp_manifest_path = None, pp_manifest_sha256 = None, pp_decision_id = None\<rparr>"

fun pin_ok :: "pyv \<Rightarrow> bool" where
  "pin_ok VNone = True"
| "pin_ok (VDict d) = (is_str (oget d ''path'') \<and> is_str (oget d ''sha256''))"
| "pin_ok _ = False"

fun pin_field :: "pyv \<Rightarrow> string \<Rightarrow> string option" where
  "pin_field (VDict d) k = (if d \<noteq> [] then Some (the_str (oget d k)) else None)"
| "pin_field _ k = None"

fun opt_of :: "pyv \<Rightarrow> string option" where
  "opt_of (VStr s) = Some s" | "opt_of _ = None"

definition policy_of_entry ::
  "(pyv \<Rightarrow> string) \<Rightarrow> string \<Rightarrow> string \<Rightarrow> obj \<Rightarrow> pyv list \<Rightarrow> provider_policy res" where
  "policy_of_entry rep file_name family entry allowed =
     make_policy rep allowed
       \<lparr>pp_provider_family = family,
        pp_policy = py_str rep (oget entry ''policy''),
        pp_reason = py_str rep (v_or (oget entry ''reason'') (VStr [])),
        pp_evidence_ref = oget entry ''evidence_ref'', pp_set_by = oget entry ''set_by'', pp_set_at = oget entry ''set_at'',
        pp_allowed_provider_env = [],
        pp_source = ''TRACKED_POLICY_FILE:'' @ file_name,
        pp_load_reason_code = None,
        pp_manifest_path = pin_field (oget entry ''approved_build_manifest'') ''path'',
        pp_manifest_sha256 = pin_field (oget entry ''approved_build_manifest'') ''sha256'',
        pp_decision_id = opt_of (oget entry ''decision_id'')\<rparr>"

definition load_provider_policy ::
  "(pyv \<Rightarrow> string) \<Rightarrow> string \<Rightarrow> string + pyv \<Rightarrow> string \<Rightarrow> provider_policy" where
  "load_provider_policy rep file_name content family =
     (let blocked = fail_closed_policy reason_policy_missing in
      case content of
        Inl exc \<Rightarrow> blocked (''unreadable:'' @ exc)
      | Inr payload \<Rightarrow>
          if \<not> is_dict payload \<or> oget (the_dict payload) ''contract_version'' \<noteq> VStr ''provider_runtime_policy/v1''
          then blocked ''contract_version''
          else (case oget (as_dict (oget (the_dict payload) ''providers'')) family of
            VDict entry \<Rightarrow>
              (let allowed = v_or (oget entry ''allowed_provider_env'') (VList []);
                   pin = oget entry ''approved_build_manifest'';
                   decision = oget entry ''decision_id''
               in if \<not> is_list allowed then blocked ''allowed_provider_env_not_a_list''
                  else if \<not> pin_ok pin then blocked ''approved_build_manifest_shape''
                  else if decision \<noteq> VNone \<and> \<not> is_str decision then blocked ''decision_id_shape''
                  else (case policy_of_entry rep file_name family entry (the_list allowed) of
                    Inr p \<Rightarrow> p
                  | Inl e \<Rightarrow> blocked (exc_message e)))
          | _ \<Rightarrow> blocked (''provider_family_absent:'' @ family)))"

section \<open>Runtime-state records\<close>

record runtime_record =
  rt_provider_family :: string
  rt_state :: string
  rt_reason_code :: string
  rt_phase :: string
  rt_available :: bool
  rt_policy :: "string option"
  rt_policy_source :: "string option"
  rt_interpreter_configured :: "bool option"
  rt_runtime_info :: "obj option"
  rt_detail :: obj

record runtime_args =
  rn_phase :: string
  rn_family :: string
  rn_policy :: "provider_policy option"
  rn_interpreter :: "bool option"
  rn_info :: "obj option"
  rn_detail :: obj

definition default_runtime_args :: runtime_args where
  "default_runtime_args = \<lparr>rn_phase = ''PREFLIGHT'', rn_family = provider_family_vnstock, rn_policy = None,
     rn_interpreter = None, rn_info = None, rn_detail = []\<rparr>"

definition json_safe :: "obj \<Rightarrow> obj" where
  "json_safe d = the_dict (sort_keys (VDict d))"

definition runtime_state_record ::
  "(pyv \<Rightarrow> string) \<Rightarrow> string \<Rightarrow> string \<Rightarrow> runtime_args \<Rightarrow> runtime_record res" where
  "runtime_state_record rep state reason a =
     (if state \<notin> set runtime_states
      then raise ProviderRuntimeContractError (''PROVIDER_RUNTIME_STATE_UNKNOWN:'' @ rep (VStr state))
      else if rn_phase a \<notin> set phases
      then raise ProviderRuntimeContractError (''PROVIDER_RUNTIME_PHASE_UNKNOWN:'' @ rep (VStr (rn_phase a)))
      else if rn_info a \<noteq> None \<and> state \<noteq> ''AVAILABLE''
      then raise ProviderRuntimeContractError ''PROVIDER_RUNTIME_INFO_WITHOUT_READY_HANDSHAKE''
      else Inr \<lparr>rt_provider_family = rn_family a, rt_state = state, rt_reason_code = reason, rt_phase = rn_phase a,
                rt_available = (state = ''AVAILABLE''),
                rt_policy = map_option pp_policy (rn_policy a), rt_policy_source = map_option pp_source (rn_policy a),
                rt_interpreter_configured = rn_interpreter a,
                rt_runtime_info = map_option json_safe (rn_info a), rt_detail = json_safe (rn_detail a)\<rparr>)"

definition policy_block_record :: "(pyv \<Rightarrow> string) \<Rightarrow> provider_policy \<Rightarrow> runtime_record res" where
  "policy_block_record rep p =
     (let reason = (case pp_load_reason_code p of
            Some c \<Rightarrow> c
          | None \<Rightarrow> if pp_policy p = ''RETIRED_PROVIDER'' then ''OPTIONAL_SUPPLEMENTAL_PROVIDER_RETIRED''
                    else ''PROVIDER_POLICY_SECURITY_REVIEW_BLOCKED'')
      in runtime_state_record rep ''SECURITY_REVIEW_BLOCKED'' reason
           (default_runtime_args\<lparr>rn_policy := Some p,
              rn_detail := [(''policy_reason'', VStr (pp_reason p)), (''policy_evidence_ref'', pp_evidence_ref p)]\<rparr>))"

record os_paths =
  os_expanduser :: "string \<Rightarrow> string"
  os_norm :: "string \<Rightarrow> string" \<comment> \<open>\<open>normcase\<close> of \<open>abspath\<close>\<close>
  os_isfile :: "string \<Rightarrow> bool"

definition resolve_provider_interpreter ::
  "(pyv \<Rightarrow> string) \<Rightarrow> os_paths \<Rightarrow> (string \<times> string) list \<Rightarrow> string \<Rightarrow> provider_policy option
     \<Rightarrow> (string + runtime_record) res" where
  "resolve_provider_interpreter rep os environ core policy =
     (let raw = str_strip (case map_of environ ''STOCKLOOKUP_PROVIDER_PYTHON'' of None \<Rightarrow> [] | Some v \<Rightarrow> v);
          refuse = (\<lambda>reason configured. bindE
            (runtime_state_record rep ''NOT_CONFIGURED'' reason
               (default_runtime_args\<lparr>rn_policy := policy, rn_interpreter := Some configured\<rparr>))
            (\<lambda>r. Inr (Inr r)));
          candidate = os_norm os (os_expanduser os raw)
      in if raw = [] then refuse ''PROVIDER_INTERPRETER_NOT_CONFIGURED'' False
         else if \<not> os_isfile os candidate then refuse ''PROVIDER_INTERPRETER_PATH_NOT_FOUND'' True
         else if candidate = os_norm os core then refuse ''PROVIDER_INTERPRETER_IS_CORE_INTERPRETER'' True
         else Inr (Inl candidate))"

definition startup_detail :: "(pyv \<Rightarrow> string) \<Rightarrow> string \<Rightarrow> obj \<Rightarrow> obj res" where
  "startup_detail rep kind d =
     bindE (if v_true (oget d ''missing_packages'')
            then bindE (py_iter (oget d ''missing_packages'')) (\<lambda>ps.
              Inr [(''missing_packages'', VList (map VStr (sort (map (py_str rep) ps))))])
            else Inr []) (\<lambda>missing.
     Inr ([(''startup_failure_kind'', VStr kind)] @ missing
          @ (if v_true (oget d ''exception_type'')
             then [(''exception_type'', VStr (py_str rep (oget d ''exception_type'')))] else [])))"

fun first_fifty :: "pyv \<Rightarrow> pyv" where
  "first_fifty (VList xs) = VList (take 50 xs)"
| "first_fifty v = v"

definition add_failure_details :: "obj \<Rightarrow> obj \<Rightarrow> obj" where
  "add_failure_details diagnostics detail =
     fold (\<lambda>key d. if v_true (oget diagnostics key) then oset d key (first_fifty (oget diagnostics key)) else d)
       failure_detail_keys detail"

definition runtime_state_from_worker_failure ::
  "(pyv \<Rightarrow> string) \<Rightarrow> string option \<Rightarrow> obj option \<Rightarrow> string \<Rightarrow> provider_policy option \<Rightarrow> runtime_record res" where
  "runtime_state_from_worker_failure rep failure_class diagnostics phase policy =
     (let d = (case diagnostics of None \<Rightarrow> [] | Some x \<Rightarrow> x) in
      bindE
        (if failure_class = Some ''WORKER_STARTUP_FAILURE'' then
           (let kind = py_str rep (v_or (oget d ''startup_failure_kind'') (VStr ''WORKER_STARTUP_EXCEPTION''));
                (state, reason) = (case map_of startup_kind_to_state kind of
                   Some sr \<Rightarrow> sr | None \<Rightarrow> (''STARTUP_FAILED'', ''PROVIDER_WORKER_STARTUP_EXCEPTION''))
            in bindE (startup_detail rep kind d) (\<lambda>detail. Inr (state, reason, detail)))
         else
           (let (state, reason) = (case map_of failure_class_to_state (py_str rep (opt_str failure_class)) of
                   Some sr \<Rightarrow> sr | None \<Rightarrow> (''UNAVAILABLE_CAUSE_UNKNOWN'', ''PROVIDER_WORKER_FAILURE_UNCLASSIFIED''))
            in Inr (state, reason, [(''failure_class'', opt_str failure_class)])))
        (\<lambda>(state, reason, detail).
           runtime_state_record rep state reason
             (default_runtime_args\<lparr>rn_phase := phase, rn_policy := policy, rn_interpreter := Some True,
                rn_detail := add_failure_details d detail\<rparr>)))"

section \<open>Observed responses\<close>

record outcome_stats =
  st_responses :: int
  st_usable :: int
  st_http_429 :: int
  st_auth :: int

definition empty_outcome_stats :: outcome_stats where
  "empty_outcome_stats = \<lparr>st_responses = 0, st_usable = 0, st_http_429 = 0, st_auth = 0\<rparr>"

definition auth_error_re :: "string \<Rightarrow> bool" where
  "auth_error_re s \<longleftrightarrow>
     (let t = drop_final_newline s
      in drop (length t - 4) t \<in> {'':401'', '':403''} \<or> drop (length s - 4) s \<in> {'':401'', '':403''})"

definition record_outcome_stats ::
  "(pyv \<Rightarrow> string) \<Rightarrow> string \<Rightarrow> pyv list \<Rightarrow> int \<Rightarrow> outcome_stats \<Rightarrow> outcome_stats" where
  "record_outcome_stats rep status errors http_429 st =
     (let st = st\<lparr>st_responses := st_responses st + 1\<rparr>;
          st = (if status \<in> {''success'', ''empty''} then st\<lparr>st_usable := st_usable st + 1\<rparr> else st);
          st = st\<lparr>st_http_429 := st_http_429 st + http_429\<rparr>
      in if list_ex (\<lambda>item. auth_error_re (py_str rep item)) errors then st\<lparr>st_auth := st_auth st + 1\<rparr> else st)"

definition classify_observed_runtime ::
  "(pyv \<Rightarrow> string) \<Rightarrow> runtime_record \<Rightarrow> outcome_stats \<Rightarrow> provider_policy option \<Rightarrow> runtime_record res" where
  "classify_observed_runtime rep preflight st policy =
     (if rt_state preflight \<noteq> ''AVAILABLE'' then Inr preflight
      else
        (let detail = [(''responses'', VInt (st_responses st)), (''usable_responses'', VInt (st_usable st)),
               (''http_429'', VInt (st_http_429 st)), (''auth_rejections'', VInt (st_auth st))];
             a = default_runtime_args\<lparr>rn_phase := ''OPERATION'', rn_policy := policy, rn_interpreter := Some True,
               rn_detail := detail\<rparr>
         in if st_responses st \<noteq> 0 \<and> st_usable st = 0 \<and> st_auth st * 2 \<ge> st_responses st
            then runtime_state_record rep ''AUTH_FAILED'' ''PROVIDER_AUTH_REJECTED_NO_USABLE_RESPONSE'' a
            else if st_responses st \<noteq> 0 \<and> st_usable st = 0 \<and> st_http_429 st > 0
            then runtime_state_record rep ''RATE_LIMITED'' ''PROVIDER_RATE_LIMITED_NO_USABLE_RESPONSE'' a
            else runtime_state_record rep ''AVAILABLE'' ''PROVIDER_RUNTIME_NO_FAILURE_OBSERVED''
                   (a\<lparr>rn_info := rt_runtime_info preflight\<rparr>)))"

section \<open>The environment of the worker\<close>

definition base_env_allowlist :: "string list" where
  "base_env_allowlist = [''PATH'', ''PATHEXT'', ''SYSTEMROOT'', ''SYSTEMDRIVE'', ''WINDIR'', ''COMSPEC'', ''OS'',
     ''NUMBER_OF_PROCESSORS'', ''PROCESSOR_ARCHITECTURE'', ''LANG'', ''LANGUAGE'', ''LC_ALL'', ''LC_CTYPE'', ''TZ'',
     ''SSL_CERT_FILE'', ''SSL_CERT_DIR'', ''REQUESTS_CA_BUNDLE'', ''CURL_CA_BUNDLE'', ''HTTP_PROXY'', ''HTTPS_PROXY'',
     ''NO_PROXY'']"

definition profile_env_names :: "string list" where
  "profile_env_names = [''USERPROFILE'', ''HOME'', ''HOMEDRIVE'', ''HOMEPATH'', ''APPDATA'', ''LOCALAPPDATA'',
     ''TEMP'', ''TMP'', ''TMPDIR'']"

definition env_permitted :: "string list \<Rightarrow> string \<Rightarrow> bool" where
  "env_permitted allowed name \<longleftrightarrow>
     (let upper = str_upper name
      in if is_denied_family upper \<or> upper \<in> set profile_env_names then False
         else if upper \<in> set allowed then True
         else if is_secret_shaped upper then False
         else upper \<in> set base_env_allowlist)"

fun add_extra :: "string list \<Rightarrow> (string \<times> string) list \<Rightarrow> (string \<times> string) list \<Rightarrow> (string \<times> string) list res" where
  "add_extra allowed [] environment = Inr environment"
| "add_extra allowed ((name, v) # rest) environment =
     (let upper = str_upper name
      in if is_denied_family upper \<or> (is_secret_shaped upper \<and> upper \<notin> set allowed)
         then raise ProviderRuntimeContractError (''PROVIDER_ENV_EXTRA_DENIED:'' @ name)
         else add_extra allowed rest (aset environment name v))"

definition build_provider_environment ::
  "(string \<times> string) list \<Rightarrow> string list \<Rightarrow> (string \<times> string) list \<Rightarrow> (string \<times> string) list res" where
  \<comment> \<open>which of several denied names the message gives is up to the order of a Python set; here the first\<close>
  "build_provider_environment parent allowed_provider_env extra =
     (let allowed = remdups (map str_upper allowed_provider_env)
      in case find is_denied_family allowed of
           Some name \<Rightarrow> raise ProviderRuntimeContractError (''PROVIDER_ENV_ALLOWLIST_DENIED_FAMILY:'' @ name)
         | None \<Rightarrow> add_extra allowed extra (filter (\<lambda>(name, v). env_permitted allowed name) parent))"

section \<open>What the policy and the environment guarantee\<close>

lemma str_upper_idem [simp, str_simps]: "str_upper (str_upper s) = str_upper s"
proof -
  have "char_upper (char_upper c) = char_upper c" for c
  proof -
    have "(of_char c - 32) mod 256 = (of_char c :: nat) - 32" if "(of_char c :: nat) \<le> 122"
      using that by simp
    then show ?thesis by (auto simp: char_upper_def Let_def)
  qed
  then show ?thesis by (simp add: str_upper_def)
qed

lemma is_denied_family_upper [simp]: "is_denied_family (str_upper s) = is_denied_family s"
  by (simp add: is_denied_family_def)

lemma is_secret_shaped_upper [simp]: "is_secret_shaped (str_upper s) = is_secret_shaped s"
  by (simp add: is_secret_shaped_def)

lemma check_allowed_name_Inr:
  "check_allowed_name rep v = Inr n \<longleftrightarrow> v = VStr n \<and> env_name_re n \<and> \<not> is_denied_family n"
  by (cases v) (auto simp: check_allowed_name_def)

lemma make_policy_Inr:
  assumes "make_policy rep allowed p = Inr q"
  shows "pp_policy p \<in> set policy_values"
    and "q = p\<lparr>pp_allowed_provider_env := pp_allowed_provider_env q\<rparr>"
    and "\<forall>n\<in>set (pp_allowed_provider_env q). VStr n \<in> set allowed \<and> env_name_re n \<and> \<not> is_denied_family n"
    and "\<forall>h. pp_manifest_sha256 p = Some h \<longrightarrow> sha256_re h"
proof -
  obtain names where valid: "pp_policy p \<in> set policy_values"
    and names: "mapE (check_allowed_name rep) allowed = Inr names"
    and q: "q = p\<lparr>pp_allowed_provider_env := names\<rparr>" and h: "\<forall>h. pp_manifest_sha256 p = Some h \<longrightarrow> sha256_re h"
    using assms by (auto simp: make_policy_def bindE_eq_Inr split: option.splits)
  show "pp_policy p \<in> set policy_values" "\<forall>h. pp_manifest_sha256 p = Some h \<longrightarrow> sha256_re h"
    "q = p\<lparr>pp_allowed_provider_env := pp_allowed_provider_env q\<rparr>" using valid q h by simp_all
  show "\<forall>n\<in>set (pp_allowed_provider_env q). VStr n \<in> set allowed \<and> env_name_re n \<and> \<not> is_denied_family n"
    using mapE_Inr_set[OF names] by (auto simp: q check_allowed_name_Inr) 
qed

lemma fail_closed_no_launch [simp]: "\<not> allows_launch (fail_closed_policy c d)"
  by (simp add: allows_launch_def fail_closed_policy_def policy_allow_def)

text \<open>
  The policy fails closed: loading never raises, and a loaded policy that allows a launch was read
  from a mapping of the right contract version whose entry for the family says so explicitly; no name it
  lets through belongs to the credentials of another provider, and a pinned manifest digest has the form
  of a SHA-256.
\<close>

theorem launch_needs_explicit_policy:
  assumes "allows_launch (load_provider_policy rep file_name content family)"
  shows "\<exists>payload entry. content = Inr (VDict payload)
    \<and> oget payload ''contract_version'' = VStr ''provider_runtime_policy/v1''
    \<and> oget (as_dict (oget payload ''providers'')) family = VDict entry
    \<and> py_str rep (oget entry ''policy'') = policy_allow
    \<and> (\<forall>n\<in>set (pp_allowed_provider_env (load_provider_policy rep file_name content family)).
          VStr n \<in> set (the_list (oget entry ''allowed_provider_env'')) \<and> \<not> is_denied_family n)
    \<and> (\<forall>h. pp_manifest_sha256 (load_provider_policy rep file_name content family) = Some h \<longrightarrow> sha256_re h)"
proof -
  obtain payload where c: "content = Inr (VDict payload)"
    "oget payload ''contract_version'' = VStr ''provider_runtime_policy/v1''"
    using assms by (cases content; cases "projr content") (auto simp: load_provider_policy_def Let_def split: if_splits)
  obtain entry where e: "oget (as_dict (oget payload ''providers'')) family = VDict entry"
    using assms c by (cases "oget (as_dict (oget payload ''providers'')) family") (auto simp: load_provider_policy_def)
  let ?allowed = "v_or (oget entry ''allowed_provider_env'') (VList [])"
  obtain p where p: "policy_of_entry rep file_name family entry (the_list ?allowed) = Inr p"
    and load: "load_provider_policy rep file_name content family = p"
    using assms c e by (auto simp: load_provider_policy_def Let_def split: if_splits sum.splits)
  note made = make_policy_Inr[OF p[unfolded policy_of_entry_def]]
  have "pp_policy p = py_str rep (oget entry ''policy'')" "pp_manifest_sha256 p = pin_field (oget entry ''approved_build_manifest'') ''sha256''"
    using made(2) by (metis (no_types, lifting) provider_policy.select_convs provider_policy.update_convs(7))+
  then have "py_str rep (oget entry ''policy'') = policy_allow" "\<forall>h. pp_manifest_sha256 p = Some h \<longrightarrow> sha256_re h"
    using assms made(4) by (simp_all add: load allows_launch_def)
  moreover have "set (the_list ?allowed) \<subseteq> set (the_list (oget entry ''allowed_provider_env''))"
    by (simp add: v_or_def)
  ultimately show ?thesis using c e made(3) load by blast
qed

definition sample_policy :: pyv where
  "sample_policy = VDict [(''contract_version'', VStr ''provider_runtime_policy/v1''),
     (''providers'', VDict [(''VNSTOCK_KBS_VCI'', VDict [(''policy'', VStr ''ALLOW_CONFIGURED_PROVIDER_RUNTIME''),
        (''allowed_provider_env'', VList [VStr ''VNSTOCK_API_KEY''])])])]"

theorem launch_needs_explicit_policy_witness:
  "allows_launch (load_provider_policy (\<lambda>v. []) ''p.json'' (Inr sample_policy) ''VNSTOCK_KBS_VCI'')
   \<and> (\<exists>payload entry. Inr sample_policy = (Inr (VDict payload) :: string + pyv)
    \<and> oget payload ''contract_version'' = VStr ''provider_runtime_policy/v1''
    \<and> oget (as_dict (oget payload ''providers'')) ''VNSTOCK_KBS_VCI'' = VDict entry)"
proof -
  have "allows_launch (load_provider_policy (\<lambda>v. []) ''p.json'' (Inr sample_policy) ''VNSTOCK_KBS_VCI'')"
    by code_simp
  then show ?thesis using launch_needs_explicit_policy by blast
qed

lemma add_extra_Inr:
  assumes "add_extra allowed extra e = Inr env" "(n, v) \<in> set env"
  shows "(n, v) \<in> set e
    \<or> ((n, v) \<in> set extra \<and> \<not> is_denied_family n \<and> (is_secret_shaped n \<longrightarrow> str_upper n \<in> set allowed))"
  using assms
proof (induction allowed extra e rule: add_extra.induct)
  case (2 allowed name w rest e)
  then have "add_extra allowed rest (aset e name w) = Inr env"
    and ok: "\<not> is_denied_family name" "is_secret_shaped name \<longrightarrow> str_upper name \<in> set allowed"
    by (auto simp: Let_def split: if_splits)
  then consider "(n, v) \<in> set (aset e name w)"
    | "(n, v) \<in> set rest" "\<not> is_denied_family n" "is_secret_shaped n \<longrightarrow> str_upper n \<in> set allowed"
    using 2 by (auto simp: Let_def split: if_splits)
  then show ?case
  proof cases
    case 1
    then have "(n, v) \<in> set e \<or> (n, v) = (name, w)"
      by (auto simp: aset_def split: if_splits)
    then show ?thesis using ok by auto
  qed auto
qed simp

text \<open>
  C35. The environment of the worker is confined: whatever the parent environment, the allow-list and
  the extra values are, no variable of another provider's credential family is ever in it, a
  secret-shaped name only if the allow-list has that very name, and each variable is an extra value or
  was in the parent under the same value, names no profile directory, and is on the base list or the
  allow-list.
\<close>

theorem worker_environment_confined:
  assumes "build_provider_environment parent allowed extra = Inr env" "(n, v) \<in> set env"
  shows "\<not> is_denied_family n \<and> (is_secret_shaped n \<longrightarrow> str_upper n \<in> str_upper ` set allowed)
    \<and> ((n, v) \<in> set extra
       \<or> (n, v) \<in> set parent \<and> str_upper n \<notin> set profile_env_names
         \<and> (str_upper n \<in> set base_env_allowlist \<or> str_upper n \<in> str_upper ` set allowed))"
proof -
  let ?u = "remdups (map str_upper allowed)"
  have "add_extra ?u extra (filter (\<lambda>(name, v). env_permitted ?u name) parent) = Inr env"
    using assms(1) by (auto simp: build_provider_environment_def Let_def split: option.splits)
  from add_extra_Inr[OF this assms(2)] show ?thesis
    by (auto simp: env_permitted_def Let_def split: if_splits)
qed

theorem worker_environment_confined_witness:
  "\<exists>env. build_provider_environment [(''Path'', ''/bin''), (''DNSE_KEY'', ''k''), (''HOME'', ''/root''), (''VN_TOKEN'', ''t'')]
       [''vn_token''] [(''X_CONTROL'', ''1'')] = Inr env \<and> (''VN_TOKEN'', ''t'') \<in> set env
     \<and> str_upper ''VN_TOKEN'' \<in> str_upper ` {''vn_token''}"
proof -
  define env where "env = [(''Path'', ''/bin''), (''VN_TOKEN'', ''t''), (''X_CONTROL'', ''1'')]"
  have "build_provider_environment [(''Path'', ''/bin''), (''DNSE_KEY'', ''k''), (''HOME'', ''/root''), (''VN_TOKEN'', ''t'')]
       [''vn_token''] [(''X_CONTROL'', ''1'')] = Inr env" "(''VN_TOKEN'', ''t'') \<in> set env" "is_secret_shaped ''VN_TOKEN''"
    unfolding env_def by code_simp+
  moreover from worker_environment_confined[OF this(1,2)] this(3)
  have "str_upper ''VN_TOKEN'' \<in> str_upper ` set [''vn_token'']" by blast
  ultimately show ?thesis by auto
qed

lemma runtime_state_record_Inr:
  "runtime_state_record rep state reason a = Inr r \<Longrightarrow>
     rt_state r = state \<and> rt_reason_code r = reason \<and> rt_phase r = rn_phase a
     \<and> state \<in> set runtime_states \<and> (rt_available r \<longleftrightarrow> state = ''AVAILABLE'')
     \<and> (rt_runtime_info r \<noteq> None \<longrightarrow> rt_available r)"
  by (auto simp: runtime_state_record_def split: if_splits)

lemma runtime_state_record_ok:
  "state \<in> set runtime_states \<Longrightarrow> rn_phase a \<in> set phases \<Longrightarrow> rn_info a = None \<or> state = ''AVAILABLE'' \<Longrightarrow>
     \<exists>r. runtime_state_record rep state reason a = Inr r"
  by (auto simp: runtime_state_record_def)

definition failure_states :: "string set" where
  "failure_states = set runtime_states - {''AVAILABLE''}"

lemma failure_tables:
  "map_of startup_kind_to_state k = Some (s, c) \<Longrightarrow> s \<in> failure_states"
  "map_of failure_class_to_state k = Some (s, c) \<Longrightarrow> s \<in> failure_states"
proof -
  have tables: "list_all (\<lambda>(k, s, c). s \<in> set runtime_states \<and> s \<noteq> ''AVAILABLE'') startup_kind_to_state"
    "list_all (\<lambda>(k, s, c). s \<in> set runtime_states \<and> s \<noteq> ''AVAILABLE'') failure_class_to_state"
    by code_simp+
  show "map_of startup_kind_to_state k = Some (s, c) \<Longrightarrow> s \<in> failure_states"
    using tables(1) by (auto simp: failure_states_def list_all_iff dest: map_of_SomeD)
  show "map_of failure_class_to_state k = Some (s, c) \<Longrightarrow> s \<in> failure_states"
    using tables(2) by (auto simp: failure_states_def list_all_iff dest: map_of_SomeD)
qed

lemma failure_states_defaults: "''STARTUP_FAILED'' \<in> failure_states" "''UNAVAILABLE_CAUSE_UNKNOWN'' \<in> failure_states"
  unfolding failure_states_def by code_simp+

text \<open>
  C36. Whatever a worker failure carries, its record has one of the twelve states and never
  \<open>AVAILABLE\<close>; the only call that raises is one whose phase is unknown or whose list of missing packages
  cannot be iterated over.
\<close>

theorem worker_failure_never_available:
  "case runtime_state_from_worker_failure rep failure_class diagnostics phase policy of
     Inr r \<Rightarrow> rt_state r \<in> set runtime_states \<and> rt_state r \<noteq> ''AVAILABLE'' \<and> rt_available r = False
              \<and> rt_phase r = phase \<and> phase \<in> set phases
   | Inl e \<Rightarrow> phase \<notin> set phases \<or> exc_class e = TypeError"
proof -
  let ?d = "case diagnostics of None \<Rightarrow> [] | Some x \<Rightarrow> x"
  have final: "case runtime_state_record rep s c (default_runtime_args\<lparr>rn_phase := phase, rn_policy := policy,
        rn_interpreter := Some True, rn_detail := det\<rparr>) of
      Inr r \<Rightarrow> rt_state r \<in> set runtime_states \<and> rt_state r \<noteq> ''AVAILABLE'' \<and> rt_available r = False
               \<and> rt_phase r = phase \<and> phase \<in> set phases
    | Inl e \<Rightarrow> phase \<notin> set phases \<or> exc_class e = TypeError" if "s \<in> failure_states" for s c det
    using that by (auto simp: runtime_state_record_def failure_states_def default_runtime_args_def raise_def)
  have detail: "exc_class e = TypeError" if "startup_detail rep k ?d = Inl e" for k e
    using that by (cases "oget ?d ''missing_packages''") (auto simp: startup_detail_def raise_def bindE_def split: if_splits)
  show ?thesis
  proof (cases "failure_class = Some ''WORKER_STARTUP_FAILURE''")
    case True
    define kind where "kind = py_str rep (v_or (oget ?d ''startup_failure_kind'') (VStr ''WORKER_STARTUP_EXCEPTION''))"
    obtain s c where sc: "(case map_of startup_kind_to_state kind of
        Some sr \<Rightarrow> sr | None \<Rightarrow> (''STARTUP_FAILED'', ''PROVIDER_WORKER_STARTUP_EXCEPTION'')) = (s, c)" by fastforce
    then have "s \<in> failure_states"
      using failure_tables(1)[of kind] failure_states_defaults by (auto split: option.splits)
    then show ?thesis
      using final[of s] detail[of kind]
      by (cases "startup_detail rep kind ?d")
        (simp_all add: runtime_state_from_worker_failure_def Let_def True sc kind_def[symmetric])
  next
    case False
    obtain s c where sc: "(case map_of failure_class_to_state (py_str rep (opt_str failure_class)) of
        Some sr \<Rightarrow> sr | None \<Rightarrow> (''UNAVAILABLE_CAUSE_UNKNOWN'', ''PROVIDER_WORKER_FAILURE_UNCLASSIFIED'')) = (s, c)"
      by fastforce
    then have "s \<in> failure_states"
      using failure_tables(2) failure_states_defaults by (auto split: option.splits)
    then show ?thesis
      using final[of s] by (simp add: runtime_state_from_worker_failure_def Let_def False sc)
  qed
qed

theorem worker_failure_never_available_witness:
  "\<exists>r. runtime_state_from_worker_failure (\<lambda>v. []) (Some ''WORKER_STARTUP_FAILURE'')
      (Some [(''startup_failure_kind'', VStr ''IMPORT_FAILED'')]) ''PREFLIGHT'' None = Inr r \<and> rt_state r \<noteq> ''AVAILABLE''"
proof -
  have "is_ok (runtime_state_from_worker_failure (\<lambda>v. []) (Some ''WORKER_STARTUP_FAILURE'')
      (Some [(''startup_failure_kind'', VStr ''IMPORT_FAILED'')]) ''PREFLIGHT'' None)"
    by code_simp
  then obtain r where "runtime_state_from_worker_failure (\<lambda>v. []) (Some ''WORKER_STARTUP_FAILURE'')
      (Some [(''startup_failure_kind'', VStr ''IMPORT_FAILED'')]) ''PREFLIGHT'' None = Inr r"
    by (rule is_okE)
  then show ?thesis
    using worker_failure_never_available[where rep = "\<lambda>v. []" and failure_class = "Some ''WORKER_STARTUP_FAILURE''"
        and diagnostics = "Some [(''startup_failure_kind'', VStr ''IMPORT_FAILED'')]" and phase = "''PREFLIGHT''" and policy = None]
    by simp
qed

section \<open>What the observed responses say\<close>

text \<open>
  The state a sequence of responses stands for, each a status, its error texts and its count of HTTP 429
  answers, without the counters: a usable answer keeps the runtime available; otherwise rejected
  authentication in half of the answers or more decides before rate limiting.
\<close>

type_synonym response = "string \<times> pyv list \<times> int"

definition usable :: "response \<Rightarrow> bool" where
  "usable r \<longleftrightarrow> fst r \<in> {''success'', ''empty''}"

definition rejected :: "(pyv \<Rightarrow> string) \<Rightarrow> response \<Rightarrow> bool" where
  "rejected rep r \<longleftrightarrow> list_ex (\<lambda>item. auth_error_re (py_str rep item)) (fst (snd r))"

definition observed_state :: "(pyv \<Rightarrow> string) \<Rightarrow> response list \<Rightarrow> string" where
  "observed_state rep rs =
     (if rs = [] \<or> (\<exists>r\<in>set rs. usable r) then ''AVAILABLE''
      else if length rs \<le> 2 * length (filter (rejected rep) rs) then ''AUTH_FAILED''
      else if \<exists>r\<in>set rs. snd (snd r) > 0 then ''RATE_LIMITED''
      else ''AVAILABLE'')"

definition observe :: "(pyv \<Rightarrow> string) \<Rightarrow> response list \<Rightarrow> outcome_stats \<Rightarrow> outcome_stats" where
  "observe rep rs st = fold (\<lambda>(status, errors, n). record_outcome_stats rep status errors n) rs st"

lemma record_outcome_stats_counts:
  "st_responses (record_outcome_stats rep status errors n st) = st_responses st + 1"
  "st_usable (record_outcome_stats rep status errors n st) = st_usable st + (if usable (status, errors, n) then 1 else 0)"
  "st_http_429 (record_outcome_stats rep status errors n st) = st_http_429 st + n"
  "st_auth (record_outcome_stats rep status errors n st) = st_auth st + (if rejected rep (status, errors, n) then 1 else 0)"
  by (simp_all add: record_outcome_stats_def Let_def usable_def rejected_def)

lemma observe_counts:
  "st_responses (observe rep rs st) = st_responses st + int (length rs)"
  "st_usable (observe rep rs st) = st_usable st + int (length (filter usable rs))"
  "st_http_429 (observe rep rs st) = st_http_429 st + sum_list (map (snd \<circ> snd) rs)"
  "st_auth (observe rep rs st) = st_auth st + int (length (filter (rejected rep) rs))"
  unfolding observe_def by (induction rs arbitrary: st) (auto simp: record_outcome_stats_counts)

lemma sum_list_pos_iff:
  assumes "\<forall>x\<in>set xs. 0 \<le> f x"
  shows "0 < sum_list (map f xs) \<longleftrightarrow> (\<exists>x\<in>set xs. 0 < (f x :: int))"
proof -
  have "0 \<le> sum_list (map f xs)" using assms by (intro sum_list_nonneg) auto
  moreover have "sum_list (map f xs) = 0 \<longleftrightarrow> (\<forall>x\<in>set xs. f x = 0)"
    using assms by (subst sum_list_nonneg_eq_0_iff) auto
  ultimately show ?thesis using assms by force
qed

text \<open>
  The counters implement that reading: after any sequence of responses the state of a runtime
  that was ready is the one the sequence stands for, and the record raises no exception.
\<close>

theorem observed_runtime_refines_responses:
  assumes ready: "rt_state preflight = ''AVAILABLE''" and counts: "\<forall>r\<in>set rs. 0 \<le> snd (snd r)"
  shows "\<exists>r. classify_observed_runtime rep preflight (observe rep rs empty_outcome_stats) policy = Inr r
    \<and> rt_state r = observed_state rep rs \<and> rt_phase r = ''OPERATION''"
proof -
  let ?st = "observe rep rs empty_outcome_stats"
  have n: "st_responses ?st = int (length rs)" "st_usable ?st = int (length (filter usable rs))"
    "st_auth ?st = int (length (filter (rejected rep) rs))"
    by (simp_all add: observe_counts empty_outcome_stats_def)
  have rate: "st_http_429 ?st > 0 \<longleftrightarrow> (\<exists>r\<in>set rs. snd (snd r) > 0)"
    using sum_list_pos_iff[of rs "snd \<circ> snd"] counts by (simp add: observe_counts empty_outcome_stats_def)
  have used: "st_usable ?st = 0 \<longleftrightarrow> \<not> (\<exists>r\<in>set rs. usable r)"
    by (simp add: n filter_empty_conv)
  have auth: "st_auth ?st * 2 \<ge> st_responses ?st \<longleftrightarrow> length rs \<le> 2 * length (filter (rejected rep) rs)"
    unfolding n by linarith
  have empty: "st_responses ?st \<noteq> 0 \<longleftrightarrow> rs \<noteq> []" by (simp add: n)
  have known: "{''AVAILABLE'', ''AUTH_FAILED'', ''RATE_LIMITED''} \<subseteq> set runtime_states" "''OPERATION'' \<in> set phases"
    by code_simp+
  show ?thesis
    unfolding classify_observed_runtime_def Let_def observed_state_def auth empty rate used
    using ready known by (auto simp: runtime_state_record_def default_runtime_args_def)
qed

theorem observed_runtime_refines_responses_witness:
  "\<exists>p r. runtime_state_record (\<lambda>v. []) ''AVAILABLE'' ''READY'' default_runtime_args = Inr p
    \<and> classify_observed_runtime (\<lambda>v. []) p
        (observe (\<lambda>v. []) [(''failed'', [VStr ''GET:401''], 0), (''failed'', [], 1)] empty_outcome_stats) None = Inr r
    \<and> rt_state r = ''AUTH_FAILED''"
proof -
  obtain p where p: "runtime_state_record (\<lambda>v. []) ''AVAILABLE'' ''READY'' default_runtime_args = Inr p"
    "rt_state p = ''AVAILABLE''"
    by (simp add: runtime_state_record_def default_runtime_args_def runtime_states_def phases_def)
  have spec: "observed_state (\<lambda>v. []) [(''failed'', [VStr ''GET:401''], 0), (''failed'', [], 1)] = ''AUTH_FAILED''"
    by code_simp
  show ?thesis
    using observed_runtime_refines_responses[OF p(2), of "[(''failed'', [VStr ''GET:401''], 0), (''failed'', [], 1)]" "\<lambda>v. []" None]
      p spec by auto
qed

end
