(* ===== verification/ExecutionGuard.thy ===== *)
theory ExecutionGuard
  imports ProviderRuntime
begin

text \<open>
  The provider execution guard, \<open>provider_execution_guard.py\<close>: the registry of the operations that could
  reach provider code, the one-shot attestation of a worker process, and the check every such operation
  makes first.

  The flags of the interpreter are fields of \<open>interpreter\<close>; the private object \<open>_ISSUER\<close> that marks an
  attestation made by \<open>issue_worker_attestation\<close> is the field \<open>wa_issued\<close>.
\<close>

section \<open>The registry\<close>

definition treatments :: "string list" where
  "treatments = [''GOVERNED_WORKER_ONLY'', ''UNSUPPORTED_LEGACY_PROVIDER_OPERATION'', ''RETIRED_PROVIDER'']"

definition governed_guidance :: string where
  "governed_guidance = ''This provider operation runs only inside the attested provider worker. Obtain a runtime through '' @
     ''vnstock_worker_client.open_provider_runtime (tracked owner policy, approved build manifest, '' @
     ''attested dedicated interpreter); ordinary Daily already does this through '' @
     ''daily_session_level2_package. There is no core-interpreter fallback.''"

definition unsupported_guidance :: string where
  "unsupported_guidance = ''This legacy provider path executed provider code under the core interpreter and is disabled '' @
     ''until it is wrapped behind vnstock_worker_client.open_provider_runtime (owner-approved build '' @
     ''manifest + attested worker). Retained-data readers in the same module stay available.''"

record guarded_operation =
  go_operation :: string
  go_treatment :: string
  go_boundary_file :: string
  go_guidance :: string

definition operation_record :: "guarded_operation \<Rightarrow> obj" where
  "operation_record g = [(''operation'', VStr (go_operation g)), (''treatment'', VStr (go_treatment g)),
     (''boundary_file'', VStr (go_boundary_file g)), (''guidance'', VStr (go_guidance g))]"

definition governed :: "string \<Rightarrow> string \<Rightarrow> guarded_operation" where
  "governed operation file = \<lparr>go_operation = operation, go_treatment = ''GOVERNED_WORKER_ONLY'',
     go_boundary_file = file, go_guidance = governed_guidance\<rparr>"

definition unsupported :: "string \<Rightarrow> string \<Rightarrow> string \<Rightarrow> guarded_operation" where
  "unsupported operation file extra =
     \<lparr>go_operation = operation, go_treatment = ''UNSUPPORTED_LEGACY_PROVIDER_OPERATION'', go_boundary_file = file,
      go_guidance = unsupported_guidance @ (if extra \<noteq> [] then '' '' @ extra else [])\<rparr>"

definition registered_operations :: "guarded_operation list" where
  "registered_operations =
    [governed ''vn_stock_pipeline._install_bounded_http'' ''vn_stock_pipeline.py'',
     governed ''vn_stock_pipeline._quote'' ''vn_stock_pipeline.py'',
     governed ''vnstock_worker_process.provider_discovery'' ''vnstock_worker_process.py'',
     governed ''vnstock_worker_process.provider_initialization'' ''vnstock_worker_process.py'',
     governed ''vnstock_worker_process.fetch'' ''vnstock_worker_process.py'',
     unsupported ''vn_stock_pipeline.load_full_universe'' ''vn_stock_pipeline.py''
       ''The canonical universe is resolved from retained evidence, not a VCI listing call.'',
     unsupported ''vn_stock_pipeline.cli.update'' ''vn_stock_pipeline.py''
       ''Use `stocklookup.ps1 daily` (canonical post-close Daily).'',
     unsupported ''vn_stock_pipeline.cli.backfill'' ''vn_stock_pipeline.py''
       ''Use `stocklookup.ps1 daily` (canonical post-close Daily).'',
     unsupported ''vn_stock_pipeline.cli.universe'' ''vn_stock_pipeline.py'' [],
     unsupported ''daily_analysis_pipeline.legacy_price_update'' ''daily_analysis_pipeline.py''
       ''Use --canonical-post-close (`stocklookup.ps1 daily`) or pass --skip-price-update.'',
     unsupported ''operate_stocklookup.refresh_metadata'' ''tools/operate_stocklookup.py''
       ''Run without --refresh-metadata; the metadata refresh reaches meta_sync provider calls.'',
     unsupported ''bctc_sync._finance'' ''bctc_sync.py'' [],
     unsupported ''blacklist_sync.scan_trading_status'' ''blacklist_sync.py'' [],
     unsupported ''company_profile_sync.fetch_current_payload'' ''company_profile_sync.py'' [],
     unsupported ''company_subsidiaries_sync.fetch_current_payload'' ''company_subsidiaries_sync.py'' [],
     unsupported ''corporate_events_sync.fetch_vci_events'' ''corporate_events_sync.py'' [],
     unsupported ''index_constituents_sync.fetch_current_payload'' ''index_constituents_sync.py'' [],
     unsupported ''instrument_master_sync.fetch_current_payload'' ''instrument_master_sync.py'' [],
     unsupported ''meta_sync.sync_exchange_industry'' ''meta_sync.py'' [],
     unsupported ''meta_sync.sync_foreign_room'' ''meta_sync.py'' [],
     unsupported ''meta_sync.sync_fundamentals'' ''meta_sync.py'' [],
     unsupported ''meta_sync.sync_ratio_only'' ''meta_sync.py'' [],
     unsupported ''ownership_structure_sync.fetch_current_payload'' ''ownership_structure_sync.py'' [],
     unsupported ''shareholders_sync._provider_payload'' ''shareholders_sync.py'' [],
     unsupported ''annual_provider_financial_recovery.acquire_annual_once'' ''annual_provider_financial_recovery.py'' [],
     unsupported ''missing_payload_reconciliation._default_fetcher'' ''missing_payload_reconciliation.py'' [],
     unsupported ''provider_financial_source_metadata.fetch_raw_once'' ''provider_financial_source_metadata.py'' [],
     unsupported ''provider_financial_source_metadata.adapter_dataframe_from_raw'' ''provider_financial_source_metadata.py''
       ''Even an offline parse imports vnstock and runs its import-time side effects.'',
     unsupported ''vci_financial_statement_retention.fetch_statement'' ''vci_financial_statement_retention.py'' [],
     unsupported ''financial_observations.ingest_pilot'' ''financial_observations.py'' []]"

definition retire :: "guarded_operation \<Rightarrow> guarded_operation" where
  "retire g = \<lparr>go_operation = go_operation g, go_treatment = ''RETIRED_PROVIDER'', go_boundary_file = go_boundary_file g,
     go_guidance = ''The Vnstock/KBS/VCI acquisition family is permanently retired; retained evidence remains readable.''\<rparr>"

definition operations :: "(string \<times> guarded_operation) list" where
  "operations = map (\<lambda>g. (go_operation g, retire g)) registered_operations"

section \<open>The attestation of a worker\<close>

record interpreter =
  ip_no_user_site :: bool
  ip_ignore_environment :: bool
  ip_dont_write_bytecode :: bool
  ip_dedicated_venv :: bool
  ip_containment_installed :: bool

record worker_attestation =
  wa_build_id :: string
  wa_manifest_sha256 :: string
  wa_launch_id :: string
  wa_revocation_epoch :: int
  wa_checks :: "string list"
  wa_issued :: bool

definition attestation_record :: "worker_attestation \<Rightarrow> obj" where
  "attestation_record a = [(''contract_version'', VStr ''provider_execution_guard/v1''),
     (''build_id'', VStr (wa_build_id a)), (''manifest_sha256'', VStr (wa_manifest_sha256 a)),
     (''launch_id'', VStr (wa_launch_id a)), (''revocation_epoch'', VInt (wa_revocation_epoch a)),
     (''checks'', VList (map VStr (wa_checks a)))]"

definition interpreter_preconditions :: "interpreter \<Rightarrow> string list" where
  "interpreter_preconditions ip =
     (if ip_no_user_site ip then [] else [''USER_SITE_NOT_DISABLED''])
     @ (if ip_ignore_environment ip then [] else [''PYTHON_ENVIRONMENT_NOT_IGNORED''])
     @ (if ip_dont_write_bytecode ip then [] else [''BYTECODE_WRITES_NOT_DISABLED''])
     @ (if ip_dedicated_venv ip then [] else [''NOT_A_DEDICATED_VIRTUAL_ENVIRONMENT''])
     @ (if ip_containment_installed ip then [] else [''WORKER_CONTAINMENT_NOT_INSTALLED''])"

definition issue_worker_attestation ::
  "interpreter \<Rightarrow> string \<Rightarrow> string \<Rightarrow> string \<Rightarrow> int \<Rightarrow> string list \<Rightarrow> worker_attestation res" where
  "issue_worker_attestation ip build_id manifest_sha256 launch_id epoch checks =
     (let problems = interpreter_preconditions ip
      in if problems \<noteq> []
         then raise ProviderExecutionGuardError (''WORKER_ATTESTATION_PRECONDITIONS_FAILED:'' @ str_join '','' problems)
         else if py_len manifest_sha256 \<noteq> 64
         then raise ProviderExecutionGuardError ''WORKER_ATTESTATION_MANIFEST_DIGEST_INVALID''
         else Inr \<lparr>wa_build_id = build_id, wa_manifest_sha256 = manifest_sha256, wa_launch_id = launch_id,
                   wa_revocation_epoch = epoch, wa_checks = checks, wa_issued = True\<rparr>)"

text \<open>The process keeps one variable, \<open>_ATTESTATION\<close>; the lock makes each access to it one step.\<close>

type_synonym guard_state = "worker_attestation option"

definition grant_worker_attestation :: "worker_attestation \<Rightarrow> guard_state \<Rightarrow> unit res \<times> guard_state" where
  "grant_worker_attestation a s =
     (if \<not> wa_issued a then (raise ProviderExecutionGuardError ''WORKER_ATTESTATION_NOT_ISSUED_BY_SELF_ATTESTATION'', s)
      else case s of
        Some _ \<Rightarrow> (raise ProviderExecutionGuardError ''WORKER_ATTESTATION_ALREADY_GRANTED'', s)
      | None \<Rightarrow> (Inr (), Some a))"

definition operation :: "(string \<times> guarded_operation) list \<Rightarrow> string \<Rightarrow> guarded_operation res" where
  "operation registry operation_id =
     (case map_of registry operation_id of
        None \<Rightarrow> raise ProviderExecutionGuardError (''PROVIDER_OPERATION_NOT_REGISTERED:'' @ operation_id)
      | Some g \<Rightarrow> Inr g)"

definition refusal_text :: "string \<Rightarrow> guarded_operation \<Rightarrow> string" where
  "refusal_text code g = code @ '':'' @ go_operation g @ '': '' @ go_guidance g"

definition require_governed_provider_execution ::
  "(string \<times> guarded_operation) list \<Rightarrow> guard_state \<Rightarrow> string \<Rightarrow> worker_attestation res" where
  "require_governed_provider_execution registry s operation_id =
     bindE (operation registry operation_id) (\<lambda>g.
       if go_treatment g = ''RETIRED_PROVIDER''
       then raise RetiredProviderOperation (refusal_text ''RETIRED_PROVIDER'' g)
       else if go_treatment g = ''UNSUPPORTED_LEGACY_PROVIDER_OPERATION''
       then raise UnsupportedLegacyProviderOperation (refusal_text ''UNSUPPORTED_LEGACY_PROVIDER_OPERATION'' g)
       else case s of
         None \<Rightarrow> raise GovernedProviderExecutionRequired
                   (refusal_text ''PROVIDER_EXECUTION_REQUIRES_ATTESTED_GOVERNED_WORKER'' g)
       | Some a \<Rightarrow> Inr a)"

definition required_state_record :: "(pyv \<Rightarrow> string) \<Rightarrow> guarded_operation \<Rightarrow> runtime_record res" where
  \<comment> \<open>the record a \<open>GovernedProviderExecutionRequired\<close> carries\<close>
  "required_state_record rep g =
     runtime_state_record rep ''NOT_CONFIGURED'' ''PROVIDER_EXECUTION_REQUIRES_ATTESTED_GOVERNED_WORKER''
       (default_runtime_args\<lparr>rn_detail := [(''operation'', VStr (go_operation g))]\<rparr>)"

definition legacy_operator_refusal :: "(string \<times> guarded_operation) list \<Rightarrow> string \<Rightarrow> string res" where
  "legacy_operator_refusal registry operation_id =
     bindE (operation registry operation_id) (\<lambda>g. Inr (refusal_text (go_treatment g) g))"

definition registry_record :: "(string \<times> guarded_operation) list \<Rightarrow> obj" where
  "registry_record registry =
     [(''contract_version'', VStr ''provider_execution_guard/v1''),
      (''operations'', VList (map (\<lambda>name. VDict (operation_record (the (map_of registry name)))) (sort (map fst registry)))),
      (''treatments'', VList (map VStr treatments))]"

section \<open>Runs of a process\<close>

text \<open>
  What a process can do with the guard, in any order and from any thread: make an attestation, forge one
  by calling the constructor directly, grant one it holds, and ask for an operation.  The state is the
  attestations made so far, the variable of the module and the log of the operations that passed.
\<close>

record guard_process =
  gp_held :: "worker_attestation list"
  gp_state :: guard_state
  gp_passed :: "(string \<times> worker_attestation) list"

inductive guard_step ::
  "interpreter \<Rightarrow> (string \<times> guarded_operation) list \<Rightarrow> guard_process \<Rightarrow> guard_process \<Rightarrow> bool"
  for ip registry where
  issue: "issue_worker_attestation ip b h l e c = Inr a
    \<Longrightarrow> guard_step ip registry p (p\<lparr>gp_held := a # gp_held p\<rparr>)"
| forge: "\<not> wa_issued a \<Longrightarrow> guard_step ip registry p (p\<lparr>gp_held := a # gp_held p\<rparr>)"
| grant: "a \<in> set (gp_held p) \<Longrightarrow> grant_worker_attestation a (gp_state p) = (r, s)
    \<Longrightarrow> guard_step ip registry p (p\<lparr>gp_state := s\<rparr>)"
| require: "require_governed_provider_execution registry (gp_state p) op = Inr a
    \<Longrightarrow> guard_step ip registry p (p\<lparr>gp_passed := (op, a) # gp_passed p\<rparr>)"
| refused: "require_governed_provider_execution registry (gp_state p) op = Inl e \<Longrightarrow> guard_step ip registry p p"

inductive guard_run ::
  "interpreter \<Rightarrow> (string \<times> guarded_operation) list \<Rightarrow> guard_process \<Rightarrow> guard_process \<Rightarrow> bool"
  for ip registry where
  refl: "guard_run ip registry p p"
| step: "guard_run ip registry p q \<Longrightarrow> guard_step ip registry q r \<Longrightarrow> guard_run ip registry p r"

inductive_cases guard_stepE: "guard_step ip registry p q"

definition start_process :: guard_process where
  "start_process = \<lparr>gp_held = [], gp_state = None, gp_passed = []\<rparr>"

section \<open>Retired operations\<close>

lemma operations_lookup:
  "map_of operations op = Some g \<Longrightarrow> go_treatment g = ''RETIRED_PROVIDER'' \<and> go_operation g = op"
  by (auto simp: operations_def retire_def dest!: map_of_SomeD)

lemma operations_registered: "map_of operations op \<noteq> None \<longleftrightarrow> op \<in> go_operation ` set registered_operations"
  by (force simp: operations_def map_of_eq_None_iff)

lemma operations_distinct: "distinct (map fst operations)"
  by code_simp

text \<open>
  Every one of the registered operations is retired: whatever attestation the process holds, asking
  for it raises \<open>RetiredProviderOperation\<close>, and any other name the base error of the guard.  The registry
  has no duplicate, so none of the operations is lost when it is built.
\<close>

theorem every_operation_refused:
  "distinct (map fst operations) \<and> length operations = length registered_operations
   \<and> (\<exists>e. require_governed_provider_execution operations s op = Inl e
        \<and> exc_class e = (if op \<in> go_operation ` set registered_operations then RetiredProviderOperation
                          else ProviderExecutionGuardError))"
proof (cases "map_of operations op")
  case None
  then show ?thesis
    using operations_registered[of op] operations_distinct
    by (simp add: require_governed_provider_execution_def operation_def raise_def operations_def)
next
  case (Some g)
  then show ?thesis
    using operations_registered[of op] operations_lookup[OF Some] operations_distinct
    by (simp add: require_governed_provider_execution_def operation_def raise_def) (simp add: operations_def)
qed

section \<open>Attestations\<close>

lemma issue_Inr:
  "issue_worker_attestation ip b h l e c = Inr a \<longleftrightarrow>
     interpreter_preconditions ip = [] \<and> py_len h = 64 \<and>
     a = \<lparr>wa_build_id = b, wa_manifest_sha256 = h, wa_launch_id = l, wa_revocation_epoch = e, wa_checks = c, wa_issued = True\<rparr>"
  by (auto simp: issue_worker_attestation_def Let_def)

lemma grant_cases:
  assumes "grant_worker_attestation a s = (r, t)"
  shows "t = s \<and> \<not> is_ok r \<or> t = Some a \<and> s = None \<and> wa_issued a \<and> r = Inr ()"
  using assms by (auto simp: grant_worker_attestation_def raise_def split: if_splits option.splits)

lemma require_Inr:
  "require_governed_provider_execution registry s op = Inr a \<longleftrightarrow>
     s = Some a \<and> (\<exists>g. map_of registry op = Some g
       \<and> go_treatment g \<notin> {''RETIRED_PROVIDER'', ''UNSUPPORTED_LEGACY_PROVIDER_OPERATION''})"
  by (auto simp: require_governed_provider_execution_def operation_def bindE_eq_Inr raise_def split: option.splits if_splits)

definition genuine :: "interpreter \<Rightarrow> worker_attestation \<Rightarrow> bool" where
  "genuine ip a \<longleftrightarrow> wa_issued a \<longrightarrow> interpreter_preconditions ip = [] \<and> py_len (wa_manifest_sha256 a) = 64"

definition guard_inv :: "interpreter \<Rightarrow> (string \<times> guarded_operation) list \<Rightarrow> guard_process \<Rightarrow> bool" where
  "guard_inv ip registry p \<longleftrightarrow>
     (\<forall>a\<in>set (gp_held p). genuine ip a)
     \<and> (\<forall>a. gp_state p = Some a \<longrightarrow> wa_issued a \<and> genuine ip a)
     \<and> (\<forall>(op, a)\<in>set (gp_passed p). gp_state p = Some a \<and> (\<exists>g. map_of registry op = Some g
          \<and> go_treatment g \<notin> {''RETIRED_PROVIDER'', ''UNSUPPORTED_LEGACY_PROVIDER_OPERATION''}))"

lemma guard_step_inv:
  assumes "guard_step ip registry p q" "guard_inv ip registry p"
  shows "guard_inv ip registry q"
  using assms
proof cases
  case (grant a r s)
  then show ?thesis using grant_cases[OF grant(3)] assms(2) by (force simp: guard_inv_def)
qed (auto simp: guard_inv_def genuine_def issue_Inr require_Inr)

lemma guard_run_inv: "guard_run ip registry p q \<Longrightarrow> guard_inv ip registry p \<Longrightarrow> guard_inv ip registry q"
  by (induction rule: guard_run.induct) (auto intro: guard_step_inv)

lemma guard_step_state: "guard_step ip registry p q \<Longrightarrow> gp_state p = Some a \<Longrightarrow> gp_state q = Some a"
  by (erule guard_stepE) (auto dest: grant_cases)

lemma guard_run_state: "guard_run ip registry p q \<Longrightarrow> gp_state p = Some a \<Longrightarrow> gp_state q = Some a"
  by (induction rule: guard_run.induct) (auto intro: guard_step_state)

lemma guard_inv_start: "guard_inv ip registry start_process"
  by (simp add: guard_inv_def start_process_def)

text \<open>
  C37. The guard over the registry of the module: in whatever order a process makes, forges and grants
  attestations and asks for operations, nothing ever passes; whatever it holds, asking for a registered
  operation raises \<open>RetiredProviderOperation\<close> and asking for any other the base error.  The attestation the
  process does hold was issued with every precondition of a governed worker met, and keeps its place for
  the rest of the run.
\<close>

theorem no_operation_ever_passes:
  assumes "guard_run ip operations start_process p"
  shows "gp_passed p = []
    \<and> (\<exists>e. require_governed_provider_execution operations (gp_state p) op = Inl e
        \<and> exc_class e = (if op \<in> go_operation ` set registered_operations then RetiredProviderOperation
                          else ProviderExecutionGuardError))
    \<and> (\<forall>a. gp_state p = Some a \<longrightarrow> wa_issued a \<and> interpreter_preconditions ip = []
        \<and> py_len (wa_manifest_sha256 a) = 64 \<and> (\<forall>q. guard_run ip operations p q \<longrightarrow> gp_state q = Some a))"
proof (intro conjI allI impI)
  have inv: "guard_inv ip operations p" using guard_run_inv[OF assms guard_inv_start] .
  have "(o1, a) \<notin> set (gp_passed p)" for o1 a using inv operations_lookup unfolding guard_inv_def by blast
  then show "gp_passed p = []" by (cases "gp_passed p") auto
  show "\<exists>e. require_governed_provider_execution operations (gp_state p) op = Inl e
      \<and> exc_class e = (if op \<in> go_operation ` set registered_operations then RetiredProviderOperation
                        else ProviderExecutionGuardError)"
    by (rule every_operation_refused[THEN conjunct2, THEN conjunct2])
  fix a assume held: "gp_state p = Some a"
  with inv have "wa_issued a" "genuine ip a" unfolding guard_inv_def by blast+
  then show "wa_issued a" "interpreter_preconditions ip = []" "py_len (wa_manifest_sha256 a) = 64"
    unfolding genuine_def by blast+
  show "gp_state q = Some a" if "guard_run ip operations p q" for q by (rule guard_run_state[OF that held])
qed

definition worker_interpreter :: interpreter where
  "worker_interpreter = \<lparr>ip_no_user_site = True, ip_ignore_environment = True, ip_dont_write_bytecode = True,
     ip_dedicated_venv = True, ip_containment_installed = True\<rparr>"

definition sample_attestation :: worker_attestation where
  "sample_attestation = \<lparr>wa_build_id = ''b'', wa_manifest_sha256 = replicate 64 (CHR ''a''), wa_launch_id = ''l'',
     wa_revocation_epoch = 1, wa_checks = [], wa_issued = True\<rparr>"

lemma sample_issue: "issue_worker_attestation worker_interpreter ''b'' (replicate 64 (CHR ''a'')) ''l'' 1 [] = Inr sample_attestation"
  by code_simp

theorem no_operation_ever_passes_witness:
  "\<exists>p. guard_run worker_interpreter operations start_process p \<and> gp_state p = Some sample_attestation \<and> gp_passed p = []
    \<and> (\<exists>e. require_governed_provider_execution operations (gp_state p) ''vnstock_worker_process.fetch'' = Inl e
        \<and> exc_class e = RetiredProviderOperation)"
proof -
  let ?p1 = "start_process\<lparr>gp_held := sample_attestation # gp_held start_process\<rparr>"
  let ?p2 = "?p1\<lparr>gp_state := Some sample_attestation\<rparr>"
  have s1: "guard_step worker_interpreter operations start_process ?p1"
    by (rule guard_step.issue[OF sample_issue])
  have s2: "guard_step worker_interpreter operations ?p1 ?p2"
    by (rule guard_step.grant[of sample_attestation _ "Inr ()"])
      (simp_all add: grant_worker_attestation_def start_process_def sample_attestation_def)
  have run: "guard_run worker_interpreter operations start_process ?p2"
    by (rule guard_run.step[OF guard_run.step[OF guard_run.refl s1] s2])
  have "''vnstock_worker_process.fetch'' \<in> go_operation ` set registered_operations" by code_simp
  then show ?thesis using no_operation_ever_passes[OF run, of "''vnstock_worker_process.fetch''"] run
    by (intro exI[of _ ?p2]) simp
qed

end
