(* ===== verification/AcquisitionBudget.thy ===== *)
theory AcquisitionBudget
  imports PyValue
begin

text \<open>
  The resource bounds of the public transports, \<open>official_acquisition_budget.py\<close>, and the transport that
  runs inside them, \<open>fetch\<close> of \<open>hose_public_xhr_and_periodic_series_recon.py\<close>.

  A budget is the state of an \<open>AcquisitionBudget\<close>: its receipts, its byte count, the reason it is
  exhausted for, and the number of times its clock was read.  The clock, the subtraction and rounding of
  floats, the network and SHA-256 are arguments.  The network may answer differently each time, so a
  connection depends on the time it is asked for, and a stream gives its next bytes and its rest.
\<close>

section \<open>Limits\<close>

record acquisition_limits =
  lm_max_requests :: int
  lm_max_total_bytes :: int
  lm_max_response_bytes :: int
  lm_max_seconds :: rat
  lm_request_timeout :: rat
  lm_max_pages :: int

definition default_limits :: acquisition_limits where
  "default_limits = \<lparr>lm_max_requests = 64, lm_max_total_bytes = 32 * 1024 * 1024, lm_max_response_bytes = 8 * 1024 * 1024,
     lm_max_seconds = 180, lm_request_timeout = 30, lm_max_pages = 16\<rparr>"

definition limit_names :: "string list" where
  "limit_names = [''max_requests'', ''max_total_bytes'', ''max_response_bytes'', ''max_seconds'',
     ''request_timeout_seconds'', ''max_pages_per_surface'']"

definition check_positive :: "obj \<Rightarrow> string \<Rightarrow> unit res" where
  "check_positive fields_of name =
     (let v = oget fields_of name in
      if is_bool v then raise ValueError (''INVALID_ACQUISITION_LIMIT:'' @ name)
      else case num_of v of
        None \<Rightarrow> raise ValueError (''INVALID_ACQUISITION_LIMIT:'' @ name)
      | Some r \<Rightarrow> if 0 < r then Inr () else raise ValueError (''INVALID_ACQUISITION_LIMIT:'' @ name))"

definition check_whole :: "obj \<Rightarrow> string \<Rightarrow> unit res" where
  "check_whole fields_of name =
     (if is_int (oget fields_of name) then Inr () else raise ValueError (''INVALID_ACQUISITION_LIMIT:'' @ name))"

definition make_limits :: "obj \<Rightarrow> acquisition_limits res" where
  \<comment> \<open>the constructor, from its six fields still untyped\<close>
  "make_limits d =
     bindE (mapE (check_positive d) limit_names) (\<lambda>_.
     bindE (mapE (check_whole d) [''max_requests'', ''max_total_bytes'', ''max_response_bytes'', ''max_pages_per_surface'']) (\<lambda>_.
     Inr \<lparr>lm_max_requests = the_int (oget d ''max_requests''), lm_max_total_bytes = the_int (oget d ''max_total_bytes''),
          lm_max_response_bytes = the_int (oget d ''max_response_bytes''),
          lm_max_seconds = the (num_of (oget d ''max_seconds'')),
          lm_request_timeout = the (num_of (oget d ''request_timeout_seconds'')),
          lm_max_pages = the_int (oget d ''max_pages_per_surface'')\<rparr>))"

section \<open>The state of a budget\<close>

record request_receipt =
  rq_number :: int
  rq_surface :: string
  rq_url :: string
  rq_page :: "int option"
  rq_response_bytes :: int
  rq_cumulative_bytes :: int
  rq_elapsed :: rat
  rq_status :: string
  rq_sha256 :: "string option"
  rq_accounted :: bool

record budget_stop =
  tm_surface :: string
  tm_url :: "string option"
  tm_page :: "int option"

record budget =
  bg_started :: rat
  bg_ticks :: nat
  bg_requests :: "request_receipt list"
  bg_downloaded :: int
  bg_reason :: "string option"
  bg_termination :: "budget_stop option"

record 's connection =
  cn_url :: string
  cn_status :: int
  cn_content_type :: string
  cn_stream :: 's

record 's budget_env =
  bx_limits :: acquisition_limits
  bx_clock :: "nat \<Rightarrow> rat"
  bx_sub :: "rat \<Rightarrow> rat \<Rightarrow> rat" \<comment> \<open>subtraction of floats\<close>
  bx_round6 :: "rat \<Rightarrow> rat" \<comment> \<open>\<open>round(x, 6)\<close>\<close>
  bx_sha :: "string \<Rightarrow> string"
  bx_now :: "nat \<Rightarrow> string"
  bx_connect :: "nat \<Rightarrow> rat \<Rightarrow> string \<Rightarrow> 's connection res" \<comment> \<open>time, timeout, URL\<close>
  bx_read :: "int \<Rightarrow> 's \<Rightarrow> string res \<times> 's" \<comment> \<open>\<open>read1(n)\<close>\<close>

type_synonym 'a bio = "(budget, 'a) act"

definition new_budget :: "'s budget_env \<Rightarrow> budget" where
  "new_budget env = \<lparr>bg_started = bx_clock env 0, bg_ticks = 1, bg_requests = [], bg_downloaded = 0,
     bg_reason = None, bg_termination = None\<rparr>"

definition elapsed :: "'s budget_env \<Rightarrow> rat bio" where
  "elapsed env = (\<lambda>b. let d = bx_sub env (bx_clock env (bg_ticks b)) (bg_started b)
     in (Inr (if 0 < d then d else 0), b\<lparr>bg_ticks := bg_ticks b + 1\<rparr>))"

definition fail :: "string \<Rightarrow> 'a bio" where
  "fail reason = (\<lambda>b. let r = (case bg_reason b of Some r \<Rightarrow> r | None \<Rightarrow> reason)
     in (raise AcquisitionBudgetExceeded r, b\<lparr>bg_reason := Some r\<rparr>))"

definition check_time :: "'s budget_env \<Rightarrow> unit bio" where
  "check_time env = (\<lambda>b. case bg_reason b of
       Some r \<Rightarrow> (raise AcquisitionBudgetExceeded r, b)
     | None \<Rightarrow> act_bind (elapsed env) (\<lambda>t.
         if t \<ge> lm_max_seconds (bx_limits env) then fail ''WALL_CLOCK_BUDGET_EXHAUSTED'' else act_return ()) b)"

definition check_page :: "'s budget_env \<Rightarrow> int option \<Rightarrow> string \<Rightarrow> unit bio" where
  "check_page env page surface =
     act_bind (check_time env) (\<lambda>_.
       case page of
         Some p \<Rightarrow> if p > lm_max_pages (bx_limits env)
                   then act_bind (act_upd (\<lambda>b. b\<lparr>bg_termination := Some \<lparr>tm_surface = surface, tm_url = None, tm_page = page\<rparr>\<rparr>))
                          (\<lambda>_. fail ''PAGE_BUDGET_EXHAUSTED'')
                   else act_return ()
       | None \<Rightarrow> act_return ())"

definition timeout :: "'s budget_env \<Rightarrow> rat bio" where
  "timeout env =
     act_bind (check_time env) (\<lambda>_. act_bind (elapsed env) (\<lambda>t.
       act_return (min (lm_request_timeout (bx_limits env)) (bx_sub env (lm_max_seconds (bx_limits env)) t))))"

definition upd_receipt :: "nat \<Rightarrow> (request_receipt \<Rightarrow> request_receipt) \<Rightarrow> budget \<Rightarrow> budget" where
  "upd_receipt i f b = b\<lparr>bg_requests := (bg_requests b)[i := f (bg_requests b ! i)]\<rparr>"

definition account :: "'s budget_env \<Rightarrow> nat \<Rightarrow> int \<Rightarrow> unit bio" where
  "account env i n = (\<lambda>b.
     let b = upd_receipt i (\<lambda>r. r\<lparr>rq_response_bytes := rq_response_bytes r + n\<rparr>) b;
         b = b\<lparr>bg_downloaded := bg_downloaded b + n\<rparr>;
         b = upd_receipt i (\<lambda>r. r\<lparr>rq_cumulative_bytes := bg_downloaded b\<rparr>) b
     in if rq_response_bytes (bg_requests b ! i) > lm_max_response_bytes (bx_limits env)
        then fail ''RESPONSE_BYTE_LIMIT_EXCEEDED'' b
        else if bg_downloaded b > lm_max_total_bytes (bx_limits env)
        then fail ''TOTAL_BYTE_BUDGET_EXHAUSTED'' b
        else (Inr (), b))"

section \<open>Reading a response\<close>

text \<open>
  The loop of \<open>read\<close>: \<open>i\<close> is the receipt of the current request, \<open>chunks\<close> what was read so far, last first.
  It ends whatever the stream does: a chunk that is not empty brings the byte count closer to its limit.
\<close>

definition remaining :: "'s budget_env \<Rightarrow> nat \<Rightarrow> budget \<Rightarrow> int" where
  "remaining env i b =
     min (lm_max_response_bytes (bx_limits env) - rq_response_bytes (bg_requests b ! i))
         (lm_max_total_bytes (bx_limits env) - bg_downloaded b)"

lemma account_downloaded:
  "account env i n b = (r, b') \<Longrightarrow> bg_downloaded b' = bg_downloaded b + n"
  "account env i n b = (Inr (), b') \<Longrightarrow> bg_downloaded b' \<le> lm_max_total_bytes (bx_limits env)"
  by (auto simp: account_def fail_def upd_receipt_def Let_def raise_def split: if_splits)

lemma check_time_cases:
  assumes "check_time env b = (r, b')"
  obtains (sticky) reason where "bg_reason b = Some reason" "r = Inl (Raise AcquisitionBudgetExceeded reason)" "b' = b"
    | (late) "bg_reason b = None" "r = Inl (Raise AcquisitionBudgetExceeded ''WALL_CLOCK_BUDGET_EXHAUSTED'')"
        "b' = b\<lparr>bg_ticks := bg_ticks b + 1, bg_reason := Some ''WALL_CLOCK_BUDGET_EXHAUSTED''\<rparr>"
    | (in_time) "bg_reason b = None" "r = Inr ()" "b' = b\<lparr>bg_ticks := bg_ticks b + 1\<rparr>"
  using assms
  by (cases "bg_reason b") (auto simp: check_time_def elapsed_def fail_def Let_def act_bind_def raise_def split: if_splits)

lemma check_time_keeps:
  assumes "check_time env b = (r, b')"
  shows "bg_downloaded b' = bg_downloaded b \<and> bg_requests b' = bg_requests b \<and> bg_termination b' = bg_termination b"
  by (rule check_time_cases[OF assms]) simp_all

function read_loop ::
  "'s budget_env \<Rightarrow> nat \<Rightarrow> string list \<Rightarrow> 's \<Rightarrow> budget \<Rightarrow> (string res \<times> budget) \<times> 's" where
  "read_loop env i chunks src b =
     (case check_time env b of
        (Inl e, b) \<Rightarrow> ((Inl e, b), src)
      | (Inr _, b) \<Rightarrow>
          (case bx_read env (min 65536 (remaining env i b + 1)) src of
             (Inl e, src) \<Rightarrow> ((Inl e, b), src)
           | (Inr chunk, src) \<Rightarrow>
               (case account env i (int (length chunk)) b of
                  (Inl e, b) \<Rightarrow> ((Inl e, b), src)
                | (Inr _, b) \<Rightarrow>
                    (case check_time env b of
                       (Inl e, b) \<Rightarrow> ((Inl e, b), src)
                     | (Inr _, b) \<Rightarrow>
                         if chunk = [] then ((Inr (concat (rev chunks)), b), src)
                         else read_loop env i (chunk # chunks) src b))))"
  by pat_completeness auto

lemma read_step_decreases:
  assumes "(x, b1) = check_time env b" "(Inr v, b2) = account env i (int (length chunk)) b1"
    "(y, b3) = check_time env b2" "chunk \<noteq> []"
  shows "nat (lm_max_total_bytes (bx_limits env) + 1 - bg_downloaded b3)
    < nat (lm_max_total_bytes (bx_limits env) + 1 - bg_downloaded b)"
proof -
  have "bg_downloaded b1 = bg_downloaded b" "bg_downloaded b3 = bg_downloaded b2"
    using check_time_keeps[OF assms(1)[symmetric]] check_time_keeps[OF assms(3)[symmetric]] by blast+
  moreover have "bg_downloaded b2 = bg_downloaded b1 + int (length chunk)"
    "bg_downloaded b2 \<le> lm_max_total_bytes (bx_limits env)"
    using account_downloaded(1)[OF assms(2)[symmetric]] account_downloaded(2)[of env i "int (length chunk)" b1 b2] assms(2)
    by simp_all
  moreover have "0 < int (length chunk)" using assms(4) by simp
  ultimately show ?thesis by linarith
qed

termination read_loop
  by (relation "measure (\<lambda>(env, i, chunks, src, b). nat (lm_max_total_bytes (bx_limits env) + 1 - bg_downloaded b))")
    (auto dest: read_step_decreases)

declare read_loop.simps [simp del]

definition last_receipt :: "budget \<Rightarrow> nat" where
  "last_receipt b = length (bg_requests b) - 1"

definition read_response :: "'s budget_env \<Rightarrow> 's \<Rightarrow> string bio" where
  \<comment> \<open>\<open>read\<close>, on a budget with at least one receipt\<close>
  "read_response env src = (\<lambda>b.
     if bg_requests b = [] then (raise KeyError ''list index out of range'', b)
     else fst (read_loop env (last_receipt b) [] src (upd_receipt (last_receipt b) (\<lambda>r. r\<lparr>rq_accounted := True\<rparr>) b)))"

section \<open>Requests\<close>

record response =
  rs_requested_url :: string
  rs_official_url :: string
  rs_retrieved_at :: string
  rs_http_status :: "int option"
  rs_content_type :: "string option"
  rs_data :: string
  rs_error :: "exc_class option" \<comment> \<open>\<open>type(exc).__name__\<close>\<close>

definition open_connection :: "'s budget_env \<Rightarrow> string \<Rightarrow> 's connection bio" where
  "open_connection env url =
     act_bind (timeout env) (\<lambda>t b. (bx_connect env (bg_ticks b) t url, b))"

definition fetch :: "'s budget_env \<Rightarrow> string \<Rightarrow> response bio" where
  \<comment> \<open>the HOSE transport inside a budget: it passes on the budget's own exception, any other becomes a response\<close>
  "fetch env url = (\<lambda>b.
     let retrieved = bx_now env (bg_ticks b) in
     case act_bind (open_connection env url) (\<lambda>c.
            act_bind (read_response env (cn_stream c)) (\<lambda>data.
            act_return \<lparr>rs_requested_url = url, rs_official_url = cn_url c, rs_retrieved_at = retrieved,
              rs_http_status = Some (cn_status c), rs_content_type = Some (cn_content_type c), rs_data = data,
              rs_error = None\<rparr>)) b of
       (Inr r, b) \<Rightarrow> (Inr r, b)
     | (Inl e, b) \<Rightarrow>
         if exc_class e = AcquisitionBudgetExceeded then (Inl e, b)
         else (Inr \<lparr>rs_requested_url = url, rs_official_url = url, rs_retrieved_at = retrieved, rs_http_status = None,
                   rs_content_type = None, rs_data = [], rs_error = Some (exc_class e)\<rparr>, b))"

text \<open>A fetcher either runs inside the budget or is injected, answering from its own knowledge.\<close>

datatype fetcher = Bounded_transport | Injected "nat \<Rightarrow> string \<Rightarrow> response res"

definition run_fetcher :: "'s budget_env \<Rightarrow> fetcher \<Rightarrow> string \<Rightarrow> response bio" where
  "run_fetcher env f url =
     (case f of Bounded_transport \<Rightarrow> fetch env url | Injected g \<Rightarrow> (\<lambda>b. (g (bg_ticks b) url, b)))"

definition new_receipt :: "string \<Rightarrow> string \<Rightarrow> int option \<Rightarrow> rat \<Rightarrow> budget \<Rightarrow> request_receipt" where
  "new_receipt surface url page t b =
     \<lparr>rq_number = int (length (bg_requests b)) + 1, rq_surface = surface, rq_url = url, rq_page = page,
      rq_response_bytes = 0, rq_cumulative_bytes = bg_downloaded b, rq_elapsed = t, rq_status = ''STARTED'',
      rq_sha256 = None, rq_accounted = False\<rparr>"

definition admit :: "'s budget_env \<Rightarrow> string \<Rightarrow> string \<Rightarrow> int option \<Rightarrow> unit bio" where
  \<comment> \<open>what \<open>request\<close> checks and records before it calls the fetcher\<close>
  "admit env surface url page =
     act_bind (act_upd (\<lambda>b. b\<lparr>bg_termination := Some \<lparr>tm_surface = surface, tm_url = Some url, tm_page = page\<rparr>\<rparr>)) (\<lambda>_.
     act_bind (check_page env page surface) (\<lambda>_ b.
       if int (length (bg_requests b)) \<ge> lm_max_requests (bx_limits env) then fail ''REQUEST_BUDGET_EXHAUSTED'' b
       else if bg_downloaded b \<ge> lm_max_total_bytes (bx_limits env) then fail ''TOTAL_BYTE_BUDGET_EXHAUSTED'' b
       else act_bind (elapsed env) (\<lambda>t.
              act_upd (\<lambda>b. b\<lparr>bg_requests := bg_requests b @ [new_receipt surface url page (bx_round6 env t) b]\<rparr>)) b))"

definition finish :: "'s budget_env \<Rightarrow> nat \<Rightarrow> (request_receipt \<Rightarrow> request_receipt) \<Rightarrow> budget \<Rightarrow> budget" where
  \<comment> \<open>the status of the receipt and the \<open>finally\<close> clause\<close>
  "finish env i status b =
     (let b = upd_receipt i status b;
          b = upd_receipt i (\<lambda>r. r\<lparr>rq_accounted := False\<rparr>) b
      in case elapsed env b of
           (Inr t, b) \<Rightarrow> upd_receipt i (\<lambda>r. r\<lparr>rq_elapsed := bx_round6 env t\<rparr>) b
         | (Inl _, b) \<Rightarrow> b)"

definition dispatch :: "'s budget_env \<Rightarrow> nat \<Rightarrow> fetcher \<Rightarrow> string \<Rightarrow> response bio" where
  \<comment> \<open>the body of the \<open>try\<close> block\<close>
  "dispatch env i f url =
     act_bind (run_fetcher env f url) (\<lambda>r b.
       act_bind (if rq_accounted (bg_requests b ! i) then act_return () else account env i (int (length (rs_data r)))) (\<lambda>_.
       act_bind (check_time env) (\<lambda>_. act_return r)) b)"

definition request :: "'s budget_env \<Rightarrow> fetcher \<Rightarrow> string \<Rightarrow> string \<Rightarrow> int option \<Rightarrow> response bio" where
  "request env f url surface page = (\<lambda>b.
     case admit env surface url page b of
       (Inl e, b) \<Rightarrow> (Inl e, b)
     | (Inr _, b) \<Rightarrow>
         (let i = last_receipt b in
          case dispatch env i f url b of
            (Inr r, b) \<Rightarrow>
              (Inr r, finish env i (\<lambda>q. q\<lparr>rq_sha256 := Some (bx_sha env (rs_data r)),
                 rq_status := (if rs_http_status r = Some 200 then ''RETURNED'' else ''SOURCE_FAILURE'')\<rparr>) b)
          | (Inl e, b) \<Rightarrow>
              (Inl e, finish env i (\<lambda>q. q\<lparr>rq_status :=
                 (if exc_class e = AcquisitionBudgetExceeded then ''BUDGET_TERMINATED'' else ''FETCH_EXCEPTION'')\<rparr>) b)))"

record report =
  rp_request_count :: int
  rp_downloaded :: int
  rp_elapsed :: rat
  rp_terminal_state :: string
  rp_reason :: "string option"
  rp_termination :: "budget_stop option"
  rp_requests :: "request_receipt list"

definition report_of :: "'s budget_env \<Rightarrow> report bio" where
  "report_of env = act_bind (elapsed env) (\<lambda>t b. (Inr
     \<lparr>rp_request_count = int (length (bg_requests b)), rp_downloaded = bg_downloaded b, rp_elapsed = bx_round6 env t,
      rp_terminal_state = (if bg_reason b = None then ''WITHIN_LIMITS'' else ''EXHAUSTED''),
      rp_reason = bg_reason b,
      rp_termination = (if bg_reason b = None then None else bg_termination b),
      rp_requests = bg_requests b\<rparr>, b))"

text \<open>A session: requests one after the other, each whatever became of the one before.\<close>

fun run_requests :: "'s budget_env \<Rightarrow> (fetcher \<times> string \<times> string \<times> int option) list \<Rightarrow> budget \<Rightarrow> budget" where
  "run_requests env [] b = b"
| "run_requests env ((f, url, surface, page) # rs) b = run_requests env rs (snd (request env f url surface page b))"

section \<open>What reading leaves alone\<close>

lemma upd_receipt_keeps:
  assumes "\<And>r. g (f r) = g r"
  shows "map g (bg_requests (upd_receipt i f b)) = map g (bg_requests b)"
proof (cases "i < length (bg_requests b)")
  case True
  then show ?thesis
    using assms by (simp add: upd_receipt_def map_update) (metis list_update_id nth_map)
qed (simp add: upd_receipt_def list_update_beyond)

lemma fail_keeps: "fail reason b = (r, b') \<Longrightarrow> bg_requests b' = bg_requests b \<and> bg_downloaded b' = bg_downloaded b"
  by (auto simp: fail_def Let_def)

lemma account_cases:
  assumes "account env i n b = (r, b')"
  obtains why where
    "bg_requests b' = bg_requests (upd_receipt i (\<lambda>r. r\<lparr>rq_response_bytes := rq_response_bytes r + n,
        rq_cumulative_bytes := bg_downloaded b + n\<rparr>) b)"
    "bg_downloaded b' = bg_downloaded b + n"
    "bg_reason b' = (if rq_response_bytes (bg_requests b' ! i) > lm_max_response_bytes (bx_limits env)
        \<or> bg_downloaded b + n > lm_max_total_bytes (bx_limits env) then Some why else bg_reason b)"
    "r = Inr () \<Longrightarrow> bg_reason b' = bg_reason b" "bg_reason b \<in> {None, Some why}"
proof -
  have upd: "bg_requests (upd_receipt i g (upd_receipt i f b\<lparr>bg_downloaded := m\<rparr>)) = bg_requests (upd_receipt i (g \<circ> f) b)"
    for f g m by (cases "i < length (bg_requests b)") (simp_all add: upd_receipt_def list_update_beyond)
  let ?b = "upd_receipt i (\<lambda>r. r\<lparr>rq_cumulative_bytes := bg_downloaded b + n\<rparr>)
      (upd_receipt i (\<lambda>r. r\<lparr>rq_response_bytes := rq_response_bytes r + n\<rparr>) b\<lparr>bg_downloaded := bg_downloaded b + n\<rparr>)"
  have req: "bg_requests ?b = bg_requests (upd_receipt i (\<lambda>r. r\<lparr>rq_response_bytes := rq_response_bytes r + n,
        rq_cumulative_bytes := bg_downloaded b + n\<rparr>) b)" unfolding upd by (simp add: comp_def)
  have acc: "account env i n b = (if rq_response_bytes (bg_requests ?b ! i) > lm_max_response_bytes (bx_limits env)
        then fail ''RESPONSE_BYTE_LIMIT_EXCEEDED'' ?b
        else if bg_downloaded b + n > lm_max_total_bytes (bx_limits env)
        then fail ''TOTAL_BYTE_BUDGET_EXHAUSTED'' ?b else (Inr (), ?b))"
    by (simp add: account_def Let_def upd_receipt_def)
  have state: "bg_downloaded ?b = bg_downloaded b + n" "bg_reason ?b = bg_reason b" by (simp_all add: upd_receipt_def)
  show thesis
  proof (rule that[of "case bg_reason b of Some w \<Rightarrow> w | None \<Rightarrow>
      if rq_response_bytes (bg_requests b' ! i) > lm_max_response_bytes (bx_limits env)
      then ''RESPONSE_BYTE_LIMIT_EXCEEDED'' else ''TOTAL_BYTE_BUDGET_EXHAUSTED''"])
  qed (use assms acc req state in \<open>auto simp: fail_def Let_def raise_def split: if_splits option.splits\<close>)
qed

lemma account_keeps_flags: "account env i n b = (r, b') \<Longrightarrow> map rq_accounted (bg_requests b') = map rq_accounted (bg_requests b)"
  by (erule account_cases) (simp add: upd_receipt_keeps)

lemma read_loop_cases:
  assumes "read_loop env i chunks src b = ((r, b'), s')"
  obtains (timed) e where "check_time env b = (Inl e, b')" "r = Inl e" "s' = src"
  | (read) b1 e n where "check_time env b = (Inr (), b1)" "bx_read env n src = (Inl e, s')" "r = Inl e" "b' = b1"
  | (accounted) b1 n chunk s1 e where "check_time env b = (Inr (), b1)" "bx_read env n src = (Inr chunk, s1)"
      "account env i (int (length chunk)) b1 = (Inl e, b')" "r = Inl e" "s' = s1"
  | (late) b1 n chunk s1 b2 e where "check_time env b = (Inr (), b1)" "bx_read env n src = (Inr chunk, s1)"
      "account env i (int (length chunk)) b1 = (Inr (), b2)" "check_time env b2 = (Inl e, b')" "r = Inl e" "s' = s1"
  | (ended) b1 n s1 b2 where "check_time env b = (Inr (), b1)" "bx_read env n src = (Inr [], s1)"
      "account env i 0 b1 = (Inr (), b2)" "check_time env b2 = (Inr (), b')" "r = Inr (concat (rev chunks))" "s' = s1"
  | (more) b1 n chunk s1 b2 b3 where "check_time env b = (Inr (), b1)" "bx_read env n src = (Inr chunk, s1)"
      "account env i (int (length chunk)) b1 = (Inr (), b2)" "check_time env b2 = (Inr (), b3)" "chunk \<noteq> []"
      "read_loop env i (chunk # chunks) s1 b3 = ((r, b'), s')"
proof -
  obtain r1 b1 where c1: "check_time env b = (r1, b1)" by fastforce
  obtain rc s1 where rd: "bx_read env (min 65536 (remaining env i b1 + 1)) src = (rc, s1)" by fastforce
  obtain r2 b2 where c2: "account env i (int (length (projr rc))) b1 = (r2, b2)" by fastforce
  obtain r3 b3 where c3: "check_time env b2 = (r3, b3)" by fastforce
  note eq = assms[unfolded read_loop.simps[of env i chunks src b] c1]
  show thesis
  proof (cases r1)
    case (Inr u1)
    show thesis
    proof (cases rc)
      case rc: (Inr chunk)
      show thesis
      proof (cases r2)
        case r2: (Inr u2)
        show thesis
        proof (cases r3)
          case r3: (Inr u3)
          show thesis
          proof (cases "chunk = []")
            case True
            then show thesis using ended eq rd c1 c2 c3 Inr rc r2 r3 by simp
          next
            case False
            then show thesis using more eq rd c1 c2 c3 Inr rc r2 r3 by simp
          qed
        qed (use late eq rd c1 c2 c3 Inr rc r2 in simp)
      qed (use accounted eq rd c1 c2 Inr rc in simp)
    qed (use read eq rd c1 Inr in auto)
  qed (use timed eq c1 in simp)
qed

lemma check_time_Inr: "check_time env b = (Inr u, b') \<Longrightarrow> bg_reason b = None \<and> b' = b\<lparr>bg_ticks := bg_ticks b + 1\<rparr>"
  by (erule check_time_cases) simp_all

lemma account_Inr:
  assumes "account env i n b = (Inr u, b')"
  shows "bg_reason b' = bg_reason b"
    and "i < length (bg_requests b) \<Longrightarrow>
      rq_response_bytes (bg_requests b' ! i) = rq_response_bytes (bg_requests b ! i) + n"
  using assms by - (erule account_cases, simp, erule account_cases, simp add: upd_receipt_def)

definition received :: "string list \<Rightarrow> int" where
  "received chunks = int (length (concat chunks))"

lemma read_loop_post:
  assumes "read_loop env i chunks src b = ((r, b'), s')"
  shows "map rq_accounted (bg_requests b') = map rq_accounted (bg_requests b)
    \<and> (\<forall>data. r = Inr data \<longrightarrow> bg_reason b' = None \<and> (i < length (bg_requests b) \<longrightarrow>
         rq_response_bytes (bg_requests b' ! i) = rq_response_bytes (bg_requests b ! i) + int (length data) - received chunks))"
  using assms
proof (induction "nat (lm_max_total_bytes (bx_limits env) + 1 - bg_downloaded b)" arbitrary: b chunks src rule: less_induct)
  case less
  from less.prems show ?case
  proof (cases rule: read_loop_cases)
    case (more b1 n chunk s1 b2 b3)
    have k: "map rq_accounted (bg_requests b3) = map rq_accounted (bg_requests b)"
      using check_time_keeps more account_keeps_flags by metis
    have len: "length (bg_requests b1) = length (bg_requests b)" "length (bg_requests b3) = length (bg_requests b)"
      using check_time_keeps more k by (metis, metis length_map)
    have "rq_response_bytes (bg_requests b3 ! i) = rq_response_bytes (bg_requests b ! i) + int (length chunk)" if "i < length (bg_requests b)"
      using account_Inr(2)[OF more(3)] that check_time_keeps[OF more(1)] check_time_keeps[OF more(4)] len by simp
    moreover have "received (chunk # chunks) = int (length chunk) + received chunks" by (simp add: received_def)
    ultimately show ?thesis
      using less.hyps[OF read_step_decreases[OF more(1)[symmetric] more(3)[symmetric] more(4)[symmetric] more(5)] more(6)] k len
      by auto
  next
    case (ended b1 n s1 b2)
    have "rq_response_bytes (bg_requests b' ! i) = rq_response_bytes (bg_requests b ! i)" if "i < length (bg_requests b)"
      using account_Inr(2)[OF ended(3)] that check_time_keeps[OF ended(1)] check_time_keeps[OF ended(4)] by simp
    moreover have "map rq_accounted (bg_requests b') = map rq_accounted (bg_requests b)"
      using check_time_keeps ended account_keeps_flags by metis
    moreover have "bg_reason b' = None" using check_time_Inr[OF ended(4)] by simp
    moreover have "length (concat (rev chunks)) = length (concat chunks)"
      by (simp add: length_concat rev_map[symmetric])
    ultimately show ?thesis using ended(5) by (simp add: received_def)
  qed (use check_time_keeps account_keeps_flags in \<open>metis Inl_Inr_False\<close>)+
qed

lemma elapsed_keeps: "elapsed env b = (r, b') \<Longrightarrow> bg_requests b' = bg_requests b"
  by (auto simp: elapsed_def Let_def)

lemma timeout_keeps: "timeout env b = (r, b') \<Longrightarrow> bg_requests b' = bg_requests b"
  by (cases r) (auto simp: timeout_def act_bind_eq_Inr act_bind_eq_Inl dest!: check_time_keeps elapsed_keeps)

lemma open_connection_keeps: "open_connection env url b = (r, b') \<Longrightarrow> bg_requests b' = bg_requests b"
  by (cases r) (auto simp: open_connection_def act_bind_eq_Inr act_bind_eq_Inl dest: timeout_keeps)

lemma upd_receipt_simps [simp]:
  "length (bg_requests (upd_receipt i f b)) = length (bg_requests b)"
  "i < length (bg_requests b) \<Longrightarrow> bg_requests (upd_receipt i f b) ! i = f (bg_requests b ! i)"
  "bg_reason (upd_receipt i f b) = bg_reason b" "bg_downloaded (upd_receipt i f b) = bg_downloaded b"
  by (simp_all add: upd_receipt_def)

lemma last_receipt_less: "bg_requests b \<noteq> [] \<Longrightarrow> last_receipt b < length (bg_requests b)"
  by (simp add: last_receipt_def)

lemma read_response_post:
  assumes "read_response env src b = (r, b')"
  shows "length (bg_requests b') = length (bg_requests b)
    \<and> (\<forall>data. r = Inr data \<longrightarrow> rq_accounted (bg_requests b' ! last_receipt b)
         \<and> rq_response_bytes (bg_requests b' ! last_receipt b)
             = rq_response_bytes (bg_requests b ! last_receipt b) + int (length data))"
proof (cases "bg_requests b = []")
  case False
  let ?i = "last_receipt b" and ?b = "upd_receipt (last_receipt b) (\<lambda>r. r\<lparr>rq_accounted := True\<rparr>) b"
  note i = last_receipt_less[OF False]
  obtain s' where "read_loop env ?i [] src ?b = ((r, b'), s')"
    using assms False by (metis (no_types, lifting) fst_conv prod.exhaust_sel read_response_def)
  note post = read_loop_post[OF this]
  then have flags: "map rq_accounted (bg_requests b') = map rq_accounted (bg_requests ?b)" by blast
  then have len: "length (bg_requests b') = length (bg_requests b)" by (metis length_map upd_receipt_simps(1))
  have "rq_accounted (bg_requests b' ! ?i) = map rq_accounted (bg_requests b') ! ?i" using i len by simp
  also have "\<dots> = True" unfolding flags using i by simp
  finally show ?thesis using post len i by (auto simp: received_def)
qed (use assms in \<open>auto simp: read_response_def raise_def\<close>)

lemma fetch_post:
  assumes "fetch env url b = (r, b')"
  shows "length (bg_requests b') = length (bg_requests b)
    \<and> (\<forall>d. r = Inr d \<longrightarrow> rs_data d = [] \<or> rq_accounted (bg_requests b' ! last_receipt b)
         \<and> rq_response_bytes (bg_requests b' ! last_receipt b)
             = rq_response_bytes (bg_requests b ! last_receipt b) + int (length (rs_data d)))"
proof -
  let ?body = "act_bind (open_connection env url) (\<lambda>c. act_bind (read_response env (cn_stream c)) (\<lambda>data.
      act_return \<lparr>rs_requested_url = url, rs_official_url = cn_url c, rs_retrieved_at = bx_now env (bg_ticks b),
        rs_http_status = Some (cn_status c), rs_content_type = Some (cn_content_type c), rs_data = data, rs_error = None\<rparr>)) b"
  obtain x c where body: "?body = (x, c)" by fastforce
  have "length (bg_requests c) = length (bg_requests b)
    \<and> (\<forall>d. x = Inr d \<longrightarrow> rq_accounted (bg_requests c ! last_receipt b)
         \<and> rq_response_bytes (bg_requests c ! last_receipt b)
             = rq_response_bytes (bg_requests b ! last_receipt b) + int (length (rs_data d)))"
    using body
    by (cases x) (auto simp: act_bind_eq_Inr act_bind_eq_Inl last_receipt_def dest!: open_connection_keeps read_response_post)
  moreover have "b' = c \<and> (r = x \<or> (\<exists>d. r = Inr d \<and> rs_data d = []))"
    using assms[unfolded fetch_def Let_def body] by (cases x) (auto split: if_splits)
  ultimately show ?thesis by auto
qed

section \<open>Invariants of a budget\<close>

text \<open>
  A predicate on budgets that survives every elementary step survives every operation.  The steps are a
  reading of the clock, the recording of the reason, of what was requested and of a receipt, a change of
  a receipt that leaves its bytes alone, and the accounting of at most one byte more than remains.
\<close>

definition reads_at_most :: "'s budget_env \<Rightarrow> bool" where
  \<comment> \<open>\<open>read1(n)\<close> returns at most \<open>n\<close> bytes\<close>
  "reads_at_most env \<longleftrightarrow> (\<forall>n s c s'. 0 \<le> n \<longrightarrow> bx_read env n s = (Inr c, s') \<longrightarrow> int (length c) \<le> n)"

definition same_bytes :: "(request_receipt \<Rightarrow> request_receipt) \<Rightarrow> bool" where
  "same_bytes f \<longleftrightarrow> (\<forall>r. rq_response_bytes (f r) = rq_response_bytes r)"

lemma fail_not_Inr [simp]: "fail why b \<noteq> (Inr u, b')"
  by (simp add: fail_def Let_def)

lemma check_page_Inr: "check_page env page surface b = (Inr u, b') \<Longrightarrow> bg_reason b' = None"
  by (auto simp: check_page_def act_bind_eq_Inr fail_def Let_def raise_def dest: check_time_Inr split: option.splits if_splits)

locale budget_invariant =
  fixes env :: "'s budget_env" and P :: "budget \<Rightarrow> bool"
  assumes reader: "P b \<Longrightarrow> reads_at_most env"
    and tick: "P b \<Longrightarrow> P (b\<lparr>bg_ticks := t\<rparr>)"
    and fails: "P b \<Longrightarrow> bg_reason b \<in> {None, Some why} \<Longrightarrow> P (b\<lparr>bg_reason := Some why\<rparr>)"
    and asked: "P b \<Longrightarrow> P (b\<lparr>bg_termination := x\<rparr>)"
    and admitted: "P b \<Longrightarrow> bg_reason b = None \<Longrightarrow> int (length (bg_requests b)) < lm_max_requests (bx_limits env)
        \<Longrightarrow> P (b\<lparr>bg_requests := bg_requests b @ [new_receipt surface url page e b]\<rparr>)"
    and noted: "P b \<Longrightarrow> same_bytes f \<Longrightarrow> P (upd_receipt i f b)"
    and room: "P b \<Longrightarrow> bg_reason b = None \<Longrightarrow> i < length (bg_requests b) \<Longrightarrow> 0 \<le> remaining env i b"
    and probe: "P b \<Longrightarrow> bg_reason b = None \<Longrightarrow> i < length (bg_requests b) \<Longrightarrow> 0 \<le> n
        \<Longrightarrow> n \<le> remaining env i b + 1 \<Longrightarrow> P (snd (account env i n b))"
begin

lemma fail: "fail reason b = (r, b') \<Longrightarrow> P b \<Longrightarrow> P b'"
  by (cases "bg_reason b") (auto simp: fail_def Let_def intro: fails)

lemma check_time:
  assumes "check_time env b = (r, b')" "P b"
  shows "P b'"
  using assms(1)
proof (cases rule: check_time_cases)
  case late
  then show ?thesis
    using fails[OF tick[OF assms(2)], of "bg_ticks b + 1" "''WALL_CLOCK_BUDGET_EXHAUSTED''"] by simp
qed (use assms(2) tick in auto)

lemma elapsed: "elapsed env b = (r, b') \<Longrightarrow> P b \<Longrightarrow> P b'"
  by (auto simp: elapsed_def Let_def intro: tick)

lemma bind:
  assumes "act_bind m k b = (r, b')" "\<And>r b'. m b = (r, b') \<Longrightarrow> P b'"
    and "\<And>v c. m b = (Inr v, c) \<Longrightarrow> P c \<Longrightarrow> k v c = (r, b') \<Longrightarrow> P b'"
  shows "P b'"
  using assms by (cases r) (auto simp: act_bind_eq_Inr act_bind_eq_Inl)

lemma timeout: "timeout env b = (r, b') \<Longrightarrow> P b \<Longrightarrow> P b'"
  unfolding timeout_def by (erule bind, erule (1) check_time, erule bind, erule (1) elapsed, simp)

lemma check_page: "check_page env page surface b = (r, b') \<Longrightarrow> P b \<Longrightarrow> P b'"
  unfolding check_page_def
proof (erule bind, erule (1) check_time)
  fix v c
  assume "P c" and r: "(case page of None \<Rightarrow> act_return ()
      | Some p \<Rightarrow> if p > lm_max_pages (bx_limits env)
          then act_bind (act_upd (\<lambda>b. b\<lparr>bg_termination := Some \<lparr>tm_surface = surface, tm_url = None, tm_page = page\<rparr>\<rparr>))
                 (\<lambda>_. fail ''PAGE_BUDGET_EXHAUSTED'')
          else act_return ()) c = (r, b')"
  show "P b'"
  proof (cases "\<exists>p. page = Some p \<and> p > lm_max_pages (bx_limits env)")
    case True
    then have "fail ''PAGE_BUDGET_EXHAUSTED'' (c\<lparr>bg_termination := Some \<lparr>tm_surface = surface, tm_url = None, tm_page = page\<rparr>\<rparr>) = (r, b')"
      using r by auto
    then show ?thesis
      using fail asked[OF \<open>P c\<close>] by blast
  next
    case False
    then have "act_return () c = (r, b')" using r by (cases page) simp_all
    then show ?thesis using \<open>P c\<close> by simp
  qed
qed

lemma read_loop:
  "P b \<Longrightarrow> i < length (bg_requests b) \<Longrightarrow> P (snd (fst (read_loop env i chunks src b)))"
proof (induction "nat (lm_max_total_bytes (bx_limits env) + 1 - bg_downloaded b)" arbitrary: b chunks src rule: less_induct)
  case less
  note P = \<open>P b\<close>
  obtain r1 b1 where c1: "check_time env b = (r1, b1)" by fastforce
  have P1: "P b1" using check_time[OF c1 P] .
  have l1: "length (bg_requests b1) = length (bg_requests b)" using check_time_keeps[OF c1] by simp
  show ?case
  proof (cases r1)
    case (Inr u)
    then have open1: "bg_reason b1 = None" using c1 by (auto elim!: check_time_cases)
    have room1: "0 \<le> remaining env i b1" using room[OF P1 open1] less.prems(2) l1 by simp
    obtain rc src1 where rd: "bx_read env (min 65536 (remaining env i b1 + 1)) src = (rc, src1)" by fastforce
    show ?thesis
    proof (cases rc)
      case (Inr chunk)
      have "int (length chunk) \<le> min 65536 (remaining env i b1 + 1)"
        using reader[OF P] rd room1 Inr unfolding reads_at_most_def by (metis add_nonneg_nonneg min_def zero_le_one zero_le_numeral)
      then have P2: "P (snd (account env i (int (length chunk)) b1))"
        using probe[OF P1 open1] less.prems(2) l1 by simp
      obtain r2 b2 where c2: "account env i (int (length chunk)) b1 = (r2, b2)" by fastforce
      obtain r3 b3 where c3: "check_time env b2 = (r3, b3)" by fastforce
      have P3: "P b3" using check_time[OF c3] P2 c2 by simp
      have l3: "i < length (bg_requests b3)"
        using check_time_keeps[OF c3] c2 l1 less.prems(2)
        by (auto simp: account_def Let_def upd_receipt_def fail_def raise_def split: if_splits)
      have rest: "P (snd (fst (read_loop env i (chunk # chunks) src1 b3)))" if "chunk \<noteq> []" "r2 = Inr v" for v
        using read_step_decreases[OF c1[symmetric] c2[symmetric, unfolded that(2)] c3[symmetric] that(1)] P3 l3
        by (rule less.hyps)
      show ?thesis
        using P2 P3 rest
        by (cases r2; cases r3) (simp_all add: read_loop.simps[of env i chunks src b] c1 \<open>r1 = Inr u\<close> rd Inr c2 c3)
    qed (use P1 in \<open>simp add: read_loop.simps[of env i chunks src b] c1 Inr rd\<close>)
  qed (use P1 in \<open>simp add: read_loop.simps[of env i chunks src b] c1\<close>)
qed

lemma read_response: "read_response env src b = (r, b') \<Longrightarrow> P b \<Longrightarrow> P b'"
  using read_loop[of "upd_receipt (last_receipt b) (\<lambda>r. r\<lparr>rq_accounted := True\<rparr>) b" "last_receipt b" "[]" src] noted last_receipt_less
  by (auto simp: read_response_def same_bytes_def split: if_splits)

lemma open_connection: "open_connection env url b = (r, b') \<Longrightarrow> P b \<Longrightarrow> P b'"
  unfolding open_connection_def by (erule bind, erule (1) timeout, simp)

lemma fetch:
  assumes "fetch env url b = (r, b')" "P b"
  shows "P b'"
proof -
  let ?body = "act_bind (open_connection env url) (\<lambda>c. act_bind (read_response env (cn_stream c)) (\<lambda>data.
      act_return \<lparr>rs_requested_url = url, rs_official_url = cn_url c, rs_retrieved_at = bx_now env (bg_ticks b),
        rs_http_status = Some (cn_status c), rs_content_type = Some (cn_content_type c), rs_data = data, rs_error = None\<rparr>)) b"
  obtain x c where body: "?body = (x, c)" by fastforce
  have "P c" by (rule bind[OF body], erule open_connection[OF _ assms(2)], erule bind, erule (1) read_response, simp)
  moreover have "b' = c"
    using assms(1)[unfolded fetch_def Let_def body] by (cases x) (auto split: if_splits)
  ultimately show ?thesis by simp
qed

lemma admit: "admit env surface url page b = (r, b') \<Longrightarrow> P b \<Longrightarrow> P b'"
  unfolding admit_def
proof (erule bind)
  fix v c
  assume "P c" and rest: "act_bind (check_page env page surface) (\<lambda>_ b.
       if int (length (bg_requests b)) \<ge> lm_max_requests (bx_limits env) then fail ''REQUEST_BUDGET_EXHAUSTED'' b
       else if bg_downloaded b \<ge> lm_max_total_bytes (bx_limits env) then fail ''TOTAL_BYTE_BUDGET_EXHAUSTED'' b
       else act_bind (elapsed env) (\<lambda>t.
              act_upd (\<lambda>b. b\<lparr>bg_requests := bg_requests b @ [new_receipt surface url page (bx_round6 env t) b]\<rparr>)) b) c = (r, b')"
  show "P b'"
  proof (rule bind[OF rest], erule check_page[OF _ \<open>P c\<close>])
    fix v c'
    assume c': "check_page env page surface c = (Inr v, c')" "P c'"
      and cont: "(if int (length (bg_requests c')) \<ge> lm_max_requests (bx_limits env) then fail ''REQUEST_BUDGET_EXHAUSTED'' c'
       else if bg_downloaded c' \<ge> lm_max_total_bytes (bx_limits env) then fail ''TOTAL_BYTE_BUDGET_EXHAUSTED'' c'
       else act_bind (elapsed env) (\<lambda>t.
              act_upd (\<lambda>b. b\<lparr>bg_requests := bg_requests b @ [new_receipt surface url page (bx_round6 env t) b]\<rparr>)) c') = (r, b')"
    have open': "bg_reason c' = None" using check_page_Inr[OF c'(1)] .
    consider "fail ''REQUEST_BUDGET_EXHAUSTED'' c' = (r, b')" | "fail ''TOTAL_BYTE_BUDGET_EXHAUSTED'' c' = (r, b')"
      | "int (length (bg_requests c')) < lm_max_requests (bx_limits env)"
        "act_bind (elapsed env) (\<lambda>t.
              act_upd (\<lambda>b. b\<lparr>bg_requests := bg_requests b @ [new_receipt surface url page (bx_round6 env t) b]\<rparr>)) c' = (r, b')"
      using cont by (auto split: if_splits)
    then show "P b'"
    proof cases
      case 3
      then show ?thesis
        using admitted[OF tick[OF c'(2), of "bg_ticks c' + 1"], of surface url page] open'
        by (auto simp: act_bind_def elapsed_def Let_def act_upd_def)
    qed (use c'(2) fail in blast)+
  qed
qed (use asked in auto)

lemma finish: "same_bytes f \<Longrightarrow> P b \<Longrightarrow> P (finish env i f b)"
  unfolding finish_def Let_def elapsed_def
  by (auto intro!: noted tick simp: same_bytes_def)

lemma account_nothing:
  assumes "P b"
  shows "P (snd (account env i 0 b))"
proof -
  let ?b = "upd_receipt i (\<lambda>r. r\<lparr>rq_cumulative_bytes := bg_downloaded b\<rparr>)
      (upd_receipt i (\<lambda>r. r\<lparr>rq_response_bytes := rq_response_bytes r + 0\<rparr>) b)"
  have b: "upd_receipt i f b\<lparr>bg_downloaded := bg_downloaded b\<rparr> = upd_receipt i f b" for f by (simp add: upd_receipt_def)
  have "P ?b" using assms by (intro noted) (simp_all add: same_bytes_def)
  moreover have "P (snd (fail why ?b :: unit res \<times> budget))" for why
    using \<open>P ?b\<close> by (rule fail[OF prod.collapse[symmetric]])
  ultimately show ?thesis unfolding account_def Let_def by (simp add: b)
qed

lemma dispatch_bounded:
  assumes "dispatch env (last_receipt b) Bounded_transport url b = (r, b')" "P b"
  shows "P b'"
  unfolding dispatch_def run_fetcher_def fetcher.case
proof (rule bind[OF assms(1)[unfolded dispatch_def run_fetcher_def fetcher.case]], erule fetch[OF _ assms(2)])
  fix d c
  assume f: "fetch env url b = (Inr d, c)" "P c" and rest: "act_bind
       (if rq_accounted (bg_requests c ! last_receipt b) then act_return ()
        else account env (last_receipt b) (int (length (rs_data d)))) (\<lambda>_. act_bind (check_time env) (\<lambda>_. act_return d)) c = (r, b')"
  have "rq_accounted (bg_requests c ! last_receipt b) \<or> rs_data d = []" using fetch_post[OF f(1)] by auto
  then have counted: "P e" if "(if rq_accounted (bg_requests c ! last_receipt b) then act_return ()
      else account env (last_receipt b) (int (length (rs_data d)))) c = (x, e)" for x e
    using that f(2) account_nothing[OF f(2), of "last_receipt b"] by (auto split: if_splits)
  show "P b'"
    by (rule bind[OF rest], erule counted, erule bind, erule (1) check_time, simp)
qed

lemma request:
  assumes "P b"
    and dispatched: "\<And>c x c'. dispatch env (last_receipt c) f url c = (x, c') \<Longrightarrow> P c \<Longrightarrow> bg_requests c \<noteq> [] \<Longrightarrow> bg_reason c = None \<Longrightarrow> P c'"
  shows "P (snd (request env f url surface page b))"
proof -
  obtain r c where a: "admit env surface url page b = (r, c)" by fastforce
  have c: "P c" using admit[OF a assms(1)] .
  obtain x c' where d: "dispatch env (last_receipt c) f url c = (x, c')" by fastforce
  have "P (finish env i g c')" if "bg_requests c \<noteq> []" "bg_reason c = None" "same_bytes g" for i g
    using dispatched[OF d c that(1,2)] finish that(3) by blast
  moreover have "bg_requests c \<noteq> [] \<and> bg_reason c = None" if "r = Inr u" for u
    using a that by (auto simp: admit_def act_bind_eq_Inr elapsed_def Let_def act_upd_def split: if_splits dest: check_page_Inr)
  ultimately show ?thesis
    using c by (cases r; cases x) (auto simp: request_def a d Let_def same_bytes_def)
qed

lemma run_bounded:
  "\<forall>r\<in>set rs. fst r = Bounded_transport \<Longrightarrow> P b \<Longrightarrow> P (run_requests env rs b)"
proof (induction rs arbitrary: b)
  case (Cons r rs)
  obtain f url surface page where r: "r = (f, url, surface, page)" by (cases r)
  have "P (snd (request env Bounded_transport url surface page b))"
    by (rule request[OF Cons.prems(2)]) (rule dispatch_bounded)
  then show ?case using Cons r by simp
qed simp

end
locale injected_invariant = budget_invariant +
  assumes counted: "P b \<Longrightarrow> bg_reason b = None \<Longrightarrow> i < length (bg_requests b) \<Longrightarrow> 0 \<le> n \<Longrightarrow> P (snd (account env i n b))"
begin

lemma dispatch:
  assumes "dispatch env (last_receipt b) f url b = (r, b')" "P b" "bg_requests b \<noteq> []" "bg_reason b = None"
  shows "P b'"
proof (cases f)
  case Bounded_transport
  then show ?thesis using assms dispatch_bounded by simp
next
  case (Injected g)
  show ?thesis
  proof (rule bind[OF assms(1)[unfolded dispatch_def run_fetcher_def Injected fetcher.case]])
    fix d c
    assume g: "(g (bg_ticks b) url, b) = (Inr d, c)" "P c" and rest: "act_bind
       (if rq_accounted (bg_requests c ! last_receipt b) then act_return ()
        else account env (last_receipt b) (int (length (rs_data d)))) (\<lambda>_. act_bind (check_time env) (\<lambda>_. act_return d)) c = (r, b')"
    have done1: "P e" if "(if rq_accounted (bg_requests c ! last_receipt b) then act_return ()
        else account env (last_receipt b) (int (length (rs_data d)))) c = (x, e)" for x e
      using that g counted[OF g(2) _ last_receipt_less, of "int (length (rs_data d))"] assms(3,4) by (auto split: if_splits)
    show "P b'"
      by (rule bind[OF rest], erule done1, erule bind, erule (1) check_time, simp)
  qed (use assms(2) in simp)
qed

lemma run: "P b \<Longrightarrow> P (run_requests env rs b)"
proof (induction rs arbitrary: b)
  case (Cons r rs)
  obtain f url surface page where r: "r = (f, url, surface, page)" by (cases r)
  have "P (snd (request env f url surface page b))"
    by (rule request[OF Cons.prems]) (rule dispatch)
  then show ?case using Cons r by simp
qed simp

end

section \<open>The bounds\<close>

definition bytes_of :: "budget \<Rightarrow> int list" where
  "bytes_of b = map rq_response_bytes (bg_requests b)"

definition accounts_ok :: "'s budget_env \<Rightarrow> budget \<Rightarrow> bool" where
  \<comment> \<open>the byte counts add up, and unless the budget is exhausted none is over its limit\<close>
  "accounts_ok env b \<longleftrightarrow> reads_at_most env \<and> 0 \<le> lm_max_response_bytes (bx_limits env)
     \<and> bg_downloaded b = sum_list (bytes_of b)
     \<and> (bg_reason b = None \<longrightarrow> bg_downloaded b \<le> lm_max_total_bytes (bx_limits env)
          \<and> (\<forall>n\<in>set (bytes_of b). n \<le> lm_max_response_bytes (bx_limits env)))
     \<and> int (length (bg_requests b)) \<le> max 0 (lm_max_requests (bx_limits env))"

definition within_probe :: "'s budget_env \<Rightarrow> budget \<Rightarrow> bool" where
  \<comment> \<open>no count is more than one byte over its limit\<close>
  "within_probe env b \<longleftrightarrow> accounts_ok env b \<and> bg_downloaded b \<le> lm_max_total_bytes (bx_limits env) + 1
     \<and> (\<forall>n\<in>set (bytes_of b). n \<le> lm_max_response_bytes (bx_limits env) + 1)"

lemma sum_list_upd: "i < length xs \<Longrightarrow> sum_list (xs[i := x]) = sum_list xs - xs ! i + (x::int)"
  by (induction xs arbitrary: i) (auto split: nat.split)

lemma bytes_of_simps [simp]:
  "bytes_of (b\<lparr>bg_ticks := t\<rparr>) = bytes_of b" "bytes_of (b\<lparr>bg_reason := w\<rparr>) = bytes_of b"
  "bytes_of (b\<lparr>bg_termination := x\<rparr>) = bytes_of b"
  "bytes_of (b\<lparr>bg_requests := rs\<rparr>) = map rq_response_bytes rs"
  "same_bytes f \<Longrightarrow> bytes_of (upd_receipt i f b) = bytes_of b"
  by (simp_all add: bytes_of_def upd_receipt_keeps same_bytes_def)

lemma account_bytes:
  assumes "account env i n b = (r, b')" "i < length (bg_requests b)"
  shows "bytes_of b' = (bytes_of b)[i := bytes_of b ! i + n]" "bg_downloaded b' = bg_downloaded b + n"
    "length (bg_requests b') = length (bg_requests b)"
    "bg_reason b' = None \<Longrightarrow> bg_reason b = None \<and> bytes_of b ! i + n \<le> lm_max_response_bytes (bx_limits env)
        \<and> bg_downloaded b + n \<le> lm_max_total_bytes (bx_limits env)"
  using assms by - (erule account_cases; force simp: bytes_of_def upd_receipt_def map_update split: if_splits)+

lemma accounts_ok_account:
  assumes "accounts_ok env b" "i < length (bg_requests b)"
  shows "accounts_ok env (snd (account env i n b))"
proof -
  obtain r b' where acc: "account env i n b = (r, b')" by fastforce
  have i: "i < length (bytes_of b)" using assms(2) by (simp add: bytes_of_def)
  note a = account_bytes[OF acc assms(2)]
  have "sum_list (bytes_of b') = sum_list (bytes_of b) + n" using i by (simp add: a(1) sum_list_upd)
  moreover have "\<forall>m\<in>set (bytes_of b'). m \<le> lm_max_response_bytes (bx_limits env)" if "bg_reason b' = None"
    using a(4)[OF that] assms(1) set_update_subset_insert[of "bytes_of b" i] unfolding a(1) accounts_ok_def by fast
  ultimately show ?thesis using assms(1) a(2,3,4) by (simp add: accounts_ok_def acc)
qed

lemma bytes_of_remaining:
  "i < length (bg_requests b) \<Longrightarrow> remaining env i b =
     min (lm_max_response_bytes (bx_limits env) - bytes_of b ! i) (lm_max_total_bytes (bx_limits env) - bg_downloaded b)"
  by (simp add: remaining_def bytes_of_def)

lemma accounts_ok_steps:
  assumes "accounts_ok env b"
  shows "reads_at_most env" "accounts_ok env (b\<lparr>bg_ticks := t\<rparr>)" "accounts_ok env (b\<lparr>bg_termination := x\<rparr>)"
    "bg_reason b \<in> {None, Some why} \<Longrightarrow> accounts_ok env (b\<lparr>bg_reason := Some why\<rparr>)"
    "same_bytes f \<Longrightarrow> accounts_ok env (upd_receipt i f b)"
    "int (length (bg_requests b)) < lm_max_requests (bx_limits env) \<Longrightarrow>
       accounts_ok env (b\<lparr>bg_requests := bg_requests b @ [new_receipt surface url page e b]\<rparr>)"
    "bg_reason b = None \<Longrightarrow> i < length (bg_requests b) \<Longrightarrow> 0 \<le> remaining env i b"
proof -
  show "bg_reason b = None \<Longrightarrow> i < length (bg_requests b) \<Longrightarrow> 0 \<le> remaining env i b"
    using assms by (simp add: bytes_of_remaining accounts_ok_def) (simp add: bytes_of_def)
  show "int (length (bg_requests b)) < lm_max_requests (bx_limits env) \<Longrightarrow>
       accounts_ok env (b\<lparr>bg_requests := bg_requests b @ [new_receipt surface url page e b]\<rparr>)"
    using assms by (simp add: accounts_ok_def new_receipt_def) (auto simp: bytes_of_def)
qed (use assms in \<open>auto simp: accounts_ok_def\<close>)

interpretation acc: injected_invariant env "accounts_ok env" for env :: "'s budget_env"
  by unfold_locales (blast intro: accounts_ok_steps accounts_ok_account)+

lemma within_probe_ok: "within_probe env b \<Longrightarrow> accounts_ok env b"
  by (simp add: within_probe_def)

lemma within_probe_steps:
  assumes "within_probe env b"
  shows "within_probe env (b\<lparr>bg_ticks := t\<rparr>)" "within_probe env (b\<lparr>bg_termination := x\<rparr>)"
    "bg_reason b \<in> {None, Some why} \<Longrightarrow> within_probe env (b\<lparr>bg_reason := Some why\<rparr>)"
    "same_bytes f \<Longrightarrow> within_probe env (upd_receipt i f b)"
    "int (length (bg_requests b)) < lm_max_requests (bx_limits env) \<Longrightarrow>
       within_probe env (b\<lparr>bg_requests := bg_requests b @ [new_receipt surface url page e b]\<rparr>)"
    "i < length (bg_requests b) \<Longrightarrow> n \<le> remaining env i b + 1 \<Longrightarrow> within_probe env (snd (account env i n b))"
proof -
  have ok: "accounts_ok env b" using assms by (simp add: within_probe_def)
  show "i < length (bg_requests b) \<Longrightarrow> n \<le> remaining env i b + 1 \<Longrightarrow> within_probe env (snd (account env i n b))"
  proof -
    assume i: "i < length (bg_requests b)" and n: "n \<le> remaining env i b + 1"
    obtain r b' where acc: "account env i n b = (r, b')" by fastforce
    note a = account_bytes[OF acc i]
    have "\<forall>m\<in>set (bytes_of b'). m \<le> lm_max_response_bytes (bx_limits env) + 1"
      using assms n set_update_subset_insert[of "bytes_of b" i] unfolding a(1) bytes_of_remaining[OF i] within_probe_def by force
    then show "within_probe env (snd (account env i n b))"
      using accounts_ok_account[OF ok i, of n] a(2) n by (simp add: within_probe_def acc bytes_of_remaining[OF i])
  qed
  show "int (length (bg_requests b)) < lm_max_requests (bx_limits env) \<Longrightarrow>
       within_probe env (b\<lparr>bg_requests := bg_requests b @ [new_receipt surface url page e b]\<rparr>)"
    using assms accounts_ok_steps(6)[OF ok] ok
    by (simp add: within_probe_def) (simp add: bytes_of_def new_receipt_def accounts_ok_def)
qed (use assms accounts_ok_steps[OF within_probe_ok[OF assms]] in \<open>simp_all add: within_probe_def\<close>)

interpretation probe: budget_invariant env "within_probe env" for env :: "'s budget_env"
  by unfold_locales (blast intro: within_probe_steps accounts_ok_steps within_probe_ok)+

definition one_over :: "'s budget_env \<Rightarrow> budget \<Rightarrow> bool" where
  \<comment> \<open>at most one response is over the limits\<close>
  "one_over env b \<longleftrightarrow> accounts_ok env b \<and> (\<forall>n\<in>set (bytes_of b). 0 \<le> n)
     \<and> (\<exists>j. (\<forall>k<length (bytes_of b). k \<noteq> j \<longrightarrow> bytes_of b ! k \<le> lm_max_response_bytes (bx_limits env))
          \<and> sum_list ((bytes_of b)[j := 0]) \<le> lm_max_total_bytes (bx_limits env))"

lemma sum_list_without: "\<forall>n\<in>set xs. 0 \<le> n \<Longrightarrow> sum_list (xs[j := 0]) \<le> sum_list (xs :: int list)"
  by (cases "j < length xs") (simp_all add: sum_list_upd list_update_beyond)

lemma one_over_open:
  assumes "accounts_ok env b" "\<forall>n\<in>set (bytes_of b). 0 \<le> n" "bg_reason b = None"
  shows "one_over env b"
  using assms sum_list_without[OF assms(2), of 0] unfolding one_over_def
  by (intro conjI exI[of _ 0]) (auto simp: accounts_ok_def)

lemma one_over_ok: "one_over env b \<Longrightarrow> accounts_ok env b"
  by (simp add: one_over_def)

lemma one_over_same: "one_over env b \<Longrightarrow> accounts_ok env c \<Longrightarrow> bytes_of c = bytes_of b \<Longrightarrow> one_over env c"
  by (simp add: one_over_def)

lemma one_over_account:
  assumes "one_over env b" "bg_reason b = None" "i < length (bg_requests b)" "0 \<le> n"
  shows "one_over env (snd (account env i n b))"
proof -
  have ok: "accounts_ok env b" "\<forall>n\<in>set (bytes_of b). 0 \<le> n" using assms(1) by (simp_all add: one_over_def)
  obtain r b' where acc: "account env i n b = (r, b')" by fastforce
  note a = account_bytes[OF acc assms(3)]
  have i: "i < length (bytes_of b)" using assms(3) by (simp add: bytes_of_def)
  have "0 \<le> bytes_of b ! i + n" using ok(2) assms(4) nth_mem[OF i] by force
  then have "\<forall>m\<in>set (bytes_of b'). 0 \<le> m"
    using ok(2) set_update_subset_insert[of "bytes_of b" i] unfolding a(1) by fast
  moreover have "sum_list ((bytes_of b')[i := 0]) \<le> lm_max_total_bytes (bx_limits env)"
    using sum_list_without[OF ok(2), of i] ok(1) assms(2) by (simp add: a(1) accounts_ok_def)
  moreover have "bytes_of b' ! k \<le> lm_max_response_bytes (bx_limits env)" if "k < length (bytes_of b')" "k \<noteq> i" for k
    using ok(1) assms(2) that unfolding a(1) accounts_ok_def by simp
  moreover have "accounts_ok env b'" using accounts_ok_account[OF ok(1) assms(3), of n] by (simp add: acc)
  ultimately show ?thesis by (auto simp: one_over_def acc)
qed

lemma one_over_steps:
  assumes "one_over env b"
  shows "one_over env (b\<lparr>bg_ticks := t\<rparr>)" "one_over env (b\<lparr>bg_termination := x\<rparr>)"
    "bg_reason b \<in> {None, Some why} \<Longrightarrow> one_over env (b\<lparr>bg_reason := Some why\<rparr>)"
    "same_bytes f \<Longrightarrow> one_over env (upd_receipt i f b)"
    "bg_reason b = None \<Longrightarrow> int (length (bg_requests b)) < lm_max_requests (bx_limits env) \<Longrightarrow>
       one_over env (b\<lparr>bg_requests := bg_requests b @ [new_receipt surface url page e b]\<rparr>)"
proof -
  have ok: "accounts_ok env b" "\<forall>n\<in>set (bytes_of b). 0 \<le> n" using assms by (simp_all add: one_over_def)
  show "bg_reason b = None \<Longrightarrow> int (length (bg_requests b)) < lm_max_requests (bx_limits env) \<Longrightarrow>
       one_over env (b\<lparr>bg_requests := bg_requests b @ [new_receipt surface url page e b]\<rparr>)"
    by (rule one_over_open) (use ok accounts_ok_steps(6)[OF ok(1)] in \<open>auto simp: bytes_of_def new_receipt_def\<close>)
qed (rule one_over_same[OF assms]; simp add: accounts_ok_steps[OF one_over_ok[OF assms]])+

interpretation over: injected_invariant env "one_over env" for env :: "'s budget_env"
  by unfold_locales (blast intro: one_over_steps one_over_account one_over_ok accounts_ok_steps)+

lemma make_limits_positive:
  assumes "make_limits d = Inr l"
  shows "0 < lm_max_requests l" "0 < lm_max_total_bytes l" "0 < lm_max_response_bytes l" "0 < lm_max_pages l"
    "0 < lm_max_seconds l" "0 < lm_request_timeout l"
proof -
  have whole: "0 < the_int (oget d name)" if "check_positive d name = Inr u" "check_whole d name = Inr w" for name u w
    using that by (cases "oget d name") (auto simp: check_positive_def check_whole_def Let_def)
  have positive: "0 < the (num_of (oget d name))" if "check_positive d name = Inr u" for name u
    using that by (auto simp: check_positive_def Let_def split: if_splits option.splits)
  from assms show "0 < lm_max_requests l" "0 < lm_max_total_bytes l" "0 < lm_max_response_bytes l" "0 < lm_max_pages l"
    "0 < lm_max_seconds l" "0 < lm_request_timeout l"
    by (auto simp: make_limits_def bindE_eq_Inr limit_names_def intro: whole positive)
qed

lemma new_budget_ok:
  assumes "make_limits d = Inr (bx_limits env)" "reads_at_most env"
  shows "within_probe env (new_budget env)"
  using assms(2) make_limits_positive[OF assms(1)]
  by (simp add: within_probe_def accounts_ok_def new_budget_def bytes_of_def)

text \<open>
  C38. The bounds of a session: whatever the fetchers, the network and the clock do, at most
  \<open>max_requests\<close> requests are dispatched, the byte count is the sum over the receipts, and leaving out at
  most one response all responses are within the limit of a response and together within the total; while
  the budget is not exhausted there is no such response.  How far the one response is over is bounded only
  for the bounded transport: if every request goes through it no count ever exceeds its limit by more than
  the one probe byte, a read returning no more than asked for.  An injected fetcher returns its answer
  whole before it is counted.
\<close>

theorem session_within_limits:
  assumes "make_limits d = Inr (bx_limits env)" "reads_at_most env" "b = run_requests env rs (new_budget env)"
  shows "int (length (bg_requests b)) \<le> lm_max_requests (bx_limits env)
    \<and> bg_downloaded b = sum_list (map rq_response_bytes (bg_requests b))
    \<and> (bg_reason b = None \<longrightarrow> bg_downloaded b \<le> lm_max_total_bytes (bx_limits env)
         \<and> (\<forall>r\<in>set (bg_requests b). rq_response_bytes r \<le> lm_max_response_bytes (bx_limits env)))
    \<and> (\<exists>j. (\<forall>k<length (bg_requests b). k \<noteq> j \<longrightarrow>
             rq_response_bytes (bg_requests b ! k) \<le> lm_max_response_bytes (bx_limits env))
         \<and> sum_list ((map rq_response_bytes (bg_requests b))[j := 0]) \<le> lm_max_total_bytes (bx_limits env))
    \<and> ((\<forall>r\<in>set rs. fst r = Bounded_transport) \<longrightarrow> bg_downloaded b \<le> lm_max_total_bytes (bx_limits env) + 1
         \<and> (\<forall>r\<in>set (bg_requests b). rq_response_bytes r \<le> lm_max_response_bytes (bx_limits env) + 1))"
proof -
  note start = new_budget_ok[OF assms(1,2)]
  have "accounts_ok env b" unfolding assms(3) by (rule acc.run[OF within_probe_ok[OF start]])
  moreover have "within_probe env b" if "\<forall>r\<in>set rs. fst r = Bounded_transport"
    unfolding assms(3) by (rule probe.run_bounded[OF that start])
  moreover have "one_over env (new_budget env)"
    by (rule one_over_open) (use within_probe_ok[OF start] in \<open>simp_all add: new_budget_def bytes_of_def\<close>)
  then have "one_over env b" unfolding assms(3) by (rule over.run)
  then have "\<exists>j. (\<forall>k<length (bg_requests b). k \<noteq> j \<longrightarrow>
        rq_response_bytes (bg_requests b ! k) \<le> lm_max_response_bytes (bx_limits env))
      \<and> sum_list ((map rq_response_bytes (bg_requests b))[j := 0]) \<le> lm_max_total_bytes (bx_limits env)"
    by (auto simp: one_over_def bytes_of_def)
  ultimately show ?thesis
    using make_limits_positive[OF assms(1)] by (auto simp: accounts_ok_def within_probe_def bytes_of_def)
qed

definition sample_env :: "nat budget_env" where
  \<comment> \<open>a server that sends \<open>'x'\<close> without end, four bytes at most each time\<close>
  "sample_env = \<lparr>bx_limits = \<lparr>lm_max_requests = 2, lm_max_total_bytes = 100, lm_max_response_bytes = 6,
       lm_max_seconds = 180, lm_request_timeout = 30, lm_max_pages = 16\<rparr>,
     bx_clock = of_nat, bx_sub = (-), bx_round6 = id, bx_sha = id, bx_now = (\<lambda>t. []),
     bx_connect = (\<lambda>t timeout url. Inr \<lparr>cn_url = url, cn_status = 200, cn_content_type = [], cn_stream = 0\<rparr>),
     bx_read = (\<lambda>n k. (Inr (replicate (nat (min n 4)) (CHR ''x'')), k + 1))\<rparr>"

definition sample_limits :: obj where
  "sample_limits = [(''max_requests'', VInt 2), (''max_total_bytes'', VInt 100), (''max_response_bytes'', VInt 6),
     (''max_seconds'', VFloat 180), (''request_timeout_seconds'', VInt 30), (''max_pages_per_surface'', VInt 16)]"

lemma sample_limits_ok: "make_limits sample_limits = Inr (bx_limits sample_env)"
  by (simp add: make_limits_def sample_limits_def sample_env_def limit_names_def check_positive_def check_whole_def)

lemma sample_reads: "reads_at_most sample_env"
  by (auto simp: reads_at_most_def sample_env_def)

theorem session_within_limits_witness:
  "\<exists>b. b = run_requests sample_env [(Bounded_transport, ''u'', ''s'', Some 1)] (new_budget sample_env)
    \<and> bg_downloaded b \<le> 101"
proof -
  define b where "b = run_requests sample_env [(Bounded_transport, ''u'', ''s'', Some 1)] (new_budget sample_env)"
  have "lm_max_total_bytes (bx_limits sample_env) = 100" by (simp add: sample_env_def)
  then show ?thesis
    using session_within_limits[OF sample_limits_ok sample_reads b_def] b_def by auto
qed

text \<open>
  C39. An exhausted budget is final: every later request raises the first reason without being
  dispatched, and nothing of the budget changes but its \<open>termination\<close> entry, which names the last request
  that was refused rather than the one that exhausted the budget.
\<close>

theorem exhausted_budget_final:
  assumes "bg_reason b = Some why"
  shows "fst (request env f url surface page b) = Inl (Raise AcquisitionBudgetExceeded why)
    \<and> run_requests env (rs @ [(f, url, surface, page)]) b
        = b\<lparr>bg_termination := Some \<lparr>tm_surface = surface, tm_url = Some url, tm_page = page\<rparr>\<rparr>"
proof -
  have one: "request env f url surface page b = (Inl (Raise AcquisitionBudgetExceeded why),
      b\<lparr>bg_termination := Some \<lparr>tm_surface = surface, tm_url = Some url, tm_page = page\<rparr>\<rparr>)"
    if "bg_reason b = Some why" for f url surface page b
    using that by (simp add: request_def admit_def check_page_def check_time_def act_bind_def act_upd_def raise_def)
  have "run_requests env (rs @ [(f, url, surface, page)]) b
      = b\<lparr>bg_termination := Some \<lparr>tm_surface = surface, tm_url = Some url, tm_page = page\<rparr>\<rparr>"
    using assms
  proof (induction rs arbitrary: b)
    case (Cons r rs)
    obtain f' u' s' p' where r: "r = (f', u', s', p')" by (cases r)
    show ?case
      using Cons.IH[of "b\<lparr>bg_termination := Some \<lparr>tm_surface = s', tm_url = Some u', tm_page = p'\<rparr>\<rparr>"] Cons.prems
      by (simp add: r one)
  qed (simp add: one)
  then show ?thesis using one[OF assms] by simp
qed

theorem exhausted_budget_final_witness:
  "\<exists>b. fst (request sample_env Bounded_transport ''u'' ''s'' None b) = Inl (Raise AcquisitionBudgetExceeded ''PAGE_BUDGET_EXHAUSTED'')"
  using exhausted_budget_final[of "new_budget sample_env\<lparr>bg_reason := Some ''PAGE_BUDGET_EXHAUSTED''\<rparr>" "''PAGE_BUDGET_EXHAUSTED''" sample_env Bounded_transport "''u''" "''s''" None]
  by auto

text \<open>
  Reading ends whatever the server sends: the loop calls \<open>read1\<close> at most once more than there are
  bytes left up to one over the total limit.  The stream here counts how often it is read.
\<close>

theorem reading_terminates:
  fixes env :: "(nat \<times> 's) budget_env"
  assumes counts: "\<forall>n k s. fst (snd (bx_read env n (k, s))) = k + 1"
  shows "fst (snd (read_loop env i chunks (k, s) b)) \<le> k + nat (lm_max_total_bytes (bx_limits env) + 1 - bg_downloaded b) + 1"
proof (induction "nat (lm_max_total_bytes (bx_limits env) + 1 - bg_downloaded b)" arbitrary: b chunks k s rule: less_induct)
  case less
  obtain r b' s' where loop: "read_loop env i chunks (k, s) b = ((r, b'), s')" by (metis prod.exhaust)
  have read: "fst s1 = k + 1" if "bx_read env n (k, s) = (rc, s1)" for n rc s1
    using counts[rule_format, of n k s] that by simp
  from loop have "fst s' \<le> k + nat (lm_max_total_bytes (bx_limits env) + 1 - bg_downloaded b) + 1"
  proof (cases rule: read_loop_cases)
    case (more b1 n chunk s1 b2 b3)
    note less' = read_step_decreases[OF more(1)[symmetric] more(3)[symmetric] more(4)[symmetric] more(5)]
    have "s1 = (k + 1, snd s1)" using read[OF more(2)] by (metis prod.collapse)
    then have "fst s' \<le> k + 1 + nat (lm_max_total_bytes (bx_limits env) + 1 - bg_downloaded b3) + 1"
      using less.hyps[OF less', of "chunk # chunks" "k + 1" "snd s1"] more(6) by simp
    then show ?thesis using less' by linarith
  qed (use read in fastforce)+
  then show ?case by (simp add: loop)
qed

definition endless_env :: "(nat \<times> nat) budget_env" where
  "endless_env = \<lparr>bx_limits = bx_limits sample_env,
     bx_clock = of_nat, bx_sub = (-), bx_round6 = id, bx_sha = id, bx_now = (\<lambda>t. []),
     bx_connect = (\<lambda>t timeout url. Inr \<lparr>cn_url = url, cn_status = 200, cn_content_type = [], cn_stream = (0, 0)\<rparr>),
     bx_read = (\<lambda>n s. (Inr ''x'', (fst s + 1, snd s)))\<rparr>"

theorem reading_terminates_witness:
  "fst (snd (read_loop endless_env 0 [] (0, 0) (new_budget endless_env))) \<le> 102"
  using reading_terminates[of endless_env 0 "[]" 0 0 "new_budget endless_env"]
  by (simp add: endless_env_def sample_env_def new_budget_def)

lemma dispatch_Inr:
  assumes "dispatch env (last_receipt b) f url b = (Inr d, b')" "bg_requests b \<noteq> []"
    "rq_response_bytes (bg_requests b ! last_receipt b) = 0" "\<not> rq_accounted (bg_requests b ! last_receipt b)"
  shows "bg_reason b' = None" "length (bg_requests b') = length (bg_requests b)"
    "rs_data d = [] \<or> rq_response_bytes (bg_requests b' ! last_receipt b) = int (length (rs_data d))"
proof -
  let ?i = "last_receipt b"
  note i = last_receipt_less[OF assms(2)]
  obtain c e where run: "run_fetcher env f url b = (Inr d, c)"
    and acct: "(if rq_accounted (bg_requests c ! ?i) then act_return () else account env ?i (int (length (rs_data d)))) c = (Inr (), e)"
    and late: "check_time env e = (Inr (), b')"
    using assms(1) by (auto simp: dispatch_def act_bind_eq_Inr)
  have fetched: "length (bg_requests c) = length (bg_requests b)
      \<and> (rs_data d = [] \<or> rq_response_bytes (bg_requests c ! ?i) = (if rq_accounted (bg_requests c ! ?i) then int (length (rs_data d)) else 0))"
  proof (cases f)
    case Bounded_transport
    then show ?thesis using run fetch_post[of env url b "Inr d" c] assms(3) by (auto simp: run_fetcher_def)
  next
    case (Injected g)
    then show ?thesis using run assms(3,4) by (simp add: run_fetcher_def)
  qed
  show "bg_reason b' = None" using check_time_Inr[OF late] by simp
  have late': "bg_requests b' = bg_requests e" using check_time_keeps[OF late] by simp
  show "length (bg_requests b') = length (bg_requests b)"
    using acct fetched late' by (auto split: if_splits dest!: account_keeps_flags map_eq_imp_length_eq)
  show "rs_data d = [] \<or> rq_response_bytes (bg_requests b' ! ?i) = int (length (rs_data d))"
    using acct fetched late' i account_Inr(2)[of env ?i "int (length (rs_data d))" c "()" e]
    by (auto split: if_splits)
qed

lemma admit_Inr:
  assumes "admit env surface url page b = (Inr u, b')"
  shows "bg_requests b' \<noteq> []" "rq_response_bytes (bg_requests b' ! last_receipt b') = 0"
    "\<not> rq_accounted (bg_requests b' ! last_receipt b')"
  using assms
  by (auto simp: admit_def act_bind_eq_Inr elapsed_def Let_def last_receipt_def new_receipt_def nth_append split: if_splits)

lemma finish_post:
  assumes "i < length (bg_requests b)"
  shows "length (bg_requests (finish env i f b)) = length (bg_requests b)"
    "\<exists>t. bg_requests (finish env i f b) ! i = (f (bg_requests b ! i))\<lparr>rq_accounted := False, rq_elapsed := t\<rparr>"
    "bg_reason (finish env i f b) = bg_reason b"
  using assms by (simp_all add: finish_def elapsed_def Let_def) blast

text \<open>
  A response that a session's request returns is within the limits: it holds at most
  \<open>max_response_bytes\<close> bytes, the budget is not exhausted and its byte count within
  \<open>max_total_bytes\<close>, and the receipt of the request has the response's hash and a status telling
  whether it was answered with HTTP 200.
\<close>

theorem returned_response_within_limits:
  assumes "make_limits d = Inr (bx_limits env)" "reads_at_most env"
    and "request env f url surface page (run_requests env rs (new_budget env)) = (Inr r, b)"
  shows "int (length (rs_data r)) \<le> lm_max_response_bytes (bx_limits env)
    \<and> bg_reason b = None \<and> bg_downloaded b \<le> lm_max_total_bytes (bx_limits env)
    \<and> rq_sha256 (last (bg_requests b)) = Some (bx_sha env (rs_data r))
    \<and> (rq_status (last (bg_requests b)) = ''RETURNED'' \<longleftrightarrow> rs_http_status r = Some 200)"
proof -
  let ?b = "run_requests env rs (new_budget env)"
  have "accounts_ok env ?b" by (rule acc.run[OF within_probe_ok[OF new_budget_ok[OF assms(1,2)]]])
  then have ok: "accounts_ok env b"
    using acc.request[of env ?b f url surface page] acc.dispatch assms(3) by (metis snd_conv)
  obtain u c where adm: "admit env surface url page ?b = (Inr u, c)"
    using assms(3) by (cases "admit env surface url page ?b"; cases "fst (admit env surface url page ?b)") (auto simp: request_def)
  let ?i = "last_receipt c"
  obtain c' where run: "dispatch env ?i f url c = (Inr r, c')"
    and b: "b = finish env ?i (\<lambda>q. q\<lparr>rq_sha256 := Some (bx_sha env (rs_data r)),
                 rq_status := (if rs_http_status r = Some 200 then ''RETURNED'' else ''SOURCE_FAILURE'')\<rparr>) c'"
    using assms(3) by (auto simp: request_def adm Let_def split: prod.splits sum.splits)
  note a = admit_Inr[OF adm] and r = dispatch_Inr[OF run admit_Inr[OF adm]]
  have i: "?i < length (bg_requests c')" using last_receipt_less[OF a(1)] r(2) by simp
  note fin = finish_post[OF i, of env, folded b]
  have len: "bg_requests b \<noteq> []" "?i = length (bg_requests b) - 1"
  proof -
    have "length (bg_requests b) = length (bg_requests c)" using fin(1) r(2) by (simp add: b)
    then show "bg_requests b \<noteq> []" "?i = length (bg_requests b) - 1"
      using a(1) by (auto simp: last_receipt_def)
  qed
  then have last: "last (bg_requests b) = bg_requests b ! ?i" by (simp add: last_conv_nth)
  have reason: "bg_reason b = None" using r(1) fin(3) unfolding b by simp
  obtain t where t: "bg_requests b ! ?i = (bg_requests c' ! ?i)\<lparr>rq_sha256 := Some (bx_sha env (rs_data r)),
      rq_status := (if rs_http_status r = Some 200 then ''RETURNED'' else ''SOURCE_FAILURE''), rq_accounted := False, rq_elapsed := t\<rparr>"
    using fin(2) unfolding b by fastforce
  have "rs_data r = [] \<or> rq_response_bytes (bg_requests b ! ?i) = int (length (rs_data r))"
    using r(3) by (simp add: t)
  moreover have "rq_response_bytes (bg_requests b ! ?i) \<in> set (bytes_of b)"
    using len by (simp add: bytes_of_def)
  ultimately have "int (length (rs_data r)) \<le> lm_max_response_bytes (bx_limits env)"
    using ok reason make_limits_positive(3)[OF assms(1)] unfolding accounts_ok_def by auto
  moreover have "rq_sha256 (last (bg_requests b)) = Some (bx_sha env (rs_data r))"
    "rq_status (last (bg_requests b)) = ''RETURNED'' \<longleftrightarrow> rs_http_status r = Some 200"
    by (simp_all add: last t)
  ultimately show ?thesis using ok reason by (simp add: accounts_ok_def)
qed

theorem returned_response_within_limits_witness:
  "\<exists>r b. request sample_env (Injected (\<lambda>t url. Inr \<lparr>rs_requested_url = url, rs_official_url = url, rs_retrieved_at = [],
        rs_http_status = Some 200, rs_content_type = None, rs_data = ''abc'', rs_error = None\<rparr>)) ''u'' ''s'' None
      (new_budget sample_env) = (Inr r, b) \<and> rs_data r = ''abc'' \<and> rq_status (last (bg_requests b)) = ''RETURNED''"
proof -
  define f where "f = Injected (\<lambda>t url. Inr \<lparr>rs_requested_url = url, rs_official_url = url, rs_retrieved_at = [],
        rs_http_status = Some 200, rs_content_type = None, rs_data = ''abc'', rs_error = None\<rparr>)"
  have "case request sample_env f ''u'' ''s'' None (new_budget sample_env) of
      (Inr r, b) \<Rightarrow> rs_data r = ''abc'' \<and> rs_http_status r = Some 200 | (Inl e, b) \<Rightarrow> False"
    unfolding f_def by code_simp
  then obtain r b where rb: "request sample_env f ''u'' ''s'' None (run_requests sample_env [] (new_budget sample_env)) = (Inr r, b)"
    and r: "rs_data r = ''abc''" "rs_http_status r = Some 200"
    by (auto split: prod.splits sum.splits)
  have "rq_status (last (bg_requests b)) = ''RETURNED''"
    using returned_response_within_limits[OF sample_limits_ok sample_reads rb] r(2) by blast
  then show ?thesis using rb r(1) unfolding f_def by auto
qed

text \<open>
  The timeout of a request is not always positive: \<open>timeout\<close> reads the clock a second time after the
  check that the budget has not run out, so a clock that passes the limit in between yields a negative
  timeout, which the library refuses with an error of its own instead of the budget's.
\<close>

theorem timeout_can_be_negative:
  "\<exists>env :: nat budget_env. make_limits sample_limits = Inr (bx_limits env)
     \<and> (\<forall>i j. i \<le> j \<longrightarrow> bx_clock env i \<le> bx_clock env j) \<and> bx_sub env = (-)
     \<and> fst (timeout env (new_budget env)) = Inr (- 1)"
proof -
  define env where "env = sample_env\<lparr>bx_clock := (\<lambda>t. if t = 0 then 0 else if t = 1 then 179 else 181)\<rparr>"
  have "make_limits sample_limits = Inr (bx_limits env)" using sample_limits_ok by (simp add: env_def)
  moreover have "\<forall>i j. i \<le> j \<longrightarrow> bx_clock env i \<le> bx_clock env j" by (auto simp: env_def)
  moreover have "fst (timeout env (new_budget env)) = Inr (- 1)"
    by (simp add: env_def sample_env_def timeout_def new_budget_def check_time_def elapsed_def Let_def act_bind_def act_return_def)
  ultimately show ?thesis by (intro exI[of _ env]) (simp add: env_def sample_env_def)
qed

end
