(* ===== verification/OpportunityRanking.thy ===== *)
theory OpportunityRanking
  imports PyValue
begin

text \<open>
  The ordering of opportunities by the evidence there is for them,
  \<open>stocklookup_core/decision/opportunity_ranking.py\<close>.  An entry is an untyped mapping read from JSON; a
  dimension is one of the records the module returns, and what it returns as a whole a record with the
  same fields.  \<open>rep\<close> is the text Python prints for a float or a container.
\<close>

section \<open>Dimensions\<close>

definition dimension_names :: "string list" where
  "dimension_names = [''financial_quality'', ''valuation'', ''technical_current_market_readiness'',
     ''catalyst_evidence'', ''downside_invalidation'', ''data_confidence'']"

definition state_order :: "(string \<times> int) list" where
  "state_order = [(''available'', 0), (''limited'', 1), (''partial'', 2), (''unavailable'', 3), (''unknown'', 4),
     (''blocked'', 5), (''incomparable'', 6), (''inapplicable'', 7)]"

definition component_fields :: "string list" where
  "component_fields = [''canonical_metric'', ''derivation_role'', ''value'', ''period_identity'', ''statement_scope'',
     ''currency'', ''unit_scale'', ''source'', ''observation_ids'', ''citation_id'', ''evidence_id'']"

record dimension =
  dm_name :: string
  dm_state :: string
  dm_facts :: "pyv list"
  dm_warnings :: "string list"
  dm_actionable :: bool

definition dimension_of :: "string \<Rightarrow> string \<Rightarrow> pyv list \<Rightarrow> string list \<Rightarrow> dimension" where
  "dimension_of name state facts warnings =
     \<lparr>dm_name = name, dm_state = state, dm_facts = facts, dm_warnings = warnings, dm_actionable = (state = ''available'')\<rparr>"

fun component_ok :: "pyv \<Rightarrow> bool" where
  "component_ok (VDict c) \<longleftrightarrow> set (map fst c) = set component_fields
     \<and> is_list (oget c ''observation_ids'') \<and> v_true (oget c ''observation_ids'')
     \<and> is_dict (oget c ''period_identity'')"
| "component_ok _ \<longleftrightarrow> False"

definition component_key :: "pyv \<Rightarrow> pyv list" where
  \<comment> \<open>what makes two components of one lineage duplicates, with equal numbers identified\<close>
  "component_key c = map (\<lambda>k. py_norm (oget (the_dict c) k)) [''canonical_metric'', ''observation_ids'', ''citation_id'', ''evidence_id'']"

definition key_hashable :: "pyv \<Rightarrow> bool" where
  \<comment> \<open>a key is looked up in a set: a list or mapping in it raises \<open>TypeError\<close>\<close>
  "key_hashable c = (hashable (oget (the_dict c) ''canonical_metric'') \<and> hashable (oget (the_dict c) ''citation_id'')
     \<and> hashable (oget (the_dict c) ''evidence_id'') \<and> list_all hashable (the_list (oget (the_dict c) ''observation_ids'')))"

fun lineage_ok :: "pyv list \<Rightarrow> pyv list list \<Rightarrow> bool res" where
  "lineage_ok [] seen = Inr True"
| "lineage_ok (c # cs) seen =
     (if \<not> component_ok c then Inr False
      else if \<not> key_hashable c then raise TypeError ''unhashable type''
      else if component_key c \<in> set seen then Inr False
      else lineage_ok cs (component_key c # seen))"

fun fact_ok :: "pyv \<Rightarrow> bool res" where
  "fact_ok (VDict f) =
     (case oget f ''component_lineage'' of
        VNone \<Rightarrow> Inr (v_true (oget f ''citation_id'') \<and> v_true (oget f ''evidence_id''))
      | VList [] \<Rightarrow> Inr False
      | VList cs \<Rightarrow> lineage_ok cs []
      | _ \<Rightarrow> Inr False)"
| "fact_ok _ = Inr False"

fun all_facts_ok :: "pyv list \<Rightarrow> bool res" where
  "all_facts_ok [] = Inr True"
| "all_facts_ok (f # fs) = bindE (fact_ok f) (\<lambda>ok. if ok then all_facts_ok fs else Inr False)"

definition model_available :: "pyv \<Rightarrow> bool" where
  "model_available m \<longleftrightarrow> is_dict m \<and> oget (as_dict m) ''result_state'' = VStr ''available''"

fun available_models :: "(string \<times> pyv) list \<Rightarrow> pyv list option res" where
  \<comment> \<open>\<open>None\<close> when the lineage of an available model is missing or conflicting\<close>
  "available_models [] = Inr (Some [])"
| "available_models ((name, m) # ms) =
     (if \<not> model_available m then available_models ms
      else (case oget (as_dict m) ''used_input_facts'' of
        VDict facts \<Rightarrow>
          bindE (all_facts_ok (map snd facts)) (\<lambda>ok.
            if ok then bindE (available_models ms) (\<lambda>rest. Inr (map_option
                   ((#) (VDict [(''model'', VStr name), (''facts'', VDict facts)])) rest))
            else Inr None)
      | _ \<Rightarrow> Inr None))"

definition financial :: "obj \<Rightarrow> string \<Rightarrow> dimension res" where
  "financial entry entity_type =
     (let models = as_dict (oget (as_dict (oget entry ''fundamental_quality'')) ''models'')
      in bindE (available_models (sort_key fst models)) (\<lambda>available.
        Inr (case available of
          None \<Rightarrow> dimension_of ''financial_quality'' ''incomparable'' [] [''financial_quality_lineage_missing_or_conflicting'']
        | Some facts \<Rightarrow>
            if entity_type = ''bank'' \<and> (\<exists>(name, m)\<in>set models. name \<noteq> ''bank_financial_quality'' \<and> model_available m)
            then dimension_of ''financial_quality'' ''incomparable'' [] [''corporate_financial_quality_model_available_for_bank'']
            else if facts = []
            then dimension_of ''financial_quality'' ''unavailable'' [] [''qualified_financial_quality_model_missing'']
            else dimension_of ''financial_quality'' ''available'' facts [])))"

definition method_available :: "pyv \<Rightarrow> bool" where
  "method_available m \<longleftrightarrow> is_dict m \<and> oget (as_dict m) ''state'' = VStr ''available''"

definition valuation :: "obj \<Rightarrow> string \<Rightarrow> dimension" where
  "valuation entry entity_type =
     (let methods = as_dict (oget (as_dict (oget entry ''relative_valuation'')) ''methods'');
          qualified = map (\<lambda>(name, m). VDict [(''method'', VStr name),
                 (''provenance'', oget_default (as_dict m) ''provenance'' (VDict []))])
               (filter (\<lambda>(name, m). method_available m \<and> oget (as_dict m) ''is_actionable'' = VBool True) (sort_key fst methods))
      in if entity_type = ''bank'' \<and> (\<exists>(name, m)\<in>set methods. starts_with name ''ev_'' \<and> method_available m)
         then dimension_of ''valuation'' ''incomparable'' [] [''enterprise_value_method_available_for_bank'']
         else if qualified \<noteq> [] then dimension_of ''valuation'' ''available'' qualified []
         else dimension_of ''valuation'' ''unavailable'' [] [''qualified_actionable_valuation_missing''])"

definition technical :: "obj \<Rightarrow> (dimension \<times> obj) res" where
  "technical entry =
     (let freshness = as_dict (oget entry ''freshness'');
          readiness = as_dict (oget entry ''analysis_readiness'');
          market = as_dict (oget freshness ''daily_prices'');
          signals = as_dict (oget freshness ''technical_signals'');
          above = oget (as_dict (oget entry ''ta_signal'')) ''above_sma50'';
          payload = (if is_bool above then [(''above_sma50'', above)] else []);
          unavailable = dimension_of ''technical_current_market_readiness'' ''unavailable'' []
            [''market_technical_not_ready_or_current'']
      in bindE (case oget readiness ''domains'' of
                  VDict ds \<Rightarrow> Inr (oget ds ''market_technical'')
                | _ \<Rightarrow> Inr (VDict [])) (\<lambda>domain.
         if oget market ''is_actionable'' = VBool True \<and> oget signals ''is_actionable'' = VBool True
         then bindE (attr_get domain ''state'') (\<lambda>state.
           Inr (if state = VStr ''ready'' \<and> is_bool above
                then dimension_of ''technical_current_market_readiness'' ''available'' [VDict payload] [] else unavailable, payload))
         else Inr (unavailable, payload)))"

definition event_facts :: "pyv list \<Rightarrow> pyv list" where
  "event_facts rows =
     map (\<lambda>row. VDict [(''event_id'', oget (as_dict row) ''event_id''), (''source_provenance'', oget (as_dict row) ''provenance'')])
       (filter (\<lambda>row. is_dict row \<and> v_true (oget (as_dict row) ''event_id'')) rows)"

definition catalyst :: "obj \<Rightarrow> dimension" where
  "catalyst entry =
     (let events = as_dict (oget (as_dict (oget entry ''corporate_intelligence'')) ''corporate_events'')
      in if oget events ''coverage_status'' = VStr ''complete'' \<and> is_dict (oget events ''freshness'')
            \<and> oget (as_dict (oget events ''freshness'')) ''is_actionable'' = VBool True \<and> is_list (oget events ''records'')
         then dimension_of ''catalyst_evidence'' ''available'' (event_facts (the_list (oget events ''records''))) []
         else dimension_of ''catalyst_evidence'' ''unknown'' [] [''qualified_complete_current_catalyst_evidence_missing''])"

definition downside :: "dimension \<Rightarrow> obj \<Rightarrow> dimension" where
  "downside tech signal =
     (if dm_state tech \<noteq> ''available'' \<or> \<not> is_bool (oget signal ''above_sma50'')
      then dimension_of ''downside_invalidation'' ''unknown'' [] [''technical_invalidation_not_current_or_qualified'']
      else dimension_of ''downside_invalidation'' ''available''
        [VDict [(''field'', VStr ''above_sma50''), (''value'', oget signal ''above_sma50''),
                (''invalidation'', VStr ''above_sma50 changes state'')]] [])"

section \<open>Evaluation and ranking\<close>

definition confidence :: "dimension list \<Rightarrow> dimension" where
  "confidence primary =
     (if \<exists>d\<in>set primary. dm_state d \<in> {''incomparable'', ''blocked''}
      then dimension_of ''data_confidence'' ''incomparable'' [] [''one_or_more_dimension_conflicting_or_blocked'']
      else if \<forall>d\<in>set primary. dm_state d = ''available'' then dimension_of ''data_confidence'' ''available'' [] []
      else if \<exists>d\<in>set primary. dm_state d = ''available''
      then dimension_of ''data_confidence'' ''partial'' [] [''one_or_more_required_dimensions_not_qualified'']
      else dimension_of ''data_confidence'' ''unknown'' [] [''no_qualified_opportunity_dimensions''])"

record evaluation =
  ev_ticker :: string
  ev_entity_type :: string
  ev_state :: string
  ev_dimensions :: "dimension list"
  ev_ranking_key :: "int list \<times> string"
  ev_facts :: "pyv list"
  ev_warnings :: "string list"

definition rank_of :: "string \<Rightarrow> int" where
  "rank_of state = (case map_of state_order state of None \<Rightarrow> 8 | Some n \<Rightarrow> n)"

definition evaluate_opportunity :: "obj \<Rightarrow> string \<Rightarrow> string \<Rightarrow> evaluation res" where
  "evaluate_opportunity source ticker entity_type =
     bindE (financial source entity_type) (\<lambda>fin.
     bindE (technical source) (\<lambda>(tech, signal).
       let primary = [fin, valuation source entity_type, tech, catalyst source, downside tech signal];
           conf = confidence primary;
           dims = primary @ [conf]
       in Inr \<lparr>ev_ticker = ticker, ev_entity_type = entity_type, ev_state = dm_state conf, ev_dimensions = dims,
               ev_ranking_key = (map (\<lambda>d. rank_of (dm_state d)) dims, ticker),
               ev_facts = concat (map dm_facts primary), ev_warnings = concat (map dm_warnings dims)\<rparr>))"

definition entity_type_of :: "(pyv \<Rightarrow> string) \<Rightarrow> obj \<Rightarrow> string" where
  "entity_type_of rep entry = py_str rep (v_or (oget entry ''entity_type'') (VStr ''unknown''))"

record ranking =
  rk_state :: string
  rk_basis :: "string list"
  rk_ordered :: "(string \<times> string \<times> (string \<times> string) list) list"

definition rank_opportunities :: "(pyv \<Rightarrow> string) \<Rightarrow> (string \<times> obj) list \<Rightarrow> ranking res" where
  "rank_opportunities rep entries =
     bindE (mapE (\<lambda>(ticker, entry). evaluate_opportunity entry ticker (entity_type_of rep entry)) entries) (\<lambda>evaluated.
       let ordered = sort_key ev_ranking_key evaluated
       in Inr \<lparr>rk_state = (if \<exists>e\<in>set ordered. ev_state e \<in> {''available'', ''partial''} then ''available'' else ''unknown''),
               rk_basis = dimension_names @ [''ticker''],
               rk_ordered = map (\<lambda>e. (ev_ticker e, ev_state e, map (\<lambda>d. (dm_name d, dm_state d)) (ev_dimensions e))) ordered\<rparr>)"

section \<open>What the ordering promises\<close>

lemma dimension_of_simps [simp]:
  "dm_name (dimension_of n s f w) = n" "dm_state (dimension_of n s f w) = s" "dm_facts (dimension_of n s f w) = f"
  "dm_warnings (dimension_of n s f w) = w" "dm_actionable (dimension_of n s f w) \<longleftrightarrow> s = ''available''"
  by (simp_all add: dimension_of_def)

lemma rank_of_nonneg: "0 \<le> rank_of s"
  by (auto simp: rank_of_def state_order_def split: option.split dest!: map_of_SomeD)

lemma rank_of_zero: "rank_of s = 0 \<longleftrightarrow> s = ''available''"
  by (auto simp: rank_of_def state_order_def split: option.splits if_splits)

lemma confidence_available: "dm_state (confidence ds) = ''available'' \<longleftrightarrow> (\<forall>d\<in>set ds. dm_state d = ''available'')"
  by (force simp: confidence_def)

lemma evaluate_Inr:
  assumes "evaluate_opportunity entry ticker entity = Inr e"
  obtains fin tech signal where "financial entry entity = Inr fin" "technical entry = Inr (tech, signal)"
    "ev_dimensions e = [fin, valuation entry entity, tech, catalyst entry, downside tech signal,
       confidence [fin, valuation entry entity, tech, catalyst entry, downside tech signal]]"
    "ev_ticker e = ticker" "ev_entity_type e = entity" "ev_state e = dm_state (last (ev_dimensions e))"
    "ev_ranking_key e = (map (\<lambda>d. rank_of (dm_state d)) (ev_dimensions e), ticker)"
    "ev_facts e = concat (map dm_facts (butlast (ev_dimensions e)))"
  using assms by (auto simp: evaluate_opportunity_def bindE_eq_Inr Let_def)

lemma available_iff_key:
  assumes "evaluate_opportunity entry ticker entity = Inr e"
  shows "ev_state e = ''available'' \<longleftrightarrow> fst (ev_ranking_key e) = replicate 6 0"
    and "length (fst (ev_ranking_key e)) = 6" "\<forall>n\<in>set (fst (ev_ranking_key e)). 0 \<le> n"
    and "ev_state e = ''available'' \<longleftrightarrow> (\<forall>d\<in>set (ev_dimensions e). dm_state d = ''available'')"
  by (rule evaluate_Inr[OF assms]; auto simp: numeral_eq_Suc rank_of_zero rank_of_nonneg confidence_available)+

lemma zeros_least:
  fixes xs :: "int list"
  assumes "length xs = n" "\<forall>x\<in>set xs. 0 \<le> x"
  shows "replicate n 0 \<le> xs"
  using assms
proof (induction n arbitrary: xs)
  case (Suc n)
  then obtain y ys where "xs = y # ys" "length ys = n" by (cases xs) auto
  then show ?case using Suc by (cases "y = 0") auto
qed simp

lemma available_key_less:
  assumes "evaluate_opportunity x t k = Inr e" "evaluate_opportunity y u l = Inr f"
    and "ev_state e = ''available''" "ev_state f \<noteq> ''available''"
  shows "ev_ranking_key e < ev_ranking_key f"
proof -
  have "fst (ev_ranking_key e) = replicate 6 0" using available_iff_key(1)[OF assms(1)] assms(3) by simp
  moreover have "replicate 6 0 \<le> fst (ev_ranking_key f)" "fst (ev_ranking_key f) \<noteq> replicate 6 0"
    using zeros_least[of _ 6] available_iff_key[OF assms(2)] assms(4) by auto
  ultimately show ?thesis by (simp add: less_prod_def' order_le_less)
qed

definition evaluations :: "(pyv \<Rightarrow> string) \<Rightarrow> (string \<times> obj) list \<Rightarrow> evaluation list res" where
  "evaluations rep entries = mapE (\<lambda>(ticker, entry). evaluate_opportunity entry ticker (entity_type_of rep entry)) entries"

lemma rank_Inr:
  assumes "rank_opportunities rep entries = Inr r"
  obtains es where "evaluations rep entries = Inr es"
    "rk_ordered r = map (\<lambda>e. (ev_ticker e, ev_state e, map (\<lambda>d. (dm_name d, dm_state d)) (ev_dimensions e)))
       (sort_key ev_ranking_key es)"
  using assms by (auto simp: rank_opportunities_def bindE_eq_Inr Let_def evaluations_def)

lemma evaluations_evaluated:
  "evaluations rep entries = Inr es \<Longrightarrow> e \<in> set es \<Longrightarrow> \<exists>x t k. evaluate_opportunity x t k = Inr e"
  unfolding evaluations_def by (drule (1) mapE_Inr_set) auto

lemma evaluations_tickers: "evaluations rep entries = Inr es \<Longrightarrow> map ev_ticker es = map fst entries"
  unfolding evaluations_def
  by (induction entries arbitrary: es) (auto simp: bindE_eq_Inr elim!: evaluate_Inr)

text \<open>
  Whoever has all the evidence comes first: the ranking lists each ticker of the input once, an
  entry counts as available exactly if each of its dimensions does, and no entry that is not available is
  placed before one that is.
\<close>

theorem available_opportunities_first:
  assumes "rank_opportunities rep entries = Inr r"
  shows "mset (map fst (rk_ordered r)) = mset (map fst entries)
    \<and> (\<forall>(t, s, ds)\<in>set (rk_ordered r). s = ''available'' \<longleftrightarrow> (\<forall>(n, d)\<in>set ds. d = ''available''))
    \<and> (\<forall>i j. i < j \<and> j < length (rk_ordered r) \<and> fst (snd (rk_ordered r ! j)) = ''available''
         \<longrightarrow> fst (snd (rk_ordered r ! i)) = ''available'')"
proof -
  obtain es where es: "evaluations rep entries = Inr es"
    and ord: "rk_ordered r = map (\<lambda>e. (ev_ticker e, ev_state e, map (\<lambda>d. (dm_name d, dm_state d)) (ev_dimensions e)))
       (sort_key ev_ranking_key es)" by (rule rank_Inr[OF assms])
  have "mset (map fst (rk_ordered r)) = image_mset ev_ticker (mset es)"
    by (simp add: ord comp_def)
  also have "\<dots> = mset (map fst entries)" using evaluations_tickers[OF es] by (metis mset_map)
  finally have tickers: "mset (map fst (rk_ordered r)) = mset (map fst entries)" .
  have states: "\<forall>e\<in>set es. ev_state e = ''available'' \<longleftrightarrow> (\<forall>d\<in>set (ev_dimensions e). dm_state d = ''available'')"
    using available_iff_key(4) evaluations_evaluated[OF es] by blast
  have first: "ev_state (sort_key ev_ranking_key es ! i) = ''available''"
    if "i < j" "j < length es" "ev_state (sort_key ev_ranking_key es ! j) = ''available''" for i j
  proof (rule ccontr)
    let ?e = "sort_key ev_ranking_key es ! j" and ?f = "sort_key ev_ranking_key es ! i"
    assume "ev_state ?f \<noteq> ''available''"
    moreover have "?e \<in> set es" "?f \<in> set es" using that by (metis length_sort nth_mem order_less_trans set_sort)+
    ultimately have "ev_ranking_key ?e < ev_ranking_key ?f"
      using available_key_less evaluations_evaluated[OF es] that(3) by meson
    moreover have "ev_ranking_key ?f \<le> ev_ranking_key ?e"
      using sorted_nth_mono[of "map ev_ranking_key (sort_key ev_ranking_key es)" i j] that by simp
    ultimately show False by simp
  qed
  show ?thesis using tickers states first by (auto simp: ord split_beta)
qed

text \<open>
  The ranking depends on what the entries are, not on the order they come in.
\<close>

theorem ranking_order_independent:
  assumes "mset entries = mset entries'" "distinct (map fst entries)"
    and "rank_opportunities rep entries = Inr r"
  shows "\<exists>r'. rank_opportunities rep entries' = Inr r' \<and> rk_ordered r' = rk_ordered r \<and> rk_state r' = rk_state r"
proof -
  let ?f = "\<lambda>(ticker, entry). evaluate_opportunity entry ticker (entity_type_of rep entry)"
  have mapE_ok: "mapE f xs = Inr ys \<longleftrightarrow> (\<forall>x\<in>set xs. is_ok (f x)) \<and> ys = map (projr \<circ> f) xs" for f :: "'a \<Rightarrow> 'b res" and xs ys
    by (induction xs arbitrary: ys) (auto simp: bindE_eq_Inr elim: is_ok.elims)
  obtain es where es: "mapE ?f entries = Inr es" by (rule rank_Inr[OF assms(3)]) (simp add: evaluations_def)
  define es' where "es' = map (projr \<circ> ?f) entries'"
  have sets: "set entries' = set entries" using assms(1) by (metis set_mset_mset)
  then have es': "mapE ?f entries' = Inr es'" using es unfolding mapE_ok es'_def by simp
  have "es = map (projr \<circ> ?f) entries" using es unfolding mapE_ok by blast
  then have perm: "mset es = mset es'" using assms(1) unfolding es'_def by (simp only: mset_map)
  have "map ev_ticker es = map fst entries" using evaluations_tickers es unfolding evaluations_def by blast
  then have "inj_on ev_ticker (set es)" using assms(2) by (metis distinct_map)
  moreover have "ev_ticker e = snd (ev_ranking_key e)" if e: "e \<in> set es" for e
  proof -
    obtain x t k where "evaluate_opportunity x t k = Inr e"
      using evaluations_evaluated e es unfolding evaluations_def by blast
    then show ?thesis by (rule evaluate_Inr) simp
  qed
  ultimately have "inj_on ev_ranking_key (set es)" by (metis inj_onD inj_onI)
  then have "sort_key ev_ranking_key es = sort_key ev_ranking_key es'" by (rule sort_key_perm_inj[OF perm])
  moreover have "set es = set es'" using perm by (metis set_mset_mset)
  ultimately show ?thesis
    using assms(3) by (simp add: rank_opportunities_def es es' Let_def)
qed

definition ready_entry :: obj where
  "ready_entry =
     [(''fundamental_quality'', VDict [(''models'', VDict [(''m'', VDict [(''result_state'', VStr ''available''),
        (''used_input_facts'', VDict [(''f'', VDict [(''citation_id'', VStr ''c''), (''evidence_id'', VStr ''e'')])])])])]),
      (''relative_valuation'', VDict [(''methods'', VDict [(''pe'', VDict [(''state'', VStr ''available''), (''is_actionable'', VBool True)])])]),
      (''freshness'', VDict [(''daily_prices'', VDict [(''is_actionable'', VBool True)]), (''technical_signals'', VDict [(''is_actionable'', VBool True)])]),
      (''analysis_readiness'', VDict [(''domains'', VDict [(''market_technical'', VDict [(''state'', VStr ''ready'')])])]),
      (''ta_signal'', VDict [(''above_sma50'', VBool True)]),
      (''corporate_intelligence'', VDict [(''corporate_events'', VDict [(''coverage_status'', VStr ''complete''),
         (''freshness'', VDict [(''is_actionable'', VBool True)]), (''records'', VList [])])])]"

lemma sample_ranking:
  "map_sum id (map (\<lambda>(t, s, ds). (t, s)) \<circ> rk_ordered) (rank_opportunities (\<lambda>v. []) [(''AAA'', []), (''ZZZ'', ready_entry)])
     = Inr [(''ZZZ'', ''available''), (''AAA'', ''unknown'')]"
  by code_simp

theorem available_opportunities_first_witness:
  "\<exists>r. rank_opportunities (\<lambda>v. []) [(''AAA'', []), (''ZZZ'', ready_entry)] = Inr r
     \<and> mset (map fst (rk_ordered r)) = {#''AAA'', ''ZZZ''#}"
proof -
  obtain r where r: "rank_opportunities (\<lambda>v. []) [(''AAA'', []), (''ZZZ'', ready_entry)] = Inr r"
    using sample_ranking by (cases "rank_opportunities (\<lambda>v. []) [(''AAA'', []), (''ZZZ'', ready_entry)]") auto
  then show ?thesis using available_opportunities_first[OF r] by auto
qed

theorem ranking_order_independent_witness:
  "\<exists>r r'. rank_opportunities (\<lambda>v. []) [(''AAA'', []), (''ZZZ'', ready_entry)] = Inr r
     \<and> rank_opportunities (\<lambda>v. []) [(''ZZZ'', ready_entry), (''AAA'', [])] = Inr r' \<and> rk_ordered r' = rk_ordered r"
proof -
  obtain r where r: "rank_opportunities (\<lambda>v. []) [(''AAA'', []), (''ZZZ'', ready_entry)] = Inr r"
    using sample_ranking by (cases "rank_opportunities (\<lambda>v. []) [(''AAA'', []), (''ZZZ'', ready_entry)]") auto
  from ranking_order_independent[OF _ _ r, of "[(''ZZZ'', ready_entry), (''AAA'', [])]"] r
  show ?thesis by auto
qed

text \<open>
  One entry can abort the whole ranking: with current prices and signals and a readiness report whose
  domains say nothing of \<open>market_technical\<close>, the module asks \<open>None\<close> for its state and raises
  \<open>AttributeError\<close>, whatever the other entries are, unless one of them raises first.
\<close>

theorem missing_domain_aborts_ranking:
  "\<exists>e. rank_opportunities rep (before @ (ticker, [(''freshness'', VDict [(''daily_prices'', VDict [(''is_actionable'', VBool True)]),
         (''technical_signals'', VDict [(''is_actionable'', VBool True)])]),
       (''analysis_readiness'', VDict [(''domains'', VDict [])])]) # after) = Inl e
     \<and> (exc_class e = AttributeError \<or> (\<exists>x\<in>set before. \<not> is_ok (evaluate_opportunity (snd x) (fst x) (entity_type_of rep (snd x)))))"
proof -
  define bad :: obj where "bad = [(''freshness'', VDict [(''daily_prices'', VDict [(''is_actionable'', VBool True)]),
         (''technical_signals'', VDict [(''is_actionable'', VBool True)])]),
       (''analysis_readiness'', VDict [(''domains'', VDict [])])]"
  have bad: "evaluate_opportunity bad t k = Inl (Raise AttributeError ''get'')" for t k
    by (simp add: bad_def evaluate_opportunity_def financial_def technical_def attr_get_def Let_def raise_def)
  have "\<exists>e. mapE (\<lambda>(ticker, entry). evaluate_opportunity entry ticker (entity_type_of rep entry)) (before @ (ticker, bad) # after) = Inl e
      \<and> (exc_class e = AttributeError \<or> (\<exists>x\<in>set before. \<not> is_ok (evaluate_opportunity (snd x) (fst x) (entity_type_of rep (snd x)))))"
  proof (induction before)
    case (Cons x xs)
    then show ?case
      by (cases "evaluate_opportunity (snd x) (fst x) (entity_type_of rep (snd x))") (auto simp: split_beta)
  qed (simp add: bad)
  then show ?thesis unfolding rank_opportunities_def bad_def[symmetric] by auto
qed

end
