(* ===== verification/QualificationTiers.thy ===== *)
theory QualificationTiers
  imports PyValue
begin

text \<open>
  The ladder of evidence, \<open>stocklookup_core/evidence/evidence_qualification_tiers.py\<close>: what an empirical
  verdict has to carry, how corroboration is attached, and how several verdicts about one proposition
  become one.  Verdict records are untyped mappings; \<open>rep\<close> is the text Python prints for a float or a
  container.
\<close>

section \<open>The ladder\<close>

definition strength :: "(string \<times> nat) list" where
  "strength = [(''documented_verified'', 4), (''empirically_deduced'', 3), (''observed_only'', 2), (''unknown'', 1),
     (''conflicted'', 0), (''invalidated'', 0)]"

definition assert_tier :: "string \<Rightarrow> string res" where
  "assert_tier tier = (if map_of strength tier = None then raise QualificationError (''unknown_qualification_tier:'' @ tier)
     else Inr tier)"

definition strength_of :: "string \<Rightarrow> nat" where
  "strength_of tier = (case map_of strength tier of None \<Rightarrow> 0 | Some n \<Rightarrow> n)"

definition outranks :: "string \<Rightarrow> string \<Rightarrow> bool res" where
  "outranks tier other = bindE (assert_tier tier) (\<lambda>a. bindE (assert_tier other) (\<lambda>b. Inr (strength_of a > strength_of b)))"

definition may_claim_official_semantics :: "string \<Rightarrow> bool res" where
  "may_claim_official_semantics tier = bindE (assert_tier tier) (\<lambda>t. Inr (t = ''documented_verified''))"

section \<open>Empirical verdicts\<close>

definition empirical_record_fields :: "string list" where
  "empirical_record_fields = [''test_method'', ''tested_fields'', ''tested_tickers'', ''tested_date_windows'',
     ''event_evidence'', ''raw_artifact_hashes'', ''transformation_version'', ''alternative_explanations_considered'',
     ''falsification_attempts'', ''confidence'', ''scope_limitations'', ''retrieval_timestamps'', ''historical_mutability'']"

definition must_be_non_empty :: "string list" where
  "must_be_non_empty = [''test_method'', ''tested_fields'', ''tested_tickers'', ''tested_date_windows'',
     ''raw_artifact_hashes'', ''transformation_version'', ''alternative_explanations_considered'',
     ''falsification_attempts'', ''confidence'', ''scope_limitations'', ''retrieval_timestamps'']"

definition confidence_levels :: "string list" where
  "confidence_levels = [''low'', ''moderate'', ''high'']"

definition coverage_states :: "string list" where
  "coverage_states = [''limited_to_tested_windows'', ''not_authorized'']"

definition assert_empirically_deduced :: "(pyv \<Rightarrow> string) \<Rightarrow> obj \<Rightarrow> obj res" where
  "assert_empirically_deduced rep r =
     (let missing = filter (\<lambda>f. \<not> ohas r f) empirical_record_fields;
          empty = filter (\<lambda>f. \<not> v_true (oget r f) \<and> num_of (oget r f) \<noteq> Some 0) must_be_non_empty;
          coverage = oget_default r ''coverage_generalization'' (VStr ''limited_to_tested_windows'')
      in if missing \<noteq> [] then raise QualificationError (''empirical_record_fields_missing:'' @ str_join '','' (sort missing))
         else if empty \<noteq> [] then raise QualificationError (''empirical_record_fields_empty:'' @ str_join '','' (sort empty))
         else bindE (member_of (oget r ''confidence'') confidence_levels) (\<lambda>ok.
           if \<not> ok then raise QualificationError (''empirical_confidence_invalid:'' @ py_str rep (oget r ''confidence''))
           else bindE (member_of coverage coverage_states) (\<lambda>ok.
             if \<not> ok then raise QualificationError (''empirical_coverage_generalization_invalid:'' @ py_str rep coverage)
             else if \<not> is_list (oget r ''tested_date_windows'')
             then raise QualificationError ''tested_date_windows_must_be_a_sequence''
             else Inr (oset (oset (oset r ''qualification'' (VStr ''empirically_deduced''))
                    ''coverage_generalization'' coverage) ''qualification_schema_version'' (VStr ''1.0.0'')))))"

definition windows_of :: "obj \<Rightarrow> pyv list res" where
  "windows_of r = py_iter (oget_default r ''tested_date_windows'' (VList []))"

definition assert_scope_not_exceeded :: "(pyv \<Rightarrow> string) \<Rightarrow> obj \<Rightarrow> string list \<Rightarrow> unit res" where
  "assert_scope_not_exceeded rep r claimed =
     bindE (windows_of r) (\<lambda>ws.
       let overreach = sorted_set (filter (\<lambda>w. w \<notin> set (map (py_str rep) ws)) claimed)
       in if overreach \<noteq> [] then raise QualificationError (''claim_exceeds_tested_windows:'' @ str_join '','' overreach)
          else Inr ())"

definition assert_single_window_insufficient :: "(pyv \<Rightarrow> string) \<Rightarrow> obj \<Rightarrow> unit res" where
  "assert_single_window_insufficient rep r =
     bindE (windows_of r) (\<lambda>ws.
       let m = oget r ''provider_methodology''
       in if length ws \<le> 1 \<and> m \<notin> {VNone, VStr [], VStr ''unknown''}
          then raise QualificationError (''single_window_cannot_establish_provider_methodology:'' @ py_str rep m)
          else Inr ())"

section \<open>Corroboration and conflict\<close>

definition apply_corroboration :: "(pyv \<Rightarrow> string) \<Rightarrow> obj \<Rightarrow> obj \<Rightarrow> obj res" where
  "apply_corroboration rep r corroboration =
     bindE (py_iter (oget_default r ''corroboration'' (VList []))) (\<lambda>attached.
     bindE (assert_tier (py_str rep (oget_default r ''qualification'' (VStr ''unknown'')))) (\<lambda>tier.
       Inr (oset (oset (oset r ''corroboration'' (VList (attached @ [VDict corroboration])))
              ''corroboration_upgraded_qualification'' (VBool False)) ''qualification'' (VStr tier))))"

definition is_live :: "obj \<Rightarrow> bool res" where
  "is_live r = bindE (member_of (oget r ''status'') [''superseded'', ''invalidated'']) (\<lambda>set_aside.
     Inr (\<not> set_aside \<and> oget r ''qualification'' \<noteq> VStr ''invalidated''))"

fun live_records :: "obj list \<Rightarrow> obj list res" where
  "live_records [] = Inr []"
| "live_records (r # rs) = bindE (is_live r) (\<lambda>l. bindE (live_records rs) (\<lambda>ls. Inr (if l then r # ls else ls)))"

definition verdict_text :: "(pyv \<Rightarrow> string) \<Rightarrow> obj \<Rightarrow> string" where
  "verdict_text rep r = py_str rep (oget r ''verdict'')"

definition tier_text :: "(pyv \<Rightarrow> string) \<Rightarrow> obj \<Rightarrow> string" where
  "tier_text rep r = py_str rep (oget_default r ''qualification'' (VStr ''unknown''))"

definition resolve_active :: "(pyv \<Rightarrow> string) \<Rightarrow> obj list \<Rightarrow> obj res" where
  "resolve_active rep records =
     bindE (live_records records) (\<lambda>live.
       case live of
         [] \<Rightarrow> Inr [(''verdict'', VNone), (''qualification'', VStr ''unknown''), (''status'', VStr ''no_live_evidence'')]
       | l # ls \<Rightarrow>
           (let verdicts = sorted_set (map (verdict_text rep) live) in
            if length verdicts > 1
            then Inr [(''verdict'', VNone), (''qualification'', VStr ''conflicted''), (''status'', VStr ''active''),
                      (''conflicting_values'', VList (map VStr verdicts)),
                      (''reason'', VStr ''two_live_evidence_paths_disagree''),
                      (''note'', VStr (''Recency does not resolve a conflict, and neither does tier strength '' @
                                       ''alone; a justified supersession does.''))]
            else bindE (mapE (assert_tier \<circ> tier_text rep) live) (\<lambda>_.
              Inr (first_max (strength_of \<circ> tier_text rep) l ls))))"

definition supersede :: "(pyv \<Rightarrow> string) \<Rightarrow> obj \<Rightarrow> obj \<Rightarrow> string \<Rightarrow> obj res" where
  "supersede rep prior superseding justification =
     (if str_strip justification = [] then raise QualificationError ''supersession_requires_a_justification''
      else if str_strip (py_str rep (oget_default prior ''retained_correct_for'' (VStr []))) = []
      then raise QualificationError ''supersession_must_state_what_the_prior_verdict_got_right''
      else Inr [(''schema_version'', VStr ''1.0.0''), (''superseded'', VDict (oset prior ''status'' (VStr ''superseded''))),
                (''superseding'', VDict superseding), (''justification'', VStr justification),
                (''resolved_by'', VStr ''justified_supersession''), (''resolved_by_recency'', VBool False)])"

section \<open>What resolution and corroboration guarantee\<close>

lemma live_records_Inr:
  "live_records rs = Inr ls \<longleftrightarrow> (\<forall>r\<in>set rs. is_ok (is_live r)) \<and> ls = filter (\<lambda>r. is_live r = Inr True) rs"
proof (induction rs arbitrary: ls)
  case (Cons r rs)
  then show ?case by (cases "is_live r") (auto simp: bindE_eq_Inr)
qed auto

lemma mapE_assert_tier: "mapE (assert_tier \<circ> f) rs = Inr xs \<Longrightarrow> r \<in> set rs \<Longrightarrow> map_of strength (f r) \<noteq> None"
  by (induction rs arbitrary: xs) (auto simp: bindE_eq_Inr assert_tier_def split: if_splits)

lemma mapE_assert_tier_ok: "(\<forall>r\<in>set rs. map_of strength (f r) \<noteq> None) \<Longrightarrow> \<exists>xs. mapE (assert_tier \<circ> f) rs = Inr xs"
  by (induction rs) (auto simp: assert_tier_def)

text \<open>What two resolutions have in common that agree: verdict and strength of the evidence.\<close>

definition agrees :: "(pyv \<Rightarrow> string) \<Rightarrow> obj \<Rightarrow> obj \<Rightarrow> bool" where
  "agrees rep r s \<longleftrightarrow> verdict_text rep r = verdict_text rep s \<and> strength_of (tier_text rep r) = strength_of (tier_text rep s)"

lemma agrees_refl [simp]: "agrees rep r r"
  by (simp add: agrees_def)

lemma same_verdicts:
  assumes "\<not> length (sorted_set (map f xs)) > 1" "x \<in> set xs" "y \<in> set xs"
  shows "f x = f y"
proof -
  have "card (set (map f xs)) \<le> 1"
    using assms(1) distinct_card[OF distinct_sorted_set, of "map f xs"] by (simp only: set_sorted_set not_less)
  then have "\<forall>a\<in>f ` set xs. \<forall>b\<in>f ` set xs. a = b"
    by (subst card_le_Suc0_iff_eq[symmetric]) (simp_all only: finite_imageI finite_set set_map One_nat_def)
  from this[rule_format, OF imageI[OF assms(2)] imageI[OF assms(3)]] show ?thesis .
qed

lemma winners_agree:
  assumes "\<not> length (sorted_set (map (verdict_text rep) (l' # ls'))) > 1" "set (l # ls) = set (l' # ls')"
  defines "r \<equiv> first_max (strength_of \<circ> tier_text rep) l ls" and "r' \<equiv> first_max (strength_of \<circ> tier_text rep) l' ls'"
  shows "agrees rep r r' \<and> r' \<in> set (l' # ls')
    \<and> (\<forall>x\<in>set (l' # ls'). verdict_text rep x = verdict_text rep r' \<and> strength_of (tier_text rep x) \<le> strength_of (tier_text rep r'))"
proof -
  have in': "r' \<in> set (l' # ls')" unfolding r'_def list.set by (rule first_max_in)
  have "r \<in> set (l # ls)" unfolding r_def list.set by (rule first_max_in)
  then have in_r: "r \<in> set (l' # ls')" "r' \<in> set (l # ls)" using in' by (simp_all only: assms(2))
  have best: "\<forall>x\<in>set (l' # ls'). strength_of (tier_text rep x) \<le> strength_of (tier_text rep r')"
    using first_max_greatest[of _ l' ls' "strength_of \<circ> tier_text rep"] by (simp add: r'_def)
  have best_r: "\<forall>x\<in>set (l # ls). strength_of (tier_text rep x) \<le> strength_of (tier_text rep r)"
    using first_max_greatest[of _ l ls "strength_of \<circ> tier_text rep"] by (simp add: r_def)
  have "strength_of (tier_text rep r) = strength_of (tier_text rep r')"
    by (rule le_antisym[OF bspec[OF best in_r(1)] bspec[OF best_r in_r(2)]])
  then show ?thesis using same_verdicts[OF assms(1) _ in'] in' in_r(1) best unfolding agrees_def by blast
qed

text \<open>
  Resolving the live verdicts on a proposition does not depend on their order, so recency decides
  nothing: any arrangement of the same records resolves as well, to the same verdict on evidence of the same
  strength; an active verdict is the verdict of every live record, and none is stronger.
\<close>

theorem resolution_ignores_order:
  assumes perm: "mset records = mset records'" and r: "resolve_active rep records = Inr r"
  shows "\<exists>r'. resolve_active rep records' = Inr r' \<and> agrees rep r r'
    \<and> (r' \<in> set records' \<and> (\<forall>x\<in>set records. is_live x = Inr True \<longrightarrow>
           verdict_text rep x = verdict_text rep r' \<and> strength_of (tier_text rep x) \<le> strength_of (tier_text rep r'))
       \<or> oget r' ''verdict'' = VNone)"
proof -
  let ?live = "filter (\<lambda>r. is_live r = Inr True)"
  have sets: "set records = set records'" using perm by (metis set_mset_mset)
  have live: "live_records records = Inr (?live records)"
    using r by (auto simp: resolve_active_def bindE_eq_Inr live_records_Inr)
  then have live': "live_records records' = Inr (?live records')" using sets by (simp add: live_records_Inr)
  have same: "set (?live records) = set (?live records')" using sets by simp
  then have verdicts: "sorted_set (map (verdict_text rep) (?live records)) = sorted_set (map (verdict_text rep) (?live records'))"
    by (intro sorted_set_cong) auto
  show ?thesis
  proof (cases "?live records'")
    case Nil
    then have "?live records = []" using same by auto
    then show ?thesis using r by (auto simp: resolve_active_def live live' Nil)
  next
    case (Cons l' ls')
    then obtain l ls where ls: "?live records = l # ls" using same by (cases "?live records") auto
    show ?thesis
    proof (cases "length (sorted_set (map (verdict_text rep) (l' # ls'))) > 1")
      case True
      then show ?thesis using r verdicts by (auto simp: resolve_active_def live live' ls Cons Let_def)
    next
      case False
      then have one: "\<not> length (sorted_set (map (verdict_text rep) (l # ls))) > 1" using verdicts ls Cons by simp
      from r one obtain xs where tiers: "mapE (assert_tier \<circ> tier_text rep) (l # ls) = Inr xs"
        and win: "r = first_max (strength_of \<circ> tier_text rep) l ls"
        by (auto simp: resolve_active_def live ls Let_def bindE_eq_Inr)
      have sets': "set (l # ls) = set (l' # ls')" using same ls Cons by simp
      then obtain xs' where tiers': "mapE (assert_tier \<circ> tier_text rep) (l' # ls') = Inr xs'"
        using mapE_assert_tier[OF tiers] mapE_assert_tier_ok[of "l' # ls'" "tier_text rep"] by blast
      have "resolve_active rep records' = Inr (first_max (strength_of \<circ> tier_text rep) l' ls')"
        using False tiers' by (simp add: resolve_active_def live' Cons Let_def)
      moreover have "x \<in> set (l' # ls')" if "x \<in> set records" "is_live x = Inr True" for x
        using that sets unfolding Cons[symmetric] by simp
      moreover have "x \<in> set records'" if "x \<in> set (l' # ls')" for x using that unfolding Cons[symmetric] by simp
      ultimately show ?thesis using winners_agree[OF False sets'] unfolding win by blast
    qed
  qed
qed

theorem resolution_ignores_order_witness:
  "\<exists>r r'. resolve_active (\<lambda>v. []) [[(''verdict'', VStr ''raw'')], [(''verdict'', VStr ''raw''), (''qualification'', VStr ''observed_only'')]] = Inr r
     \<and> resolve_active (\<lambda>v. []) [[(''verdict'', VStr ''raw''), (''qualification'', VStr ''observed_only'')], [(''verdict'', VStr ''raw'')]] = Inr r'
     \<and> agrees (\<lambda>v. []) r r'"
proof -
  have "resolve_active (\<lambda>v. []) [[(''verdict'', VStr ''raw'')], [(''verdict'', VStr ''raw''), (''qualification'', VStr ''observed_only'')]]
      = Inr [(''verdict'', VStr ''raw''), (''qualification'', VStr ''observed_only'')]"
    by code_simp
  from resolution_ignores_order[OF _ this,
      of "[[(''verdict'', VStr ''raw''), (''qualification'', VStr ''observed_only'')], [(''verdict'', VStr ''raw'')]]"] this
  show ?thesis by auto
qed

fun corroborate_all :: "(pyv \<Rightarrow> string) \<Rightarrow> obj \<Rightarrow> obj list \<Rightarrow> obj res" where
  "corroborate_all rep r [] = Inr r"
| "corroborate_all rep r (c # cs) = bindE (apply_corroboration rep r c) (\<lambda>r. corroborate_all rep r cs)"

text \<open>
  However much corroborating evidence is attached, the tier of a verdict stays what it was, the
  verdict itself with it, and with the tier the right to speak for the source.
\<close>

theorem corroboration_never_promotes:
  assumes "corroborate_all rep r cs = Inr r'"
  shows "tier_text rep r' = tier_text rep r \<and> oget r' ''verdict'' = oget r ''verdict''
    \<and> may_claim_official_semantics (tier_text rep r') = may_claim_official_semantics (tier_text rep r)"
proof -
  have once: "tier_text rep s = tier_text rep r \<and> oget s ''verdict'' = oget r ''verdict''"
    if "apply_corroboration rep r c = Inr s" for r c s
    using that by (auto simp: apply_corroboration_def bindE_eq_Inr tier_text_def oget_default_def assert_tier_def split: if_splits)
  have "tier_text rep r' = tier_text rep r \<and> oget r' ''verdict'' = oget r ''verdict''"
    using assms
  proof (induction cs arbitrary: r)
    case (Cons c cs)
    then obtain s where s: "apply_corroboration rep r c = Inr s" "corroborate_all rep s cs = Inr r'"
      by (auto simp: bindE_eq_Inr)
    then show ?case using once[OF s(1)] Cons.IH[OF s(2)] by simp
  qed simp
  then show ?thesis by simp
qed

theorem corroboration_never_promotes_witness:
  "\<exists>r'. corroborate_all (\<lambda>v. []) [(''qualification'', VStr ''observed_only'')] [[], []] = Inr r' \<and> tier_text (\<lambda>v. []) r' = ''observed_only''"
proof -
  have "is_ok (corroborate_all (\<lambda>v. []) [(''qualification'', VStr ''observed_only'')] [[], []])" by code_simp
  then obtain r' where r': "corroborate_all (\<lambda>v. []) [(''qualification'', VStr ''observed_only'')] [[], []] = Inr r'"
    by (auto elim: is_ok.elims)
  then show ?thesis
    using corroboration_never_promotes[OF r'] by (simp add: tier_text_def oget_default_def)
qed

end
