(* ===== verification/SessionBars.thy ===== *)
theory SessionBars
  imports PyValue
begin

text \<open>
  The uniqueness of daily bars within a retained record, \<open>session_bar_integrity.py\<close>: identical copies of a
  session's bar are collapsed, differing ones make the record unusable.  Rows are JSON values; two rows
  are the same when their canonical texts are, \<open>fl\<close> being the text of a float.
\<close>

definition row_identity :: "(rat \<Rightarrow> string) \<Rightarrow> pyv \<Rightarrow> string" where
  "row_identity fl row = json_dumps fl row"

record bar_resolution =
  br_status :: string
  br_observations :: pyv
  br_exact :: "string list"
  br_conflicting :: "string list"
  br_fields :: "(string \<times> string list) list"

definition row_session :: "string option \<Rightarrow> pyv \<Rightarrow> string option" where
  \<comment> \<open>the session a row is checked under, if it is\<close>
  "row_session as_of row =
     (case row of
        VDict d \<Rightarrow>
          (case oget d ''session'' of
             VStr s \<Rightarrow> (case as_of of Some a \<Rightarrow> if s > a then None else Some s | None \<Rightarrow> Some s)
           | _ \<Rightarrow> None)
      | _ \<Rightarrow> None)"

fun group_rows :: "string option \<Rightarrow> nat \<Rightarrow> pyv list \<Rightarrow> (string \<times> nat list) list \<Rightarrow> (string \<times> nat list) list" where
  "group_rows as_of i [] groups = groups"
| "group_rows as_of i (row # rows) groups =
     group_rows as_of (Suc i) rows
       (case row_session as_of row of None \<Rightarrow> groups | Some s \<Rightarrow> group_add groups s i)"

definition conflicting_keys :: "pyv list \<Rightarrow> string list" where
  "conflicting_keys rows =
     sorted_set (concat (map (\<lambda>row. filter (\<lambda>k. \<exists>other\<in>set rows. \<not> py_eq (oget (as_dict other) k) (oget (as_dict row) k))
       (map fst (as_dict row))) rows))"

fun judge_groups ::
  "(rat \<Rightarrow> string) \<Rightarrow> pyv list \<Rightarrow> (string \<times> nat list) list \<Rightarrow> nat set \<times> string list \<times> (string \<times> string list) list" where
  \<comment> \<open>the indexes to drop, the sessions with exact copies and those in conflict\<close>
  "judge_groups fl obs [] = ({}, [], [])"
| "judge_groups fl obs ((s, is) # gs) =
     (let (drop_set, exact, conflicting) = judge_groups fl obs gs;
          rows = map ((!) obs) is
      in if length (remdups (map (row_identity fl) rows)) = 1
         then (set (tl is) \<union> drop_set, s # exact, conflicting)
         else (drop_set, exact, (s, conflicting_keys rows) # conflicting))"

definition unique_resolution :: "pyv \<Rightarrow> bar_resolution" where
  "unique_resolution observations = \<lparr>br_status = ''UNIQUE'', br_observations = observations, br_exact = [],
     br_conflicting = [], br_fields = []\<rparr>"

definition resolve_session_bars :: "(rat \<Rightarrow> string) \<Rightarrow> pyv \<Rightarrow> string option \<Rightarrow> bar_resolution" where
  "resolve_session_bars fl observations as_of =
     (case observations of
        VList obs \<Rightarrow>
          (let repeated = filter (\<lambda>(s, is). length is > 1) (group_rows as_of 0 obs [])
           in if repeated = [] then unique_resolution observations
              else (let (drop_set, exact, conflicting) = judge_groups fl obs repeated
                    in if conflicting \<noteq> []
                       then \<lparr>br_status = ''CONFLICTING_DUPLICATE_REFUSED'', br_observations = VList [],
                             br_exact = sort exact, br_conflicting = sort (map fst conflicting),
                             br_fields = sort_key fst conflicting\<rparr>
                       else \<lparr>br_status = ''EXACT_DUPLICATE_COLLAPSED'',
                             br_observations = VList (map snd (filter (\<lambda>(i, row). i \<notin> drop_set) (enumerate 0 obs))),
                             br_exact = sort exact, br_conflicting = [], br_fields = []\<rparr>))
      | _ \<Rightarrow> unique_resolution observations)"

definition integrity_summary :: "bar_resolution \<Rightarrow> obj" where
  "integrity_summary r =
     [(''contract'', VStr ''session_bar_integrity/v1''), (''status'', VStr (br_status r)),
      (''exact_duplicate_sessions'', VList (map VStr (br_exact r))),
      (''conflicting_sessions'', VList (map VStr (br_conflicting r)))]
     @ (if br_conflicting r \<noteq> []
        then [(''conflicting_fields'', VDict (map (\<lambda>(s, ks). (s, VList (map VStr ks))) (br_fields r))),
              (''reason'', VStr ''CONFLICTING_DUPLICATE_SESSION_BAR'')] else [])"

definition resolve_record :: "(rat \<Rightarrow> string) \<Rightarrow> pyv \<Rightarrow> string option \<Rightarrow> pyv \<times> bar_resolution" where
  "resolve_record fl r as_of =
     (case r of
        VDict d \<Rightarrow>
          (let res = resolve_session_bars fl (oget d ''observations'') as_of
           in if br_status res = ''UNIQUE'' then (r, res)
              else (VDict (oset (oset d ''observations'' (br_observations res))
                      ''session_bar_integrity'' (VDict (integrity_summary res))), res))
      | _ \<Rightarrow> (r, resolve_session_bars fl VNone None))"

definition is_refused :: "pyv \<Rightarrow> bool res" where
  "is_refused r =
     (case r of
        VDict d \<Rightarrow>
          (case v_or (oget d ''session_bar_integrity'') (VDict []) of
             VDict s \<Rightarrow> Inr (oget s ''status'' = VStr ''CONFLICTING_DUPLICATE_REFUSED'')
           | _ \<Rightarrow> raise AttributeError ''get'')
      | _ \<Rightarrow> Inr False)"

section \<open>The groups of a record\<close>

definition session_indexes :: "string option \<Rightarrow> pyv list \<Rightarrow> string \<Rightarrow> nat list" where
  "session_indexes as_of obs s = filter (\<lambda>i. row_session as_of (obs ! i) = Some s) [0..<length obs]"

definition groups_of :: "string option \<Rightarrow> pyv list \<Rightarrow> (string \<times> nat list) list \<Rightarrow> bool" where
  "groups_of as_of obs gs \<longleftrightarrow>
     distinct (map fst gs) \<and> (\<forall>s is. (s, is) \<in> set gs \<longleftrightarrow> is = session_indexes as_of obs s \<and> is \<noteq> [])"

lemma session_indexes_snoc:
  "session_indexes as_of (obs @ [row]) s =
     session_indexes as_of obs s @ (if row_session as_of row = Some s then [length obs] else [])"
proof -
  have "filter (\<lambda>i. row_session as_of ((obs @ [row]) ! i) = Some s) [0..<length obs]
      = filter (\<lambda>i. row_session as_of (obs ! i) = Some s) [0..<length obs]"
    by (rule filter_cong) (simp_all add: nth_append)
  then show ?thesis by (simp add: session_indexes_def)
qed

lemma groups_of_add:
  assumes "groups_of as_of obs gs" "row_session as_of row = Some s"
  shows "groups_of as_of (obs @ [row]) (group_add gs s (length obs))"
proof -
  have d: "distinct (map fst gs)" and gs: "\<And>s is. (s, is) \<in> set gs \<longleftrightarrow> is = session_indexes as_of obs s \<and> is \<noteq> []"
    using assms(1) by (auto simp: groups_of_def)
  have "(case map_of gs s of None \<Rightarrow> [] | Some is \<Rightarrow> is) = session_indexes as_of obs s"
  proof (cases "map_of gs s")
    case None
    then have "\<forall>is. (s, is) \<notin> set gs" by (metis map_of_eq_None_iff image_eqI fst_conv)
    then show ?thesis using None gs[of s "session_indexes as_of obs s"] by auto
  next
    case (Some "is")
    then show ?thesis using gs[of s "is"] map_of_SomeD by fastforce
  qed
  then show ?thesis
    using d assms(2) group_add_entries[OF d] gs group_add_keys[of gs s "length obs"]
    unfolding groups_of_def session_indexes_snoc by (auto split: if_splits)
qed

lemma groups_of_skip:
  "groups_of as_of obs gs \<Longrightarrow> row_session as_of row = None \<Longrightarrow> groups_of as_of (obs @ [row]) gs"
  by (simp add: groups_of_def session_indexes_snoc)

lemma group_rows_groups:
  "groups_of as_of done_rows gs \<Longrightarrow> groups_of as_of (done_rows @ rows) (group_rows as_of (length done_rows) rows gs)"
proof (induction rows arbitrary: done_rows gs)
  case (Cons row rows)
  show ?case
  proof (cases "row_session as_of row")
    case None
    then show ?thesis using Cons.IH[OF groups_of_skip[OF Cons.prems None]] by simp
  next
    case (Some s)
    then show ?thesis using Cons.IH[OF groups_of_add[OF Cons.prems Some]] by simp
  qed
qed simp

lemma group_rows_start: "groups_of as_of obs (group_rows as_of 0 obs [])"
  using group_rows_groups[of as_of "[]" "[]" obs] by (simp add: groups_of_def session_indexes_def)

definition same_rows :: "(rat \<Rightarrow> string) \<Rightarrow> pyv list \<Rightarrow> nat list \<Rightarrow> bool" where
  "same_rows fl obs is \<longleftrightarrow> length (remdups (map (row_identity fl) (map ((!) obs) is))) = 1"

lemma same_rows_iff: "is \<noteq> [] \<Longrightarrow> same_rows fl obs is \<longleftrightarrow> (\<forall>i\<in>set is. \<forall>j\<in>set is. row_identity fl (obs ! i) = row_identity fl (obs ! j))"
proof -
  assume "is \<noteq> []"
  have "same_rows fl obs is \<longleftrightarrow> card ((\<lambda>i. row_identity fl (obs ! i)) ` set is) = 1"
    by (simp add: same_rows_def length_remdups_card_conv image_image)
  also have "\<dots> \<longleftrightarrow> (\<forall>i\<in>set is. \<forall>j\<in>set is. row_identity fl (obs ! i) = row_identity fl (obs ! j))"
  proof
    assume "card ((\<lambda>i. row_identity fl (obs ! i)) ` set is) = 1"
    then obtain x where "(\<lambda>i. row_identity fl (obs ! i)) ` set is = {x}" by (auto simp: card_1_singleton_iff)
    then show "\<forall>i\<in>set is. \<forall>j\<in>set is. row_identity fl (obs ! i) = row_identity fl (obs ! j)" by (metis imageI singletonD)
  next
    assume all: "\<forall>i\<in>set is. \<forall>j\<in>set is. row_identity fl (obs ! i) = row_identity fl (obs ! j)"
    have "hd is \<in> set is" using \<open>is \<noteq> []\<close> by simp
    with all have "(\<lambda>i. row_identity fl (obs ! i)) ` set is = {row_identity fl (obs ! hd is)}" by blast
    then show "card ((\<lambda>i. row_identity fl (obs ! i)) ` set is) = 1" by simp
  qed
  finally show ?thesis .
qed

lemma judge_groups_eq:
  "judge_groups fl obs gs = (D, E, C) \<Longrightarrow>
     D = \<Union> {set (tl is) |s is. (s, is) \<in> set gs \<and> same_rows fl obs is}
     \<and> E = map fst (filter (\<lambda>(s, is). same_rows fl obs is) gs)
     \<and> map fst C = map fst (filter (\<lambda>(s, is). \<not> same_rows fl obs is) gs)"
  by (induction fl obs gs arbitrary: D E C rule: judge_groups.induct)
    (auto simp: Let_def same_rows_def split: prod.splits if_splits)

section \<open>What a resolution guarantees\<close>

lemma collapsed_eq:
  "map snd (filter (\<lambda>(i, row). i \<notin> D) (enumerate 0 obs)) = map ((!) obs) (filter (\<lambda>i. i \<notin> D) [0..<length obs])"
proof -
  have "enumerate 0 obs = map (\<lambda>i. (i, obs ! i)) [0..<length obs]"
    by (rule nth_equalityI) (simp_all add: nth_enumerate_eq)
  then show ?thesis by (simp add: filter_map comp_def)
qed

lemma filter_collapsed:
  "filter P (map ((!) obs) (filter (\<lambda>i. i \<notin> D) [0..<length obs])) =
     map ((!) obs) (filter (\<lambda>i. i \<notin> D) (filter (\<lambda>i. P (obs ! i)) [0..<length obs]))"
  by (simp add: filter_map comp_def conj_commute)

definition session_conflict :: "(rat \<Rightarrow> string) \<Rightarrow> string option \<Rightarrow> pyv list \<Rightarrow> bool" where
  "session_conflict fl as_of obs \<longleftrightarrow> (\<exists>r\<in>set obs. \<exists>r'\<in>set obs. row_session as_of r \<noteq> None
     \<and> row_session as_of r = row_session as_of r' \<and> row_identity fl r \<noteq> row_identity fl r')"

lemma set_session_indexes: "i \<in> set (session_indexes as_of obs s) \<longleftrightarrow> i < length obs \<and> row_session as_of (obs ! i) = Some s"
  by (auto simp: session_indexes_def)

lemma sorted_session_indexes: "sorted (session_indexes as_of obs s)" "distinct (session_indexes as_of obs s)"
  by (simp_all add: session_indexes_def sorted_wrt_filter)

lemma session_conflict_iff:
  "session_conflict fl as_of obs \<longleftrightarrow> (\<exists>s. length (session_indexes as_of obs s) > 1 \<and> \<not> same_rows fl obs (session_indexes as_of obs s))"
proof
  assume "session_conflict fl as_of obs"
  then obtain i j s where ij: "i < length obs" "j < length obs" "row_session as_of (obs ! i) = Some s"
    "row_session as_of (obs ! j) = Some s" "row_identity fl (obs ! i) \<noteq> row_identity fl (obs ! j)"
    by (auto simp: session_conflict_def in_set_conv_nth)
  let ?is = "session_indexes as_of obs s"
  have in_is: "i \<in> set ?is" "j \<in> set ?is" "i \<noteq> j" using ij by (auto simp: set_session_indexes)
  then have "length ?is > 1" by (cases ?is; cases "tl ?is") auto
  moreover have "\<not> same_rows fl obs ?is"
  proof -
    have "?is \<noteq> []" using in_is(1) by auto
    then show ?thesis using in_is(1,2) ij(5) unfolding same_rows_iff[OF \<open>?is \<noteq> []\<close>] by blast
  qed
  ultimately show "\<exists>s. length (session_indexes as_of obs s) > 1 \<and> \<not> same_rows fl obs (session_indexes as_of obs s)" by blast
next
  assume "\<exists>s. length (session_indexes as_of obs s) > 1 \<and> \<not> same_rows fl obs (session_indexes as_of obs s)"
  then obtain s i j where "i \<in> set (session_indexes as_of obs s)" "j \<in> set (session_indexes as_of obs s)"
    "row_identity fl (obs ! i) \<noteq> row_identity fl (obs ! j)"
    using same_rows_iff by (metis length_0_conv less_nat_zero_code)
  then show "session_conflict fl as_of obs"
    unfolding session_conflict_def set_session_indexes by (metis nth_mem option.distinct(1))
qed

definition dropped :: "(rat \<Rightarrow> string) \<Rightarrow> string option \<Rightarrow> pyv list \<Rightarrow> nat set" where
  \<comment> \<open>every later copy of a session whose copies are all the same\<close>
  "dropped fl as_of obs = (\<Union>s. if same_rows fl obs (session_indexes as_of obs s) then set (tl (session_indexes as_of obs s)) else {})"

lemma resolve_cases:
  obtains (conflict) "session_conflict fl as_of obs"
      "br_status (resolve_session_bars fl (VList obs) as_of) = ''CONFLICTING_DUPLICATE_REFUSED''"
      "br_observations (resolve_session_bars fl (VList obs) as_of) = VList []"
  | (kept) "\<not> session_conflict fl as_of obs"
      "br_status (resolve_session_bars fl (VList obs) as_of) \<in> {''UNIQUE'', ''EXACT_DUPLICATE_COLLAPSED''}"
      "br_observations (resolve_session_bars fl (VList obs) as_of) =
         VList (map ((!) obs) (filter (\<lambda>i. i \<notin> dropped fl as_of obs) [0..<length obs]))"
proof -
  let ?gs = "group_rows as_of 0 obs []" and ?rep = "filter (\<lambda>(s, is). length is > 1) (group_rows as_of 0 obs [])"
  have gs: "(s, is) \<in> set ?rep \<longleftrightarrow> is = session_indexes as_of obs s \<and> length is > 1" for s "is"
    using group_rows_start[of as_of obs] by (auto simp: groups_of_def)
  obtain D E C where judged: "judge_groups fl obs ?rep = (D, E, C)" by (metis prod_cases3)
  note j = judge_groups_eq[OF judged]
  have conf: "C \<noteq> [] \<longleftrightarrow> session_conflict fl as_of obs"
  proof -
    have "C \<noteq> [] \<longleftrightarrow> (\<exists>(s, is)\<in>set ?rep. \<not> same_rows fl obs is)"
      using j by (metis (mono_tags, lifting) filter_empty_conv list.map_disc_iff split_beta)
    also have "\<dots> \<longleftrightarrow> (\<exists>s is. (s, is) \<in> set ?rep \<and> \<not> same_rows fl obs is)" by auto
    finally show ?thesis unfolding session_conflict_iff gs by blast
  qed
  have D: "D = dropped fl as_of obs"
  proof -
    have short: "length (session_indexes as_of obs s) > 1" if "x \<in> set (tl (session_indexes as_of obs s))" for x s
      using that by (cases "session_indexes as_of obs s"; cases "tl (session_indexes as_of obs s)") auto
    have "x \<in> D \<longleftrightarrow> (\<exists>s is. (s, is) \<in> set ?rep \<and> same_rows fl obs is \<and> x \<in> set (tl is))" for x
      using j by blast
    also have "\<dots> x \<longleftrightarrow> x \<in> dropped fl as_of obs" for x
      unfolding gs dropped_def using short by auto
    finally show ?thesis by blast
  qed
  show thesis
  proof (cases "?rep = []")
    case True
    have "D = {}" using conjunct1[OF j] unfolding True by simp
    then have none: "dropped fl as_of obs = {}" using D by simp
    have "map ((!) obs) [0..<length obs] = obs" by (rule map_nth)
    moreover have "C = []" using conjunct2[OF conjunct2[OF j]] unfolding True by simp
    moreover from this have "\<not> session_conflict fl as_of obs" using conf by simp
    moreover have "resolve_session_bars fl (VList obs) as_of = unique_resolution (VList obs)"
      unfolding resolve_session_bars_def pyv.case Let_def if_P[OF True] ..
    ultimately show thesis using kept by (simp add: unique_resolution_def none)
  next
    case False
    show thesis
    proof (cases "C = []")
      case True
      then show thesis using kept conf
        unfolding resolve_session_bars_def pyv.case Let_def if_not_P[OF False] judged by (simp add: D collapsed_eq)
    next
      case C: False
      then show thesis using conflict conf
        unfolding resolve_session_bars_def pyv.case Let_def if_not_P[OF False] judged by simp
    qed
  qed
qed

lemma kept_copy:
  assumes "\<not> session_conflict fl as_of obs" "i < length obs" "row_session as_of (obs ! i) = Some s"
  shows "\<exists>j<length obs. j \<notin> dropped fl as_of obs \<and> row_session as_of (obs ! j) = Some s
    \<and> row_identity fl (obs ! j) = row_identity fl (obs ! i)"
proof -
  let ?is = "session_indexes as_of obs s"
  have i: "i \<in> set ?is" using assms(2,3) by (simp add: set_session_indexes)
  then obtain h t where h: "?is = h # t" by (cases ?is) auto
  have "h \<notin> dropped fl as_of obs"
  proof
    assume "h \<in> dropped fl as_of obs"
    then obtain u where u: "h \<in> set (tl (session_indexes as_of obs u))" by (auto simp: dropped_def split: if_splits)
    then have "h \<in> set (session_indexes as_of obs u)" by (cases "session_indexes as_of obs u") auto
    then have "u = s" using h set_session_indexes[of h as_of obs s] set_session_indexes[of h as_of obs u] by simp
    then show False using u h sorted_session_indexes(2)[of as_of obs s] by simp
  qed
  moreover have "h \<in> set ?is" using h by simp
  moreover have "row_identity fl (obs ! h) = row_identity fl (obs ! i)"
    using assms(1,2,3) \<open>h \<in> set ?is\<close> unfolding session_conflict_def set_session_indexes by (metis nth_mem option.distinct(1))
  ultimately show ?thesis by (auto simp: set_session_indexes)
qed

definition kept_rows :: "(rat \<Rightarrow> string) \<Rightarrow> string option \<Rightarrow> pyv list \<Rightarrow> pyv list" where
  "kept_rows fl as_of obs = map ((!) obs) (filter (\<lambda>i. i \<notin> dropped fl as_of obs) [0..<length obs])"

lemma dropped_session:
  "i \<in> dropped fl as_of obs \<Longrightarrow> \<exists>s. row_session as_of (obs ! i) = Some s \<and> i < length obs
      \<and> i \<in> set (tl (session_indexes as_of obs s))"
  using set_session_indexes[of i] by (auto simp: dropped_def split: if_splits) (metis list.set_sel(2) tl_Nil)

lemma subseq_kept_rows: "subseq (kept_rows fl as_of obs) obs"
  using subseq_map[OF subseq_filter_left, of "(!) obs" "\<lambda>i. i \<notin> dropped fl as_of obs" "[0..<length obs]"]
  by (simp add: kept_rows_def map_nth)

lemma kept_once:
  assumes "\<not> session_conflict fl as_of obs"
  shows "length (filter (\<lambda>r. row_session as_of r = Some s) (kept_rows fl as_of obs)) \<le> 1"
proof -
  have same: "same_rows fl obs (session_indexes as_of obs s)" if "session_indexes as_of obs s \<noteq> []"
    unfolding same_rows_iff[OF that]
  proof (intro ballI)
    fix i j assume "i \<in> set (session_indexes as_of obs s)" "j \<in> set (session_indexes as_of obs s)"
    then show "row_identity fl (obs ! i) = row_identity fl (obs ! j)"
      using assms unfolding session_conflict_def set_session_indexes by (metis nth_mem option.distinct(1))
  qed
  have "length (filter (\<lambda>i. i \<notin> dropped fl as_of obs) (session_indexes as_of obs s)) \<le> 1"
  proof (cases "session_indexes as_of obs s")
    case (Cons h t)
    then have "same_rows fl obs (h # t)" using same by simp
    then have "set t \<subseteq> dropped fl as_of obs" unfolding dropped_def using Cons by (force intro: exI[of _ s])
    then have "filter (\<lambda>i. i \<notin> dropped fl as_of obs) t = []" by (auto simp: filter_empty_conv)
    then show ?thesis by (simp add: Cons)
  qed simp
  then show ?thesis by (simp only: kept_rows_def filter_collapsed length_map session_indexes_def)
qed

lemma kept_identical:
  assumes "\<not> session_conflict fl as_of obs" "r \<in> set obs"
  shows "\<exists>r'\<in>set (kept_rows fl as_of obs). row_session as_of r' = row_session as_of r \<and> row_identity fl r' = row_identity fl r"
proof -
  obtain i where i: "i < length obs" "r = obs ! i" using assms(2) by (auto simp: in_set_conv_nth)
  show ?thesis
  proof (cases "row_session as_of r")
    case None
    then have "i \<notin> dropped fl as_of obs" using dropped_session i by fastforce
    then show ?thesis using i by (auto simp: kept_rows_def)
  next
    case (Some s)
    then show ?thesis using kept_copy[OF assms(1) i(1)] i by (auto simp: kept_rows_def)
  qed
qed

lemma kept_unchecked:
  "filter (\<lambda>r. row_session as_of r = None) (kept_rows fl as_of obs) = filter (\<lambda>r. row_session as_of r = None) obs"
proof -
  have "filter (\<lambda>i. i \<notin> dropped fl as_of obs) (filter (\<lambda>i. row_session as_of (obs ! i) = None) [0..<length obs])
      = filter (\<lambda>i. row_session as_of (obs ! i) = None) [0..<length obs]"
    using dropped_session by (intro filter_True) force
  then have "filter (\<lambda>r. row_session as_of r = None) (kept_rows fl as_of obs)
      = map ((!) obs) (filter (\<lambda>i. row_session as_of (obs ! i) = None) [0..<length obs])"
    unfolding kept_rows_def filter_collapsed by simp
  also have "\<dots> = filter (\<lambda>r. row_session as_of r = None) (map ((!) obs) [0..<length obs])"
    by (simp only: filter_map comp_def)
  finally show ?thesis by (simp add: map_nth)
qed

text \<open>
  A record is refused exactly if two of its rows for one session differ in their canonical text.
  Otherwise what is kept is a part of the record in its order, with at most one row for each session, an
  identical row for every row, and every row that is not checked - a later session, or no session at all.
\<close>

theorem session_bars_resolved:
  "(br_status (resolve_session_bars fl (VList obs) as_of) = ''CONFLICTING_DUPLICATE_REFUSED'' \<longleftrightarrow> session_conflict fl as_of obs)
   \<and> (session_conflict fl as_of obs
      \<or> (\<exists>kept. br_observations (resolve_session_bars fl (VList obs) as_of) = VList kept \<and> subseq kept obs
          \<and> (\<forall>s. length (filter (\<lambda>r. row_session as_of r = Some s) kept) \<le> 1)
          \<and> (\<forall>r\<in>set obs. \<exists>r'\<in>set kept. row_session as_of r' = row_session as_of r
               \<and> row_identity fl r' = row_identity fl r)
          \<and> filter (\<lambda>r. row_session as_of r = None) kept = filter (\<lambda>r. row_session as_of r = None) obs))"
proof (cases rule: resolve_cases[of fl as_of obs])
  case kept
  have rows: "br_observations (resolve_session_bars fl (VList obs) as_of) = VList (kept_rows fl as_of obs)"
    unfolding kept_rows_def by (rule kept(3))
  have "br_status (resolve_session_bars fl (VList obs) as_of) \<noteq> ''CONFLICTING_DUPLICATE_REFUSED''" using kept(2) by auto
  then show ?thesis using kept(1) rows subseq_kept_rows kept_once[OF kept(1)] kept_identical[OF kept(1)] kept_unchecked by blast
qed simp

theorem session_bars_resolved_witness:
  "\<exists>kept. br_observations (resolve_session_bars (\<lambda>r. ''1.0'') (VList [VDict [(''session'', VStr ''2026-09-15'')],
       VDict [(''session'', VStr ''2026-09-15'')], VNone]) None) = VList kept \<and> VNone \<in> set kept"
proof -
  let ?obs = "[VDict [(''session'', VStr ''2026-09-15'')], VDict [(''session'', VStr ''2026-09-15'')], VNone]"
  have st: "br_status (resolve_session_bars (\<lambda>r. ''1.0'') (VList ?obs) None) \<noteq> ''CONFLICTING_DUPLICATE_REFUSED''"
    by code_simp
  then obtain kept where kept: "br_observations (resolve_session_bars (\<lambda>r. ''1.0'') (VList ?obs) None) = VList kept"
    and f: "filter (\<lambda>r. row_session None r = None) kept = filter (\<lambda>r. row_session None r = None) ?obs"
    using session_bars_resolved[of "\<lambda>r. ''1.0''" ?obs None] by blast
  have "VNone \<in> set (filter (\<lambda>r. row_session None r = None) ?obs)" by code_simp
  then show ?thesis unfolding f[symmetric] using kept by auto
qed

text \<open>
  Two copies of a bar that differ only in whether a number is written as an \<open>int\<close> or as a \<open>float\<close> make a
  record unusable, and the report of the conflict names no field, since the values compare equal.
\<close>

theorem conflict_without_fields:
  "let r = resolve_session_bars (\<lambda>r. ''1.0'') (VList [VDict [(''session'', VStr ''2026-09-15''), (''volume'', VInt 1)],
       VDict [(''session'', VStr ''2026-09-15''), (''volume'', VFloat 1)]]) None
   in br_status r = ''CONFLICTING_DUPLICATE_REFUSED'' \<and> br_fields r = [(''2026-09-15'', [])]"
  by code_simp

end
