(* ===== verification/CanonicalJson.thy ===== *)
theory CanonicalJson
  imports PyValue
begin

text \<open>
  The canonical text of a value determines it: two values have the same \<open>json_dumps\<close> text exactly if they
  are equal up to the order of the items of their mappings (\<open>same_value\<close>).  It is what the content identities of the
  repository rest on (\<open>_canonical\<close> of \<open>share_transition_bridge.py\<close>, \<open>_canonical_json\<close> of
  \<open>official_corporate_action_ledger.py\<close> and \<open>qualified_corporate_action_factor_chain.py\<close>,
  \<open>_row_identity\<close> of \<open>session_bar_integrity.py\<close>): two values share an identity only if they are equal so,
  or the hash collides.
\<close>

section \<open>The texts of numbers\<close>

definition float_text :: "(rat \<Rightarrow> string) \<Rightarrow> bool" where
  \<comment> \<open>what is used of \<open>float.__repr__\<close>: one text for each number, of digits, signs, a point or an exponent,
      the last two setting it apart from the text of an \<open>int\<close>\<close>
  "float_text fl \<longleftrightarrow> inj fl \<and> (\<forall>r. (\<forall>c\<in>set (fl r). is_digit c \<or> c \<in> {CHR ''+'', CHR ''-'', CHR ''.'', CHR ''e''})
     \<and> (CHR ''.'' \<in> set (fl r) \<or> CHR ''e'' \<in> set (fl r)))"

definition number_of :: "string \<Rightarrow> nat" where
  "number_of s = foldl (\<lambda>a c. a * 10 + digit_value c) 0 s"

lemma number_of_digits [simp]: "number_of (digits_of_nat n) = n"
proof (induction n rule: digits_of_nat.induct)
  case (1 n)
  then show ?case by (cases "n < 10") (simp_all add: digits_of_nat.simps[of n] number_of_def)
qed

lemma digits_of_nat_digits: "c \<in> set (digits_of_nat n) \<Longrightarrow> is_digit c"
proof (induction n rule: digits_of_nat.induct)
  case (1 n)
  then show ?case by (cases "n < 10") (auto simp: digits_of_nat.simps[of n])
qed

lemma digits_of_nat_nonempty [simp]: "digits_of_nat n \<noteq> []"
  by (subst digits_of_nat.simps) simp

lemma minus_not_digit [simp]: "\<not> is_digit (CHR ''-'')"
  by (simp add: is_digit_def)

lemma minus_not_in_digits [simp]: "CHR ''-'' # xs \<noteq> digits_of_nat n" "digits_of_nat n \<noteq> CHR ''-'' # xs"
  using digits_of_nat_digits[of "CHR ''-''" n] by (metis list.set_intros(1) minus_not_digit)+

lemma str_of_int_inject [simp]: "str_of_int i = str_of_int j \<longleftrightarrow> i = j"
proof
  assume "str_of_int i = str_of_int j"
  then show "i = j"
    by (auto simp: str_of_int_def split: if_splits dest!: arg_cong[of _ _ number_of])
qed simp

lemma str_of_int_chars: "c \<in> set (str_of_int i) \<Longrightarrow> is_digit c \<or> c = CHR ''-''"
  by (auto simp: str_of_int_def digits_of_nat_digits split: if_splits)

lemma str_of_int_nonempty [simp]: "str_of_int i \<noteq> []"
  by (simp add: str_of_int_def)

section \<open>The texts of strings\<close>

definition special :: "char list" where
  "special = map char_of ([0..<32] @ [34, 92 :: nat])"

lemma json_escape_plain: "c \<notin> set special \<Longrightarrow> json_escape c = [c]"
proof -
  assume c: "c \<notin> set special"
  have "(of_char c :: nat) \<notin> set ([0..<32] @ [34, 92])"
  proof
    assume "(of_char c :: nat) \<in> set ([0..<32] @ [34, 92])"
    then have "char_of (of_char c :: nat) \<in> set special" unfolding special_def set_map by (rule imageI)
    then show False using c by simp
  qed
  then show ?thesis by (auto simp: json_escape_def Let_def)
qed

lemma json_escape_special: "c \<in> set special \<Longrightarrow> \<exists>d r. json_escape c = char_of (92::nat) # d # r"
  by (auto simp: json_escape_def Let_def special_def)

lemma special_shape: "c \<in> set special \<Longrightarrow>
    length (json_escape c) = (if json_escape c ! 1 = CHR ''u'' then 6 else 2)"
proof -
  have "list_all (\<lambda>c. length (json_escape c) = (if json_escape c ! 1 = CHR ''u'' then 6 else 2)) special"
    by code_simp
  then show "c \<in> set special \<Longrightarrow> length (json_escape c) = (if json_escape c ! 1 = CHR ''u'' then 6 else 2)"
    by (simp add: list_all_iff)
qed

lemma special_distinct: "inj_on json_escape (set special)"
proof -
  have "distinct (map json_escape special)" by code_simp
  then show ?thesis by (simp add: distinct_map)
qed

lemma backslash_special: "char_of (92::nat) \<in> set special" "char_of (34::nat) \<in> set special"
  by (simp_all add: special_def)

lemma json_escape_first: "\<exists>r. json_escape c = (if c \<in> set special then char_of (92::nat) else c) # r"
  using json_escape_plain json_escape_special by (cases "c \<in> set special") fastforce+

lemma escape_decodes:
  assumes "json_escape c @ x = json_escape d @ y"
  shows "c = d \<and> x = y"
proof -
  have "c = d"
  proof (cases "c \<in> set special \<and> d \<in> set special")
    case True
    have "json_escape c ! 1 = json_escape d ! 1"
      using json_escape_special[of c] json_escape_special[of d] True assms by auto
    then have "length (json_escape c) = length (json_escape d)" using special_shape True by simp
    then have "json_escape c = json_escape d" using assms by simp
    then show ?thesis using special_distinct True by (simp add: inj_onD)
  next
    case False
    then show ?thesis
      using json_escape_first[of c] json_escape_first[of d] assms backslash_special by (auto split: if_splits)
  qed
  then show ?thesis using assms by simp
qed

lemma escape_not_quote: "json_escape c @ x \<noteq> char_of (34::nat) # y"
  using json_escape_first[of c] backslash_special by (auto split: if_splits)

lemma json_string_decodes:
  assumes "json_string s @ x = json_string t @ y"
  shows "s = t \<and> x = y"
proof -
  have "concat (map json_escape s) @ char_of (34::nat) # x = concat (map json_escape t) @ char_of (34::nat) # y"
    using assms by (simp add: json_string_def)
  then show ?thesis
  proof (induction s arbitrary: t)
    case Nil
    then show ?case using escape_not_quote by (cases t) (auto dest: sym)
  next
    case (Cons c s)
    then show ?case
    proof (cases t)
      case Nil
      then show ?thesis using Cons.prems escape_not_quote by auto
    next
      case (Cons d t')
      then have "c = d \<and> concat (map json_escape s) @ char_of (34::nat) # x = concat (map json_escape t') @ char_of (34::nat) # y"
        using Cons.prems escape_decodes by simp
      then show ?thesis using Cons Cons.IH by simp
    qed
  qed
qed

section \<open>The texts of values\<close>

definition delim :: "char set" where
  "delim = {CHR '','', CHR '']'', CHR ''}''}"

definition ends_there :: "string \<Rightarrow> bool" where
  "ends_there s \<longleftrightarrow> s = [] \<or> hd s \<in> delim"

definition plain :: "pyv \<Rightarrow> bool" where
  "plain v \<longleftrightarrow> \<not> is_str v \<and> \<not> is_list v \<and> \<not> is_dict v"

lemma span_unique:
  assumes "xs @ s = ys @ t" "set xs \<inter> delim = {}" "set ys \<inter> delim = {}" "ends_there s" "ends_there t"
  shows "xs = ys \<and> s = t"
  using assms
proof (induction xs arbitrary: ys)
  case Nil
  then show ?case by (cases ys) (auto simp: ends_there_def)
next
  case (Cons x xs)
  then show ?case by (cases ys) (auto simp: ends_there_def)
qed

lemma quote_char [simp]: "char_of (34::nat) = CHR 0x22"
  by code_simp

lemma digit_not_delim: "is_digit c \<Longrightarrow> c \<notin> delim \<and> c \<notin> {CHR ''['', CHR ''{'', CHR 0x22}"
  by (auto simp: is_digit_def delim_def)

lemma plain_text:
  assumes "float_text fl" "plain v"
  shows "set (json_text fl v) \<inter> delim = {}" "json_text fl v \<noteq> []"
    "hd (json_text fl v) \<notin> {CHR ''['', CHR ''{'', CHR 0x22}"
proof -
  have "json_text fl v \<noteq> [] \<and> (\<forall>c\<in>set (json_text fl v). c \<notin> delim \<and> c \<notin> {CHR ''['', CHR ''{'', CHR 0x22})"
  proof (cases v)
    case (VInt i)
    then show ?thesis using str_of_int_chars[of _ i] digit_not_delim by (auto simp: delim_def)
  next
    case (VFloat r)
    then have chars: "\<forall>c\<in>set (fl r). is_digit c \<or> c \<in> {CHR ''+'', CHR ''-'', CHR ''.'', CHR ''e''}"
      and "CHR ''.'' \<in> set (fl r) \<or> CHR ''e'' \<in> set (fl r)"
      using assms(1) unfolding float_text_def by blast+
    moreover from this(2) have "fl r \<noteq> []" by force
    ultimately show ?thesis using VFloat digit_not_delim by (force simp: delim_def)
  qed (use assms(2) in \<open>auto simp: plain_def delim_def\<close>)
  then show "set (json_text fl v) \<inter> delim = {}" "json_text fl v \<noteq> []"
    "hd (json_text fl v) \<notin> {CHR ''['', CHR ''{'', CHR 0x22}"
    by (auto simp: hd_in_set)
qed

lemma plain_inj:
  assumes fl: "float_text fl" and "plain v" "plain w" "json_text fl v = json_text fl w"
  shows "v = w"
proof -
  have no_letter: "c \<notin> set (fl r)" if "c \<in> {CHR ''n'', CHR ''t'', CHR ''f''}" for c r
  proof -
    have "\<not> is_digit c" "c \<notin> {CHR ''+'', CHR ''-'', CHR ''.'', CHR ''e''}" using that by (auto simp: is_digit_def)
    then show ?thesis using fl unfolding float_text_def by blast
  qed
  have no_letter': "c \<notin> set (str_of_int i)" if "c \<in> {CHR ''n'', CHR ''t'', CHR ''f'', CHR ''.'', CHR ''e''}" for c i
    using str_of_int_chars[of c i] that by (auto simp: is_digit_def)
  have float_int: "fl r \<noteq> str_of_int i" for r i
  proof -
    have "CHR ''.'' \<in> set (fl r) \<or> CHR ''e'' \<in> set (fl r)" using fl unfolding float_text_def by blast
    moreover have "CHR ''.'' \<notin> set (str_of_int i)" "CHR ''e'' \<notin> set (str_of_int i)" by (rule no_letter', blast)+
    ultimately show ?thesis by metis
  qed
  have starts: "xs \<noteq> c # ys" if "c \<notin> set xs" for xs ys and c :: char
    using that by auto
  have words: "fl r \<noteq> ''null''" "fl r \<noteq> ''true''" "fl r \<noteq> ''false''" "str_of_int i \<noteq> ''null''" "str_of_int i \<noteq> ''true''"
    "str_of_int i \<noteq> ''false''" for r i
    by (rule starts, rule no_letter, blast | rule starts, rule no_letter', blast)+
  have "inj fl" using fl by (simp add: float_text_def)
  then show ?thesis
    using assms(2-4)
    by (cases v; cases w)
      (auto simp: plain_def inj_eq words words[symmetric] float_int float_int[symmetric] split: if_splits)
qed

lemma json_text_head:
  assumes "float_text fl"
  shows "json_text fl v \<noteq> []" "hd (json_text fl v) \<notin> delim"
    "hd (json_text fl v) = CHR ''['' \<longleftrightarrow> is_list v" "hd (json_text fl v) = CHR ''{'' \<longleftrightarrow> is_dict v"
    "hd (json_text fl v) = CHR 0x22 \<longleftrightarrow> is_str v"
proof -
  have "json_text fl v \<noteq> [] \<and> hd (json_text fl v) \<notin> delim
    \<and> (hd (json_text fl v) = CHR ''['' \<longleftrightarrow> is_list v) \<and> (hd (json_text fl v) = CHR ''{'' \<longleftrightarrow> is_dict v)
    \<and> (hd (json_text fl v) = CHR 0x22 \<longleftrightarrow> is_str v)"
  proof (cases "plain v")
    case True
    from plain_text[OF assms True] have p: "json_text fl v \<noteq> []" "hd (json_text fl v) \<notin> delim"
      "hd (json_text fl v) \<notin> {CHR ''['', CHR ''{'', CHR 0x22}"
      using hd_in_set[of "json_text fl v"] by blast+
    moreover have "\<not> is_list v" "\<not> is_dict v" "\<not> is_str v" using True by (simp_all add: plain_def)
    ultimately show ?thesis by simp
  next
    case False
    then show ?thesis by (cases v) (auto simp: plain_def json_string_def delim_def)
  qed
  then show "json_text fl v \<noteq> []" "hd (json_text fl v) \<notin> delim"
    "hd (json_text fl v) = CHR ''['' \<longleftrightarrow> is_list v" "hd (json_text fl v) = CHR ''{'' \<longleftrightarrow> is_dict v"
    "hd (json_text fl v) = CHR 0x22 \<longleftrightarrow> is_str v" by blast+
qed

text \<open>A comma-separated sequence of uniquely readable texts is uniquely readable up to its closing bracket.\<close>

lemma join_decodes:
  assumes element: "\<And>x y s t. x \<in> set xs \<Longrightarrow> f x @ s = f y @ t \<Longrightarrow> ends_there s \<Longrightarrow> ends_there t \<Longrightarrow> x = y \<and> s = t"
    and first: "\<And>x. f x \<noteq> [] \<and> hd (f x) \<notin> delim" and close: "b \<in> {CHR '']'', CHR ''}''}"
    and "str_join '','' (map f xs) @ b # s = str_join '','' (map f ys) @ b # t"
  shows "xs = ys \<and> s = t"
  using element assms(4)
proof (induction xs arbitrary: ys)
  case Nil
  show ?case
  proof (cases ys)
    case (Cons y zs)
    then show ?thesis
      using Nil.prems(2) first[of y] close by (cases zs; cases "f y") (auto simp: delim_def)
  qed (use Nil in auto)
next
  case (Cons x xs)
  have join: "str_join '','' (map f (z # zs)) @ b # u =
      f z @ (if zs = [] then b # u else CHR '','' # str_join '','' (map f zs) @ b # u)" for z zs u
    by (cases zs) simp_all
  have ends: "ends_there (if zs = [] then b # u else CHR '','' # v)" for zs :: "'a list" and u v
    using close by (auto simp: ends_there_def delim_def)
  show ?case
  proof (cases ys)
    case Nil
    then show ?thesis using Cons.prems(2) first[of x] close unfolding join
      by (cases "f x") (auto simp: delim_def)
  next
    case ys: (Cons y ys')
    from Cons.prems(2) have "f x @ (if xs = [] then b # s else CHR '','' # str_join '','' (map f xs) @ b # s)
        = f y @ (if ys' = [] then b # t else CHR '','' # str_join '','' (map f ys') @ b # t)"
      unfolding ys join .
    from Cons.prems(1)[OF _ this ends ends] have "x = y"
      and rest: "(if xs = [] then b # s else CHR '','' # str_join '','' (map f xs) @ b # s)
        = (if ys' = [] then b # t else CHR '','' # str_join '','' (map f ys') @ b # t)" by auto
    have "b \<noteq> CHR '',''" using close by auto
    then consider "xs = []" "ys' = []" "s = t" | "xs \<noteq> []" "ys' \<noteq> []"
      "str_join '','' (map f xs) @ b # s = str_join '','' (map f ys') @ b # t"
      using rest by (cases "xs = []"; cases "ys' = []") simp_all
    then have "xs = ys' \<and> s = t"
    proof cases
      case 2
      then show ?thesis using Cons.IH[of ys'] Cons.prems(1) by (meson list.set_intros(2))
    qed simp
    then show ?thesis using ys \<open>x = y\<close> by simp
  qed
qed

definition item_text :: "(rat \<Rightarrow> string) \<Rightarrow> string \<times> pyv \<Rightarrow> string" where
  "item_text fl kv = json_string (fst kv) @ '':'' @ json_text fl (snd kv)"

lemma json_text_dict: "json_text fl (VDict d) = ''{'' @ str_join '','' (map (item_text fl) d) @ ''}''"
proof -
  have "(\<lambda>kv. json_string (fst kv) @ '':'' @ snd kv) \<circ> map_prod id (json_text fl) = item_text fl"
    by (auto simp: item_text_def)
  then show ?thesis by simp
qed

lemma item_decodes:
  assumes "item_text fl (k, v) @ s = item_text fl (l, w) @ t"
    and "\<And>s t. json_text fl v @ s = json_text fl w @ t \<Longrightarrow> ends_there s \<Longrightarrow> ends_there t \<Longrightarrow> v = w \<and> s = t"
    and "ends_there s" "ends_there t"
  shows "(k, v) = (l, w) \<and> s = t"
proof -
  from assms(1) have "json_string k @ '':'' @ json_text fl v @ s = json_string l @ '':'' @ json_text fl w @ t"
    by (simp add: item_text_def)
  from json_string_decodes[OF this] have "k = l" "json_text fl v @ s = json_text fl w @ t" by simp_all
  then show ?thesis using assms(2-4) by auto
qed

lemma same_head:
  assumes "float_text fl" "json_text fl v @ s = json_text fl w @ t"
  shows "is_str w = is_str v" "is_list w = is_list v" "is_dict w = is_dict v" "plain w = plain v"
proof -
  have "hd (json_text fl w) = hd (json_text fl v)"
    using arg_cong[OF assms(2), of hd] json_text_head(1)[OF assms(1)] by simp
  then show "is_str w = is_str v" "is_list w = is_list v" "is_dict w = is_dict v"
    using json_text_head(3-5)[OF assms(1), of v] json_text_head(3-5)[OF assms(1), of w] by simp_all
  then show "plain w = plain v" by (simp add: plain_def)
qed

lemma plain_decodes:
  assumes "float_text fl" "plain v" "json_text fl v @ s = json_text fl w @ t" "ends_there s" "ends_there t"
  shows "v = w \<and> s = t"
proof -
  have "plain w" using same_head(4)[OF assms(1,3)] assms(2) by simp
  then show ?thesis
    using span_unique[OF assms(3) plain_text(1)[OF assms(1,2)] plain_text(1)[OF assms(1)] assms(4,5)]
      plain_inj[OF assms(1,2)] by blast
qed

lemma json_text_decodes:
  assumes fl: "float_text fl"
  shows "json_text fl v @ s = json_text fl w @ t \<Longrightarrow> ends_there s \<Longrightarrow> ends_there t \<Longrightarrow> v = w \<and> s = t"
proof (induction v arbitrary: w s t)
  case (VStr x)
  have "is_str w" using same_head[OF fl VStr.prems(1)] by simp
  then obtain y where "w = VStr y" by (cases w) auto
  then show ?case using json_string_decodes[of x s y t] VStr.prems(1) by simp
next
  case (VList xs)
  have "is_list w" using same_head[OF fl VList.prems(1)] by simp
  then obtain ys where w: "w = VList ys" by (cases w) auto
  have "xs = ys \<and> s = t"
  proof (rule join_decodes[where f = "json_text fl" and b = "CHR '']''"])
    show "x = y \<and> s = t" if "x \<in> set xs" "json_text fl x @ s = json_text fl y @ t" "ends_there s" "ends_there t" for x y s t
      using VList.IH that by blast
    show "json_text fl x \<noteq> [] \<and> hd (json_text fl x) \<notin> delim" for x
      using json_text_head(1,2)[OF fl] by blast
    show "str_join '','' (map (json_text fl) xs) @ CHR '']'' # s = str_join '','' (map (json_text fl) ys) @ CHR '']'' # t"
      using VList.prems(1) unfolding w by simp
  qed simp
  then show ?case using w by simp
next
  case (VDict d)
  have "is_dict w" using same_head[OF fl VDict.prems(1)] by simp
  then obtain e where w: "w = VDict e" by (cases w) auto
  have "d = e \<and> s = t"
  proof (rule join_decodes[where f = "item_text fl" and b = "CHR ''}''"])
    show "x = y \<and> s = t" if "x \<in> set d" "item_text fl x @ s = item_text fl y @ t" "ends_there s" "ends_there t" for x y s t
    proof -
      obtain k v l u where xy: "x = (k, v)" "y = (l, u)" by (cases x; cases y)
      have "v \<in> Basic_BNFs.snds x" by (simp add: xy)
      note ih = VDict.IH[OF that(1) this]
      show ?thesis unfolding xy
        by (rule item_decodes[OF that(2)[unfolded xy] ih that(3,4)])
    qed
    show "item_text fl x \<noteq> [] \<and> hd (item_text fl x) \<notin> delim" for x
      by (simp add: item_text_def json_string_def delim_def)
    show "str_join '','' (map (item_text fl) d) @ CHR ''}'' # s = str_join '','' (map (item_text fl) e) @ CHR ''}'' # t"
      using VDict.prems(1) unfolding w json_text_dict by simp
  qed simp
  then show ?case using w by simp
qed (rule plain_decodes[OF fl], simp add: plain_def, assumption+)+

lemma json_dumps_inject:
  assumes "float_text fl" "json_dumps fl v = json_dumps fl w"
  shows "sort_keys v = sort_keys w"
  using json_text_decodes[OF assms(1), of "sort_keys v" "[]" "sort_keys w" "[]"] assms(2)
  by (simp add: json_dumps_def ends_there_def)

lemma map_of_sort_key [simp]: "map_of (sort_key fst d) = (map_of d :: 'k::linorder \<rightharpoonup> 'v)"
proof
  fix k
  have first: "map_of e k = map_of (filter (\<lambda>kv. fst kv = k) e) k" for e :: "('k \<times> 'v) list"
    by (induction e) auto
  show "map_of (sort_key fst d) k = map_of d k"
    using first[of "sort_key fst d"] first[of d] sort_key_stable[of fst k d] by simp
qed

lemma map_of_map_prod: "map_of (map (map_prod id f) d) k = map_option f (map_of d k)"
  by (induction d) auto

lemma oget_sort_keys: "oget (the_dict (sort_keys (VDict d))) k = sort_keys (oget d k)"
  by (simp add: oget_def map_of_map_prod split: option.split)

lemma sort_keys_eq_str [simp]: "sort_keys v = VStr s \<longleftrightarrow> v = VStr s"
  by (cases v) auto

definition sample_float :: "rat \<Rightarrow> string" where
  "sample_float r = str_of_int (fst (quotient_of r)) @ ''.'' @ str_of_int (snd (quotient_of r))"

lemma sample_float_text: "float_text sample_float"
proof -
  have "quotient_of r = quotient_of s" if eq: "sample_float r = sample_float s" for r s
  proof -
    have free: "CHR ''.'' \<notin> set (str_of_int i)" for i using str_of_int_chars[of "CHR ''.''" i] by (auto simp: is_digit_def)
    have "str_of_int (fst (quotient_of r)) = str_of_int (fst (quotient_of s))
        \<and> str_of_int (snd (quotient_of r)) = str_of_int (snd (quotient_of s))"
      using eq free append_Cons_eq_iff[of "CHR ''.''"] unfolding sample_float_def by simp
    then show ?thesis by (simp add: prod_eq_iff)
  qed
  then have "inj sample_float" by (metis injI quotient_of_inject)
  then show ?thesis
    by (auto simp: float_text_def sample_float_def dest: str_of_int_chars)
qed

section \<open>Texts and hashes\<close>

text \<open>What the modules print of floats and containers, and the hash, are fields of one environment.\<close>

record text_env =
  te_repr :: "pyv \<Rightarrow> string"
  te_float :: "rat \<Rightarrow> string"
  te_sha :: "string \<Rightarrow> string"

definition to_text :: "text_env \<Rightarrow> pyv \<Rightarrow> string" where
  "to_text env = py_str (te_repr env)"

definition canonical :: "text_env \<Rightarrow> pyv \<Rightarrow> string" where
  "canonical env v = json_dumps (te_float env) v"

definition content_hash :: "text_env \<Rightarrow> obj \<Rightarrow> string" where
  "content_hash env d = te_sha env (canonical env (VDict d))"

section \<open>What an identity determines\<close>

text \<open>
  Two values are the same if they are of one type and equal, lists item by item, mappings as \<open>dict\<close> compares
  them: as many keys in one as in the other, and each key of the one in the other with the same value.
  Unlike \<open>==\<close> it sets \<open>1\<close>, \<open>1.0\<close> and \<open>True\<close> apart.  A \<open>dict\<close> has each key once.
\<close>

primrec same_value :: "pyv \<Rightarrow> pyv \<Rightarrow> bool" where
  "same_value VNone w = (w = VNone)"
| "same_value (VBool b) w = (w = VBool b)"
| "same_value (VInt i) w = (w = VInt i)"
| "same_value (VFloat r) w = (w = VFloat r)"
| "same_value (VStr s) w = (w = VStr s)"
| "same_value (VList xs) w = (is_list w \<and> list_all2 (\<lambda>f y. f y) (map same_value xs) (the_list w))"
| "same_value (VDict d) w = (is_dict w \<and> length d = length (the_dict w)
     \<and> list_all (\<lambda>(k, f). case map_of (the_dict w) k of None \<Rightarrow> False | Some y \<Rightarrow> f y) (map (map_prod id same_value) d))"

primrec keyed_once :: "pyv \<Rightarrow> bool" where
  "keyed_once VNone = True"
| "keyed_once (VBool b) = True"
| "keyed_once (VInt i) = True"
| "keyed_once (VFloat r) = True"
| "keyed_once (VStr s) = True"
| "keyed_once (VList xs) = list_all (\<lambda>b. b) (map keyed_once xs)"
| "keyed_once (VDict d) = (distinct (map fst d) \<and> list_all snd (map (map_prod id keyed_once) d))"

lemma keyed_once_item: "keyed_once (VDict d) \<Longrightarrow> map_of d k = Some x \<Longrightarrow> keyed_once x"
  by (auto simp: list_all_iff dest!: map_of_SomeD)

lemma same_value_dict:
  "same_value (VDict d) (VDict e) \<longleftrightarrow> length d = length e
     \<and> (\<forall>(k, x)\<in>set d. \<exists>y. map_of e k = Some y \<and> same_value x y)"
  by (auto simp: list_all_iff split: option.splits)

lemma sort_keys_dict:
  assumes d: "distinct (map fst d)" and e: "distinct (map fst e)"
  shows "sort_keys (VDict d) = sort_keys (VDict e) \<longleftrightarrow> length d = length e
    \<and> (\<forall>(k, x)\<in>set d. \<exists>y. map_of e k = Some y \<and> sort_keys x = sort_keys y)"
proof
  let ?f = "map (map_prod id sort_keys)"
  assume "sort_keys (VDict d) = sort_keys (VDict e)"
  then have eq: "sort_key fst (?f d) = sort_key fst (?f e)" by simp
  have "length d = length e" using arg_cong[OF eq, of length] by simp
  moreover have "\<exists>y. map_of e k = Some y \<and> sort_keys x = sort_keys y" if "(k, x) \<in> set d" for k x
  proof -
    have "map_of (?f d) k = map_of (?f e) k" using arg_cong[OF eq, of map_of] by simp
    then have "map_option sort_keys (map_of d k) = map_option sort_keys (map_of e k)" by (simp only: map_of_map_prod)
    then show ?thesis using map_of_is_SomeI[OF d that] by (cases "map_of e k") simp_all
  qed
  ultimately show "length d = length e \<and> (\<forall>(k, x)\<in>set d. \<exists>y. map_of e k = Some y \<and> sort_keys x = sort_keys y)" by blast
next
  let ?f = "map (map_prod id sort_keys)"
  assume asm: "length d = length e \<and> (\<forall>(k, x)\<in>set d. \<exists>y. map_of e k = Some y \<and> sort_keys x = sort_keys y)"
  have keys: "map fst (?f xs) = map fst xs" for xs :: obj by (induction xs) auto
  have dist: "distinct (?f d)" "distinct (?f e)" using d e by (metis distinct_map keys)+
  have "set (?f d) \<subseteq> set (?f e)"
  proof
    fix p assume "p \<in> set (?f d)"
    then obtain k x where x: "(k, x) \<in> set d" "p = (k, sort_keys x)" by auto
    then obtain y where "map_of e k = Some y" "sort_keys x = sort_keys y" using asm by blast
    then show "p \<in> set (?f e)" using x(2) map_of_SomeD[of e k y] by force
  qed
  moreover have "card (set (?f d)) = card (set (?f e))" using distinct_card[OF dist(1)] distinct_card[OF dist(2)] asm by (simp del: set_map)
  ultimately have "set (?f d) = set (?f e)" by (intro card_subset_eq) simp_all
  then have "mset (?f d) = mset (?f e)" using dist by (simp only: set_eq_iff_mset_eq_distinct)
  moreover have "inj_on fst (set (?f d))" using d by (metis distinct_map keys)
  ultimately have "sort_key fst (?f d) = sort_key fst (?f e)" by (rule sort_key_perm_inj)
  then show "sort_keys (VDict d) = sort_keys (VDict e)" by simp
qed

lemma sort_keys_eq_scalar:
  "VNone = sort_keys w \<longleftrightarrow> w = VNone" "VBool b = sort_keys w \<longleftrightarrow> w = VBool b" "VInt i = sort_keys w \<longleftrightarrow> w = VInt i"
  "VFloat r = sort_keys w \<longleftrightarrow> w = VFloat r" "VStr s = sort_keys w \<longleftrightarrow> w = VStr s"
  by (cases w; auto)+

lemma sort_keys_same: "keyed_once v \<Longrightarrow> keyed_once w \<Longrightarrow> sort_keys v = sort_keys w \<longleftrightarrow> same_value v w"
proof (induction v arbitrary: w)
  case (VList xs)
  show ?case
  proof (cases w)
    case (VList ys)
    have "sort_keys x = sort_keys y \<longleftrightarrow> same_value x y" if "x \<in> set xs" "y \<in> set ys" for x y
      using VList.IH[OF that(1)] VList.prems that unfolding VList by (simp add: list_all_iff)
    then have "list_all2 (\<lambda>x y. sort_keys x = sort_keys y) xs ys \<longleftrightarrow> list_all2 same_value xs ys"
      by (intro iffI; elim list.rel_mono_strong) blast+
    then show ?thesis using VList
      by (simp add: list_all2_map1 list_all2_map2 list_eq_iff_nth_eq list_all2_conv_all_nth cong: conj_cong)
  qed auto
next
  case (VDict d)
  show ?case
  proof (cases w)
    case (VDict e)
    have at: "sort_keys x = sort_keys y \<longleftrightarrow> same_value x y" if "(k, x) \<in> set d" "map_of e k = Some y" for k x y
    proof -
      have "map_of d k = Some x" using VDict.prems(1) that(1) by simp
      then have "keyed_once x" "keyed_once y" using VDict.prems keyed_once_item that(2) unfolding VDict by blast+
      moreover have "x \<in> Basic_BNFs.snds (k, x)" by simp
      ultimately show ?thesis using VDict.IH that(1) by blast
    qed
    have keys: "distinct (map fst d)" "distinct (map fst e)" using VDict.prems unfolding VDict by simp_all
    have "(\<exists>y. map_of e k = Some y \<and> sort_keys x = sort_keys y) \<longleftrightarrow> (\<exists>y. map_of e k = Some y \<and> same_value x y)"
      if "(k, x) \<in> set d" for k x
      using at[OF that] by blast
    then show ?thesis unfolding VDict sort_keys_dict[OF keys] same_value_dict by blast
  qed auto
qed (simp_all add: sort_keys_eq_scalar)

lemma canonical_inject:
  assumes "float_text (te_float env)" "keyed_once v" "keyed_once w"
  shows "canonical env v = canonical env w \<longleftrightarrow> same_value v w"
  using json_dumps_inject[OF assms(1), of v w] sort_keys_same[OF assms(2,3)]
  by (auto simp: canonical_def json_dumps_def)

definition sample_text_env :: text_env where
  "sample_text_env = \<lparr>te_repr = (\<lambda>v. []), te_float = sample_float, te_sha = id\<rparr>"

text \<open>
  C40. An identity stands for the content: the content identities of two mappings are equal exactly if the
  mappings are the same, whatever the order of their items at any depth, so the order never makes two
  identities of one content, and no difference, not even the one between \<open>1\<close>, \<open>1.0\<close> and \<open>True\<close>, which \<open>==\<close>
  does not see, is lost.  Floats have texts of their own and the hash does not collide.
\<close>

theorem content_identity:
  assumes "float_text (te_float env)" "inj (te_sha env)" "keyed_once (VDict a)" "keyed_once (VDict b)"
  shows "content_hash env a = content_hash env b \<longleftrightarrow> same_value (VDict a) (VDict b)"
  using canonical_inject[OF assms(1,3,4)] inj_eq[OF assms(2)] unfolding content_hash_def by blast

theorem content_identity_witness:
  "content_hash sample_text_env [(''b'', VList [VInt 1]), (''a'', VFloat (1 / 2))]
     = content_hash sample_text_env [(''a'', VFloat (1 / 2)), (''b'', VList [VInt 1])]
   \<and> content_hash sample_text_env [(''b'', VInt 1)] \<noteq> content_hash sample_text_env [(''b'', VFloat 1)]"
proof -
  have env: "float_text (te_float sample_text_env)" "inj (te_sha sample_text_env)"
    by (simp_all add: sample_text_env_def sample_float_text)
  have "same_value (VDict [(''b'', VList [VInt 1]), (''a'', VFloat (1 / 2))]) (VDict [(''a'', VFloat (1 / 2)), (''b'', VList [VInt 1])])"
    "\<not> same_value (VDict [(''b'', VInt 1)]) (VDict [(''b'', VFloat 1)])" by simp_all
  then show ?thesis by (simp add: content_identity[OF env])
qed

end
