(* ===== verification/ShareTransition.thy ===== *)
theory ShareTransition
  imports CanonicalJson
begin

text \<open>
  The chain of common-share counts, \<open>stocklookup_core/evidence/share_transition_bridge.py\<close>, and the
  authority of a current count, \<open>stocklookup_core/evidence/current_share_authority.py\<close>.  Openings,
  events, candidates and actions are untyped mappings.  The text of floats and containers and the hash are
  fields of \<open>text_env\<close> of \<open>CanonicalJson\<close>.
\<close>

section \<open>Share transitions\<close>

definition share_changing_actions :: "string list" where
  "share_changing_actions = [''stock_dividend'', ''bonus_share'', ''rights_issue'', ''stock_split'']"

definition bridge_identity :: "text_env \<Rightarrow> obj \<Rightarrow> string" where
  "bridge_identity env d = ''share-bridge-'' @ te_sha env (canonical env (VDict d))"

definition iso_date :: "text_env \<Rightarrow> pyv \<Rightarrow> string option" where
  \<comment> \<open>\<open>date.fromisoformat(str(value)).isoformat()\<close>, \<open>None\<close> when it raises\<close>
  "iso_date env v = map_option date_isoformat (date_fromisoformat (to_text env v))"

definition qualified_identity :: "obj \<Rightarrow> bool" where
  "qualified_identity d \<longleftrightarrow>
     is_int (oget d ''value'') \<and> \<not> is_bool (oget d ''value'') \<and> the_int (oget d ''value'') > 0
     \<and> oget d ''unit'' = VStr ''shares'' \<and> oget d ''share_class'' = VStr ''common_outstanding''
     \<and> oget d ''identity_scope'' = VStr ''issuer'' \<and> oget d ''qualification'' = VStr ''qualified''
     \<and> v_true (oget d ''source_hash'') \<and> v_true (oget d ''citation_id'')"

record blocked_event =
  bl_event_id :: "string option"
  bl_reason :: string

record applied_event =
  ap_event_id :: string
  ap_action :: string
  ap_effective :: string
  ap_opening :: int
  ap_resulting :: int
  ap_ratio :: pyv
  ap_citation :: pyv
  ap_source_hash :: pyv

record share_identity =
  sh_value :: int
  sh_effective :: string
  sh_citations :: "pyv list"
  sh_record_id :: string

record share_result =
  sr_status :: string
  sr_target :: string
  sr_coverage :: "string option"
  sr_latest :: "share_identity option"
  sr_applied :: "applied_event list"
  sr_blocked :: "blocked_event list"
  sr_value :: "int option"
  sr_qualified :: bool
  sr_reason :: string

definition blocked_result :: "string \<Rightarrow> string \<Rightarrow> share_result" where
  "blocked_result target reason =
     \<lparr>sr_status = ''blocked'', sr_target = target, sr_coverage = None, sr_latest = None, sr_applied = [],
      sr_blocked = [\<lparr>bl_event_id = None, bl_reason = reason\<rparr>], sr_value = None, sr_qualified = False, sr_reason = reason\<rparr>"

text \<open>The events by identifier, with those already seen in conflict and the blocked ones.\<close>

fun unique_events ::
  "text_env \<Rightarrow> obj list \<Rightarrow> (string \<times> obj) list \<times> string list \<times> blocked_event list
     \<Rightarrow> (string \<times> obj) list \<times> string list \<times> blocked_event list" where
  "unique_events env [] acc = acc"
| "unique_events env (event # events) (unique, conflicted, blocked) =
     (let event_id = to_text env (v_or (oget event ''event_id'') (VStr [])) in
      unique_events env events
        (if event_id = [] then (unique, conflicted, blocked @ [\<lparr>bl_event_id = None, bl_reason = ''event_identity_missing''\<rparr>])
         else (case map_of unique event_id of
           Some existing \<Rightarrow>
             if canonical env (VDict existing) \<noteq> canonical env (VDict event)
             then (unique, conflicted @ [event_id], blocked @ [\<lparr>bl_event_id = Some event_id, bl_reason = ''conflicting_duplicate_event''\<rparr>])
             else (aset unique event_id event, conflicted, blocked)
         | None \<Rightarrow> (aset unique event_id event, conflicted, blocked))))"

definition event_key :: "text_env \<Rightarrow> obj \<Rightarrow> string \<times> string" where
  "event_key env e = ((case iso_date env (oget e ''effective_date'') of Some d \<Rightarrow> d | None \<Rightarrow> ''9999-12-31''),
     to_text env (oget e ''event_id''))"

record chain_state =
  ch_value :: int
  ch_date :: string
  ch_lineage :: "pyv list"
  ch_applied :: "applied_event list"
  ch_blocked :: "blocked_event list"

definition block :: "string \<Rightarrow> string \<Rightarrow> chain_state \<Rightarrow> chain_state" where
  "block event_id reason c = c\<lparr>ch_blocked := ch_blocked c @ [\<lparr>bl_event_id = Some event_id, bl_reason = reason\<rparr>]\<rparr>"

definition is_none_or :: "pyv \<Rightarrow> int \<Rightarrow> bool" where
  \<comment> \<open>\<open>v in (None, n)\<close>\<close>
  "is_none_or v n \<longleftrightarrow> v = VNone \<or> num_of v = Some (of_int n)"

definition apply_event :: "text_env \<Rightarrow> string \<Rightarrow> obj \<Rightarrow> chain_state \<Rightarrow> chain_state res" where
  "apply_event env target event c =
     (let event_id = to_text env (oget event ''event_id'');
          action = oget event ''action_type'';
          resulting = oget event ''resulting_shares''
      in case iso_date env (oget event ''effective_date'') of
        None \<Rightarrow> Inr (block event_id ''event_effective_date_invalid'' c)
      | Some effective \<Rightarrow>
          if effective > target then Inr c
          else if effective < ch_date c then Inr (block event_id ''event_precedes_resolved_identity'' c)
          else if oget event ''qualification'' \<noteq> VStr ''qualified'' \<or> \<not> v_true (oget event ''source_hash'')
            \<or> \<not> v_true (oget event ''citation_id'')
          then Inr (block event_id ''event_evidence_unqualified'' c)
          else if action = VStr ''cash_dividend'' then
            (if \<not> is_none_or resulting (ch_value c) \<or> \<not> is_none_or (oget event ''share_delta'') 0
             then Inr (block event_id ''cash_dividend_changes_share_count'' c)
             else Inr (c\<lparr>ch_applied := ch_applied c @ [\<lparr>ap_event_id = event_id, ap_action = ''cash_dividend'', ap_effective = effective,
                      ap_opening = ch_value c, ap_resulting = ch_value c, ap_ratio = VNone,
                      ap_citation = oget event ''citation_id'', ap_source_hash = oget event ''source_hash''\<rparr>],
                    ch_date := effective, ch_lineage := ch_lineage c @ [oget event ''citation_id'']\<rparr>))
          else if is_list action \<or> is_dict action then raise TypeError ''unhashable type''
          else if action \<notin> VStr ` set share_changing_actions then Inr (block event_id ''unsupported_share_action'' c)
          else if oget event ''lifecycle'' \<noteq> VStr ''completed'' then Inr (block event_id ''share_action_completion_unqualified'' c)
          else if oget event ''resulting_identity_type'' \<noteq> VStr ''common_outstanding_shares''
            \<or> oget event ''unit'' \<noteq> VStr ''shares'' \<or> oget event ''identity_scope'' \<noteq> VStr ''issuer''
          then Inr (block event_id ''resulting_share_identity_unqualified'' c)
          else if \<not> is_int resulting \<or> is_bool resulting \<or> the_int resulting \<le> 0
          then Inr (block event_id ''direct_resulting_share_identity_missing'' c)
          else if \<not> is_none_or (oget event ''opening_shares'') (ch_value c)
          then Inr (block event_id ''event_opening_share_conflict'' c)
          else Inr (c\<lparr>ch_applied := ch_applied c @ [\<lparr>ap_event_id = event_id, ap_action = the_str action, ap_effective = effective,
                   ap_opening = ch_value c, ap_resulting = the_int resulting, ap_ratio = oget event ''ratio'',
                   ap_citation = oget event ''citation_id'', ap_source_hash = oget event ''source_hash''\<rparr>],
                 ch_value := the_int resulting, ch_date := effective,
                 ch_lineage := ch_lineage c @ [oget event ''citation_id'']\<rparr>))"

definition latest_identity :: "text_env \<Rightarrow> chain_state \<Rightarrow> share_identity" where
  "latest_identity env c =
     \<lparr>sh_value = ch_value c, sh_effective = ch_date c, sh_citations = ch_lineage c,
      sh_record_id = bridge_identity env
        [(''value'', VInt (ch_value c)), (''effective_date'', VStr (ch_date c)), (''unit'', VStr ''shares''),
         (''share_class'', VStr ''common_outstanding''),
         (''identity_type'', VStr ''latest_qualified_historical_shares_outstanding''),
         (''citation_ids'', VList (ch_lineage c))]\<rparr>"

definition finish_chain :: "text_env \<Rightarrow> string \<Rightarrow> string option \<Rightarrow> chain_state \<Rightarrow> share_result" where
  "finish_chain env target coverage_through c =
     (let coverage = (case coverage_through of None \<Rightarrow> None | Some x \<Rightarrow> iso_date env (VStr x));
          blocked = ch_blocked c @ (if coverage_through \<noteq> None \<and> coverage = None
            then [\<lparr>bl_event_id = None, bl_reason = ''coverage_date_invalid''\<rparr>] else []);
          qualified = (case coverage of Some d \<Rightarrow> d \<ge> target \<and> blocked = [] | None \<Rightarrow> False);
          reason = (if qualified then ''qualified_through_target''
            else if blocked \<noteq> [] then ''transition_conflict_or_incomplete'' else ''coverage_through_target_not_proven'')
      in \<lparr>sr_status = (if qualified then ''current_qualified'' else ''latest_historical_only''), sr_target = target,
          sr_coverage = coverage, sr_latest = Some (latest_identity env c), sr_applied = ch_applied c,
          sr_blocked = blocked, sr_value = (if qualified then Some (ch_value c) else None), sr_qualified = qualified,
          sr_reason = reason\<rparr>)"

definition resolve_share_transition ::
  "text_env \<Rightarrow> obj \<Rightarrow> obj list \<Rightarrow> string \<Rightarrow> string option \<Rightarrow> share_result res" where
  "resolve_share_transition env opening events target_date coverage_through =
     (case iso_date env (VStr target_date) of
        None \<Rightarrow> raise ValueError ''target_date_invalid''
      | Some target \<Rightarrow>
          if \<not> qualified_identity opening then Inr (blocked_result target ''opening_identity_unqualified'')
          else (case iso_date env (oget opening ''effective_date'') of
            None \<Rightarrow> Inr (blocked_result target ''opening_effective_date_invalid'')
          | Some opening_date \<Rightarrow>
              (let early = (if opening_date > target
                     then [\<lparr>bl_event_id = None, bl_reason = ''opening_identity_after_target''\<rparr>] else []);
                   (unique, conflicted, blocked) = unique_events env events ([], [], early);
                   kept = map snd (filter (\<lambda>(k, e). k \<notin> set conflicted) unique);
                   start = \<lparr>ch_value = the_int (oget opening ''value''), ch_date = opening_date,
                            ch_lineage = [oget opening ''citation_id''], ch_applied = [], ch_blocked = blocked\<rparr>
               in bindE (foldE (apply_event env target) (sort_key (event_key env) kept) start) (\<lambda>c.
                  Inr (finish_chain env target coverage_through c)))))"

section \<open>What a qualified count rests on\<close>

text \<open>
  A chain of applied events: each starts from the count the one before left, no earlier than it, and only
  a share-changing action with a positive resulting count changes the count.
\<close>

fun linked :: "int \<Rightarrow> string \<Rightarrow> applied_event list \<Rightarrow> int \<Rightarrow> string \<Rightarrow> bool" where
  "linked n d [] m e \<longleftrightarrow> n = m \<and> d = e"
| "linked n d (a # as) m e \<longleftrightarrow> ap_opening a = n \<and> d \<le> ap_effective a
     \<and> (ap_resulting a = n \<and> ap_action a = ''cash_dividend''
        \<or> 0 < ap_resulting a \<and> ap_action a \<in> set share_changing_actions)
     \<and> linked (ap_resulting a) (ap_effective a) as m e"

lemma linked_snoc:
  "linked n d (as @ [a]) m e \<longleftrightarrow> (\<exists>k f. linked n d as k f \<and> linked k f [a] m e)"
  by (induction as arbitrary: n d) auto

definition same_but_blocked :: "chain_state \<Rightarrow> chain_state \<Rightarrow> bool" where
  "same_but_blocked c c' \<longleftrightarrow> ch_value c' = ch_value c \<and> ch_date c' = ch_date c \<and> ch_applied c' = ch_applied c
     \<and> (\<exists>b. ch_blocked c' = ch_blocked c @ [b])"

lemma block_same [simp]: "same_but_blocked c (block i r c)"
  by (simp add: same_but_blocked_def block_def)

text \<open>
  An event stands behind a step of the chain: the step has its identifier, day, action and citation, the
  event is qualified and names its source, and it leaves the count as it is, as a cash dividend, or is
  completed and states the resulting count of the issuer's common shares itself.
\<close>

definition backs :: "text_env \<Rightarrow> obj \<Rightarrow> applied_event \<Rightarrow> bool" where
  "backs env e a \<longleftrightarrow> ap_event_id a = to_text env (oget e ''event_id'')
     \<and> iso_date env (oget e ''effective_date'') = Some (ap_effective a)
     \<and> oget e ''action_type'' = VStr (ap_action a)
     \<and> oget e ''qualification'' = VStr ''qualified'' \<and> v_true (oget e ''source_hash'') \<and> v_true (oget e ''citation_id'')
     \<and> ap_citation a = oget e ''citation_id'' \<and> ap_source_hash a = oget e ''source_hash''
     \<and> (if ap_action a = ''cash_dividend''
        then is_none_or (oget e ''resulting_shares'') (ap_opening a) \<and> is_none_or (oget e ''share_delta'') 0
        else oget e ''lifecycle'' = VStr ''completed''
          \<and> oget e ''resulting_identity_type'' = VStr ''common_outstanding_shares''
          \<and> oget e ''unit'' = VStr ''shares'' \<and> oget e ''identity_scope'' = VStr ''issuer''
          \<and> oget e ''resulting_shares'' = VInt (ap_resulting a)
          \<and> is_none_or (oget e ''opening_shares'') (ap_opening a))"

lemma is_int_VInt: "is_int v \<Longrightarrow> \<not> is_bool v \<Longrightarrow> v = VInt (the_int v)"
  by (cases v) simp_all

lemma apply_event_cases:
  assumes "apply_event env target event c = Inr c'"
  obtains (skipped) effective where "iso_date env (oget event ''effective_date'') = Some effective" "effective > target" "c' = c"
  | (blocked) "same_but_blocked c c'"
  | (applied) a where "backs env event a" "ap_effective a \<le> target"
      "linked (ch_value c) (ch_date c) [a] (ch_value c') (ch_date c')"
      "ch_applied c' = ch_applied c @ [a]" "ch_blocked c' = ch_blocked c"
proof (cases "iso_date env (oget event ''effective_date'')")
  case None
  then show thesis using assms blocked by (simp add: apply_event_def Let_def) (metis block_same)
next
  case (Some effective)
  consider (late) "effective > target" | (early) "\<not> effective > target" "effective < ch_date c"
    | (now) "\<not> effective > target" "\<not> effective < ch_date c" by blast
  then show thesis
  proof cases
    case late
    then show thesis using assms Some skipped by (simp add: apply_event_def Let_def)
  next
    case early
    then show thesis using assms Some blocked by (simp add: apply_event_def Let_def) (metis block_same)
  next
    case now
    let ?resulting = "oget event ''resulting_shares''" and ?action = "oget event ''action_type''"
    have act: "?action \<in> VStr ` A \<Longrightarrow> the_str ?action \<in> A" for A by auto
    note rest = assms[unfolded apply_event_def Let_def Some option.case if_not_P[OF now(1)] if_not_P[OF now(2)]]
    have case_split: "same_but_blocked c c' \<or> (\<exists>a. ap_effective a = effective \<and> backs env event a
        \<and> linked (ch_value c) (ch_date c) [a] (ch_value c') (ch_date c') \<and> ch_applied c' = ch_applied c @ [a] \<and> ch_blocked c' = ch_blocked c)"
    proof (cases "?action = VStr ''cash_dividend''")
      case True
      let ?a = "\<lparr>ap_event_id = to_text env (oget event ''event_id''), ap_action = ''cash_dividend'', ap_effective = effective,
          ap_opening = ch_value c, ap_resulting = ch_value c, ap_ratio = VNone,
          ap_citation = oget event ''citation_id'', ap_source_hash = oget event ''source_hash''\<rparr>"
      have "same_but_blocked c c' \<or> backs env event ?a \<and> linked (ch_value c) (ch_date c) [?a] (ch_value c') (ch_date c')
          \<and> ch_applied c' = ch_applied c @ [?a] \<and> ch_blocked c' = ch_blocked c"
        using rest now Some True by (auto simp: backs_def split: if_splits)
      then show ?thesis by force
    next
      case False
      let ?a = "\<lparr>ap_event_id = to_text env (oget event ''event_id''), ap_action = the_str ?action, ap_effective = effective,
          ap_opening = ch_value c, ap_resulting = the_int ?resulting, ap_ratio = oget event ''ratio'',
          ap_citation = oget event ''citation_id'', ap_source_hash = oget event ''source_hash''\<rparr>"
      have "(\<exists>why. c' = block (to_text env (oget event ''event_id'')) why c) \<or>
        (?action \<in> VStr ` set share_changing_actions \<and> 0 < the_int ?resulting
         \<and> is_int ?resulting \<and> \<not> is_bool ?resulting
         \<and> oget event ''qualification'' = VStr ''qualified'' \<and> v_true (oget event ''source_hash'') \<and> v_true (oget event ''citation_id'')
         \<and> oget event ''lifecycle'' = VStr ''completed'' \<and> oget event ''resulting_identity_type'' = VStr ''common_outstanding_shares''
         \<and> oget event ''unit'' = VStr ''shares'' \<and> oget event ''identity_scope'' = VStr ''issuer''
         \<and> is_none_or (oget event ''opening_shares'') (ch_value c)
         \<and> c' = c\<lparr>ch_applied := ch_applied c @ [?a],
                 ch_value := the_int ?resulting, ch_date := effective,
                 ch_lineage := ch_lineage c @ [oget event ''citation_id'']\<rparr>)"
        using rest unfolding if_not_P[OF False]
        by (simp only: if_raise_eq_Inr split: if_split_asm) (simp_all, blast+)
      moreover have "?resulting = VInt (the_int ?resulting)" if "is_int ?resulting" "\<not> is_bool ?resulting"
        using is_int_VInt[OF that] .
      ultimately have "same_but_blocked c c' \<or> backs env event ?a \<and> linked (ch_value c) (ch_date c) [?a] (ch_value c') (ch_date c')
          \<and> ch_applied c' = ch_applied c @ [?a] \<and> ch_blocked c' = ch_blocked c"
        using now act Some False by (auto simp: backs_def)
      then show ?thesis by force
    qed
    then show thesis using blocked applied Some now by auto
  qed
qed

definition event_id_of :: "text_env \<Rightarrow> obj \<Rightarrow> string" where
  "event_id_of env e = to_text env (v_or (oget e ''event_id'') (VStr []))"

definition copy_kept :: "text_env \<Rightarrow> (string \<times> obj) list \<Rightarrow> obj \<Rightarrow> bool" where
  \<comment> \<open>a record with the event's identifier and canonical text is in the table\<close>
  "copy_kept env u e \<longleftrightarrow> event_id_of env e \<noteq> []
     \<and> (\<exists>e'. map_of u (event_id_of env e) = Some e' \<and> canonical env (VDict e') = canonical env (VDict e))"

definition keyed :: "text_env \<Rightarrow> (string \<times> obj) list \<Rightarrow> bool" where
  "keyed env u \<longleftrightarrow> (\<forall>k e. map_of u k = Some e \<longrightarrow> k \<noteq> [] \<and> event_id_of env e = k)"

lemma unique_events_post:
  assumes "unique_events env evs (u, c, b) = (u', c', [])" "keyed env u"
  shows "b = [] \<and> c' = c \<and> keyed env u' \<and> (\<forall>e. copy_kept env u e \<longrightarrow> copy_kept env u' e) \<and> (\<forall>e\<in>set evs. copy_kept env u' e)"
  using assms
proof (induction evs arbitrary: u c b)
  case (Cons e evs)
  have blocked: False if "unique_events env evs (v, d, f @ [g]) = (u', c', [])" "keyed env v" for v d f g
    using Cons.IH[OF that] by simp
  let ?id = "event_id_of env e"
  have id: "?id \<noteq> []"
  proof
    assume "?id = []"
    then show False using Cons.prems blocked by (auto simp: event_id_of_def Let_def)
  qed
  have same: "canonical env (VDict e'') = canonical env (VDict e)" if e'': "map_of u ?id = Some e''" for e''
  proof (rule ccontr)
    assume "canonical env (VDict e'') \<noteq> canonical env (VDict e)"
    then show False using Cons.prems blocked id e'' by (auto simp: event_id_of_def Let_def)
  qed
  have next_step: "unique_events env evs (aset u ?id e, c, b) = (u', c', [])"
    using Cons.prems(1) id same by (cases "map_of u ?id") (simp_all add: event_id_of_def)
  have keyed: "keyed env (aset u ?id e)"
    using Cons.prems(2) id by (simp add: keyed_def map_of_aset)
  have mono: "copy_kept env (aset u ?id e) x" if "copy_kept env u x" for x
    using that same by (auto simp: copy_kept_def map_of_aset)
  have "copy_kept env (aset u ?id e) e" using id by (simp add: copy_kept_def map_of_aset)
  then show ?case using Cons.IH[OF next_step keyed] mono by auto
qed simp

lemma set_aset: "set (aset d k v) \<subseteq> insert (k, v) (set d)"
  by (fastforce simp: aset_def split: if_splits)

lemma unique_events_members:
  assumes "unique_events env evs (u, c, b) = (u', c', b')"
  shows "snd ` set u' \<subseteq> snd ` set u \<union> set evs"
  using assms
proof (induction evs arbitrary: u c b)
  case (Cons e evs)
  let ?id = "event_id_of env e"
  obtain v d f where step: "unique_events env evs (v, d, f) = (u', c', b')" and v: "v = u \<or> v = aset u ?id e"
    using Cons.prems by (auto simp: event_id_of_def Let_def split: if_splits option.splits)
  have "snd ` set (aset u ?id e) \<subseteq> snd ` insert (?id, e) (set u)" by (rule image_mono[OF set_aset])
  then have "snd ` set v \<subseteq> insert e (snd ` set u)" using v by (elim disjE) auto
  with Cons.IH[OF step] show ?case unfolding list.set by blast
qed simp

definition covered :: "text_env \<Rightarrow> string \<Rightarrow> applied_event list \<Rightarrow> obj \<Rightarrow> bool" where
  \<comment> \<open>an event is later than the target or stands behind an applied step\<close>
  "covered env target as e \<longleftrightarrow> (\<exists>d. iso_date env (oget e ''effective_date'') = Some d
     \<and> (d > target \<or> (\<exists>a\<in>set as. backs env e a)))"

definition chain_inv :: "text_env \<Rightarrow> string \<Rightarrow> int \<Rightarrow> string \<Rightarrow> obj set \<Rightarrow> chain_state \<Rightarrow> bool" where
  "chain_inv env target n d E c \<longleftrightarrow> linked n d (ch_applied c) (ch_value c) (ch_date c)
     \<and> (\<forall>a\<in>set (ch_applied c). ap_effective a \<le> target \<and> (\<exists>e\<in>E. backs env e a))
     \<and> (ch_blocked c = [] \<longrightarrow> (\<forall>e\<in>E. covered env target (ch_applied c) e))"

lemma apply_event_inv:
  assumes "apply_event env target e c = Inr c'" "chain_inv env target n d E c"
  shows "chain_inv env target n d (insert e E) c'"
  using assms(1)
proof (cases rule: apply_event_cases)
  case (skipped effective)
  then show ?thesis using assms(2) by (auto simp: chain_inv_def covered_def)
next
  case blocked
  then show ?thesis using assms(2) by (auto simp: chain_inv_def same_but_blocked_def)
next
  case (applied a)
  have "covered env target (ch_applied c @ [a]) x" if "covered env target (ch_applied c) x" for x
    using that by (auto simp: covered_def)
  moreover have "linked n d (ch_applied c @ [a]) (ch_value c') (ch_date c')"
    using assms(2) applied(3) unfolding linked_snoc chain_inv_def by blast
  moreover have "covered env target (ch_applied c @ [a]) e"
    using applied(1) by (auto simp: covered_def backs_def)
  ultimately show ?thesis using assms(2) applied by (auto simp: chain_inv_def)
qed

lemma foldE_chain_inv:
  assumes "foldE (apply_event env target) es c = Inr c'" "chain_inv env target n d E c"
  shows "chain_inv env target n d (E \<union> set es) c'"
  using assms
proof (induction es arbitrary: c E)
  case (Cons e es)
  then obtain c1 where "apply_event env target e c = Inr c1" "foldE (apply_event env target) es c1 = Inr c'"
    by (auto simp: bindE_eq_Inr)
  then show ?case using Cons.IH[of c1 "insert e E"] apply_event_inv Cons.prems(2) by simp
qed simp

lemma linked_end:
  "linked n d as m e \<Longrightarrow> (0 < n \<longrightarrow> 0 < m) \<and> d \<le> e \<and> (d \<le> t \<and> (\<forall>a\<in>set as. ap_effective a \<le> t) \<longrightarrow> e \<le> t)"
proof (induction as arbitrary: n d)
  case (Cons a as)
  then show ?case by (fastforce intro: order_trans)
qed simp

definition early_block :: "string \<Rightarrow> string \<Rightarrow> blocked_event list" where
  "early_block d target = (if d > target then [\<lparr>bl_event_id = None, bl_reason = ''opening_identity_after_target''\<rparr>] else [])"

definition chain_start :: "obj \<Rightarrow> string \<Rightarrow> blocked_event list \<Rightarrow> chain_state" where
  "chain_start opening d b = \<lparr>ch_value = the_int (oget opening ''value''), ch_date = d,
     ch_lineage = [oget opening ''citation_id''], ch_applied = [], ch_blocked = b\<rparr>"

lemma resolve_stages:
  assumes "resolve_share_transition env opening events target_date coverage = Inr r" "sr_qualified r"
  obtains target d u c0 b ch where "iso_date env (VStr target_date) = Some target" "qualified_identity opening"
    "iso_date env (oget opening ''effective_date'') = Some d"
    "unique_events env events ([], [], early_block d target) = (u, c0, b)"
    "foldE (apply_event env target) (sort_key (event_key env) (map snd (filter (\<lambda>(k, e). k \<notin> set c0) u))) (chain_start opening d b) = Inr ch"
    "r = finish_chain env target coverage ch"
proof -
  obtain target where target: "iso_date env (VStr target_date) = Some target"
    using assms(1) by (auto simp: resolve_share_transition_def split: option.splits)
  have qual: "qualified_identity opening"
    using assms by (auto simp: resolve_share_transition_def target blocked_result_def split: if_splits)
  obtain d where d: "iso_date env (oget opening ''effective_date'') = Some d"
    using assms by (auto simp: resolve_share_transition_def target qual blocked_result_def split: option.splits)
  obtain u c0 b where uniq: "unique_events env events ([], [], early_block d target) = (u, c0, b)" by (metis prod_cases3)
  show thesis
    using assms(1) by (auto simp: resolve_share_transition_def target qual d uniq chain_start_def
        early_block_def[symmetric] bindE_eq_Inr Let_def intro: that[OF target qual d uniq])
qed

lemma foldE_blocked_grows:
  assumes "foldE (apply_event env target) es s = Inr t"
  shows "\<exists>bs. ch_blocked t = ch_blocked s @ bs"
  using assms
proof (rule foldE_invariant)
  show "\<exists>bs. ch_blocked v = ch_blocked s @ bs" if "apply_event env target x w = Inr v" "\<exists>bs. ch_blocked w = ch_blocked s @ bs" for x w v
    using that(1) by (rule apply_event_cases) (use that(2) in \<open>auto simp: same_but_blocked_def\<close>)
qed simp

lemma finish_qualified:
  assumes "r = finish_chain env target coverage ch" "sr_qualified r"
  obtains c where "sr_coverage r = Some c" "target \<le> c" "sr_value r = Some (ch_value ch)" "sr_applied r = ch_applied ch"
    "sr_blocked r = []" "ch_blocked ch = []"
  using assms by (auto simp: finish_chain_def Let_def split: option.splits)

text \<open>
  C34. What a current count rests on: if a chain is qualified through its target, the opening count was
  qualified, nothing was blocked, the count is the end of an unbroken chain of applied events from the
  opening count, in order of their dates and none later than the target, and evidence covers the target.
  Behind each applied event is a given one that is qualified, names its source and citation, and is a cash
  dividend that states no other count or is completed and states the resulting count of the issuer's
  common shares itself.  No event was passed over: of each one given, a record with its identifier and
  canonical text is dated after the target or was applied.
\<close>

theorem qualified_count_is_supported:
  assumes "resolve_share_transition env opening events target_date coverage = Inr r" "sr_qualified r"
  shows "\<exists>target n d m e c. iso_date env (VStr target_date) = Some target
    \<and> qualified_identity opening \<and> oget opening ''value'' = VInt n \<and> 0 < n
    \<and> iso_date env (oget opening ''effective_date'') = Some d
    \<and> linked n d (sr_applied r) m e \<and> e \<le> target \<and> sr_value r = Some m \<and> 0 < m
    \<and> sr_coverage r = Some c \<and> target \<le> c \<and> sr_blocked r = []
    \<and> (\<forall>a\<in>set (sr_applied r). \<exists>ev\<in>set events. backs env ev a)
    \<and> (\<forall>ev\<in>set events. \<exists>kept\<in>set events. canonical env (VDict kept) = canonical env (VDict ev)
         \<and> event_id_of env kept = event_id_of env ev \<and> event_id_of env ev \<noteq> [] \<and> covered env target (sr_applied r) kept)"
proof -
  obtain target d u c0 b ch where target: "iso_date env (VStr target_date) = Some target"
    and qual: "qualified_identity opening" and d: "iso_date env (oget opening ''effective_date'') = Some d"
    and uniq: "unique_events env events ([], [], early_block d target) = (u, c0, b)"
    and run: "foldE (apply_event env target) (sort_key (event_key env) (map snd (filter (\<lambda>(k, e). k \<notin> set c0) u))) (chain_start opening d b) = Inr ch"
    and r: "r = finish_chain env target coverage ch"
    using assms by (rule resolve_stages)
  let ?n = "the_int (oget opening ''value'')"
  let ?kept = "map snd (filter (\<lambda>(k, e). k \<notin> set c0) u)"
  have n: "oget opening ''value'' = VInt ?n" "0 < ?n"
    using qual by (cases "oget opening ''value''"; simp add: qualified_identity_def)+
  obtain c where c: "sr_coverage r = Some c" "target \<le> c" "sr_value r = Some (ch_value ch)" "sr_applied r = ch_applied ch"
    and blocked: "sr_blocked r = []" "ch_blocked ch = []"
    using r assms(2) by (rule finish_qualified)
  have "chain_inv env target ?n d {} (chain_start opening d b)" by (simp add: chain_inv_def chain_start_def)
  from foldE_chain_inv[OF run this] have inv: "chain_inv env target ?n d (set ?kept) ch" by simp
  have "b = []" using foldE_blocked_grows[OF run] blocked(2) by (simp add: chain_start_def)
  note post = unique_events_post[OF uniq[unfolded this], unfolded keyed_def, simplified]
  then have early0: "\<not> d > target" and c0: "c0 = []" by (auto simp: early_block_def split: if_splits)
  have "linked ?n d (ch_applied ch) (ch_value ch) (ch_date ch)" "\<forall>a\<in>set (ch_applied ch). ap_effective a \<le> target"
    using inv by (auto simp: chain_inv_def)
  then have ends: "0 < ch_value ch" "ch_date ch \<le> target" using linked_end n(2) early0 by fastforce+
  have given: "set ?kept \<subseteq> set events" using unique_events_members[OF uniq] by auto
  then have behind: "\<forall>a\<in>set (ch_applied ch). \<exists>ev\<in>set events. backs env ev a" using inv unfolding chain_inv_def by blast
  have events: "\<exists>k\<in>set events. canonical env (VDict k) = canonical env (VDict ev) \<and> event_id_of env k = event_id_of env ev
      \<and> event_id_of env ev \<noteq> [] \<and> covered env target (ch_applied ch) k" if ev: "ev \<in> set events" for ev
  proof -
    obtain k where k: "map_of u (event_id_of env ev) = Some k" "canonical env (VDict k) = canonical env (VDict ev)"
      "event_id_of env ev \<noteq> []" using post ev by (auto simp: copy_kept_def)
    moreover have "k \<in> set ?kept" using map_of_SomeD[OF k(1)] by (force simp: c0)
    moreover have "event_id_of env k = event_id_of env ev" using post k(1) by blast
    moreover have "covered env target (ch_applied ch) k" using inv blocked(2) calculation(4) unfolding chain_inv_def by blast
    ultimately show ?thesis using given by blast
  qed
  show ?thesis
    by (intro exI[of _ target] exI[of _ ?n] exI[of _ d] exI[of _ "ch_value ch"] exI[of _ "ch_date ch"] exI[of _ c])
      (use target qual n d inv c ends blocked behind events in \<open>simp add: chain_inv_def\<close>)
qed

definition sample_opening :: obj where
  "sample_opening = [(''value'', VInt 100), (''unit'', VStr ''shares''), (''share_class'', VStr ''common_outstanding''),
     (''identity_scope'', VStr ''issuer''), (''qualification'', VStr ''qualified''), (''source_hash'', VStr ''h''),
     (''citation_id'', VStr ''c''), (''effective_date'', VStr ''2026-01-05'')]"

definition sample_split :: obj where
  "sample_split = [(''event_id'', VStr ''e1''), (''effective_date'', VStr ''2026-03-02''), (''qualification'', VStr ''qualified''),
     (''source_hash'', VStr ''h2''), (''citation_id'', VStr ''c2''), (''action_type'', VStr ''stock_split''),
     (''lifecycle'', VStr ''completed''), (''resulting_identity_type'', VStr ''common_outstanding_shares''),
     (''unit'', VStr ''shares''), (''identity_scope'', VStr ''issuer''), (''resulting_shares'', VInt 200)]"

theorem qualified_count_is_supported_witness:
  "\<exists>r. resolve_share_transition sample_text_env sample_opening [sample_split] ''2026-06-30'' (Some ''2026-07-01'') = Inr r
     \<and> sr_qualified r \<and> (\<exists>m. sr_value r = Some m \<and> 0 < m) \<and> sr_blocked r = []
     \<and> (\<exists>a\<in>set (sr_applied r). backs sample_text_env sample_split a)"
proof -
  have "case resolve_share_transition sample_text_env sample_opening [sample_split] ''2026-06-30'' (Some ''2026-07-01'') of
      Inr r \<Rightarrow> sr_qualified r \<and> sr_applied r \<noteq> [] | Inl e \<Rightarrow> False"
    by code_simp
  then obtain r where r: "resolve_share_transition sample_text_env sample_opening [sample_split] ''2026-06-30'' (Some ''2026-07-01'') = Inr r"
    "sr_qualified r" and applied: "sr_applied r \<noteq> []" by (auto split: sum.splits)
  then obtain a where "a \<in> set (sr_applied r)" by (cases "sr_applied r") auto
  then show ?thesis using qualified_count_is_supported[OF r] r by auto
qed

end
