(* ===== verification/ShareAuthority.thy ===== *)
theory ShareAuthority
  imports ShareTransition
begin

text \<open>
  The authority of a current common-share count, \<open>stocklookup_core/evidence/current_share_authority.py\<close>:
  candidates become a timeline, and a value is exposed only if a qualified candidate explicitly covers the
  valuation date, no corporate action puts it in doubt and all such candidates agree.
\<close>

section \<open>The model\<close>

definition common_outstanding :: string where
  "common_outstanding = ''common_shares_outstanding''"

definition day_of :: "text_env \<Rightarrow> pyv \<Rightarrow> string option" where
  \<comment> \<open>\<open>_date\<close>: the first ten characters, when they are a date\<close>
  "day_of env v = map_option date_isoformat (date_fromisoformat (concat (take 10 (code_points (to_text env v)))))"

definition ticker_text :: "text_env \<Rightarrow> pyv \<Rightarrow> string" where
  "ticker_text env v = str_upper (str_strip (to_text env v))"

definition instrument_ticker :: "text_env \<Rightarrow> obj \<Rightarrow> string" where
  "instrument_ticker env i = ticker_text env (v_or (oget i ''canonical_ticker'') (VStr []))"

definition known_on :: "text_env \<Rightarrow> obj \<Rightarrow> string option" where
  "known_on env action =
     (case filter (\<lambda>d. d \<noteq> None) (map (\<lambda>k. day_of env (oget action k)) [''disclosed_on'', ''record_date'', ''published_at'']) of
        [] \<Rightarrow> None | d # _ \<Rightarrow> d)"

definition action_blocker :: "text_env \<Rightarrow> string \<Rightarrow> obj \<Rightarrow> string option" where
  "action_blocker env valuation_date action =
     (if \<not> v_true (oget action ''potential_share_change'') then None
      else
        (let completed = to_text env (v_or (oget action ''lifecycle'') (VStr [])) = ''completed_with_resulting_common_shares''
         in case day_of env (oget action ''effective_date'') of
              None \<Rightarrow> Some ''CORPORATE_ACTION_TIMING_UNRESOLVED_NO_EX_DATE_INFERRED''
            | Some effective \<Rightarrow>
                if effective \<le> valuation_date \<and> \<not> completed then Some ''CORPORATE_ACTION_INVALIDATES_CURRENT_SHARE_COVERAGE''
                else (case known_on env action of
                    Some k \<Rightarrow> if k \<le> valuation_date \<and> \<not> completed then Some ''CORPORATE_ACTION_CURRENT_SHARE_STATE_UNRESOLVED'' else None
                  | None \<Rightarrow> None)))"

definition action_blockers :: "text_env \<Rightarrow> obj list \<Rightarrow> string \<Rightarrow> string list" where
  "action_blockers env actions valuation_date =
     sorted_set (concat (map (\<lambda>a. case action_blocker env valuation_date a of None \<Rightarrow> [] | Some b \<Rightarrow> [b]) actions))"

record timeline_entry =
  tl_instrument :: string
  tl_identity :: string
  tl_count :: "int option"
  tl_from :: "string option"
  tl_through :: "string option"
  tl_source_authority :: pyv
  tl_evidence_ids :: pyv
  tl_action_ids :: pyv
  tl_usable :: bool \<comment> \<open>\<open>qualification_state\<close> and \<open>valuation_use\<close>\<close>
  tl_warnings :: "string list"
  tl_payload :: pyv

fun valid_count :: "pyv \<Rightarrow> int option" where
  "valid_count (VInt n) = (if n > 0 then Some n else None)"
| "valid_count _ = None"

definition timeline_entry_of :: "text_env \<Rightarrow> string \<Rightarrow> obj \<Rightarrow> timeline_entry" where
  "timeline_entry_of env ticker row =
     (let identity = to_text env (v_or (oget row ''identity'') (VStr ''unknown''));
          valid_from = day_of env (oget row ''effective_date'');
          valid_through = day_of env (oget row ''coverage_through'');
          n = valid_count (oget row ''value'');
          common = (identity = common_outstanding);
          qualified = (oget row ''qualification_state'' = VStr ''QUALIFIED'');
          dated = (valid_from \<noteq> None \<and> valid_through \<noteq> None)
      in \<lparr>tl_instrument = ticker, tl_identity = identity, tl_count = n, tl_from = valid_from, tl_through = valid_through,
          tl_source_authority = oget row ''source_authority'',
          tl_evidence_ids = oget_default row ''evidence_ids'' (VList []),
          tl_action_ids = oget_default row ''corporate_action_ids'' (VList []),
          tl_usable = (common \<and> qualified \<and> n \<noteq> None \<and> dated),
          tl_warnings = (if common then [] else [''SHARE_IDENTITY_NOT_CURRENT_COMMON_OUTSTANDING''])
            @ (if qualified then [] else [''CANDIDATE_NOT_QUALIFIED''])
            @ (if n \<noteq> None then [] else [''SHARE_COUNT_INVALID_OR_ABSENT''])
            @ (if dated then [] else [''EFFECTIVE_COVERAGE_NOT_EXPLICIT'']),
          tl_payload = oget row ''payload_identity''\<rparr>)"

definition covers :: "string \<Rightarrow> timeline_entry \<Rightarrow> bool" where
  "covers target e \<longleftrightarrow> tl_usable e \<and>
     (case (tl_from e, tl_through e) of (Some a, Some b) \<Rightarrow> a \<le> target \<and> target \<le> b | _ \<Rightarrow> False)"

record share_authority =
  sa_timeline :: "timeline_entry list"
  sa_status :: string
  sa_qualification :: string
  sa_value :: "int option"
  sa_effective :: "string option"
  sa_through :: "string option"
  sa_lineage :: "obj option"
  sa_identities :: "string list"
  sa_reasons :: "string list"

definition blocked_authority :: "timeline_entry list \<Rightarrow> string list \<Rightarrow> string \<Rightarrow> string list \<Rightarrow> share_authority" where
  "blocked_authority timeline identities state reasons =
     \<lparr>sa_timeline = timeline, sa_status = ''SHARE_BLOCKED'', sa_qualification = state, sa_value = None, sa_effective = None,
      sa_through = None, sa_lineage = None, sa_identities = identities, sa_reasons = reasons\<rparr>"

definition candidate_key :: "text_env \<Rightarrow> timeline_entry \<times> obj \<Rightarrow> string \<times> string" where
  "candidate_key env c = (the (tl_through (fst c)), to_text env (v_or (tl_payload (fst c)) (VStr [])))"

definition applicable :: "text_env \<Rightarrow> string \<Rightarrow> obj list \<Rightarrow> obj list" where
  "applicable env ticker candidates =
     filter (\<lambda>row. ticker_text env (v_or (oget row ''canonical_ticker'') (VStr ticker)) = ticker) candidates"

definition build_current_share_timeline ::
  "text_env \<Rightarrow> obj \<Rightarrow> obj list \<Rightarrow> string \<Rightarrow> obj list \<Rightarrow> share_authority res" where
  "build_current_share_timeline env instrument candidates valuation_date actions =
     (case day_of env (VStr valuation_date) of
        None \<Rightarrow> raise ValueError ''valuation_date must be an ISO date''
      | Some target \<Rightarrow>
          (let ticker = instrument_ticker env instrument;
               rows = applicable env ticker candidates;
               identities = sorted_set (map (\<lambda>row. to_text env (v_or (oget row ''identity'') (VStr ''unknown''))) rows);
               pairs = map (\<lambda>row. (timeline_entry_of env ticker row, row)) rows;
               timeline = map fst pairs;
               eligible = filter (\<lambda>(e, row). covers target e) pairs;
               blockers = action_blockers env actions target
           in Inr (if blockers \<noteq> [] then blocked_authority timeline identities ''BLOCKED'' blockers
              else if eligible = []
              then blocked_authority timeline identities ''STALE_OR_MISSING'' [''CURRENT_COMMON_OUTSTANDING_COVERAGE_NOT_PROVEN'']
              else if length (remdups (map (\<lambda>(e, row). tl_count e) eligible)) \<noteq> 1
              then blocked_authority timeline identities ''CONFLICT'' [''EQUALLY_QUALIFIED_CURRENT_SHARE_VALUES_CONFLICT'']
              else (let (chosen, row) = last (sort_key (candidate_key env) eligible)
                    in \<lparr>sa_timeline = timeline, sa_status = ''SHARE_READY'', sa_qualification = ''QUALIFIED'',
                        sa_value = tl_count chosen, sa_effective = tl_from chosen, sa_through = tl_through chosen,
                        sa_lineage = Some row, sa_identities = identities, sa_reasons = []\<rparr>))))"

section \<open>What a current count means\<close>

text \<open>
  The counts that the candidates prove for a day: those of a qualified common-share candidate of the
  instrument whose explicit coverage has the day in it.
\<close>

definition proves :: "text_env \<Rightarrow> string \<Rightarrow> string \<Rightarrow> obj \<Rightarrow> int \<Rightarrow> bool" where
  "proves env ticker target row n \<longleftrightarrow>
     ticker_text env (v_or (oget row ''canonical_ticker'') (VStr ticker)) = ticker
     \<and> to_text env (v_or (oget row ''identity'') (VStr ''unknown'')) = common_outstanding
     \<and> oget row ''qualification_state'' = VStr ''QUALIFIED'' \<and> oget row ''value'' = VInt n \<and> 0 < n
     \<and> (\<exists>a b. day_of env (oget row ''effective_date'') = Some a \<and> day_of env (oget row ''coverage_through'') = Some b
          \<and> a \<le> target \<and> target \<le> b)"

definition proven_counts :: "text_env \<Rightarrow> string \<Rightarrow> string \<Rightarrow> obj list \<Rightarrow> int set" where
  "proven_counts env ticker target candidates = {n. \<exists>row\<in>set candidates. proves env ticker target row n}"

lemma valid_count_Some: "valid_count v = Some n \<longleftrightarrow> v = VInt n \<and> 0 < n"
  by (cases v) auto

lemma covers_iff:
  "covers target (timeline_entry_of env ticker row) \<and> tl_count (timeline_entry_of env ticker row) = Some n
     \<and> row \<in> set (applicable env ticker candidates)
   \<longleftrightarrow> row \<in> set candidates \<and> proves env ticker target row n"
  by (auto simp: covers_def timeline_entry_of_def Let_def proves_def applicable_def valid_count_Some split: option.splits)

lemma covers_counted: "covers target (timeline_entry_of env ticker row) \<Longrightarrow> \<exists>n. tl_count (timeline_entry_of env ticker row) = Some n"
  by (auto simp: covers_def timeline_entry_of_def Let_def)

definition outcome :: "string list \<Rightarrow> int set \<Rightarrow> string \<times> string \<times> int option" where
  \<comment> \<open>the whole decision: status, qualification and value\<close>
  "outcome blockers counts =
     (if blockers \<noteq> [] then (''SHARE_BLOCKED'', ''BLOCKED'', None)
      else if counts = {} then (''SHARE_BLOCKED'', ''STALE_OR_MISSING'', None)
      else if is_singleton counts then (''SHARE_READY'', ''QUALIFIED'', Some (the_elem counts))
      else (''SHARE_BLOCKED'', ''CONFLICT'', None))"

definition eligible_rows :: "text_env \<Rightarrow> string \<Rightarrow> string \<Rightarrow> obj list \<Rightarrow> (timeline_entry \<times> obj) list" where
  "eligible_rows env ticker target candidates = filter (\<lambda>(e, row). covers target e)
     (map (\<lambda>row. (timeline_entry_of env ticker row, row)) (applicable env ticker candidates))"

lemma eligible_proves:
  assumes "(e, row) \<in> set (eligible_rows env ticker target candidates)"
  shows "\<exists>n. tl_count e = Some n \<and> row \<in> set candidates \<and> proves env ticker target row n"
  using assms covers_counted covers_iff by (fastforce simp: eligible_rows_def)

lemma eligible_counts:
  "tl_count ` fst ` set (eligible_rows env ticker target candidates) = Some ` proven_counts env ticker target candidates"
proof (intro set_eqI iffI)
  fix x assume "x \<in> Some ` proven_counts env ticker target candidates"
  then obtain n row where "x = Some n" "row \<in> set candidates" "proves env ticker target row n" by (auto simp: proven_counts_def)
  then have "covers target (timeline_entry_of env ticker row)" "tl_count (timeline_entry_of env ticker row) = x"
    "row \<in> set (applicable env ticker candidates)" using covers_iff[of target env ticker row n candidates] by auto
  then show "x \<in> tl_count ` fst ` set (eligible_rows env ticker target candidates)" by (force simp: eligible_rows_def)
qed (use eligible_proves in \<open>fastforce simp: proven_counts_def\<close>)

lemma eligible_single:
  "length (remdups (map (\<lambda>(e, row). tl_count e) (eligible_rows env ticker target candidates))) = 1
     \<longleftrightarrow> is_singleton (proven_counts env ticker target candidates)"
proof -
  have "length (remdups (map (\<lambda>(e, row). tl_count e) (eligible_rows env ticker target candidates)))
      = card (Some ` proven_counts env ticker target candidates)"
    by (simp add: length_remdups_card_conv split_beta eligible_counts[symmetric] image_image)
  then show ?thesis by (simp add: card_image is_singleton_altdef)
qed

lemma last_candidate:
  assumes "eligible_rows env ticker target candidates \<noteq> []" "proven_counts env ticker target candidates = {n}"
    "last (sort_key (candidate_key env) (eligible_rows env ticker target candidates)) = (chosen, row)"
  shows "tl_count chosen = Some n \<and> row \<in> set candidates \<and> proves env ticker target row n"
proof -
  have "sort_key (candidate_key env) (eligible_rows env ticker target candidates) \<noteq> []"
    using assms(1) by (metis length_0_conv length_sort)
  then have "(chosen, row) \<in> set (eligible_rows env ticker target candidates)" using last_in_set assms(3) by (metis set_sort)
  then obtain m where m: "tl_count chosen = Some m" "row \<in> set candidates" "proves env ticker target row m"
    using eligible_proves by blast
  moreover from this have "m = n" using assms(2) unfolding proven_counts_def by auto
  ultimately show ?thesis by simp
qed

text \<open>
  The authority implements one table: with the day and the instrument fixed, its decision depends
  only on whether an action puts the count in doubt and on the set of counts that the candidates prove for
  the day.  A value is exposed exactly if no action does and that set is a single count; it is that count,
  and the candidate given as its lineage proves it.
\<close>

theorem share_authority_decides:
  assumes "build_current_share_timeline env instrument candidates valuation_date actions = Inr r"
  shows "\<exists>target. day_of env (VStr valuation_date) = Some target
    \<and> (sa_status r, sa_qualification r, sa_value r)
        = outcome (action_blockers env actions target) (proven_counts env (instrument_ticker env instrument) target candidates)
    \<and> (case sa_value r of None \<Rightarrow> sa_lineage r = None
        | Some n \<Rightarrow> \<exists>row\<in>set candidates. sa_lineage r = Some row
            \<and> proves env (instrument_ticker env instrument) target row n)"
proof -
  obtain target where target: "day_of env (VStr valuation_date) = Some target"
    using assms by (auto simp: build_current_share_timeline_def split: option.splits)
  define ticker where "ticker = instrument_ticker env instrument"
  define blockers where "blockers = action_blockers env actions target"
  let ?C = "proven_counts env ticker target candidates" and ?E = "eligible_rows env ticker target candidates"
  let ?n = "length (remdups (map (\<lambda>(e, row). tl_count e) ?E))"
  have empty: "?E = [] \<longleftrightarrow> ?C = {}" using eligible_counts[of env ticker target candidates] by auto
  note built = assms[unfolded build_current_share_timeline_def target option.case Let_def ticker_def[symmetric]
      blockers_def[symmetric] eligible_rows_def[symmetric] sum.inject]
  have "(sa_status r, sa_qualification r, sa_value r) = outcome blockers ?C
    \<and> (case sa_value r of None \<Rightarrow> sa_lineage r = None
        | Some n \<Rightarrow> \<exists>row\<in>set candidates. sa_lineage r = Some row \<and> proves env ticker target row n)"
  proof (cases "blockers \<noteq> []")
    case b: True
    then show ?thesis by (simp add: built[unfolded if_P[OF b], symmetric] blocked_authority_def outcome_def)
  next
    case b: False
    note r = built[unfolded if_not_P[OF b]]
    show ?thesis
    proof (cases "?E = []")
      case none: True
      show ?thesis using empty none b by (simp add: r[unfolded if_P[OF none], symmetric] blocked_authority_def outcome_def)
    next
      case some: False
      note r = r[unfolded if_not_P[OF some]]
      show ?thesis
      proof (cases "?n \<noteq> 1")
        case c: True
        show ?thesis using empty some b c eligible_single[of env ticker target candidates]
          by (simp add: r[unfolded if_P[OF c], symmetric] blocked_authority_def outcome_def)
      next
        case c: False
        then obtain n where n: "?C = {n}" using eligible_single[of env ticker target candidates] by (auto simp: is_singleton_def)
        obtain chosen row where l: "last (sort_key (candidate_key env) ?E) = (chosen, row)" by fastforce
        have "sa_status r = ''SHARE_READY''" "sa_qualification r = ''QUALIFIED''" "sa_value r = tl_count chosen" "sa_lineage r = Some row"
          by (simp_all only: r[unfolded if_not_P[OF c] l prod.case, symmetric] share_authority.simps)
        then show ?thesis using last_candidate[OF some n l] n b by (simp add: outcome_def)
      qed
    qed
  qed
  then show ?thesis using target unfolding ticker_def blockers_def by blast
qed

theorem share_authority_decides_witness:
  "\<exists>r. build_current_share_timeline sample_text_env [(''canonical_ticker'', VStr ''HPG'')]
       [[(''identity'', VStr ''common_shares_outstanding''), (''qualification_state'', VStr ''QUALIFIED''), (''value'', VInt 7),
         (''effective_date'', VStr ''2026-01-01''), (''coverage_through'', VStr ''2026-12-31'')]] ''2026-06-30'' [] = Inr r
     \<and> (sa_status r, sa_qualification r, sa_value r) \<in> range (outcome [])"
proof -
  define rows :: "obj list" where "rows = [[(''identity'', VStr ''common_shares_outstanding''), (''qualification_state'', VStr ''QUALIFIED''),
      (''value'', VInt 7), (''effective_date'', VStr ''2026-01-01''), (''coverage_through'', VStr ''2026-12-31'')]]"
  have "is_ok (build_current_share_timeline sample_text_env [(''canonical_ticker'', VStr ''HPG'')] rows ''2026-06-30'' [])"
    unfolding rows_def by code_simp
  then obtain r where r: "build_current_share_timeline sample_text_env [(''canonical_ticker'', VStr ''HPG'')] rows ''2026-06-30'' [] = Inr r"
    by (auto elim: is_ok.elims)
  moreover have "action_blockers sample_text_env [] d = []" for d by (simp add: action_blockers_def sorted_set_def)
  ultimately show ?thesis
    using share_authority_decides[OF r] unfolding rows_def by auto
qed

end
