(* ===== verification/PyFloat.thy ===== *)
theory PyFloat
  imports PyValue "HOL-Library.Log_Nat"
begin

text \<open>
  Arithmetic of Python floats.  A finite \<open>float\<close> is the rational number it denotes, so an operation is the
  exact one followed by \<open>to_double\<close>, the rounding of IEEE 754 binary64 (to nearest, ties to even,
  gradual underflow).  Results too large for a double are told apart by \<open>fits_double\<close>.  Infinities and
  \<open>nan\<close> do not occur: JSON numbers are finite, and the operations below that could produce them raise.
\<close>

section \<open>Rounding to a double\<close>

definition pow2 :: "int \<Rightarrow> rat" where
  "pow2 k = (if 0 \<le> k then 2 ^ nat k else 1 / 2 ^ nat (- k))"

definition ilog2 :: "rat \<Rightarrow> int" where
  \<comment> \<open>the exponent of the greatest power of two up to a positive number\<close>
  "ilog2 x = (case quotient_of x of (n, d) \<Rightarrow>
     let k = int (floorlog 2 (nat n)) - int (floorlog 2 (nat d)) in if pow2 k \<le> x then k else k - 1)"

definition round_half_even :: "rat \<Rightarrow> int" where
  "round_half_even x =
     (let f = \<lfloor>x\<rfloor>; r = x - of_int f
      in if r < 1 / 2 then f else if r > 1 / 2 then f + 1 else if even f then f else f + 1)"

definition ulp_exponent :: "rat \<Rightarrow> int" where
  "ulp_exponent x = max (- 1074) (ilog2 x - 52)"

definition to_double :: "rat \<Rightarrow> rat" where
  "to_double x =
     (if x = 0 then 0
      else let e = ulp_exponent \<bar>x\<bar> in sgn x * (of_int (round_half_even (\<bar>x\<bar> / pow2 e)) * pow2 e))"

definition fits_double :: "rat \<Rightarrow> bool" where
  "fits_double x \<longleftrightarrow> \<bar>to_double x\<bar> < pow2 1024"

definition py_round :: "nat \<Rightarrow> rat \<Rightarrow> rat" where
  \<comment> \<open>\<open>round(x, n)\<close> for a float\<close>
  "py_round n x = to_double (of_int (round_half_even (x * 10 ^ n)) / 10 ^ n)"

definition py_float :: "(string \<Rightarrow> rat option) \<Rightarrow> pyv \<Rightarrow> rat res" where
  \<comment> \<open>\<open>float(v)\<close>; \<open>parse\<close> is the number a text denotes\<close>
  "py_float parse v =
     (case v of
        VBool b \<Rightarrow> Inr (if b then 1 else 0)
      | VInt i \<Rightarrow> if fits_double (of_int i) then Inr (to_double (of_int i))
                  else raise OverflowError ''int too large to convert to float''
      | VFloat r \<Rightarrow> Inr r
      | VStr s \<Rightarrow> (case parse s of Some r \<Rightarrow> Inr r | None \<Rightarrow> raise ValueError ''could not convert string to float'')
      | _ \<Rightarrow> raise TypeError ''float() argument must be a string or a real number'')"

text \<open>\<open>int(v)\<close> of a value.\<close>

fun digit_groups :: "bool \<Rightarrow> string \<Rightarrow> string option" where
  \<comment> \<open>the digits of a numeral, single underscores between them; the flag: an underscore may not come next\<close>
  "digit_groups edge [] = (if edge then None else Some [])"
| "digit_groups edge (c # cs) =
     (if is_digit c then map_option ((#) c) (digit_groups False cs)
      else if c = CHR ''_'' \<and> \<not> edge then digit_groups True cs else None)"

definition int_of_text :: "string \<Rightarrow> int option" where
  "int_of_text s =
     (let t = str_strip s;
          negative = starts_with t ''-'';
          body = (if negative \<or> starts_with t ''+'' then drop 1 t else t)
      in map_option (\<lambda>ds. (if negative then -1 else 1) * int (foldl (\<lambda>n c. 10 * n + digit_value c) 0 ds)) (digit_groups True body))"

definition py_int :: "pyv \<Rightarrow> int res" where
  "py_int v =
     (case v of
        VBool b \<Rightarrow> Inr (if b then 1 else 0)
      | VInt i \<Rightarrow> Inr i
      | VFloat r \<Rightarrow> Inr (if 0 \<le> r then \<lfloor>r\<rfloor> else \<lceil>r\<rceil>)
      | VStr s \<Rightarrow> (case int_of_text s of Some i \<Rightarrow> Inr i | None \<Rightarrow> raise ValueError ''invalid literal for int()'')
      | _ \<Rightarrow> raise TypeError ''int() argument must be a string or a real number'')"

lemma pow2_pos [simp]: "0 < pow2 k"
  by (simp add: pow2_def)

lemma pow2_0 [simp]: "pow2 0 = 1"
  by (simp add: pow2_def)

lemma pow2_of_nat: "pow2 (int n) = 2 ^ n"
  by (simp add: pow2_def)

lemma pow2_minus_nat: "pow2 (- int n) = 1 / 2 ^ n"
  by (simp add: pow2_def)

lemma pow2_powi: "pow2 k = 2 powi k"
  by (simp add: pow2_def power_int_def power_one_over inverse_eq_divide)

lemma pow2_add: "pow2 (a + b) = pow2 a * pow2 b"
  by (simp add: pow2_powi power_int_add)

lemma pow2_diff: "pow2 (a - b) = pow2 a / pow2 b"
  by (simp add: pow2_powi power_int_diff)

lemma pow2_mono: "a \<le> b \<Longrightarrow> pow2 a \<le> pow2 b"
  by (simp add: pow2_powi power_int_increasing)

lemma floorlog_rat:
  assumes "0 < n"
  shows "pow2 (int (floorlog 2 (nat n)) - 1) \<le> rat_of_int n" "rat_of_int n < pow2 (int (floorlog 2 (nat n)))"
proof -
  have n: "0 < nat n" using assms by simp
  have b: "2 ^ (floorlog 2 (nat n) - 1) \<le> nat n" "nat n < 2 ^ floorlog 2 (nat n)"
    using floorlog_bounds[of "nat n" 2] n by auto
  have pos: "floorlog 2 (nat n) > 0" using n floorlog_eq_zero_iff[of 2 "nat n"] by simp
  have r: "rat_of_int n = rat_of_nat (nat n)" using assms by simp
  have "rat_of_nat (2 ^ (floorlog 2 (nat n) - 1)) \<le> rat_of_nat (nat n)" using b(1) of_nat_le_iff by blast
  then show "pow2 (int (floorlog 2 (nat n)) - 1) \<le> rat_of_int n"
    using pow2_of_nat[of "floorlog 2 (nat n) - 1"] pos unfolding r by (simp add: of_nat_diff)
  have "rat_of_nat (nat n) < rat_of_nat (2 ^ floorlog 2 (nat n))" using b(2) of_nat_less_iff by blast
  then show "rat_of_int n < pow2 (int (floorlog 2 (nat n)))" unfolding r pow2_of_nat of_nat_power of_nat_numeral .
qed

lemma ilog2_bounds:
  assumes "0 < x"
  shows "pow2 (ilog2 x) \<le> x" "x < pow2 (ilog2 x + 1)"
proof -
  obtain n d where q: "quotient_of x = (n, d)" by fastforce
  have d: "0 < d" using quotient_of_denom_pos[OF q] .
  have x: "x = of_int n / of_int d" by (rule quotient_of_div[OF q])
  then have n: "0 < n" using assms d by (simp add: zero_less_divide_iff)
  let ?a = "int (floorlog 2 (nat n))" and ?b = "int (floorlog 2 (nat d))"
  have "pow2 (?a - 1) / pow2 ?b \<le> x" unfolding x
    using floorlog_rat[OF n] floorlog_rat[OF d] d n by (intro frac_le) auto
  then have lo: "pow2 (?a - ?b - 1) \<le> x" by (simp add: pow2_diff[symmetric] algebra_simps)
  have "x < pow2 ?a / pow2 (?b - 1)" unfolding x
    using floorlog_rat[OF n] floorlog_rat[OF d] d n by (intro frac_less) auto
  then have hi: "x < pow2 (?a - ?b + 1)" by (simp add: pow2_diff[symmetric] algebra_simps)
  show "pow2 (ilog2 x) \<le> x" "x < pow2 (ilog2 x + 1)"
    using lo hi by (simp_all add: ilog2_def q Let_def)
qed

lemma round_half_even_of_int [simp]: "round_half_even (of_int i) = i"
  by (simp add: round_half_even_def)

lemma round_half_even_le: "x \<le> of_int m \<Longrightarrow> round_half_even x \<le> m"
proof -
  assume m: "x \<le> of_int m"
  show ?thesis
  proof (cases "x = of_int m")
    case False
    then have "x < of_int m" using m by simp
    then have "\<lfloor>x\<rfloor> + 1 \<le> m" by linarith
    then show ?thesis by (auto simp: round_half_even_def Let_def)
  qed simp
qed

lemma round_half_even_ge: "of_int m \<le> x \<Longrightarrow> m \<le> round_half_even x"
  by (auto simp: round_half_even_def Let_def le_floor_iff add_increasing2)

lemma round_half_even_near: "\<bar>of_int (round_half_even x) - x\<bar> \<le> 1 / 2"
proof -
  have "of_int \<lfloor>x\<rfloor> \<le> x" "x < of_int \<lfloor>x\<rfloor> + 1" by linarith+
  then show ?thesis by (auto simp: round_half_even_def Let_def abs_le_iff)
qed

lemma to_double_0 [simp]: "to_double 0 = 0"
  by (simp add: to_double_def)

lemma to_double_pos: "0 < x \<Longrightarrow> to_double x = of_int (round_half_even (x / pow2 (ulp_exponent x))) * pow2 (ulp_exponent x)"
  by (simp add: to_double_def Let_def)

lemma to_double_uminus: "to_double (- x) = - to_double x"
  by (simp add: to_double_def Let_def)

lemma to_double_nonneg: "0 \<le> x \<Longrightarrow> 0 \<le> to_double x"
proof (cases "x = 0")
  case False
  assume "0 \<le> x"
  then have "0 \<le> round_half_even (x / pow2 (ulp_exponent x))" by (intro round_half_even_ge) (simp add: less_imp_le)
  then show ?thesis using \<open>0 \<le> x\<close> False by (simp add: to_double_pos less_imp_le)
qed simp

text \<open>
  A multiple of the unit in the last place bounds the rounded number as it bounds the exact one.
\<close>

lemma to_double_le:
  assumes "0 \<le> x" "x \<le> of_int m * pow2 e" "ulp_exponent x \<le> e"
  shows "to_double x \<le> of_int m * pow2 e"
proof (cases "x = 0")
  case False
  let ?u = "ulp_exponent x" and ?m = "m * 2 ^ nat (e - ulp_exponent x)"
  have m: "of_int m * pow2 e = of_int ?m * pow2 ?u"
    using assms(3) pow2_add[of "e - ?u" ?u] pow2_of_nat[of "nat (e - ?u)"] by simp
  then have "x \<le> of_int ?m * pow2 ?u" using assms(2) by (simp only:)
  then have "x / pow2 ?u \<le> of_int ?m" by (subst pos_divide_le_eq) simp_all
  then have "round_half_even (x / pow2 ?u) \<le> ?m" by (rule round_half_even_le)
  then have "of_int (round_half_even (x / pow2 ?u)) * pow2 ?u \<le> of_int ?m * pow2 ?u"
    by (intro mult_right_mono) (simp_all only: of_int_le_iff less_imp_le pow2_pos)
  also have "\<dots> = of_int m * pow2 e" by (rule m[symmetric])
  finally show ?thesis using assms(1) False by (subst to_double_pos) simp_all
qed (use assms in simp)

lemma ulp_exponent_le_0: "0 < x \<Longrightarrow> x < pow2 53 \<Longrightarrow> ulp_exponent x \<le> 0"
proof -
  assume x: "0 < x" "x < pow2 53"
  have "\<not> 53 \<le> ilog2 x" using ilog2_bounds(1)[OF x(1)] x(2) pow2_mono[of 53 "ilog2 x"] by linarith
  then show ?thesis by (simp add: ulp_exponent_def)
qed

lemma to_double_le_int: "0 \<le> x \<Longrightarrow> x \<le> of_int m \<Longrightarrow> m < 2 ^ 53 \<Longrightarrow> to_double x \<le> of_int m"
proof (cases "x = 0")
  case False
  assume x: "0 \<le> x" "x \<le> of_int m" "m < 2 ^ 53"
  have "rat_of_int m < of_int (2 ^ 53)" using x(3) of_int_less_iff by blast
  then have "x < pow2 53" using x(2) by (simp add: pow2_def)
  then show ?thesis using to_double_le[of x m 0] ulp_exponent_le_0[of x] x False by simp
qed simp

lemma to_double_small_int:
  assumes "\<bar>i\<bar> < 2 ^ 53"
  shows "to_double (of_int i) = of_int i"
proof -
  have pos: "to_double (of_int j) = of_int j" if j: "0 < j" "j < 2 ^ 53" for j
  proof -
    let ?u = "ulp_exponent (of_int j)"
    have "rat_of_int j < of_int (2 ^ 53)" using j(2) of_int_less_iff by blast
    then have u: "?u \<le> 0" using ulp_exponent_le_0[of "of_int j"] j(1) by (simp add: pow2_def)
    then have scale: "pow2 ?u * 2 ^ nat (- ?u) = 1" by (simp add: pow2_def)
    have "inverse (pow2 ?u) = 2 ^ nat (- ?u)" using scale by (rule inverse_unique)
    then have "rat_of_int j / pow2 ?u = of_int (j * 2 ^ nat (- ?u))" by (simp add: divide_inverse)
    then have "round_half_even (rat_of_int j / pow2 ?u) = j * 2 ^ nat (- ?u)" by (simp only: round_half_even_of_int)
    then show ?thesis using j(1) scale by (simp add: to_double_pos ac_simps)
  qed
  show ?thesis
  proof (cases i "0 :: int" rule: linorder_cases)
    case less
    then show ?thesis using pos[of "- i"] assms to_double_uminus[of "of_int i"] by simp
  qed (use pos[of i] assms in simp_all)
qed

lemma to_double_code [code]:
  "to_double x =
     (case quotient_of x of (n, d) \<Rightarrow>
        if d = 1 \<and> \<bar>n\<bar> < 9007199254740992 then x
        else let e = ulp_exponent \<bar>x\<bar> in sgn x * (of_int (round_half_even (\<bar>x\<bar> / pow2 e)) * pow2 e))"
proof -
  obtain n d where q: "quotient_of x = (n, d)" by fastforce
  have x: "x = of_int n / of_int d" by (rule quotient_of_div[OF q])
  show ?thesis
  proof (cases "d = 1 \<and> \<bar>n\<bar> < 9007199254740992")
    case True
    then show ?thesis using x q to_double_small_int[of n] by simp
  next
    case False
    then have "x \<noteq> 0" using q by auto
    then show ?thesis unfolding to_double_def by (simp add: q if_not_P[OF False])
  qed
qed

lemma fits_double_code [code]:
  "fits_double x \<longleftrightarrow> (case quotient_of x of (n, d) \<Rightarrow> d = 1 \<and> \<bar>n\<bar> < 9007199254740992 \<or> \<bar>to_double x\<bar> < pow2 1024)"
proof -
  obtain n d where q: "quotient_of x = (n, d)" by fastforce
  have x: "x = of_int n / of_int d" by (rule quotient_of_div[OF q])
  have "fits_double x" if n: "d = 1" "\<bar>n\<bar> < 9007199254740992"
  proof -
    have "rat_of_int \<bar>n\<bar> < of_int 9007199254740992" using n(2) of_int_less_iff by blast
    then have "\<bar>rat_of_int n\<bar> < pow2 53" by (simp add: pow2_def)
    then have "\<bar>rat_of_int n\<bar> < pow2 1024" using pow2_mono[of 53 1024] by linarith
    then show ?thesis using x n to_double_small_int[of n] by (simp add: fits_double_def)
  qed
  then show ?thesis by (auto simp: fits_double_def q)
qed

lemma to_double_ge_pow2:
  assumes "ulp_exponent x \<le> k" "pow2 k \<le> x"
  shows "pow2 k \<le> to_double x"
proof -
  let ?u = "ulp_exponent x"
  have x: "0 < x" using pow2_pos[of k] assms(2) by linarith
  have k: "pow2 k = of_int (2 ^ nat (k - ?u)) * pow2 ?u"
    using assms(1) pow2_add[of "k - ?u" ?u] pow2_of_nat[of "nat (k - ?u)"] by simp
  then have "of_int (2 ^ nat (k - ?u)) * pow2 ?u \<le> x" using assms(2) by (simp only:)
  then have "of_int (2 ^ nat (k - ?u)) \<le> x / pow2 ?u" by (subst pos_le_divide_eq) simp_all
  then have "2 ^ nat (k - ?u) \<le> round_half_even (x / pow2 ?u)" by (rule round_half_even_ge)
  then have "rat_of_int (2 ^ nat (k - ?u)) * pow2 ?u \<le> of_int (round_half_even (x / pow2 ?u)) * pow2 ?u"
    by (intro mult_right_mono) (simp_all only: of_int_le_iff less_imp_le pow2_pos)
  then show ?thesis unfolding k[symmetric] to_double_pos[OF x, symmetric] .
qed

lemma to_double_ge_1: "1 \<le> x \<Longrightarrow> 1 \<le> to_double x"
proof -
  assume x: "1 \<le> x"
  then have b: "pow2 (ilog2 x) \<le> x" "x < pow2 (ilog2 x + 1)" using ilog2_bounds[of x] by linarith+
  have "0 \<le> ilog2 x"
  proof (rule ccontr)
    assume "\<not> 0 \<le> ilog2 x"
    then have "pow2 (ilog2 x + 1) \<le> pow2 0" by (intro pow2_mono) simp
    then show False using b(2) x by simp
  qed
  then have "pow2 0 \<le> pow2 (ilog2 x)" "ulp_exponent x \<le> ilog2 x" using \<open>0 \<le> ilog2 x\<close> by (auto simp: ulp_exponent_def intro: pow2_mono simp del: pow2_0)
  then show ?thesis using to_double_ge_pow2[OF _ b(1)] by (simp add: order_trans)
qed

lemma py_round_unit:
  assumes "0 \<le> x" "x \<le> 1"
  shows "0 \<le> py_round n x" "py_round n x \<le> 1"
proof -
  have r: "0 \<le> round_half_even (x * 10 ^ n)" "round_half_even (x * 10 ^ n) \<le> 10 ^ n"
    using assms by (auto intro!: round_half_even_ge round_half_even_le mult_left_le_one_le)
  then have "rat_of_int (round_half_even (x * 10 ^ n)) \<le> rat_of_int (10 ^ n)" by (simp only: of_int_le_iff)
  then have "rat_of_int (round_half_even (x * 10 ^ n)) / 10 ^ n \<le> of_int 1" by simp
  then show "py_round n x \<le> 1" using to_double_le_int[of _ 1] r(1) by (simp add: py_round_def)
  show "0 \<le> py_round n x" using r(1) by (simp add: py_round_def to_double_nonneg)
qed

end
