(* ===== verification/CorporateLedger.thy ===== *)
theory CorporateLedger
  imports CanonicalJson PyFloat
begin

text \<open>
  The ledger of corporate-action events, \<open>stocklookup_core/evidence/official_corporate_action_ledger.py\<close>:
  observations of official documents are linked into events, reconciled field by field, qualified, given a
  price-adjustment factor where the evidence allows one, and linked to the amendments that replace them.
  Observations and entries are untyped mappings; \<open>ce_number\<close> is the number that \<open>float\<close> reads from a text.
\<close>

record ledger_env =
  ce_text :: text_env
  ce_number :: "string \<Rightarrow> rat option"

abbreviation ltext :: "ledger_env \<Rightarrow> pyv \<Rightarrow> string" where
  "ltext env \<equiv> to_text (ce_text env)"

section \<open>Linking observations\<close>

definition lifecycle_rank :: "(string \<times> nat) list" where
  "lifecycle_rank = [(''unknown'', 0), (''proposed'', 1), (''approved'', 2), (''announced'', 3),
     (''record_date_confirmed'', 4), (''executed'', 5)]"

definition rank_of_lifecycle :: "string \<Rightarrow> nat" where
  "rank_of_lifecycle s = (case map_of lifecycle_rank s of Some n \<Rightarrow> n | None \<Rightarrow> 0)"

definition rescaling_types :: "string list" where
  "rescaling_types = [''stock_dividend'', ''bonus_shares'', ''stock_split'', ''reverse_split'']"

definition agreement_fields :: "string list" where
  "agreement_fields = [''shares_before'', ''shares_after'', ''shares_issued'', ''ex_date'', ''record_date'',
     ''payment_or_execution_date'', ''cash_amount_per_share'', ''subscription_price'']"

definition merge_fields :: "string list" where
  "merge_fields = agreement_fields @ [''trading_date'', ''approval_date'', ''stock_ratio'', ''ratio_basis'', ''rights_ratio'']"

definition fingerprint :: "text_env \<Rightarrow> obj \<Rightarrow> string" where
  "fingerprint env d = te_sha env (canonical env (VDict d))"

type_synonym link_key = "string \<times> string \<times> string"

definition link_key_of :: "ledger_env \<Rightarrow> obj \<Rightarrow> link_key res" where
  "link_key_of env obs =
     bindE (if oget obs ''shares_issued'' = VNone \<and> oget obs ''shares_after'' \<noteq> VNone \<and> oget obs ''shares_before'' \<noteq> VNone
            then bindE (py_int (oget obs ''shares_after'')) (\<lambda>a.
                 bindE (py_int (oget obs ''shares_before'')) (\<lambda>b. Inr (VInt (a - b))))
            else Inr (oget obs ''shares_issued'')) (\<lambda>issued.
     Inr (ltext env (v_or (oget obs ''ticker'') (VStr [])),
          ltext env (v_or (oget obs ''event_type'') (VStr ''unknown'')),
          if issued \<noteq> VNone then ltext env issued else ''unidentified''))"

fun deduplicate :: "ledger_env \<Rightarrow> obj list \<Rightarrow> (string \<times> obj) list \<times> obj list \<Rightarrow> (string \<times> obj) list \<times> obj list" where
  "deduplicate env [] acc = acc"
| "deduplicate env (obs # rest) (kept, duplicates) =
     (let identifier = ltext env (oget obs ''observation_id'')
      in if identifier \<in> set (map fst kept)
         then deduplicate env rest (kept, duplicates @ [[(''observation_id'', VStr identifier),
                (''document_id'', oget obs ''document_id''), (''reason'', VStr ''identical observation identity already linked'')]])
         else deduplicate env rest (kept @ [(identifier, obs)], duplicates))"

definition unlinked_entry :: "obj \<Rightarrow> string \<Rightarrow> obj" where
  "unlinked_entry obs event_type =
     [(''observation_id'', oget obs ''observation_id''), (''document_id'', oget obs ''document_id''),
      (''reason'', VStr (if event_type = ''unknown'' then ''no event type detected''
         else ''no share-change identity; cannot be linked to an event''))]"

definition link_one ::
  "ledger_env \<Rightarrow> obj \<Rightarrow> (link_key \<times> obj list) list \<times> obj list \<Rightarrow> ((link_key \<times> obj list) list \<times> obj list) res" where
  "link_one env obs = (\<lambda>(grouped, unlinked).
     bindE (link_key_of env obs) (\<lambda>(ticker, event_type, issued).
     Inr (if event_type = ''unknown'' \<or> issued = ''unidentified''
          then (grouped, unlinked @ [unlinked_entry obs event_type])
          else (group_add grouped (ticker, event_type, issued) obs, unlinked))))"

section \<open>Reconciling the observations of one event\<close>

definition member_key :: "ledger_env \<Rightarrow> obj \<Rightarrow> string \<times> string" where
  "member_key env ob = (ltext env (v_or (oget ob ''content_sha256'') (VStr [])),
     ltext env (v_or (oget ob ''observation_id'') (VStr [])))"

definition comparable :: "ledger_env \<Rightarrow> pyv \<Rightarrow> pyv res" where
  "comparable env v =
     (if num_of v \<noteq> None then bindE (py_float (ce_number env) v) (\<lambda>r. Inr (VFloat (py_round 6 r)))
      else Inr (VStr (ltext env v)))"

definition stated :: "obj list \<Rightarrow> string \<Rightarrow> (obj \<times> pyv) list" where
  "stated ordered field = filter (\<lambda>(ob, v). v \<noteq> VNone) (map (\<lambda>ob. (ob, oget ob field)) ordered)"

definition conflict_record :: "string \<Rightarrow> (obj \<times> pyv) list \<Rightarrow> obj" where
  "conflict_record field says =
     [(''field'', VStr field),
      (''values'', VList (map (\<lambda>(ob, v). VDict [(''value'', v), (''document_id'', oget ob ''document_id''),
         (''content_sha256'', oget ob ''content_sha256'')]) says))]"

definition merge_field :: "ledger_env \<Rightarrow> obj list \<Rightarrow> string \<Rightarrow> obj \<times> obj list \<Rightarrow> (obj \<times> obj list) res" where
  "merge_field env ordered field = (\<lambda>(merged, conflicts).
     let says = stated ordered field
     in if says = [] then Inr (merged, conflicts)
        else bindE (mapE (\<lambda>(ob, v). comparable env v) says) (\<lambda>vs.
          Inr (if field \<in> set agreement_fields \<and> length (remdups vs) > 1
               then (merged, conflicts @ [conflict_record field says])
               else (oset merged field (snd (hd says)), conflicts))))"

definition merge_members :: "ledger_env \<Rightarrow> obj list \<Rightarrow> (obj \<times> obj list) res" where
  "merge_members env ordered = foldE (merge_field env ordered) merge_fields ([], [])"

definition texts :: "string list \<Rightarrow> pyv" where
  "texts ss = VList (map VStr ss)"

definition share_counts :: "string list" where
  "share_counts = [''shares_before'', ''shares_issued'', ''shares_after'']"

definition corroborate :: "ledger_env \<Rightarrow> obj \<Rightarrow> obj list \<Rightarrow> obj res" where
  "corroborate env merged members =
     (let before = oget merged ''shares_before''; issued = oget merged ''shares_issued''; after = oget merged ''shares_after''
      in if VNone \<in> {before, issued, after}
         then let present = str_join '', '' (filter (\<lambda>name. oget merged name \<noteq> VNone) share_counts)
              in Inr [(''state'', VStr ''not_testable''),
                 (''reason'', VStr (''only '' @ (if present = [] then ''no share count'' else present)
                    @ '' is stated; the identity needs all three'')),
                 (''documents'', VList [])]
         else bindE (py_int before) (\<lambda>b. bindE (py_int issued) (\<lambda>i. bindE (py_int after) (\<lambda>a.
           let holds = (b + i = a);
               contributors = sorted_set (map (\<lambda>ob. ltext env (oget ob ''content_sha256''))
                 (filter (\<lambda>ob. \<exists>f\<in>set share_counts. oget ob f \<noteq> VNone) members))
           in Inr [(''state'', VStr (if holds then ''confirmed'' else ''violated'')),
                (''reason'', VStr (ltext env before @ '' + '' @ ltext env issued @ '' '' @ (if holds then ''='' else ''!='')
                   @ '' '' @ ltext env after)),
                (''documents'', texts contributors),
                (''cross_document'', VBool (length contributors > 1))]))))"

definition lifecycle_of :: "ledger_env \<Rightarrow> obj list \<Rightarrow> string" where
  \<comment> \<open>\<open>max(..., key=rank)\<close> over at least one observation\<close>
  "lifecycle_of env ordered =
     (case map (\<lambda>ob. ltext env (v_or (oget ob ''lifecycle_state'') (VStr ''unknown''))) ordered of
        [] \<Rightarrow> [] | l # ls \<Rightarrow> first_max rank_of_lifecycle l ls)"

fun first_copies :: "pyv list \<Rightarrow> pyv list \<Rightarrow> pyv list" where
  \<comment> \<open>the elements of a set built in this order\<close>
  "first_copies seen [] = []"
| "first_copies seen (x # xs) =
     (if list_ex (py_eq x) seen then first_copies seen xs else x # first_copies (x # seen) xs)"

definition sorted_values :: "pyv list \<Rightarrow> pyv list res" where
  \<comment> \<open>\<open>sorted(set(xs))\<close>\<close>
  "sorted_values xs =
     (if list_ex (\<lambda>v. is_list v \<or> is_dict v) xs then raise TypeError ''unhashable type''
      else let ys = first_copies [] xs
           in if length ys \<le> 1 then Inr ys
              else if list_all is_str ys then Inr (map VStr (sort (map the_str ys)))
              else if list_all (\<lambda>v. num_of v \<noteq> None) ys then Inr (sort_key (\<lambda>v. the (num_of v)) ys)
              else raise TypeError ''not supported between instances'')"

definition warnings_of :: "obj list \<Rightarrow> pyv list res" where
  "warnings_of ordered =
     bindE (mapE (\<lambda>ob. py_iter (v_or (oget ob ''warnings'') (VList []))) ordered) (\<lambda>xss. sorted_values (concat xss))"

definition add_absent :: "obj \<Rightarrow> obj \<Rightarrow> obj \<Rightarrow> obj res" where
  "add_absent merged ob absent =
     (case v_or (oget ob ''absent_fields'') (VDict []) of
        VDict d \<Rightarrow> Inr (foldl (\<lambda>acc (field, reason).
            if oget merged field = VNone \<and> \<not> ohas acc field then acc @ [(field, reason)] else acc) absent d)
      | _ \<Rightarrow> raise AttributeError ''items'')"

definition absent_of :: "obj \<Rightarrow> obj list \<Rightarrow> obj res" where
  "absent_of merged ordered = bindE (foldE (add_absent merged) ordered []) (\<lambda>d. Inr (sort_key fst d))"

definition count_identity :: "ledger_env \<Rightarrow> obj list \<Rightarrow> string \<Rightarrow> pyv" where
  "count_identity env observations field =
     (case remdups (map (\<lambda>ob. ltext env (oget ob field))
         (filter (\<lambda>ob. oget ob ''shares_after'' \<noteq> VNone \<and> oget ob field \<notin> {VNone, VStr [], VStr ''unknown''}) observations)) of
        [x] \<Rightarrow> VStr x | _ \<Rightarrow> VNone)"

definition qualify :: "ledger_env \<Rightarrow> obj list \<Rightarrow> obj \<Rightarrow> string \<Rightarrow> string \<times> string" where
  "qualify env conflicts corroboration lifecycle =
     (let reason = ltext env (oget corroboration ''reason'')
      in if conflicts \<noteq> []
         then (''conflicted'', ''documents disagree on: '' @ str_join '', '' (sort (map (\<lambda>c. ltext env (oget c ''field'')) conflicts)))
         else if oget corroboration ''state'' = VStr ''violated''
         then (''conflicted'', ''share-count identity does not hold ('' @ reason @ '')'')
         else if rank_of_lifecycle lifecycle < rank_of_lifecycle ''executed''
         then (''provisional'', ''lifecycle is '' @ te_repr (ce_text env) (VStr lifecycle)
                @ ''; only an executed event is a qualified historical fact'')
         else if oget corroboration ''state'' = VStr ''confirmed''
         then (''qualified'', ''executed, internally consistent, and the share-count identity is confirmed''
                @ (if v_true (oget corroboration ''cross_document'') then '' across independent documents'' else []))
         else (''qualified'', ''executed and internally consistent; the share-count identity is not ''
                @ ''testable from the retained documents ('' @ reason @ '')''))"

definition factor_fields :: "pyv \<Rightarrow> string \<Rightarrow> string \<Rightarrow> string list \<Rightarrow> obj" where
  "factor_fields factor status reason blocked =
     [(''adjustment_authority'', VStr ''official_corporate_action_ledger''),
      (''adjustment_policy_version'', VStr ''1.0.0''), (''authority_state'', VStr ''outside_production_authority''),
      (''adjustment_factor'', factor), (''adjustment_factor_status'', VStr status),
      (''adjustment_factor_reason'', VStr reason), (''adjustment_factor_blocked_by'', texts blocked)]"

definition factor_value :: "ledger_env \<Rightarrow> pyv \<Rightarrow> rat res" where
  \<comment> \<open>\<open>round(1.0 / (1.0 + float(ratio)), 12)\<close>\<close>
  "factor_value env ratio =
     bindE (py_float (ce_number env) ratio) (\<lambda>r.
     let d = to_double (1 + r)
     in if d = 0 then raise ZeroDivisionError ''float division by zero''
        else Inr (py_round 12 (to_double (1 / d))))"

definition adjustment_factor :: "ledger_env \<Rightarrow> string \<Rightarrow> obj \<Rightarrow> string \<Rightarrow> obj res" where
  "adjustment_factor env event_type merged qualification =
     (if event_type \<notin> set rescaling_types
      then Inr (factor_fields VNone ''not_applicable'' (event_type @ '' does not mechanically rescale the share count; a factor ''
        @ ''for it needs a cash amount and a reference price, which this ledger does not hold'') [])
      else let blocked = (if qualification \<noteq> ''qualified'' then [''event_qualification:'' @ qualification] else [])
                 @ (if \<not> v_true (oget merged ''ex_date'') then [''missing_explicit_official_ex_date''] else [])
                 @ (if oget merged ''stock_ratio'' = VNone then [''missing_stock_ratio''] else [])
           in if blocked \<noteq> []
              then Inr (factor_fields VNone ''not_ready'' (''a price-adjustment factor places the event on the price timeline and ''
                @ ''needs an explicit official ex-date; a record, payment or listing date is never substituted for one'') (sort blocked))
              else bindE (factor_value env (oget merged ''stock_ratio'')) (\<lambda>f.
                Inr (factor_fields (VFloat f) ''ready'' (''1 / (1 + '' @ ltext env (oget merged ''stock_ratio'')
                  @ '') applied to closes strictly before the ex-date '' @ ltext env (oget merged ''ex_date'')
                  @ ''; derived for a directly supported event and held outside production authority'') [])))"

definition source_document :: "obj \<Rightarrow> obj" where
  "source_document ob =
     map (\<lambda>k. (k, oget ob k)) [''document_id'', ''document_type'', ''source_authority'', ''source_url'', ''content_sha256'',
       ''share_count_identity'', ''share_class''] @ [(''citations'', v_or (oget ob ''citations'') (VList []))]"

definition announcement_of :: "ledger_env \<Rightarrow> obj list \<Rightarrow> pyv" where
  "announcement_of env ordered =
     (case sort (map (\<lambda>ob. ltext env (oget ob ''announcement_date'')) (filter (\<lambda>ob. v_true (oget ob ''announcement_date'')) ordered)) of
        [] \<Rightarrow> VNone | d # _ \<Rightarrow> VStr d)"

definition ids_of :: "ledger_env \<Rightarrow> obj list \<Rightarrow> string \<Rightarrow> pyv" where
  "ids_of env ordered field = texts (sorted_set (map (\<lambda>ob. ltext env (oget ob field)) ordered))"

definition event_id_of_key :: "ledger_env \<Rightarrow> link_key \<Rightarrow> string" where
  "event_id_of_key env = (\<lambda>(ticker, event_type, issued). fingerprint (ce_text env)
     [(''ticker'', VStr ticker), (''event_type'', VStr event_type), (''share_change'', VStr issued), (''schema_version'', VStr ''1.0.0'')])"

definition reconcile :: "ledger_env \<Rightarrow> link_key \<Rightarrow> obj list \<Rightarrow> obj res" where
  "reconcile env key members =
     (let (ticker, event_type, issued) = key; ordered = sort_key (member_key env) members
      in bindE (merge_members env ordered) (\<lambda>(merged, conflicts).
         bindE (corroborate env merged ordered) (\<lambda>corroboration.
         let lifecycle = lifecycle_of env ordered in
         bindE (warnings_of ordered) (\<lambda>warnings.
         bindE (absent_of merged ordered) (\<lambda>absent.
         let (qualification, reason) = qualify env conflicts corroboration lifecycle in
         bindE (adjustment_factor env event_type merged qualification) (\<lambda>factor.
         Inr ([(''event_id'', VStr (event_id_of_key env key)), (''schema_version'', VStr ''1.0.0''),
           (''ledger_version'', VStr ''1.0.0''), (''ticker'', VStr ticker), (''event_type'', VStr event_type),
           (''lifecycle_state'', VStr lifecycle), (''execution_status'', VStr lifecycle),
           (''approval_date'', oget merged ''approval_date''), (''announcement_date'', announcement_of env ordered),
           (''ex_date'', oget merged ''ex_date''), (''record_date'', oget merged ''record_date''),
           (''payment_or_execution_date'', oget merged ''payment_or_execution_date''),
           (''trading_date'', oget merged ''trading_date''), (''shares_before'', oget merged ''shares_before''),
           (''shares_issued'', oget merged ''shares_issued''), (''shares_after'', oget merged ''shares_after''),
           (''share_count_identity'', v_or (count_identity env ordered ''share_count_identity'') (VStr ''unknown'')),
           (''share_class'', count_identity env ordered ''share_class''),
           (''cash_amount_per_share'', oget merged ''cash_amount_per_share''), (''stock_ratio'', oget merged ''stock_ratio''),
           (''ratio_basis'', oget merged ''ratio_basis''), (''rights_ratio'', oget merged ''rights_ratio''),
           (''subscription_price'', oget merged ''subscription_price''),
           (''source_document_ids'', ids_of env ordered ''document_id''),
           (''source_content_hashes'', ids_of env ordered ''content_sha256''),
           (''source_observation_ids'', ids_of env ordered ''observation_id''),
           (''source_documents'', VList (map (\<lambda>ob. VDict (source_document ob)) ordered)),
           (''arithmetic_corroboration'', VDict corroboration), (''conflicts'', VList (map VDict conflicts)),
           (''conflict_status'', VStr (if conflicts \<noteq> [] then ''conflicted'' else ''consistent'')),
           (''absent_fields'', VDict absent), (''warnings'', VList warnings), (''qualification_state'', VStr qualification),
           (''qualification_reason'', VStr reason), (''superseded_by'', VNone), (''supersedes'', VNone)] @ factor)))))))"

section \<open>The ledger\<close>

definition ordering_key :: "ledger_env \<Rightarrow> obj \<Rightarrow> string \<times> string \<times> string \<times> string \<times> string \<times> string" where
  "ordering_key env e =
     (let t = (\<lambda>field d. ltext env (v_or (oget e field) (VStr d))); far = ''9999-99-99''
      in (t ''ticker'' [], t ''payment_or_execution_date'' far, t ''record_date'' far, t ''ex_date'' far,
          t ''announcement_date'' far, t ''event_id'' []))"

definition is_superseding :: "obj \<Rightarrow> bool" where
  "is_superseding e \<longleftrightarrow> oget e ''event_type'' \<in> {VStr ''cancellation'', VStr ''amendment''}"

definition replaces :: "obj \<Rightarrow> obj \<Rightarrow> bool" where
  "replaces e candidate \<longleftrightarrow> oget candidate ''ticker'' = oget e ''ticker''
     \<and> py_eq (oget candidate ''shares_issued'') (oget e ''shares_issued'') \<and> oget candidate ''superseded_by'' = VNone"

definition supersede_entry :: "nat \<Rightarrow> obj list \<times> string list \<Rightarrow> obj list \<times> string list" where
  "supersede_entry i = (\<lambda>(es, superseded).
     if \<not> is_superseding (es ! i) then (es, superseded)
     else case find (\<lambda>j. replaces (es ! i) (es ! j)) (rev [0..<i]) of
       None \<Rightarrow> (es, superseded)
     | Some j \<Rightarrow>
         let state = VStr (if oget (es ! i) ''event_type'' = VStr ''cancellation'' then ''cancelled'' else ''amended'');
             candidate = oset (oset (oset (es ! j) ''superseded_by'' (oget (es ! i) ''event_id'')) ''lifecycle_state'' state) ''execution_status'' state
         in (es[j := candidate, i := oset (es ! i) ''supersedes'' (oget candidate ''event_id'')],
             superseded @ [the_str (oget candidate ''event_id'')]))"

definition apply_supersession :: "obj list \<Rightarrow> obj list \<times> string list" where
  "apply_supersession es = (let (es', ids) = fold supersede_entry [0..<length es] (es, []) in (es', sort ids))"

definition tally :: "ledger_env \<Rightarrow> obj list \<Rightarrow> string \<Rightarrow> (string \<times> nat) list" where
  "tally env es field =
     (let values = map (\<lambda>e. ltext env (oget e field)) es
      in map (\<lambda>v. (v, length (filter ((=) v) values))) (sorted_set values))"

record ledger =
  lg_entries :: "obj list"
  lg_duplicates :: "obj list"
  lg_unlinked :: "obj list"
  lg_superseded :: "string list"
  lg_replay :: string
  lg_qualified :: nat
  lg_factor_counts :: "(string \<times> nat) list"
  lg_lifecycle_counts :: "(string \<times> nat) list"

definition replay_fingerprint :: "ledger_env \<Rightarrow> obj list \<Rightarrow> string" where
  "replay_fingerprint env es = fingerprint (ce_text env)
     [(''schema_version'', VStr ''1.0.0''),
      (''entries'', VList (map (\<lambda>e. VDict (filter (\<lambda>(k, v). k \<noteq> ''source_documents'') (sort_key fst e))) es))]"

definition build_ledger :: "ledger_env \<Rightarrow> obj list \<Rightarrow> ledger res" where
  "build_ledger env observations =
     (let (kept, duplicates) = deduplicate env observations ([], [])
      in bindE (foldE (link_one env) (map snd kept) ([], [])) (\<lambda>(grouped, unlinked).
         bindE (mapE (\<lambda>(key, members). reconcile env key members) (sort_key fst grouped)) (\<lambda>entries.
         let (entries, superseded) = apply_supersession (sort_key (ordering_key env) entries)
         in Inr \<lparr>lg_entries = entries, lg_duplicates = duplicates, lg_unlinked = unlinked, lg_superseded = superseded,
              lg_replay = replay_fingerprint env entries,
              lg_qualified = length (filter (\<lambda>e. oget e ''qualification_state'' = VStr ''qualified'') entries),
              lg_factor_counts = tally env entries ''adjustment_factor_status'',
              lg_lifecycle_counts = tally env entries ''lifecycle_state''\<rparr>)))"

definition ledger_record :: "ledger \<Rightarrow> obj" where
  "ledger_record l =
     (let ns = (\<lambda>m. VDict (map (\<lambda>(k, n). (k, VInt (int n))) m))
      in [(''schema_version'', VStr ''1.0.0''), (''ledger_version'', VStr ''1.0.0''), (''adjustment_policy_version'', VStr ''1.0.0''),
          (''adjustment_authority'', VStr ''official_corporate_action_ledger''),
          (''authority_state'', VStr ''outside_production_authority''), (''entries'', VList (map VDict (lg_entries l))),
          (''entry_count'', VInt (int (length (lg_entries l)))), (''duplicate_observations'', VList (map VDict (lg_duplicates l))),
          (''unlinked_observations'', VList (map VDict (lg_unlinked l))), (''superseded_entry_ids'', texts (lg_superseded l)),
          (''replay_fingerprint'', VStr (lg_replay l)), (''qualified_event_count'', VInt (int (lg_qualified l))),
          (''adjustment_factor_counts'', ns (lg_factor_counts l)), (''lifecycle_counts'', ns (lg_lifecycle_counts l))])"

section \<open>What a merged field says\<close>

definition agreed :: "ledger_env \<Rightarrow> obj list \<Rightarrow> string \<Rightarrow> bool" where
  "agreed env ordered f \<longleftrightarrow> (\<forall>a\<in>set ordered. \<forall>b\<in>set ordered. oget a f \<noteq> VNone \<longrightarrow> oget b f \<noteq> VNone \<longrightarrow>
     comparable env (oget a f) = comparable env (oget b f))"

lemma stated_iff: "(a, v) \<in> set (stated ordered f) \<longleftrightarrow> a \<in> set ordered \<and> v = oget a f \<and> v \<noteq> VNone"
  by (auto simp: stated_def)

lemma mapE_Inr_nth: "mapE g xs = Inr ys \<Longrightarrow> x \<in> set xs \<Longrightarrow> \<exists>y\<in>set ys. g x = Inr y"
  by (induction xs arbitrary: ys) (auto simp: bindE_eq_Inr)

lemma agreedI:
  assumes "mapE (\<lambda>(ob, v). comparable env v) (stated ordered f) = Inr vs" "\<not> length (remdups vs) > 1"
  shows "agreed env ordered f"
proof -
  have one: "x = y" if "x \<in> set vs" "y \<in> set vs" for x y
  proof -
    have "card (set vs) \<le> Suc 0" using assms(2) by (simp add: length_remdups_card_conv)
    then show ?thesis using that by (simp add: card_le_Suc0_iff_eq)
  qed
  show ?thesis unfolding agreed_def
  proof (intro ballI impI)
    fix a b assume "a \<in> set ordered" "b \<in> set ordered" "oget a f \<noteq> VNone" "oget b f \<noteq> VNone"
    then have "(a, oget a f) \<in> set (stated ordered f)" "(b, oget b f) \<in> set (stated ordered f)" by (simp_all add: stated_iff)
    then obtain x y where "x \<in> set vs" "comparable env (oget a f) = Inr x" "y \<in> set vs" "comparable env (oget b f) = Inr y"
      using mapE_Inr_nth[OF assms(1), of "(a, oget a f)"] mapE_Inr_nth[OF assms(1), of "(b, oget b f)"] by auto
    then show "comparable env (oget a f) = comparable env (oget b f)" using one by simp
  qed
qed

lemma merge_field_cases:
  assumes "merge_field env ordered f (m, c) = Inr (m', c')"
  obtains (silent) "stated ordered f = []" "m' = m" "c' = c"
  | (conflict) "m' = m" "c' \<noteq> []"
  | (said) ob where "ob \<in> set ordered" "oget ob f \<noteq> VNone" "m' = oset m f (oget ob f)" "c' = c"
      "f \<in> set agreement_fields \<Longrightarrow> agreed env ordered f"
proof (cases "stated ordered f")
  case Nil
  then show thesis using assms silent by (simp add: merge_field_def)
next
  case (Cons p ps)
  then have ne: "stated ordered f \<noteq> []" by simp
  obtain vs where vs: "mapE (\<lambda>(ob, v). comparable env v) (stated ordered f) = Inr vs"
    and r: "(if f \<in> set agreement_fields \<and> length (remdups vs) > 1 then (m, c @ [conflict_record f (stated ordered f)])
        else (oset m f (snd (hd (stated ordered f))), c)) = (m', c')"
    using assms unfolding merge_field_def Let_def prod.case if_not_P[OF ne] by (auto simp: bindE_eq_Inr)
  show thesis
  proof (cases "f \<in> set agreement_fields \<and> length (remdups vs) > 1")
    case True
    then show thesis using r[unfolded if_P[OF True]] conflict by auto
  next
    case False
    obtain ob v where p: "p = (ob, v)" by fastforce
    then have "(ob, v) \<in> set (stated ordered f)" by (simp add: Cons)
    then have "ob \<in> set ordered" "v = oget ob f" "v \<noteq> VNone" unfolding stated_iff by blast+
    then show thesis using r[unfolded if_not_P[OF False]] said[of ob] agreedI[OF vs] False Cons p by simp
  qed
qed

definition merged_ok :: "ledger_env \<Rightarrow> obj list \<Rightarrow> obj \<Rightarrow> obj list \<Rightarrow> string \<Rightarrow> bool" where
  "merged_ok env ordered m c f \<longleftrightarrow>
     (oget m f \<noteq> VNone \<longrightarrow> (\<exists>ob\<in>set ordered. oget ob f = oget m f))
     \<and> (c = [] \<longrightarrow> (oget m f = VNone \<longrightarrow> (\<forall>ob\<in>set ordered. oget ob f = VNone))
                \<and> (f \<in> set agreement_fields \<longrightarrow> agreed env ordered f))"

lemma merge_fold:
  assumes "foldE (merge_field env ordered) fs (m, c) = Inr (m', c')" "distinct fs" "\<forall>f\<in>set fs. oget m f = VNone"
  shows "(c' = [] \<longrightarrow> c = []) \<and> (\<forall>f. f \<notin> set fs \<longrightarrow> oget m' f = oget m f) \<and> (\<forall>f\<in>set fs. merged_ok env ordered m' c' f)"
  using assms
proof (induction fs arbitrary: m c)
  case (Cons f fs)
  then obtain m1 c1 where step: "merge_field env ordered f (m, c) = Inr (m1, c1)"
    and rest: "foldE (merge_field env ordered) fs (m1, c1) = Inr (m', c')" by (auto simp: bindE_eq_Inr)
  have keep: "\<forall>g. g \<noteq> f \<longrightarrow> oget m1 g = oget m g" and c1: "c1 = [] \<longrightarrow> c = []"
    using step by (auto elim!: merge_field_cases)
  have IH: "(c' = [] \<longrightarrow> c1 = []) \<and> (\<forall>g. g \<notin> set fs \<longrightarrow> oget m' g = oget m1 g) \<and> (\<forall>g\<in>set fs. merged_ok env ordered m' c' g)"
  proof (rule Cons.IH[OF rest])
    show "distinct fs" "\<forall>g\<in>set fs. oget m1 g = VNone" using Cons.prems(2,3) keep by auto
  qed
  have f: "oget m f = VNone" "f \<notin> set fs" using Cons.prems by auto
  then have f': "oget m' f = oget m1 f" using IH by blast
  have "merged_ok env ordered m' c' f"
    using step
  proof (cases rule: merge_field_cases)
    case silent
    then have "\<forall>ob\<in>set ordered. oget ob f = VNone" using stated_iff[of _ _ ordered f] by fastforce
    then show ?thesis using silent f f' by (auto simp: merged_ok_def agreed_def)
  next
    case conflict
    then show ?thesis using f f' IH by (auto simp: merged_ok_def)
  next
    case (said ob)
    then show ?thesis using f f' by (auto simp: merged_ok_def)
  qed
  then show ?case using IH c1 keep f(2) by auto
qed simp

lemma merge_members_ok:
  assumes "merge_members env ordered = Inr (m, c)"
  shows "f \<in> set merge_fields \<Longrightarrow> merged_ok env ordered m c f"
proof -
  have "distinct merge_fields" by code_simp
  then show "f \<in> set merge_fields \<Longrightarrow> merged_ok env ordered m c f"
    using merge_fold[OF assms[unfolded merge_members_def]] by simp
qed

section \<open>What an entry says\<close>

lemma oget_append: "oget (a @ b) k = (if ohas a k then oget a k else oget b k)"
  by (auto simp: oget_def ohas_def map_add_def split: option.splits)


lemma reconcile_fields:
  assumes "reconcile env (ticker, event_type, issued) members = Inr e"
  obtains m c corr q reason factor where
    "merge_members env (sort_key (member_key env) members) = Inr (m, c)"
    "corroborate env m (sort_key (member_key env) members) = Inr corr"
    "qualify env c corr (lifecycle_of env (sort_key (member_key env) members)) = (q, reason)"
    "adjustment_factor env event_type m q = Inr factor"
    "oget e ''qualification_state'' = VStr q" "oget e ''ticker'' = VStr ticker" "oget e ''event_type'' = VStr event_type"
    "oget e ''event_id'' = VStr (event_id_of_key env (ticker, event_type, issued))"
    "oget e ''execution_status'' = VStr (lifecycle_of env (sort_key (member_key env) members))"
    "oget e ''lifecycle_state'' = VStr (lifecycle_of env (sort_key (member_key env) members))"
    "oget e ''ex_date'' = oget m ''ex_date''" "oget e ''stock_ratio'' = oget m ''stock_ratio''"
    "oget e ''shares_before'' = oget m ''shares_before''" "oget e ''shares_issued'' = oget m ''shares_issued''"
    "oget e ''shares_after'' = oget m ''shares_after''" "oget e ''conflicts'' = VList (map VDict c)"
    "oget e ''superseded_by'' = VNone" "oget e ''supersedes'' = VNone"
    "oget e ''adjustment_factor'' = oget factor ''adjustment_factor''"
    "oget e ''adjustment_factor_status'' = oget factor ''adjustment_factor_status''"
proof -
  let ?ord = "sort_key (member_key env) members"
  obtain m c where m: "merge_members env ?ord = Inr (m, c)"
    using assms by (auto simp: reconcile_def bindE_eq_Inr Let_def)
  obtain corr where corr: "corroborate env m ?ord = Inr corr"
    using assms by (auto simp: reconcile_def bindE_eq_Inr Let_def m)
  obtain q reason where q: "qualify env c corr (lifecycle_of env ?ord) = (q, reason)" by fastforce
  obtain ws where ws: "warnings_of ?ord = Inr ws" using assms by (auto simp: reconcile_def bindE_eq_Inr Let_def m corr)
  obtain ab where ab: "absent_of m ?ord = Inr ab" using assms by (auto simp: reconcile_def bindE_eq_Inr Let_def m corr ws)
  obtain factor where f: "adjustment_factor env event_type m q = Inr factor"
    using assms by (auto simp: reconcile_def bindE_eq_Inr Let_def m corr ws ab q)
  note e = assms[unfolded reconcile_def Let_def prod.case m corr ws ab bindE_Inr q f sum.inject, symmetric]
  show thesis by (rule that[OF m corr q f]; (simp only: e append.simps)?; simp only: oget_Cons list.inject char.inject simp_thms if_True if_False list.distinct)
qed

section \<open>How the ledger is put together\<close>

definition linked_to :: "ledger_env \<Rightarrow> link_key \<Rightarrow> obj \<Rightarrow> bool" where
  "linked_to env k ob \<longleftrightarrow> link_key_of env ob = Inr k \<and> fst (snd k) \<noteq> ''unknown'' \<and> snd (snd k) \<noteq> ''unidentified''"

definition grouped_by_link :: "ledger_env \<Rightarrow> obj list \<Rightarrow> (link_key \<times> obj list) list \<Rightarrow> bool" where
  "grouped_by_link env xs gs \<longleftrightarrow>
     distinct (map fst gs) \<and> (\<forall>k ms. (k, ms) \<in> set gs \<longleftrightarrow> ms = filter (linked_to env k) xs \<and> ms \<noteq> [])"

lemma linked_to_Inr: "link_key_of env ob = Inr k' \<Longrightarrow>
    linked_to env k ob \<longleftrightarrow> k = k' \<and> fst (snd k) \<noteq> ''unknown'' \<and> snd (snd k) \<noteq> ''unidentified''"
  by (auto simp: linked_to_def)

lemma grouped_add:
  assumes gs: "grouped_by_link env xs gs" and k: "linked_to env k ob"
  shows "grouped_by_link env (xs @ [ob]) (group_add gs k ob)"
proof -
  have d: "distinct (map fst gs)" and mem: "\<And>k ms. (k, ms) \<in> set gs \<longleftrightarrow> ms = filter (linked_to env k) xs \<and> ms \<noteq> []"
    using gs by (auto simp: grouped_by_link_def)
  have "(case map_of gs k of None \<Rightarrow> [] | Some ms \<Rightarrow> ms) = filter (linked_to env k) xs"
  proof (cases "map_of gs k")
    case None
    then have "\<forall>ms. (k, ms) \<notin> set gs" by (metis map_of_eq_None_iff image_eqI fst_conv)
    then show ?thesis using None mem[of k "filter (linked_to env k) xs"] by auto
  next
    case (Some ms)
    then show ?thesis using mem[of k ms] map_of_SomeD by fastforce
  qed
  moreover have "linked_to env j ob \<longleftrightarrow> j = k" for j using k by (auto simp: linked_to_def)
  ultimately show ?thesis
    using d group_add_entries[OF d] mem group_add_keys[of gs k ob] by (auto simp: grouped_by_link_def)
qed

lemma link_one_Inr:
  "link_one env ob (gs, us) = Inr r \<longleftrightarrow> (\<exists>k. link_key_of env ob = Inr k
     \<and> r = (if linked_to env k ob then (group_add gs k ob, us) else (gs, us @ [unlinked_entry ob (fst (snd k))])))"
  by (cases "link_key_of env ob") (auto simp: link_one_def linked_to_def split: prod.splits)

lemma link_all:
  assumes "foldE (link_one env) xs (gs, us) = Inr (gs', us')" "grouped_by_link env ys gs"
  shows "grouped_by_link env (ys @ xs) gs' \<and> (\<forall>ob\<in>set xs. is_ok (link_key_of env ob))"
  using assms
proof (induction xs arbitrary: ys gs us)
  case (Cons ob xs)
  then obtain k g1 u1 where k: "link_key_of env ob = Inr k"
    and g1: "(g1, u1) = (if linked_to env k ob then (group_add gs k ob, us) else (gs, us @ [unlinked_entry ob (fst (snd k))]))"
    and rest: "foldE (link_one env) xs (g1, u1) = Inr (gs', us')"
    unfolding foldE.simps bindE_eq_Inr link_one_Inr by (metis surj_pair)
  have "grouped_by_link env (ys @ [ob]) g1"
  proof (cases "linked_to env k ob")
    case True
    then have "g1 = group_add gs k ob" using g1 by simp
    then show ?thesis using grouped_add[OF Cons.prems(2) True] by simp
  next
    case False
    then have "g1 = gs" using g1 by simp
    moreover have "\<not> linked_to env j ob" for j using False k by (auto simp: linked_to_def)
    ultimately show ?thesis using Cons.prems(2) by (simp add: grouped_by_link_def)
  qed
  from Cons.IH[OF rest this] show ?case using k by simp
qed simp

lemma link_start: "foldE (link_one env) xs ([], []) = Inr (gs, us) \<Longrightarrow> grouped_by_link env xs gs"
  using link_all[of env xs "[]" "[]" gs us "[]"] by (simp add: grouped_by_link_def)

lemma deduplicate_kept:
  assumes "deduplicate env xs (kept, dups) = (kept', dups')" "distinct (map fst kept)"
    "\<forall>(i, ob)\<in>set kept. i = ltext env (oget ob ''observation_id'')"
  shows "distinct (map fst kept') \<and> (\<forall>(i, ob)\<in>set kept'. i = ltext env (oget ob ''observation_id''))
    \<and> snd ` set kept' \<subseteq> snd ` set kept \<union> set xs"
  using assms
proof (induction xs arbitrary: kept dups)
  case (Cons ob xs)
  let ?i = "ltext env (oget ob ''observation_id'')"
  show ?case
  proof (cases "?i \<in> set (map fst kept)")
    case True
    then obtain dups1 where "deduplicate env xs (kept, dups1) = (kept', dups')" using Cons.prems(1) by (auto simp: Let_def)
    from Cons.IH[OF this Cons.prems(2,3)] show ?thesis by auto
  next
    case False
    have "deduplicate env xs (kept @ [(?i, ob)], dups) = (kept', dups')" using Cons.prems(1) False by (simp add: Let_def)
    from Cons.IH[OF this] show ?thesis using Cons.prems False by auto
  qed
qed auto

lemma build_ledger_stages:
  assumes "build_ledger env obs = Inr L"
  obtains kept dups gs us es where "deduplicate env obs ([], []) = (kept, dups)"
    "foldE (link_one env) (map snd kept) ([], []) = Inr (gs, us)" "grouped_by_link env (map snd kept) gs"
    "set (map snd kept) \<subseteq> set obs" "distinct (map (\<lambda>ob. ltext env (oget ob ''observation_id'')) (map snd kept))"
    "mapE (\<lambda>(key, members). reconcile env key members) (sort_key fst gs) = Inr es"
    "lg_entries L = fst (apply_supersession (sort_key (ordering_key env) es))"
proof -
  obtain kept dups where d: "deduplicate env obs ([], []) = (kept, dups)" by fastforce
  obtain gs us where g: "foldE (link_one env) (map snd kept) ([], []) = Inr (gs, us)"
    using assms by (auto simp: build_ledger_def d bindE_eq_Inr)
  obtain es where es: "mapE (\<lambda>(key, members). reconcile env key members) (sort_key fst gs) = Inr es"
    using assms by (auto simp: build_ledger_def d g bindE_eq_Inr)
  have k: "distinct (map fst kept) \<and> (\<forall>(i, ob)\<in>set kept. i = ltext env (oget ob ''observation_id'')) \<and> snd ` set kept \<subseteq> set obs"
    using deduplicate_kept[OF d] by simp
  then have "map fst kept = map (\<lambda>ob. ltext env (oget ob ''observation_id'')) (map snd kept)" by auto
  then have "distinct (map (\<lambda>ob. ltext env (oget ob ''observation_id'')) (map snd kept))" using k by (simp only:)
  moreover have "lg_entries L = fst (apply_supersession (sort_key (ordering_key env) es))"
    using assms by (auto simp: build_ledger_def d g es Let_def split: prod.splits)
  ultimately show thesis using that[OF d g link_start[OF g] _ _ es] k by (simp only: set_map)
qed

section \<open>What supersession changes\<close>

definition pointer_fields :: "string set" where
  "pointer_fields = {''superseded_by'', ''supersedes'', ''lifecycle_state'', ''execution_status''}"

definition same_event :: "obj \<Rightarrow> obj \<Rightarrow> bool" where
  "same_event e e' \<longleftrightarrow> (\<forall>k. k \<notin> pointer_fields \<longrightarrow> oget e' k = oget e k)"

definition keeps_state :: "obj \<Rightarrow> obj \<Rightarrow> bool" where
  "keeps_state e e' \<longleftrightarrow> oget e' ''lifecycle_state'' = oget e ''lifecycle_state'' \<and> oget e' ''execution_status'' = oget e ''execution_status''"

definition superseded_by_entry :: "obj list \<Rightarrow> obj list \<Rightarrow> nat \<Rightarrow> nat \<Rightarrow> bool" where
  \<comment> \<open>entry \<open>i\<close> is superseded by entry \<open>j\<close>; \<open>es\<close> are the entries before\<close>
  "superseded_by_entry es es' i j \<longleftrightarrow> i < j \<and> j < length es \<and> is_superseding (es ! j)
     \<and> oget (es ! i) ''ticker'' = oget (es ! j) ''ticker'' \<and> py_eq (oget (es ! i) ''shares_issued'') (oget (es ! j) ''shares_issued'')
     \<and> oget (es' ! i) ''superseded_by'' = oget (es ! j) ''event_id'' \<and> oget (es' ! j) ''supersedes'' = oget (es ! i) ''event_id''
     \<and> oget (es' ! i) ''execution_status'' = oget (es' ! i) ''lifecycle_state''
     \<and> oget (es' ! i) ''lifecycle_state'' =
          VStr (if oget (es ! j) ''event_type'' = VStr ''cancellation'' then ''cancelled'' else ''amended'')"

definition linked_entries :: "obj list \<Rightarrow> nat \<Rightarrow> obj list \<Rightarrow> bool" where
  "linked_entries es n es' \<longleftrightarrow> length es' = length es \<and> (\<forall>i<length es. same_event (es ! i) (es' ! i)
     \<and> (if oget (es' ! i) ''superseded_by'' = VNone then keeps_state (es ! i) (es' ! i)
        else \<exists>j<n. superseded_by_entry es es' i j))"

lemma same_event_field: "same_event e e' \<Longrightarrow> k \<notin> pointer_fields \<Longrightarrow> oget e' k = oget e k"
  by (simp add: same_event_def)

lemma pointer_fields_others:
  "''ticker'' \<notin> pointer_fields" "''event_type'' \<notin> pointer_fields" "''shares_issued'' \<notin> pointer_fields" "''event_id'' \<notin> pointer_fields"
  "''qualification_state'' \<notin> pointer_fields" "''ex_date'' \<notin> pointer_fields" "''stock_ratio'' \<notin> pointer_fields"
  "''shares_before'' \<notin> pointer_fields" "''shares_after'' \<notin> pointer_fields" "''conflicts'' \<notin> pointer_fields"
  "''adjustment_factor'' \<notin> pointer_fields" "''adjustment_factor_status'' \<notin> pointer_fields"
  by (simp_all add: pointer_fields_def)

lemma supersede_entry_cases:
  assumes "supersede_entry n (es, ids) = (es', ids')" "n < length es"
  obtains (none) "es' = es" "ids' = ids"
  | (some) j state where "j < n" "is_superseding (es ! n)" "replaces (es ! n) (es ! j)"
      "state = VStr (if oget (es ! n) ''event_type'' = VStr ''cancellation'' then ''cancelled'' else ''amended'')"
      "length es' = length es" "\<And>i. i \<noteq> j \<Longrightarrow> i \<noteq> n \<Longrightarrow> es' ! i = es ! i"
      "es' ! j = oset (oset (oset (es ! j) ''superseded_by'' (oget (es ! n) ''event_id'')) ''lifecycle_state'' state) ''execution_status'' state"
      "es' ! n = oset (es ! n) ''supersedes'' (oget (es ! j) ''event_id'')"
proof (cases "is_superseding (es ! n)")
  case False
  then show thesis using assms(1) none by (simp add: supersede_entry_def)
next
  case True
  show thesis
  proof (cases "find (\<lambda>j. replaces (es ! n) (es ! j)) (rev [0..<n])")
    case None
    then show thesis using assms(1) none True by (simp add: supersede_entry_def)
  next
    case (Some j)
    then have j: "replaces (es ! n) (es ! j)" "j < n" by (auto simp: find_Some_iff rev_nth)
    show thesis
      by (rule some[OF j(2) True j(1) refl])
        (use assms(1) True Some j(2) assms(2) in \<open>auto simp: supersede_entry_def Let_def nth_list_update\<close>)
  qed
qed

lemma supersede_entry_links:
  assumes inv: "linked_entries es0 n es" and step: "supersede_entry n (es, ids) = (es', ids')" and n: "n < length es0"
    and ids: "\<And>i. i < length es0 \<Longrightarrow> oget (es0 ! i) ''event_id'' \<noteq> VNone"
  shows "linked_entries es0 (Suc n) es'"
proof -
  have len: "length es = length es0" and at: "\<And>i. i < length es0 \<Longrightarrow> same_event (es0 ! i) (es ! i)
      \<and> (if oget (es ! i) ''superseded_by'' = VNone then keeps_state (es0 ! i) (es ! i)
         else \<exists>j<n. superseded_by_entry es0 es i j)"
    using inv by (auto simp: linked_entries_def)
  note same = at[THEN conjunct1]
  note fields = same_event_field[OF same] pointer_fields_others
  have nl: "n < length es" using n len by simp
  from step nl show ?thesis
  proof (cases rule: supersede_entry_cases)
    case none
    then show ?thesis using inv unfolding linked_entries_def by (metis less_Suc_eq)
  next
    case (some j state)
    have jl: "j < length es0" using some(1) n by simp
    have event: "oget (es ! n) ''event_type'' = oget (es0 ! n) ''event_type''" "oget (es ! n) ''event_id'' = oget (es0 ! n) ''event_id''"
      "oget (es ! j) ''event_id'' = oget (es0 ! j) ''event_id''" "oget (es ! j) ''ticker'' = oget (es0 ! j) ''ticker''"
      "oget (es ! n) ''ticker'' = oget (es0 ! n) ''ticker''" "oget (es ! j) ''shares_issued'' = oget (es0 ! j) ''shares_issued''"
      "oget (es ! n) ''shares_issued'' = oget (es0 ! n) ''shares_issued''"
      using fields n jl by blast+
    have new: "superseded_by_entry es0 es' j n"
      using some event n by (simp add: superseded_by_entry_def replaces_def is_superseding_def)
    have old: "superseded_by_entry es0 es' i k" if "superseded_by_entry es0 es i k" "k < n" "i \<noteq> j" for i k
      using that some by (cases "k = j") (auto simp: superseded_by_entry_def)
    have "same_event (es0 ! i) (es' ! i)" if i: "i < length es0" for i
      using same[OF i] some by (cases "i = j"; cases "i = n") (auto simp: same_event_def pointer_fields_def)
    moreover have "if oget (es' ! i) ''superseded_by'' = VNone then keeps_state (es0 ! i) (es' ! i)
        else \<exists>k<Suc n. superseded_by_entry es0 es' i k" if i: "i < length es0" for i
    proof (cases "i = j")
      case True
      then show ?thesis using new ids[OF n] some(7) event by auto
    next
      case False
      have eq: "oget (es' ! i) k = oget (es ! i) k" if "k \<noteq> ''supersedes''" for k
        using some False that by (cases "i = n") auto
      show ?thesis using at[OF i] old[OF _ _ False] by (auto simp: eq keeps_state_def) (meson less_SucI)
    qed
    ultimately show ?thesis using some(5) len by (simp add: linked_entries_def)
  qed
qed

lemma apply_supersession_links:
  assumes "\<And>e. e \<in> set es \<Longrightarrow> oget e ''superseded_by'' = VNone \<and> oget e ''event_id'' \<noteq> VNone"
  shows "linked_entries es (length es) (fst (apply_supersession es))"
proof -
  have "linked_entries es n (fst (fold supersede_entry [0..<n] (es, [])))" if "n \<le> length es" for n
    using that
  proof (induction n)
    case 0
    then show ?case using assms by (auto simp: linked_entries_def same_event_def keeps_state_def)
  next
    case (Suc n)
    obtain es' ids where f: "fold supersede_entry [0..<n] (es, []) = (es', ids)" by fastforce
    obtain es2 ids2 where s: "supersede_entry n (es', ids) = (es2, ids2)" by fastforce
    have "linked_entries es n es'" using Suc f by simp
    from supersede_entry_links[OF this s] Suc.prems assms show ?case by (simp add: f s)
  qed
  then show ?thesis by (simp add: apply_supersession_def split_beta)
qed

section \<open>What the ledger guarantees\<close>

definition members_of :: "ledger_env \<Rightarrow> obj list \<Rightarrow> link_key \<Rightarrow> obj list" where
  \<comment> \<open>the first observation of each identifier, where it links to \<open>k\<close>\<close>
  "members_of env obs k = filter (linked_to env k) (map snd (fst (deduplicate env obs ([], []))))"

definition lifecycle_text :: "ledger_env \<Rightarrow> obj \<Rightarrow> string" where
  "lifecycle_text env ob = ltext env (v_or (oget ob ''lifecycle_state'') (VStr ''unknown''))"

definition evidence_fields :: "string list" where
  "evidence_fields = [''ex_date'', ''stock_ratio'', ''shares_before'', ''shares_issued'', ''shares_after'']"

lemma evidence_fields_subset: "set evidence_fields \<subseteq> set merge_fields"
proof -
  have "list_all (\<lambda>f. f \<in> set merge_fields) evidence_fields" by code_simp
  then show ?thesis by (auto simp: list_all_iff)
qed

lemma agreement_fields_subset: "set agreement_fields \<subseteq> set merge_fields"
  unfolding merge_fields_def set_append by blast

lemma evidence_fields_kept: "f \<in> set evidence_fields \<Longrightarrow> f \<notin> pointer_fields"
  unfolding evidence_fields_def using pointer_fields_others by auto

lemma lifecycle_of_in: "ms \<noteq> [] \<Longrightarrow> \<exists>ob\<in>set ms. lifecycle_of env ms = lifecycle_text env ob"
  using first_max_in[of rank_of_lifecycle] by (cases ms) (fastforce simp: lifecycle_of_def lifecycle_text_def)+

lemma rank_executed: "\<not> rank_of_lifecycle s < rank_of_lifecycle ''executed'' \<Longrightarrow> s = ''executed''"
  by (auto simp: rank_of_lifecycle_def lifecycle_rank_def split: if_splits option.splits)

lemma agreed_sort [simp]: "agreed env (sort_key f ms) g = agreed env ms g"
  by (simp add: agreed_def)

lemma merged_ok_sort [simp]: "merged_ok env (sort_key g ms) m c f = merged_ok env ms m c f"
  by (simp add: merged_ok_def)

lemma ledger_entry_origin:
  assumes L: "build_ledger env obs = Inr L" and e: "e \<in> set (lg_entries L)"
  obtains k e0 where "members_of env obs k \<noteq> []" "set (members_of env obs k) \<subseteq> set obs"
    "reconcile env k (members_of env obs k) = Inr e0" "same_event e0 e"
    "oget e ''superseded_by'' = VNone \<and> keeps_state e0 e
       \<or> oget e ''superseded_by'' \<noteq> VNone \<and> oget e ''execution_status'' \<in> {VStr ''cancelled'', VStr ''amended''}"
proof -
  obtain kept dups gs us es where d: "deduplicate env obs ([], []) = (kept, dups)"
    and gs: "grouped_by_link env (map snd kept) gs" and sub: "set (map snd kept) \<subseteq> set obs"
    and es: "mapE (\<lambda>(key, members). reconcile env key members) (sort_key fst gs) = Inr es"
    and le: "lg_entries L = fst (apply_supersession (sort_key (ordering_key env) es))"
    by (rule build_ledger_stages[OF L])
  let ?es = "sort_key (ordering_key env) es"
  have origin: "\<exists>k. members_of env obs k \<noteq> [] \<and> reconcile env k (members_of env obs k) = Inr e0" if in_es: "e0 \<in> set es" for e0
  proof -
    obtain k ms where "(k, ms) \<in> set gs" "reconcile env k ms = Inr e0"
      using mapE_Inr_set[OF es in_es] by (auto split: prod.splits)
    moreover from this have "ms = members_of env obs k" "ms \<noteq> []" using gs[unfolded grouped_by_link_def] unfolding members_of_def d fst_conv by blast+
    ultimately show ?thesis by blast
  qed
  have start: "oget e0 ''superseded_by'' = VNone \<and> oget e0 ''event_id'' \<noteq> VNone" if in_es: "e0 \<in> set ?es" for e0
  proof -
    obtain k ms where "reconcile env k ms = Inr e0" using origin[of e0] in_es unfolding set_sort by blast
    then show ?thesis by (cases k) (auto elim!: reconcile_fields)
  qed
  have links: "linked_entries ?es (length ?es) (lg_entries L)" unfolding le by (rule apply_supersession_links[OF start])
  obtain i where i: "i < length (lg_entries L)" "e = lg_entries L ! i" using e by (auto simp: in_set_conv_nth)
  have i': "i < length ?es" using i(1) links by (simp add: linked_entries_def)
  then obtain k where k: "members_of env obs k \<noteq> []" "reconcile env k (members_of env obs k) = Inr (?es ! i)"
    using origin[of "?es ! i"] by (metis nth_mem set_sort)
  have "set (members_of env obs k) \<subseteq> set obs" using sub by (auto simp: members_of_def d)
  moreover have "same_event (?es ! i) e" using links i i' by (simp add: linked_entries_def)
  moreover have "oget e ''superseded_by'' = VNone \<and> keeps_state (?es ! i) e
      \<or> oget e ''superseded_by'' \<noteq> VNone \<and> oget e ''execution_status'' \<in> {VStr ''cancelled'', VStr ''amended''}"
    using links i i' unfolding linked_entries_def superseded_by_entry_def by (auto split: if_splits)
  ultimately show thesis using that[OF k(1) _ k(2)] by blast
qed

definition entry_backed :: "ledger_env \<Rightarrow> obj list \<Rightarrow> obj \<Rightarrow> bool" where
  \<comment> \<open>the observations of an entry agree, one is executed, and each stated field of the entry is theirs\<close>
  "entry_backed env ms e \<longleftrightarrow> (\<exists>ob\<in>set ms. lifecycle_text env ob = ''executed'')
    \<and> (\<forall>f\<in>set agreement_fields. agreed env ms f)
    \<and> (\<forall>f\<in>set evidence_fields.
         if oget e f = VNone then \<forall>ob\<in>set ms. oget ob f = VNone else \<exists>ob\<in>set ms. oget ob f = oget e f)"

definition counts_add_up :: "obj \<Rightarrow> bool" where
  "counts_add_up e \<longleftrightarrow> VNone \<in> {oget e ''shares_before'', oget e ''shares_issued'', oget e ''shares_after''}
     \<or> (\<exists>b i. py_int (oget e ''shares_before'') = Inr b \<and> py_int (oget e ''shares_issued'') = Inr i
          \<and> py_int (oget e ''shares_after'') = Inr (b + i))"

lemma qualified_reconciled:
  assumes "reconcile env (ticker, event_type, issued) ms = Inr e" "ms \<noteq> []" "oget e ''qualification_state'' = VStr ''qualified''"
  shows "oget e ''ticker'' = VStr ticker \<and> oget e ''event_type'' = VStr event_type \<and> entry_backed env ms e \<and> counts_add_up e"
  using assms(1)
proof (rule reconcile_fields)
  fix m c corr q reason factor
  assume m: "merge_members env (sort_key (member_key env) ms) = Inr (m, c)"
    and corr: "corroborate env m (sort_key (member_key env) ms) = Inr corr"
    and q: "qualify env c corr (lifecycle_of env (sort_key (member_key env) ms)) = (q, reason)"
    and fields: "oget e ''qualification_state'' = VStr q" "oget e ''ticker'' = VStr ticker" "oget e ''event_type'' = VStr event_type"
      "oget e ''ex_date'' = oget m ''ex_date''" "oget e ''stock_ratio'' = oget m ''stock_ratio''"
      "oget e ''shares_before'' = oget m ''shares_before''" "oget e ''shares_issued'' = oget m ''shares_issued''"
      "oget e ''shares_after'' = oget m ''shares_after''"
  have quality: "c = []" "oget corr ''state'' \<noteq> VStr ''violated''" "lifecycle_of env (sort_key (member_key env) ms) = ''executed''"
    using q assms(3) fields(1) rank_executed by (auto simp: qualify_def Let_def split: if_splits)
  have ok: "merged_ok env ms m [] f" if "f \<in> set merge_fields" for f
    using merge_members_ok[OF m that] quality(1) by simp
  have agree: "\<forall>f\<in>set agreement_fields. agreed env ms f"
    using ok agreement_fields_subset unfolding merged_ok_def by blast
  have entry: "oget e f = oget m f" if "f \<in> set evidence_fields" for f
    using that fields(4-8) unfolding evidence_fields_def by auto
  have said: "if oget e f = VNone then \<forall>ob\<in>set ms. oget ob f = VNone else \<exists>ob\<in>set ms. oget ob f = oget e f"
    if "f \<in> set evidence_fields" for f
    using ok[OF subsetD[OF evidence_fields_subset that]] unfolding merged_ok_def entry[OF that] by (simp split: if_split)
  have sum: "counts_add_up m"
    using corr quality(2) by (auto simp: counts_add_up_def corroborate_def Let_def bindE_eq_Inr split: if_splits)
  then have "counts_add_up e" using entry unfolding evidence_fields_def counts_add_up_def by simp
  moreover have "sort_key (member_key env) ms \<noteq> []" using assms(2) by (metis length_0_conv length_sort)
  then have "\<exists>ob\<in>set ms. lifecycle_text env ob = ''executed''"
    using lifecycle_of_in[of "sort_key (member_key env) ms" env] quality(3) by auto
  ultimately show ?thesis using fields(2,3) agree said unfolding entry_backed_def by blast
qed

text \<open>
  C5. A qualified entry is supported: all the observations that link to its event - the first one of each
  identifier - agree on every field that must agree, one of them says the event was executed, each value of
  the entry is stated by one of them and none is left out, and if the three share counts are stated they add
  up.
\<close>

theorem qualified_entry_supported:
  assumes "build_ledger env obs = Inr L" "e \<in> set (lg_entries L)" "oget e ''qualification_state'' = VStr ''qualified''"
  shows "\<exists>k. members_of env obs k \<noteq> [] \<and> set (members_of env obs k) \<subseteq> set obs
    \<and> oget e ''ticker'' = VStr (fst k) \<and> oget e ''event_type'' = VStr (fst (snd k))
    \<and> entry_backed env (members_of env obs k) e \<and> counts_add_up e"
proof -
  obtain k e0 where ms: "members_of env obs k \<noteq> []" "set (members_of env obs k) \<subseteq> set obs"
    and rec: "reconcile env k (members_of env obs k) = Inr e0" and same: "same_event e0 e"
    by (rule ledger_entry_origin[OF assms(1,2)])
  note eq = same_event_field[OF same] pointer_fields_others
  have "oget e f = oget e0 f" if "f \<in> set evidence_fields" for f
    using same_event_field[OF same evidence_fields_kept[OF that]] .
  then have "entry_backed env ms e \<longleftrightarrow> entry_backed env ms e0" "counts_add_up e \<longleftrightarrow> counts_add_up e0" for ms
    unfolding evidence_fields_def entry_backed_def counts_add_up_def by simp_all
  moreover have "oget e0 ''qualification_state'' = VStr ''qualified''" using assms(3) eq by auto
  moreover have "oget e ''ticker'' = oget e0 ''ticker''" "oget e ''event_type'' = oget e0 ''event_type''" using eq by auto
  moreover obtain ticker event_type issued where k: "k = (ticker, event_type, issued)" by (cases k)
  ultimately show ?thesis using qualified_reconciled[OF rec[unfolded k] ms(1)[unfolded k]] ms by (intro exI[of _ k]) (simp add: k)
qed

section \<open>Factors\<close>

lemma factor_value_unit:
  assumes "factor_value env ratio = Inr f" "py_float (ce_number env) ratio = Inr r" "0 \<le> r"
  shows "0 \<le> f" "f \<le> 1"
proof -
  let ?d = "to_double (1 + r)"
  have f: "f = py_round 12 (to_double (1 / ?d))" using assms(1,2) by (auto simp: factor_value_def Let_def split: if_splits)
  have "1 \<le> ?d" using to_double_ge_1[of "1 + r"] assms(3) by simp
  then have d: "0 \<le> 1 / ?d" "1 / ?d \<le> of_int 1" by (simp_all add: divide_le_eq)
  have "0 \<le> to_double (1 / ?d)" "to_double (1 / ?d) \<le> 1"
    using to_double_nonneg[OF d(1)] to_double_le_int[OF d] by simp_all
  then show "0 \<le> f" "f \<le> 1" unfolding f using py_round_unit by blast+
qed

lemma factor_value_Inr:
  assumes "factor_value env ratio = Inr f"
  shows "\<exists>r. py_float (ce_number env) ratio = Inr r \<and> to_double (1 + r) \<noteq> 0
    \<and> f = py_round 12 (to_double (1 / to_double (1 + r))) \<and> (0 \<le> r \<longrightarrow> 0 \<le> f \<and> f \<le> 1)"
  using assms factor_value_unit[OF assms] by (auto simp: factor_value_def bindE_eq_Inr Let_def split: if_splits)

lemma ready_factor:
  assumes "adjustment_factor env event_type m q = Inr factor" "oget factor ''adjustment_factor_status'' = VStr ''ready''"
  shows "event_type \<in> set rescaling_types \<and> q = ''qualified'' \<and> v_true (oget m ''ex_date'') \<and> oget m ''stock_ratio'' \<noteq> VNone
    \<and> (\<exists>f. factor_value env (oget m ''stock_ratio'') = Inr f \<and> oget factor ''adjustment_factor'' = VFloat f)"
  using assms by (auto simp: adjustment_factor_def factor_fields_def Let_def bindE_eq_Inr split: if_splits)

text \<open>
  C7. A ready factor is earned: the event changes the number of shares, it is qualified, a document states an
  ex-date and one the ratio, that ratio is a number other than the one whose double quotient is undefined,
  and the factor is the rounded quotient of it.  For a ratio that is not negative it is in the unit
  interval; the sign of the ratio is not checked, and a negative one gives another factor.
\<close>

theorem ready_factor_earned:
  assumes "build_ledger env obs = Inr L" "e \<in> set (lg_entries L)" "oget e ''adjustment_factor_status'' = VStr ''ready''"
  shows "oget e ''qualification_state'' = VStr ''qualified'' \<and> (\<exists>t\<in>set rescaling_types. oget e ''event_type'' = VStr t)
    \<and> v_true (oget e ''ex_date'') \<and> (\<exists>ob\<in>set obs. oget ob ''ex_date'' = oget e ''ex_date'')
    \<and> (\<exists>ob\<in>set obs. oget ob ''stock_ratio'' = oget e ''stock_ratio'')
    \<and> (\<exists>r f. py_float (ce_number env) (oget e ''stock_ratio'') = Inr r \<and> to_double (1 + r) \<noteq> 0
        \<and> oget e ''adjustment_factor'' = VFloat f \<and> f = py_round 12 (to_double (1 / to_double (1 + r)))
        \<and> (0 \<le> r \<longrightarrow> 0 \<le> f \<and> f \<le> 1))"
proof -
  obtain k e0 where ms: "set (members_of env obs k) \<subseteq> set obs"
    and rec: "reconcile env k (members_of env obs k) = Inr e0" and same: "same_event e0 e"
    by (rule ledger_entry_origin[OF assms(1,2)])
  obtain ticker event_type issued where k: "k = (ticker, event_type, issued)" by (cases k)
  have eq: "oget e f = oget e0 f" if "f \<notin> pointer_fields" for f by (rule same_event_field[OF same that])
  from rec[unfolded k] show ?thesis
  proof (rule reconcile_fields, fold k)
    fix m c corr q reason factor
    assume m: "merge_members env (sort_key (member_key env) (members_of env obs k)) = Inr (m, c)"
      and factor: "adjustment_factor env event_type m q = Inr factor"
      and fields: "oget e0 ''qualification_state'' = VStr q" "oget e0 ''event_type'' = VStr event_type"
        "oget e0 ''ex_date'' = oget m ''ex_date''" "oget e0 ''stock_ratio'' = oget m ''stock_ratio''"
        "oget e0 ''adjustment_factor'' = oget factor ''adjustment_factor''"
        "oget e0 ''adjustment_factor_status'' = oget factor ''adjustment_factor_status''"
    have st: "oget factor ''adjustment_factor_status'' = VStr ''ready''"
      using assms(3) fields(6) eq[OF pointer_fields_others(12)] by simp
    note r = ready_factor[OF factor st]
    then obtain f where f: "factor_value env (oget m ''stock_ratio'') = Inr f" "oget factor ''adjustment_factor'' = VFloat f" by blast
    have said: "\<exists>ob\<in>set obs. oget ob g = oget m g" if "g \<in> set merge_fields" "oget m g \<noteq> VNone" for g
      using merge_members_ok[OF m that(1)] that(2) ms unfolding merged_ok_def set_sort by blast
    have in_merge: "''ex_date'' \<in> set merge_fields" "''stock_ratio'' \<in> set merge_fields"
      using evidence_fields_subset by (auto simp: evidence_fields_def)
    have "oget m ''ex_date'' \<noteq> VNone" using r by auto
    then have "\<exists>ob\<in>set obs. oget ob ''ex_date'' = oget m ''ex_date''" "\<exists>ob\<in>set obs. oget ob ''stock_ratio'' = oget m ''stock_ratio''"
      using said in_merge r by blast+
    moreover have "oget e ''qualification_state'' = VStr q" "oget e ''event_type'' = VStr event_type"
      "oget e ''ex_date'' = oget m ''ex_date''" "oget e ''stock_ratio'' = oget m ''stock_ratio''"
      "oget e ''adjustment_factor'' = VFloat f"
      using eq[OF pointer_fields_others(5)] eq[OF pointer_fields_others(2)] eq[OF pointer_fields_others(6)]
        eq[OF pointer_fields_others(7)] eq[OF pointer_fields_others(11)] fields f(2) by simp_all
    moreover obtain x where "py_float (ce_number env) (oget m ''stock_ratio'') = Inr x" "to_double (1 + x) \<noteq> 0"
      "f = py_round 12 (to_double (1 / to_double (1 + x)))" "0 \<le> x \<longrightarrow> 0 \<le> f \<and> f \<le> 1"
      using factor_value_Inr[OF f(1)] by blast
    ultimately show ?thesis using r by auto
  qed
qed

section \<open>Order of the observations\<close>

definition obs_id :: "ledger_env \<Rightarrow> obj \<Rightarrow> string" where
  "obs_id env ob = ltext env (oget ob ''observation_id'')"

lemma deduplicate_obs_id:
  "deduplicate env (ob # rest) (kept, dups) =
     (if obs_id env ob \<in> set (map fst kept)
      then deduplicate env rest (kept, dups @ [[(''observation_id'', VStr (obs_id env ob)),
             (''document_id'', oget ob ''document_id''), (''reason'', VStr ''identical observation identity already linked'')]])
      else deduplicate env rest (kept @ [(obs_id env ob, ob)], dups))"
  by (simp add: obs_id_def Let_def)

definition identified :: "ledger_env \<Rightarrow> obj list \<Rightarrow> bool" where
  \<comment> \<open>every observation has an identifier, and two of one identifier are the same\<close>
  "identified env obs \<longleftrightarrow> inj_on (\<lambda>ob. obs_id env ob) (set obs)
     \<and> (\<forall>ob\<in>set obs. v_true (oget ob ''observation_id''))"

lemma deduplicate_complete:
  assumes "deduplicate env xs (kept, dups) = (kept', dups')"
  shows "set (map fst kept') = set (map fst kept) \<union> (\<lambda>ob. obs_id env ob) ` set xs
    \<and> length kept' + length dups' = length kept + length dups + length xs"
  using assms
proof (induction xs arbitrary: kept dups)
  case (Cons ob xs)
  show ?case
  proof (cases "obs_id env ob \<in> set (map fst kept)")
    case True
    then obtain d where "deduplicate env xs (kept, dups @ [d]) = (kept', dups')"
      using Cons.prems unfolding deduplicate_obs_id by auto
    from Cons.IH[OF this] True show ?thesis by auto
  next
    case False
    then have "deduplicate env xs (kept @ [(obs_id env ob, ob)], dups) = (kept', dups')"
      using Cons.prems unfolding deduplicate_obs_id by simp
    from Cons.IH[OF this] show ?thesis by auto
  qed
qed simp

lemma deduplicate_identified:
  assumes "deduplicate env obs ([], []) = (kept, dups)" "identified env obs"
  shows "set (map snd kept) = set obs" "distinct (map snd kept)" "length kept + length dups = length obs"
proof -
  have k: "distinct (map fst kept)" "\<forall>(i, ob)\<in>set kept. i = obs_id env ob" "snd ` set kept \<subseteq> set obs"
    using deduplicate_kept[OF assms(1)] by (simp_all add: obs_id_def)
  have c: "fst ` set kept = (\<lambda>ob. obs_id env ob) ` set obs" "length kept + length dups = length obs"
    using deduplicate_complete[OF assms(1)] by simp_all
  have ids: "map fst kept = map (\<lambda>ob. obs_id env ob) (map snd kept)" using k(2) by auto
  have "ob \<in> snd ` set kept" if ob: "ob \<in> set obs" for ob
  proof -
    obtain p where p: "p \<in> set kept" "fst p = obs_id env ob" using c(1) ob by (metis (no_types, lifting) imageE imageI)
    then have "obs_id env (snd p) = obs_id env ob" "snd p \<in> set obs" using k(2,3) by auto
    then have "snd p = ob" using assms(2) ob unfolding identified_def inj_on_def by blast
    then show ?thesis using p(1) by blast
  qed
  then show "set (map snd kept) = set obs" using k(3) by auto
  show "distinct (map snd kept)" using k(1) unfolding ids by (simp only: distinct_map)
  show "length kept + length dups = length obs" by (rule c(2))
qed

lemma member_key_inj: "identified env obs \<Longrightarrow> inj_on (member_key env) (set obs)"
  by (auto simp: identified_def inj_on_def member_key_def v_or_def obs_id_def)

definition left_unlinked :: "ledger_env \<Rightarrow> obj \<Rightarrow> obj list" where
  "left_unlinked env ob = (case link_key_of env ob of Inl e \<Rightarrow> []
     | Inr k \<Rightarrow> if linked_to env k ob then [] else [unlinked_entry ob (fst (snd k))])"

lemma link_unlinked:
  "foldE (link_one env) xs (gs, us) = Inr (gs', us') \<Longrightarrow> us' = us @ concat (map (left_unlinked env) xs)"
proof (induction xs arbitrary: gs us)
  case (Cons ob xs)
  then obtain k g1 u1 where k: "link_key_of env ob = Inr k"
    and g1: "(g1, u1) = (if linked_to env k ob then (group_add gs k ob, us) else (gs, us @ [unlinked_entry ob (fst (snd k))]))"
    and rest: "foldE (link_one env) xs (g1, u1) = Inr (gs', us')"
    unfolding foldE.simps bindE_eq_Inr link_one_Inr by (metis surj_pair)
  from Cons.IH[OF rest] g1 show ?case by (auto simp: left_unlinked_def k split: if_splits)
qed simp

lemma mset_concat_map_perm: "mset xs = mset ys \<Longrightarrow> mset (concat (map f xs)) = mset (concat (map f ys))"
proof -
  assume "mset xs = mset ys"
  then have "\<Sum>\<^sub># (image_mset (mset \<circ> f) (mset xs)) = \<Sum>\<^sub># (image_mset (mset \<circ> f) (mset ys))" by simp
  then show ?thesis by (simp add: mset_concat sum_mset_sum_list flip: mset_map)
qed

lemma link_total:
  "\<forall>ob\<in>set xs. is_ok (link_key_of env ob) \<Longrightarrow> \<exists>r. foldE (link_one env) xs s = Inr r"
proof (induction xs arbitrary: s)
  case (Cons ob xs)
  obtain gs us where s: "s = (gs, us)" by fastforce
  obtain k where "link_key_of env ob = Inr k" using Cons.prems is_okE by fastforce
  then obtain s1 where "link_one env ob s = Inr s1" unfolding s link_one_Inr by blast
  then show ?case using Cons by simp
qed simp

lemma grouped_sorted:
  assumes "grouped_by_link env xs gs"
  shows "sort_key fst gs = map (\<lambda>k. (k, filter (linked_to env k) xs)) (sort (map fst gs))"
proof -
  have mem: "(k, ms) \<in> set gs \<Longrightarrow> ms = filter (linked_to env k) xs" for k ms
    using assms unfolding grouped_by_link_def by blast
  have "sort_key fst gs = sort_key fst (map (\<lambda>k. (k, filter (linked_to env k) xs)) (sort (map fst gs)))"
  proof (rule sort_key_perm_inj)
    have "gs = map (\<lambda>k. (k, filter (linked_to env k) xs)) (map fst gs)"
    proof -
      have "map (\<lambda>p. (fst p, filter (linked_to env (fst p)) xs)) gs = gs"
      proof (rule map_idI)
        fix p assume "p \<in> set gs"
        then show "(fst p, filter (linked_to env (fst p)) xs) = p" using mem[of "fst p" "snd p"] by (metis prod.collapse)
      qed
      then show ?thesis by (simp add: comp_def)
    qed
    then have "mset gs = mset (map (\<lambda>k. (k, filter (linked_to env k) xs)) (map fst gs))" by (rule arg_cong)
    also have "\<dots> = mset (map (\<lambda>k. (k, filter (linked_to env k) xs)) (sort (map fst gs)))" by (simp only: mset_map mset_sort)
    finally show "mset gs = mset (map (\<lambda>k. (k, filter (linked_to env k) xs)) (sort (map fst gs)))" .
    show "inj_on fst (set gs)" using assms by (simp add: grouped_by_link_def distinct_map)
  qed
  also have "\<dots> = map (\<lambda>k. (k, filter (linked_to env k) xs)) (sort (map fst gs))"
    by (rule sort_key_id_if_sorted) (simp add: comp_def)
  finally show ?thesis .
qed

lemma grouped_keys: "grouped_by_link env xs gs \<Longrightarrow> set (map fst gs) = {k. filter (linked_to env k) xs \<noteq> []}"
proof -
  assume gs: "grouped_by_link env xs gs"
  have "k \<in> set (map fst gs) \<longleftrightarrow> (\<exists>ms. (k, ms) \<in> set gs)" for k by force
  then have "k \<in> set (map fst gs) \<longleftrightarrow> filter (linked_to env k) xs \<noteq> []" for k
    using gs unfolding grouped_by_link_def by simp
  then show ?thesis by blast
qed

lemma reconcile_perm:
  assumes "mset ms = mset ms'" "inj_on (member_key env) (set ms)"
  shows "reconcile env k ms = reconcile env k ms'"
  by (simp add: reconcile_def sort_key_perm_inj[OF assms] split: prod.splits)

lemma mapE_map: "mapE f (map g xs) = mapE (f \<circ> g) xs"
  by (induction xs) simp_all

lemma entries_perm:
  assumes perm: "mset xs = mset ys" and inj: "inj_on (member_key env) (set xs)"
    and gs: "grouped_by_link env xs gs" "grouped_by_link env ys hs"
  shows "mapE (\<lambda>(key, members). reconcile env key members) (sort_key fst gs)
    = mapE (\<lambda>(key, members). reconcile env key members) (sort_key fst hs)"
proof -
  have fl: "mset (filter P xs) = mset (filter P ys)" for P using perm by simp
  then have "(filter P xs = []) = (filter P ys = [])" for P by (metis mset_zero_iff)
  then have "set (map fst gs) = set (map fst hs)" using grouped_keys[OF gs(1)] grouped_keys[OF gs(2)] by simp
  then have keys: "sort (map fst gs) = sort (map fst hs)"
    using gs by (intro sorted_distinct_set_unique) (simp_all add: grouped_by_link_def)
  have "reconcile env k (filter (linked_to env k) xs) = reconcile env k (filter (linked_to env k) ys)" for k
    by (rule reconcile_perm[OF fl inj_on_subset[OF inj]]) auto
  then show ?thesis unfolding grouped_sorted[OF gs(1)] grouped_sorted[OF gs(2)] keys mapE_map
    by (intro mapE_cong) simp
qed

text \<open>
  C6. The same documents give the same ledger, if every observation has an identifier and observations of
  one identifier are the same: in whatever order they come and however often each is repeated, the
  entries, the supersessions, the counts and the fingerprint are equal, and so are the unlinked
  observations up to order; there are as many duplicates reported as repetitions.  The condition
  is needed: of two different observations with one identifier the ledger keeps the one that comes first.
\<close>

theorem ledger_order_independent:
  assumes same: "set obs = set obs'" and ids: "identified env obs" and L: "build_ledger env obs = Inr L"
  shows "\<exists>us ds. build_ledger env obs' = Inr (L\<lparr>lg_unlinked := us, lg_duplicates := ds\<rparr>)
    \<and> mset us = mset (lg_unlinked L) \<and> card (set obs') + length ds = length obs'"
proof -
  have ids': "identified env obs'" using ids same by (simp add: identified_def)
  obtain kept dups where d: "deduplicate env obs ([], []) = (kept, dups)" by fastforce
  obtain kept' dups' where d': "deduplicate env obs' ([], []) = (kept', dups')" by fastforce
  note k = deduplicate_identified[OF d ids] and k' = deduplicate_identified[OF d' ids']
  have perm: "mset (map snd kept) = mset (map snd kept')"
    using set_eq_iff_mset_eq_distinct[OF k(2) k'(2)] k(1) k'(1) same by simp
  obtain gs us es where g: "foldE (link_one env) (map snd kept) ([], []) = Inr (gs, us)"
    and es: "mapE (\<lambda>(key, members). reconcile env key members) (sort_key fst gs) = Inr es"
    using L by (auto simp: build_ledger_def d bindE_eq_Inr)
  have "\<forall>ob\<in>set (map snd kept). is_ok (link_key_of env ob)"
    using link_all[OF g, of "[]"] by (simp add: grouped_by_link_def)
  then have "\<forall>ob\<in>set (map snd kept'). is_ok (link_key_of env ob)" using perm by (metis set_mset_mset)
  then obtain hs vs where h: "foldE (link_one env) (map snd kept') ([], []) = Inr (hs, vs)" using link_total by fastforce
  have "inj_on (member_key env) (set (map snd kept))" unfolding k(1) by (rule member_key_inj[OF ids])
  from entries_perm[OF perm this link_start[OF g] link_start[OF h]]
  have es': "mapE (\<lambda>(key, members). reconcile env key members) (sort_key fst hs) = Inr es" using es by simp
  have "mset vs = mset us" using link_unlinked[OF g] link_unlinked[OF h] mset_concat_map_perm[OF perm, of "left_unlinked env"] by simp
  moreover have "card (set obs') + length dups' = length obs'"
    using distinct_card[OF k'(2)] k'(1,3) by simp
  moreover have "build_ledger env obs' = Inr (L\<lparr>lg_unlinked := vs, lg_duplicates := dups'\<rparr>) \<and> lg_unlinked L = us"
    using L by (auto simp: build_ledger_def d d' g h es es' Let_def split: prod.splits)
  ultimately show ?thesis by blast
qed

section \<open>A sample ledger\<close>

definition sample_ledger_env :: ledger_env where
  "sample_ledger_env = \<lparr>ce_text = \<lparr>te_repr = (\<lambda>v. []), te_float = (\<lambda>r. ''0.5''), te_sha = (\<lambda>s. [])\<rparr>, ce_number = (\<lambda>s. None)\<rparr>"

definition issuer_notice :: obj where
  "issuer_notice = [(''observation_id'', VStr ''a''), (''ticker'', VStr ''HPG''), (''event_type'', VStr ''stock_split''),
     (''shares_before'', VInt 1), (''shares_issued'', VInt 1), (''ex_date'', VStr ''d''), (''stock_ratio'', VInt 1)]"

definition exchange_notice :: obj where
  "exchange_notice = [(''observation_id'', VStr ''b''), (''ticker'', VStr ''HPG''), (''event_type'', VStr ''stock_split''),
     (''shares_issued'', VInt 1), (''shares_after'', VInt 2), (''lifecycle_state'', VStr ''executed'')]"




lemma apply_supersession_single: "\<not> is_superseding e \<Longrightarrow> apply_supersession [e] = ([e], [])"
  by (simp add: apply_supersession_def supersede_entry_def)

lemma build_ledger_single:
  assumes "deduplicate env obs ([], []) = (kept, dups)" "foldE (link_one env) (map snd kept) ([], []) = Inr ([(k, ms)], us)"
    "reconcile env k ms = Inr e" "\<not> is_superseding e"
  obtains L where "build_ledger env obs = Inr L" "lg_entries L = [e]"
  using assms by (simp add: build_ledger_def apply_supersession_single)

lemma build_ledger_unlinked:
  assumes "deduplicate env obs ([], []) = (kept, dups)" "foldE (link_one env) (map snd kept) ([], []) = Inr ([], us)"
  obtains L where "build_ledger env obs = Inr L" "lg_entries L = []"
  using assms by (simp add: build_ledger_def apply_supersession_def)

lemma sample_reconciled:
  "case reconcile sample_ledger_env (''HPG'', ''stock_split'', ''1'') [issuer_notice, exchange_notice] of
     Inl x \<Rightarrow> False
   | Inr e \<Rightarrow> oget e ''qualification_state'' = VStr ''qualified'' \<and> oget e ''adjustment_factor_status'' = VStr ''ready''
       \<and> oget e ''adjustment_factor'' = VFloat (1 / 2) \<and> \<not> is_superseding e"
  by code_simp

lemma sample_ledger:
  obtains L e where "build_ledger sample_ledger_env [issuer_notice, exchange_notice] = Inr L" "lg_entries L = [e]"
    "oget e ''qualification_state'' = VStr ''qualified''" "oget e ''adjustment_factor_status'' = VStr ''ready''"
    "oget e ''adjustment_factor'' = VFloat (1 / 2)"
    "reconcile sample_ledger_env (''HPG'', ''stock_split'', ''1'') [issuer_notice, exchange_notice] = Inr e"
proof -
  obtain e where e: "reconcile sample_ledger_env (''HPG'', ''stock_split'', ''1'') [issuer_notice, exchange_notice] = Inr e"
    "oget e ''qualification_state'' = VStr ''qualified''" "oget e ''adjustment_factor_status'' = VStr ''ready''"
    "oget e ''adjustment_factor'' = VFloat (1 / 2)" "\<not> is_superseding e"
    using sample_reconciled by (auto split: sum.splits)
  have d: "deduplicate sample_ledger_env [issuer_notice, exchange_notice] ([], [])
      = ([(''a'', issuer_notice), (''b'', exchange_notice)], [])" by code_simp
  have g: "foldE (link_one sample_ledger_env) (map snd [(''a'', issuer_notice), (''b'', exchange_notice)]) ([], [])
      = Inr ([((''HPG'', ''stock_split'', ''1''), [issuer_notice, exchange_notice])], [])" by code_simp
  show thesis using build_ledger_single[OF d g e(1,5)] that e by metis
qed

lemma sample_identified: "identified sample_ledger_env [issuer_notice, exchange_notice]"
  by code_simp

theorem qualified_entry_supported_witness:
  "\<exists>k. members_of sample_ledger_env [issuer_notice, exchange_notice] k \<noteq> []
    \<and> (\<forall>f\<in>set agreement_fields. agreed sample_ledger_env (members_of sample_ledger_env [issuer_notice, exchange_notice] k) f)"
proof (rule sample_ledger)
  fix L e
  assume "build_ledger sample_ledger_env [issuer_notice, exchange_notice] = Inr L" "lg_entries L = [e]"
    "oget e ''qualification_state'' = VStr ''qualified''"
  then show ?thesis using qualified_entry_supported[of sample_ledger_env "[issuer_notice, exchange_notice]" L e]
    by (auto simp: entry_backed_def)
qed

theorem ready_factor_earned_witness:
  "\<exists>L e f. build_ledger sample_ledger_env [issuer_notice, exchange_notice] = Inr L \<and> e \<in> set (lg_entries L)
    \<and> oget e ''adjustment_factor'' = VFloat f \<and> 0 \<le> f \<and> f \<le> 1"
proof (rule sample_ledger)
  fix L e
  assume "build_ledger sample_ledger_env [issuer_notice, exchange_notice] = Inr L" "lg_entries L = [e]"
    "oget e ''adjustment_factor_status'' = VStr ''ready''" "oget e ''adjustment_factor'' = VFloat (1 / 2)"
  then show ?thesis using ready_factor_earned[of sample_ledger_env "[issuer_notice, exchange_notice]" L e] by auto
qed

theorem ledger_order_independent_witness:
  "\<exists>L us ds. build_ledger sample_ledger_env [exchange_notice, issuer_notice, exchange_notice]
      = Inr (L\<lparr>lg_unlinked := us, lg_duplicates := ds\<rparr>) \<and> lg_entries L \<noteq> [] \<and> length ds = 1"
proof (rule sample_ledger)
  fix L e
  assume L: "build_ledger sample_ledger_env [issuer_notice, exchange_notice] = Inr L" "lg_entries L = [e]"
  have "set [issuer_notice, exchange_notice] = set [exchange_notice, issuer_notice, exchange_notice]" by auto
  moreover have "issuer_notice \<noteq> exchange_notice" by code_simp
  ultimately obtain us ds where "build_ledger sample_ledger_env [exchange_notice, issuer_notice, exchange_notice]
      = Inr (L\<lparr>lg_unlinked := us, lg_duplicates := ds\<rparr>)" "length ds = 1"
    using ledger_order_independent[OF _ sample_identified L(1), of "[exchange_notice, issuer_notice, exchange_notice]"]
    by (auto simp: card_insert_if)
  then show ?thesis using L(2) by (intro exI[of _ L] exI[of _ us] exI[of _ ds]) simp
qed

text \<open>
  Of two different observations with one identifier the first is kept: the notice that states no event is
  left unlinked and hides the other, or is itself dropped as identical, by the order they come in.
\<close>

definition bare_notice :: obj where
  "bare_notice = [(''observation_id'', VStr ''a''), (''ticker'', VStr ''HPG'')]"

theorem first_of_an_identity_wins:
  "\<exists>L M. build_ledger sample_ledger_env [bare_notice, issuer_notice] = Inr L \<and> lg_entries L = []
     \<and> build_ledger sample_ledger_env [issuer_notice, bare_notice] = Inr M \<and> length (lg_entries M) = 1"
proof -
  have d: "deduplicate sample_ledger_env [issuer_notice, bare_notice] ([], [])
      = ([(''a'', issuer_notice)], snd (deduplicate sample_ledger_env [issuer_notice, bare_notice] ([], [])))"
    "deduplicate sample_ledger_env [bare_notice, issuer_notice] ([], [])
      = ([(''a'', bare_notice)], snd (deduplicate sample_ledger_env [bare_notice, issuer_notice] ([], [])))"
    by code_simp+
  have g: "foldE (link_one sample_ledger_env) (map snd [(''a'', issuer_notice)]) ([], [])
      = Inr ([((''HPG'', ''stock_split'', ''1''), [issuer_notice])], [])"
    "foldE (link_one sample_ledger_env) (map snd [(''a'', bare_notice)]) ([], [])
      = Inr ([], [unlinked_entry bare_notice ''unknown''])" by code_simp+
  have "case reconcile sample_ledger_env (''HPG'', ''stock_split'', ''1'') [issuer_notice] of
      Inl x \<Rightarrow> False | Inr e \<Rightarrow> \<not> is_superseding e" by code_simp
  then obtain e where e: "reconcile sample_ledger_env (''HPG'', ''stock_split'', ''1'') [issuer_notice] = Inr e" "\<not> is_superseding e"
    by (auto split: sum.splits)
  obtain M where "build_ledger sample_ledger_env [issuer_notice, bare_notice] = Inr M" "lg_entries M = [e]"
    using build_ledger_single[OF d(1) g(1) e] .
  moreover obtain L where "build_ledger sample_ledger_env [bare_notice, issuer_notice] = Inr L" "lg_entries L = []"
    using build_ledger_unlinked[OF d(2) g(2)] .
  ultimately show ?thesis by simp
qed

text \<open>
  A ratio may be negative: a reverse split of two shares into one, with minus half a new share per existing
  share, has the ready factor 2.
\<close>

theorem reverse_split_factor_above_one:
  "map_sum id (\<lambda>d. (oget d ''adjustment_factor_status'', oget d ''adjustment_factor''))
     (adjustment_factor sample_ledger_env ''reverse_split'' [(''ex_date'', VStr ''d''), (''stock_ratio'', VFloat (- 1 / 2))] ''qualified'')
   = Inr (VStr ''ready'', VFloat 2)"
  by code_simp

text \<open>
  The ledger is append-only: supersession keeps the number and the order of the entries and every field
  of each but its state and its two pointers.  An entry whose pointer is set is named, exactly, by a later
  cancellation or amendment of the same issuer with an equal number of issued shares, and its state says
  which; any other entry keeps its state.
\<close>

theorem supersession_append_only:
  assumes "\<forall>e\<in>set es. oget e ''superseded_by'' = VNone \<and> oget e ''event_id'' \<noteq> VNone"
  shows "length (fst (apply_supersession es)) = length es
    \<and> (\<forall>i<length es. same_event (es ! i) (fst (apply_supersession es) ! i)
      \<and> (if oget (fst (apply_supersession es) ! i) ''superseded_by'' = VNone
         then keeps_state (es ! i) (fst (apply_supersession es) ! i)
         else \<exists>j. superseded_by_entry es (fst (apply_supersession es)) i j))"
  using apply_supersession_links[of es] assms unfolding linked_entries_def by (auto split: if_splits)

definition sample_entry :: "string \<Rightarrow> string \<Rightarrow> int \<Rightarrow> int \<Rightarrow> obj" where
  "sample_entry identifier event_type before after =
     [(''event_id'', VStr identifier), (''ticker'', VStr ''HPG''), (''event_type'', VStr event_type), (''lifecycle_state'', VStr ''executed''),
      (''execution_status'', VStr ''executed''), (''shares_before'', VInt before), (''shares_issued'', VNone),
      (''shares_after'', VInt after), (''superseded_by'', VNone), (''supersedes'', VNone)]"

theorem supersession_append_only_witness:
  "superseded_by_entry [sample_entry ''e'' ''bonus_shares'' 1 2, sample_entry ''f'' ''amendment'' 1 2]
     (fst (apply_supersession [sample_entry ''e'' ''bonus_shares'' 1 2, sample_entry ''f'' ''amendment'' 1 2])) 0 1"
proof -
  let ?es = "[sample_entry ''e'' ''bonus_shares'' 1 2, sample_entry ''f'' ''amendment'' 1 2]"
  have start: "\<forall>e\<in>set ?es. oget e ''superseded_by'' = VNone \<and> oget e ''event_id'' \<noteq> VNone" by (simp add: sample_entry_def)
  have "oget (fst (apply_supersession ?es) ! 0) ''superseded_by'' \<noteq> VNone" by code_simp
  then obtain j where j: "superseded_by_entry ?es (fst (apply_supersession ?es)) 0 j"
    using supersession_append_only[OF start] by (auto split: if_splits)
  then have "j = 1" by (auto simp: superseded_by_entry_def)
  then show ?thesis using j by simp
qed

text \<open>
  The count of issued shares that an amendment must repeat is compared even if neither event states one: two
  events linked by the difference of their totals, 100 shares and 200, are taken for the same event, and
  the amendment of the second one replaces the first.
\<close>

theorem amendment_replaces_another_event:
  "snd (apply_supersession [sample_entry ''e'' ''bonus_shares'' 100 200, sample_entry ''f'' ''amendment'' 500 700]) = [''e'']
   \<and> link_key_of sample_ledger_env (sample_entry ''e'' ''bonus_shares'' 100 200) = Inr (''HPG'', ''bonus_shares'', ''100'')
   \<and> link_key_of sample_ledger_env (sample_entry ''f'' ''amendment'' 500 700) = Inr (''HPG'', ''amendment'', ''200'')"
  by code_simp

end
