(* ===== verification/FactorChain.thy ===== *)
theory FactorChain
  imports CorporateLedger
begin

text \<open>
  The bridge from the entries of the corporate-action ledger to the factor chains that price series accept,
  \<open>stocklookup_core/evidence/qualified_corporate_action_factor_chain.py\<close>.  The resolver of a knowledge cutoff
  is the caller's function.
\<close>

section \<open>Classification\<close>

definition classifications :: "string list" where
  "classifications = [''FACTOR_CHAIN_QUALIFIED'', ''MISSING_EXPLICIT_EX_DATE'', ''NOT_EXECUTED'', ''CONFLICTING'',
     ''FACTOR_NOT_APPLICABLE'', ''OTHER_EVIDENCE_GAP'']"

definition execution_text :: "text_env \<Rightarrow> obj \<Rightarrow> string" where
  "execution_text env e = str_lower (to_text env (v_or (oget e ''execution_status'') (v_or (oget e ''lifecycle_state'') (VStr []))))"

definition classify_ledger_entry :: "text_env \<Rightarrow> obj \<Rightarrow> (string \<times> pyv list) res" where
  "classify_ledger_entry env e =
     (let factor_status = to_text env (v_or (oget e ''adjustment_factor_status'') (VStr []));
          status = execution_text env e
      in if to_text env (v_or (oget e ''qualification_state'') (VStr [])) = ''conflicted''
         then Inr (''CONFLICTING'', [VStr (if v_true (oget e ''conflicts'') then ''documents_conflict'' else ''share_count_identity_violated'')])
         else if factor_status = ''not_applicable''
         then Inr (''FACTOR_NOT_APPLICABLE'', [VStr ''event_type_not_dilutive_or_concentrating''])
         else if status \<noteq> ''executed''
         then Inr (''NOT_EXECUTED'', [VStr (''lifecycle_not_executed:'' @ (if status = [] then ''unknown'' else status))])
         else if \<not> v_true (oget e ''ex_date'')
         then Inr (''MISSING_EXPLICIT_EX_DATE'', VStr ''missing_explicit_official_ex_date''
                # (if v_true (oget e ''record_date'') then [VStr ''record_date_does_not_establish_ex_date''] else []))
         else if factor_status \<noteq> ''ready'' \<or> oget e ''adjustment_factor'' = VNone
         then bindE (py_iter (v_or (oget e ''adjustment_factor_blocked_by'') (VList []))) (\<lambda>blocked_by.
                Inr (''OTHER_EVIDENCE_GAP'', if blocked_by = [] then [VStr ''adjustment_factor_not_ready''] else blocked_by))
         else Inr (''FACTOR_CHAIN_QUALIFIED'', []))"

section \<open>The chain of one entry\<close>

definition chain_identity :: "text_env \<Rightarrow> obj \<Rightarrow> string \<Rightarrow> string" where
  "chain_identity env e cutoff = ''qualified_corporate_action_factor_chain:'' @ fingerprint env
     [(''contract_version'', VStr ''qualified_corporate_action_factor_chain/v1''), (''event_id'', oget e ''event_id''),
      (''ticker'', oget e ''ticker''), (''event_type'', oget e ''event_type''), (''ex_date'', oget e ''ex_date''),
      (''adjustment_factor'', oget e ''adjustment_factor''), (''knowledge_cutoff'', VStr cutoff),
      (''source_content_hashes'', oget e ''source_content_hashes'')]"

definition given :: "string option \<Rightarrow> bool" where
  \<comment> \<open>the truth value of an optional text\<close>
  "given s \<longleftrightarrow> (case s of None \<Rightarrow> False | Some t \<Rightarrow> t \<noteq> [])"

definition opt_text :: "string option \<Rightarrow> pyv" where
  "opt_text s = (case s of None \<Rightarrow> VNone | Some t \<Rightarrow> VStr t)"

definition build_factor_chain_entry :: "text_env \<Rightarrow> obj \<Rightarrow> string option \<Rightarrow> string list \<Rightarrow> obj res" where
  "build_factor_chain_entry env e cutoff cutoff_reasons =
     bindE (classify_ledger_entry env e) (\<lambda>(class, class_reasons).
     let is_ready = (class = ''FACTOR_CHAIN_QUALIFIED'');
         qualified = is_ready \<and> given cutoff;
         classification = (if is_ready \<and> \<not> given cutoff then ''OTHER_EVIDENCE_GAP'' else class);
         reasons = class_reasons @ (if is_ready \<and> \<not> given cutoff then [VStr ''missing_knowledge_publication_cutoff''] else [])
                   @ map VStr (filter (\<lambda>r. str_strip r \<noteq> []) cutoff_reasons);
         identity = (if qualified then VStr (chain_identity env e (the cutoff)) else VNone);
         status = execution_text env e
     in bindE (py_iter (v_or (oget e ''source_document_ids'') (VList []))) (\<lambda>documents.
        bindE (py_iter (v_or (oget e ''source_content_hashes'') (VList []))) (\<lambda>hashes.
        bindE (sorted_values reasons) (\<lambda>reason_codes.
        Inr [(''contract_version'', VStr ''qualified_corporate_action_factor_chain/v1''), (''schema_version'', VStr ''1.0.0''),
             (''identity'', identity), (''factor_chain_identity'', identity),
             (''status'', VStr (if qualified then ''QUALIFIED'' else ''NOT_QUALIFIED'')),
             (''classification'', VStr classification),
             (''official_execution_status'', VStr (if status = ''executed'' then ''EXECUTED''
                else if str_upper status = [] then ''UNKNOWN'' else str_upper status)),
             (''ex_date_status'', VStr (if v_true (oget e ''ex_date'') then ''EXPLICIT_OFFICIAL'' else ''MISSING'')),
             (''ex_date'', oget e ''ex_date''), (''record_date'', oget e ''record_date''),
             (''knowledge_cutoff'', if qualified \<and> given cutoff then opt_text cutoff else VNone),
             (''event_types'', VList (if v_true (oget e ''event_type'') then [VStr (to_text env (oget e ''event_type''))] else [])),
             (''adjustment_factor'', if qualified then oget e ''adjustment_factor'' else VNone),
             (''adjustment_authority'', oget e ''adjustment_authority''), (''authority_state'', oget e ''authority_state''),
             (''source_event_id'', oget e ''event_id''), (''source_ledger_entry_identity'', oget e ''event_id''),
             (''source_document_ids'', VList documents), (''source_content_hashes'', VList hashes),
             (''reason_codes'', VList reason_codes)]))))"

section \<open>The cohort of a ledger\<close>

type_synonym cutoff_resolver = "obj \<Rightarrow> (string option \<times> string list) res"

definition cutoff_of :: "cutoff_resolver option \<Rightarrow> obj \<Rightarrow> (string option \<times> string list) res" where
  "cutoff_of resolver e = (case resolver of None \<Rightarrow> Inr (None, []) | Some f \<Rightarrow> f e)"

definition cohort_event :: "obj \<Rightarrow> obj \<Rightarrow> obj" where
  "cohort_event e chain =
     [(''event_id'', oget e ''event_id''), (''ticker'', oget e ''ticker''), (''event_type'', oget e ''event_type''),
      (''classification'', oget chain ''classification''), (''factor_chain'', VDict chain)]"

record cohort =
  co_size :: nat
  co_counts :: "(string \<times> nat) list"
  co_qualified :: nat
  co_events :: "obj list"

definition count_class :: "string \<Rightarrow> (string \<times> nat) list \<Rightarrow> (string \<times> nat) list" where
  "count_class c counts = aset counts c ((case map_of counts c of None \<Rightarrow> 0 | Some n \<Rightarrow> n) + 1)"

definition add_event ::
  "text_env \<Rightarrow> cutoff_resolver option \<Rightarrow> pyv \<Rightarrow> (string \<times> nat) list \<times> obj list \<Rightarrow> ((string \<times> nat) list \<times> obj list) res" where
  "add_event env resolver v = (\<lambda>(counts, events).
     case v of
       VDict e \<Rightarrow>
         bindE (cutoff_of resolver e) (\<lambda>(cutoff, reasons).
         bindE (build_factor_chain_entry env e cutoff reasons) (\<lambda>chain.
         Inr (count_class (the_str (oget chain ''classification'')) counts, events @ [cohort_event e chain])))
     | _ \<Rightarrow> raise AttributeError ''get'')"

definition build_factor_chain_cohort :: "text_env \<Rightarrow> obj \<Rightarrow> cutoff_resolver option \<Rightarrow> cohort res" where
  "build_factor_chain_cohort env ledger resolver =
     bindE (py_iter (v_or (oget ledger ''entries'') (VList []))) (\<lambda>entries.
     bindE (foldE (add_event env resolver) entries (map (\<lambda>c. (c, 0)) (sort classifications), [])) (\<lambda>(counts, events).
     Inr \<lparr>co_size = length entries, co_counts = counts,
          co_qualified = (case map_of counts ''FACTOR_CHAIN_QUALIFIED'' of None \<Rightarrow> 0 | Some n \<Rightarrow> n), co_events = events\<rparr>))"

definition contract_summary :: obj where
  "contract_summary =
     [(''contract_version'', VStr ''qualified_corporate_action_factor_chain/v1''),
      (''classifications'', texts (sort classifications)),
      (''record_date_inferred_as_ex_date'', VBool False), (''planned_issuance_treated_as_executed'', VBool False),
      (''authority_effect'', VStr ''NONE'')]"

section \<open>Counting\<close>

lemma classify_in:
  assumes "classify_ledger_entry env e = Inr (c, rs)"
  shows "c \<in> set classifications"
proof -
  have "c = ''CONFLICTING'' \<or> c = ''FACTOR_NOT_APPLICABLE'' \<or> c = ''NOT_EXECUTED'' \<or> c = ''MISSING_EXPLICIT_EX_DATE''
      \<or> c = ''OTHER_EVIDENCE_GAP'' \<or> c = ''FACTOR_CHAIN_QUALIFIED''"
    using assms unfolding classify_ledger_entry_def Let_def bindE_eq_Inr
    by (simp only: split: if_splits) (auto simp: bindE_eq_Inr)
  then show ?thesis unfolding classifications_def by auto
qed

lemma chain_fields:
  assumes "build_factor_chain_entry env e cutoff rs = Inr chain"
  obtains c where "\<exists>class_reasons. classify_ledger_entry env e = Inr (c, class_reasons)"
    "oget chain ''classification'' = VStr (if c = ''FACTOR_CHAIN_QUALIFIED'' \<and> \<not> given cutoff then ''OTHER_EVIDENCE_GAP'' else c)"
    "oget chain ''status'' = VStr (if c = ''FACTOR_CHAIN_QUALIFIED'' \<and> given cutoff then ''QUALIFIED'' else ''NOT_QUALIFIED'')"
    "oget chain ''adjustment_factor'' = (if c = ''FACTOR_CHAIN_QUALIFIED'' \<and> given cutoff then oget e ''adjustment_factor'' else VNone)"
    "oget chain ''knowledge_cutoff'' = (if c = ''FACTOR_CHAIN_QUALIFIED'' \<and> given cutoff then opt_text cutoff else VNone)"
    "oget chain ''ex_date'' = oget e ''ex_date''"
proof -
  obtain c class_reasons where c: "classify_ledger_entry env e = Inr (c, class_reasons)"
    using assms by (auto simp: build_factor_chain_entry_def bindE_eq_Inr)
  define q where "q \<longleftrightarrow> c = ''FACTOR_CHAIN_QUALIFIED''"
  note b = assms[unfolded build_factor_chain_entry_def c bindE_Inr prod.case Let_def q_def[symmetric]]
  then obtain documents hashes reason_codes where chain: "chain = chain" and
    x: "py_iter (v_or (oget e ''source_document_ids'') (VList [])) = Inr documents"
    "py_iter (v_or (oget e ''source_content_hashes'') (VList [])) = Inr hashes"
    "sorted_values (class_reasons @ (if q \<and> \<not> given cutoff then [VStr ''missing_knowledge_publication_cutoff''] else [])
        @ map VStr (filter (\<lambda>r. str_strip r \<noteq> []) rs)) = Inr reason_codes"
    unfolding bindE_eq_Inr by blast
  note ch = b[unfolded x bindE_Inr sum.inject, symmetric]
  show thesis
    by (rule that[of c, folded q_def]; (rule exI, rule c)?; (simp only: ch)?; (simp only: oget_Cons list.inject char.inject simp_thms conj_assoc if_True if_False list.distinct)?)
qed

lemma chain_classification:
  assumes "build_factor_chain_entry env e cutoff rs = Inr chain"
  shows "\<exists>c\<in>set classifications. oget chain ''classification'' = VStr c"
proof -
  have gap: "''OTHER_EVIDENCE_GAP'' \<in> set classifications" by code_simp
  from assms show ?thesis
  proof (rule chain_fields)
    fix c assume "\<exists>class_reasons. classify_ledger_entry env e = Inr (c, class_reasons)"
      and chain: "oget chain ''classification'' = VStr (if c = ''FACTOR_CHAIN_QUALIFIED'' \<and> \<not> given cutoff then ''OTHER_EVIDENCE_GAP'' else c)"
    then have c: "c \<in> set classifications" using classify_in by blast
    have "(if c = ''FACTOR_CHAIN_QUALIFIED'' \<and> \<not> given cutoff then ''OTHER_EVIDENCE_GAP'' else c) \<in> set classifications"
    proof (cases "c = ''FACTOR_CHAIN_QUALIFIED'' \<and> \<not> given cutoff")
      case True
      show ?thesis unfolding if_P[OF True] by (rule gap)
    next
      case False
      show ?thesis unfolding if_not_P[OF False] by (rule c)
    qed
    then show ?thesis unfolding chain by (rule bexI[rotated]) (rule refl)
  qed
qed

definition class_is :: "string \<Rightarrow> obj \<Rightarrow> bool" where
  "class_is c ev \<longleftrightarrow> oget ev ''classification'' = VStr c"

definition counts_events :: "(string \<times> nat) list \<times> obj list \<Rightarrow> bool" where
  "counts_events = (\<lambda>(counts, events). \<forall>c. map_of counts c =
     (if c \<in> set classifications then Some (length (filter (class_is c) events)) else None))"

lemma add_event_Inr:
  assumes "add_event env resolver v (counts, events) = Inr r"
  obtains e cutoff rs chain c where "v = VDict e" "cutoff_of resolver e = Inr (cutoff, rs)"
    "build_factor_chain_entry env e cutoff rs = Inr chain" "c \<in> set classifications" "oget chain ''classification'' = VStr c"
    "r = (count_class c counts, events @ [cohort_event e chain])"
  using assms chain_classification by (cases v) (fastforce simp: add_event_def bindE_eq_Inr)+

lemma add_event_counts:
  assumes "add_event env resolver v s = Inr r" "counts_events s"
  shows "counts_events r \<and> length (snd r) = Suc (length (snd s))"
proof -
  obtain counts events where s: "s = (counts, events)" by fastforce
  from assms(1)[unfolded s] obtain e chain c where c: "c \<in> set classifications" "oget chain ''classification'' = VStr c"
    "r = (count_class c counts, events @ [cohort_event e chain])" by (rule add_event_Inr)
  have "class_is d (cohort_event e chain) \<longleftrightarrow> d = c" for d
    using c(2) by (auto simp: class_is_def cohort_event_def)
  then show ?thesis using assms(2) c unfolding s counts_events_def
    by (auto simp: count_class_def map_of_aset split: option.splits)
qed

lemma foldE_counts:
  assumes "foldE (add_event env resolver) vs s = Inr r" "counts_events s"
  shows "counts_events r \<and> length (snd r) = length (snd s) + length vs"
  using assms
proof (induction vs arbitrary: s)
  case (Cons v vs)
  then obtain s1 where s1: "add_event env resolver v s = Inr s1" "foldE (add_event env resolver) vs s1 = Inr r"
    by (auto simp: bindE_eq_Inr)
  from add_event_counts[OF s1(1) Cons.prems(2)] Cons.IH[OF s1(2)] show ?case by simp
qed simp

lemma foldE_events:
  assumes "foldE (add_event env resolver) vs s = Inr r" "ev \<in> set (snd r)" "ev \<notin> set (snd s)"
  shows "\<exists>e cutoff rs chain. VDict e \<in> set vs \<and> cutoff_of resolver e = Inr (cutoff, rs)
    \<and> build_factor_chain_entry env e cutoff rs = Inr chain \<and> ev = cohort_event e chain"
  using assms
proof (induction vs arbitrary: s)
  case (Cons v vs)
  then obtain s1 where s1: "add_event env resolver v s = Inr s1" "foldE (add_event env resolver) vs s1 = Inr r"
    by (auto simp: bindE_eq_Inr)
  obtain counts events where s: "s = (counts, events)" by fastforce
  from s1(1)[unfolded s] obtain e cutoff rs chain c where e: "v = VDict e" "cutoff_of resolver e = Inr (cutoff, rs)"
    "build_factor_chain_entry env e cutoff rs = Inr chain" "s1 = (count_class c counts, events @ [cohort_event e chain])"
    by (rule add_event_Inr)
  show ?case
  proof (cases "ev = cohort_event e chain")
    case True
    then show ?thesis using e by (metis list.set_intros(1))
  next
    case False
    then have "ev \<notin> set (snd s1)" using Cons.prems(3) s e(4) by simp
    from Cons.IH[OF s1(2) Cons.prems(2) this] show ?thesis by (metis list.set_intros(2))
  qed
qed simp

lemma counts_start: "counts_events (map (\<lambda>c. (c, 0)) (sort classifications), [])"
  by (simp add: counts_events_def map_of_map_restrict restrict_map_def)

text \<open>
  The cohort counts what it lists: one event for each entry of the ledger, and for each of the six
  classes the number of the events in it, so each event is in exactly one of them.
\<close>

theorem cohort_counts_events:
  assumes "build_factor_chain_cohort env ledger resolver = Inr co"
  shows "length (co_events co) = co_size co
    \<and> co_qualified co = length (filter (class_is ''FACTOR_CHAIN_QUALIFIED'') (co_events co))
    \<and> (\<forall>c. map_of (co_counts co) c =
         (if c \<in> set classifications then Some (length (filter (class_is c) (co_events co))) else None))
    \<and> (\<forall>ev\<in>set (co_events co). \<exists>c\<in>set classifications. class_is c ev)"
proof -
  obtain entries counts events where entries: "py_iter (v_or (oget ledger ''entries'') (VList [])) = Inr entries"
    and run: "foldE (add_event env resolver) entries (map (\<lambda>c. (c, 0)) (sort classifications), []) = Inr (counts, events)"
    and co: "co = \<lparr>co_size = length entries, co_counts = counts,
      co_qualified = (case map_of counts ''FACTOR_CHAIN_QUALIFIED'' of None \<Rightarrow> 0 | Some n \<Rightarrow> n), co_events = events\<rparr>"
    using assms by (auto simp: build_factor_chain_cohort_def bindE_eq_Inr)
  have c: "counts_events (counts, events)" "length events = length entries"
    using foldE_counts[OF run counts_start] by simp_all
  have "''FACTOR_CHAIN_QUALIFIED'' \<in> set classifications" by code_simp
  then have q: "map_of counts ''FACTOR_CHAIN_QUALIFIED'' = Some (length (filter (class_is ''FACTOR_CHAIN_QUALIFIED'') events))"
    using c(1) by (simp add: counts_events_def)
  have "\<exists>c\<in>set classifications. class_is c ev" if in_ev: "ev \<in> set events" for ev
  proof -
    obtain e cutoff rs chain where "build_factor_chain_entry env e cutoff rs = Inr chain" "ev = cohort_event e chain"
      using foldE_events[OF run, of ev] in_ev by auto
    then show ?thesis using chain_classification by (fastforce simp: class_is_def cohort_event_def)
  qed
  then show ?thesis using c q by (simp add: co counts_events_def)
qed

section \<open>From documents to a factor chain\<close>

lemma entry_status:
  assumes L: "build_ledger env obs = Inr L" and e: "e \<in> set (lg_entries L)"
  shows "\<exists>q st. oget e ''qualification_state'' = VStr q \<and> oget e ''adjustment_factor_status'' = VStr st
    \<and> (st = ''ready'' \<longrightarrow> q = ''qualified'' \<and> (\<exists>f. oget e ''adjustment_factor'' = VFloat f))"
proof -
  obtain k e0 where rec: "reconcile env k (members_of env obs k) = Inr e0" and same: "same_event e0 e"
    by (rule ledger_entry_origin[OF L e])
  obtain ticker event_type issued where k: "k = (ticker, event_type, issued)" by (cases k)
  have eq: "oget e f = oget e0 f" if "f \<notin> pointer_fields" for f by (rule same_event_field[OF same that])
  from rec[unfolded k] show ?thesis
  proof (rule reconcile_fields)
    fix m q factor
    assume factor: "adjustment_factor env event_type m q = Inr factor"
      and fields: "oget e0 ''qualification_state'' = VStr q"
        "oget e0 ''adjustment_factor'' = oget factor ''adjustment_factor''"
        "oget e0 ''adjustment_factor_status'' = oget factor ''adjustment_factor_status''"
    obtain st where st: "oget factor ''adjustment_factor_status'' = VStr st"
      using factor by (auto simp: adjustment_factor_def factor_fields_def Let_def bindE_eq_Inr split: if_splits)
    show ?thesis
      using ready_factor[OF factor] st fields eq[OF pointer_fields_others(5)] eq[OF pointer_fields_others(11)]
        eq[OF pointer_fields_others(12)] by auto
  qed
qed

lemma classify_qualified:
  assumes "classify_ledger_entry env e = Inr (''FACTOR_CHAIN_QUALIFIED'', rs)"
  shows "execution_text env e = ''executed'' \<and> v_true (oget e ''ex_date'')
    \<and> to_text env (v_or (oget e ''adjustment_factor_status'') (VStr [])) = ''ready''"
  using assms by (simp add: classify_ledger_entry_def Let_def bindE_eq_Inr split: if_splits)

text \<open>
  C4. From documents to a factor chain: a chain that a cohort of a ledger reports as qualified belongs to an
  entry that the ledger qualified, that no cancellation or amendment replaced, with an explicit ex-date and the
  entry's factor, and the caller's resolver gave a knowledge cutoff for that entry, which is the chain's.
\<close>

theorem qualified_chain_sound:
  assumes L: "build_ledger env obs = Inr L"
    and co: "build_factor_chain_cohort (ce_text env) (ledger_record L) resolver = Inr co"
    and ev: "ev \<in> set (co_events co)" "oget (as_dict (oget ev ''factor_chain'')) ''status'' = VStr ''QUALIFIED''"
  shows "\<exists>e\<in>set (lg_entries L). oget e ''qualification_state'' = VStr ''qualified'' \<and> oget e ''superseded_by'' = VNone
    \<and> v_true (oget e ''ex_date'') \<and> (\<exists>f. oget e ''adjustment_factor'' = VFloat f
        \<and> oget (as_dict (oget ev ''factor_chain'')) ''adjustment_factor'' = VFloat f)
    \<and> (\<exists>g cutoff rs. resolver = Some g \<and> g e = Inr (Some cutoff, rs) \<and> cutoff \<noteq> []
        \<and> oget (as_dict (oget ev ''factor_chain'')) ''knowledge_cutoff'' = VStr cutoff)"
proof -
  have entries: "py_iter (v_or (oget (ledger_record L) ''entries'') (VList [])) = Inr (map VDict (lg_entries L))"
    by (simp add: ledger_record_def v_or_def Let_def)
  then obtain s where run: "foldE (add_event (ce_text env) resolver) (map VDict (lg_entries L)) (map (\<lambda>c. (c, 0)) (sort classifications), []) = Inr s"
    and s: "co_events co = snd s"
    using co by (auto simp: build_factor_chain_cohort_def bindE_eq_Inr)
  obtain e cutoff rs chain where e: "e \<in> set (lg_entries L)" "cutoff_of resolver e = Inr (cutoff, rs)"
    "build_factor_chain_entry (ce_text env) e cutoff rs = Inr chain" "ev = cohort_event e chain"
    using foldE_events[OF run ev(1)[unfolded s]] by auto
  have chain: "as_dict (oget ev ''factor_chain'') = chain" by (simp add: e(4) cohort_event_def)
  from e(3) show ?thesis
  proof (rule chain_fields)
    fix c
    assume c: "\<exists>class_reasons. classify_ledger_entry (ce_text env) e = Inr (c, class_reasons)"
      and st: "oget chain ''status'' = VStr (if c = ''FACTOR_CHAIN_QUALIFIED'' \<and> given cutoff then ''QUALIFIED'' else ''NOT_QUALIFIED'')"
      and f: "oget chain ''adjustment_factor'' = (if c = ''FACTOR_CHAIN_QUALIFIED'' \<and> given cutoff then oget e ''adjustment_factor'' else VNone)"
      and k: "oget chain ''knowledge_cutoff'' = (if c = ''FACTOR_CHAIN_QUALIFIED'' \<and> given cutoff then opt_text cutoff else VNone)"
    have q: "c = ''FACTOR_CHAIN_QUALIFIED'' \<and> given cutoff" using st ev(2) unfolding chain by (simp split: if_splits)
    note f = f[unfolded if_P[OF q]] and k = k[unfolded if_P[OF q]]
    have cl: "execution_text (ce_text env) e = ''executed''" "v_true (oget e ''ex_date'')"
      "to_text (ce_text env) (v_or (oget e ''adjustment_factor_status'') (VStr [])) = ''ready''"
      using c classify_qualified q by blast+
    obtain qs fs where qs: "oget e ''qualification_state'' = VStr qs" "oget e ''adjustment_factor_status'' = VStr fs"
      "fs = ''ready'' \<longrightarrow> qs = ''qualified'' \<and> (\<exists>f. oget e ''adjustment_factor'' = VFloat f)"
      using entry_status[OF L e(1)] by blast
    have "fs = ''ready''" using cl(3) qs(2) by (cases fs) (simp_all add: to_text_def v_or_def py_str_def)
    moreover have "oget e ''superseded_by'' = VNone"
    proof (rule ccontr)
      assume "oget e ''superseded_by'' \<noteq> VNone"
      then have "oget e ''execution_status'' \<in> {VStr ''cancelled'', VStr ''amended''}"
        using ledger_entry_origin[OF L e(1)] by metis
      then have "execution_text (ce_text env) e \<in> {''cancelled'', ''amended''}"
        by (auto simp: execution_text_def v_or_def to_text_def py_str_def str_lower_def char_lower_def)
      then show False using cl(1) by simp
    qed
    moreover obtain t where t: "cutoff = Some t" "t \<noteq> []" using q by (cases cutoff) (auto simp: given_def)
    moreover obtain g where "resolver = Some g" "g e = Inr (Some t, rs)" using e(2) t(1) by (cases resolver) (auto simp: cutoff_of_def)
    ultimately show ?thesis using qs e(1) cl(2) f k unfolding chain by (auto simp: opt_text_def)
  qed
qed

theorem cohort_counts_events_witness:
  "\<exists>co. build_factor_chain_cohort (ce_text sample_ledger_env) [(''entries'', VList [VDict [], VDict []])] None = Inr co
     \<and> map_of (co_counts co) ''NOT_EXECUTED'' = Some (length (filter (class_is ''NOT_EXECUTED'') (co_events co)))"
proof -
  have "is_ok (build_factor_chain_cohort (ce_text sample_ledger_env) [(''entries'', VList [VDict [], VDict []])] None)" by code_simp
  then obtain co where co: "build_factor_chain_cohort (ce_text sample_ledger_env) [(''entries'', VList [VDict [], VDict []])] None = Inr co"
    by (rule is_okE)
  have "''NOT_EXECUTED'' \<in> set classifications" by code_simp
  then show ?thesis using co cohort_counts_events[OF co] by auto
qed

definition sample_resolver :: cutoff_resolver where
  "sample_resolver e = Inr (Some ''2024-05-07'', [])"

lemma sample_chain:
  "case reconcile sample_ledger_env (''HPG'', ''stock_split'', ''1'') [issuer_notice, exchange_notice] of
     Inl x \<Rightarrow> False
   | Inr e \<Rightarrow> (case build_factor_chain_entry (ce_text sample_ledger_env) e (Some ''2024-05-07'') [] of
       Inl x \<Rightarrow> False | Inr chain \<Rightarrow> oget chain ''status'' = VStr ''QUALIFIED'')"
  by code_simp

lemma cohort_single:
  assumes "lg_entries L = [e]" "resolver = Some g" "g e = Inr (cutoff, rs)" "build_factor_chain_entry env e cutoff rs = Inr chain"
  obtains co where "build_factor_chain_cohort env (ledger_record L) resolver = Inr co" "co_events co = [cohort_event e chain]"
  using assms by (simp add: build_factor_chain_cohort_def ledger_record_def v_or_def Let_def add_event_def cutoff_of_def)

theorem qualified_chain_sound_witness:
  "\<exists>L e. build_ledger sample_ledger_env [issuer_notice, exchange_notice] = Inr L \<and> e \<in> set (lg_entries L)
     \<and> oget e ''qualification_state'' = VStr ''qualified'' \<and> oget e ''superseded_by'' = VNone"
proof (rule sample_ledger)
  fix L e
  assume L: "build_ledger sample_ledger_env [issuer_notice, exchange_notice] = Inr L" "lg_entries L = [e]"
    and rec: "reconcile sample_ledger_env (''HPG'', ''stock_split'', ''1'') [issuer_notice, exchange_notice] = Inr e"
  obtain chain where chain: "build_factor_chain_entry (ce_text sample_ledger_env) e (Some ''2024-05-07'') [] = Inr chain"
    "oget chain ''status'' = VStr ''QUALIFIED''"
    using sample_chain rec by (auto split: sum.splits)
  obtain co where co: "build_factor_chain_cohort (ce_text sample_ledger_env) (ledger_record L) (Some sample_resolver) = Inr co"
    "co_events co = [cohort_event e chain]"
    by (rule cohort_single[OF L(2) refl sample_resolver_def chain(1)])
  have "oget (as_dict (oget (cohort_event e chain) ''factor_chain'')) ''status'' = VStr ''QUALIFIED''"
    using chain(2) by (simp add: cohort_event_def)
  from qualified_chain_sound[OF L(1) co(1) _ this] show ?thesis using L co(2) by auto
qed

end
