(* ===== verification/MarketGate.thy ===== *)
theory MarketGate
  imports CanonicalJson PyFloat
begin

text \<open>
  The gate of a completed_session market session, \<open>completed_market_session_gate.py\<close>: whether a post-close
  acquisition may be attempted (phase A), and whether the retained evidence shows a session to be completed_session
  (phase B).  Both are functions of a requested time, the working dates a provider returned and the
  evidence retained of one exact session.

  A time in the operating zone is its wall-clock microseconds with its UTC offset; the zone database is the
  two functions of \<open>gate_env\<close>, the offset at an instant and the offset of a wall-clock time.
\<close>

record gate_env =
  ge_text :: text_env
  ge_zone :: "int \<Rightarrow> int" \<comment> \<open>the UTC offset at an instant\<close>
  ge_wall_zone :: "int \<Rightarrow> int" \<comment> \<open>the UTC offset of a wall-clock time\<close>

abbreviation gate_text :: "gate_env \<Rightarrow> pyv \<Rightarrow> string" where
  "gate_text env \<equiv> to_text (ge_text env)"

section \<open>Times and dates\<close>

datatype moment = Moment datetime | Written string \<comment> \<open>\<open>datetime | str\<close>\<close>

record local_time =
  lt_wall :: int
  lt_offset :: int

definition operating_timezone :: string where "operating_timezone = ''Asia/Ho_Chi_Minh''"

definition localize :: "gate_env \<Rightarrow> datetime \<Rightarrow> local_time res" where
  \<comment> \<open>a naive time is taken to be in the operating zone, another is converted to it\<close>
  "localize env t =
     (case dt_offset t of
        None \<Rightarrow> Inr \<lparr>lt_wall = instant t, lt_offset = ge_wall_zone env (instant t)\<rparr>
      | Some off \<Rightarrow> bindE (shift_instant (ge_zone env) (instant t)) (\<lambda>w. Inr \<lparr>lt_wall = w, lt_offset = ge_zone env (instant t)\<rparr>))"

definition parse_requested_at :: "gate_env \<Rightarrow> string \<Rightarrow> moment \<Rightarrow> local_time res" where
  "parse_requested_at env timezone value =
     (if timezone \<noteq> operating_timezone
      then raise CompletedSessionGateError (''UNSUPPORTED_OPERATING_TIMEZONE:'' @ timezone)
      else bindE (case value of
               Moment t \<Rightarrow> Inr t
             | Written s \<Rightarrow>
                 let t = str_strip s in
                 if t = [] then raise CompletedSessionGateError ''REQUESTED_AT_MISSING''
                 else (case datetime_fromisoformat (str_replace ''Z'' ''+00:00'' t) of
                         None \<Rightarrow> raise CompletedSessionGateError ''REQUESTED_AT_UNPARSEABLE'' | Some d \<Rightarrow> Inr d))
             (localize env))"

definition local_date :: "local_time \<Rightarrow> string" where
  "local_date t = date_isoformat (wall_date (lt_wall t))"

definition time_of_day :: "local_time \<Rightarrow> int" where
  "time_of_day t = lt_wall t mod day_us"

definition offset_text :: "int \<Rightarrow> string" where
  \<comment> \<open>a UTC offset as \<open>isoformat\<close> writes it\<close>
  "offset_text off =
     (let us = nat \<bar>off\<bar>; sec = us div 10 ^ 6; f = us mod 10 ^ 6 in
      (if off < 0 then ''-'' else ''+'') @ digits2 (sec div 3600) @ '':'' @ digits2 (sec div 60 mod 60)
      @ (if sec mod 60 = 0 \<and> f = 0 then [] else '':'' @ digits2 (sec mod 60)) @ (if f = 0 then [] else ''.'' @ digits6 f))"

definition local_isoformat :: "local_time \<Rightarrow> string" where
  "local_isoformat t =
     (let us = nat (time_of_day t); sec = us div 10 ^ 6; f = us mod 10 ^ 6 in
      local_date t @ ''T'' @ digits2 (sec div 3600) @ '':'' @ digits2 (sec div 60 mod 60) @ '':'' @ digits2 (sec mod 60)
      @ (if f = 0 then [] else ''.'' @ digits6 f) @ offset_text (lt_offset t))"

definition minutes_text :: "int \<Rightarrow> string" where
  \<comment> \<open>\<open>time.isoformat(timespec="minutes")\<close>\<close>
  "minutes_text t = (let sec = nat (t div 10 ^ 6) in digits2 (sec div 3600) @ '':'' @ digits2 (sec div 60 mod 60))"

definition parse_session_date :: "string \<Rightarrow> string res" where
  "parse_session_date value =
     (let t = str_strip value in
      case datetime_fromisoformat t of
        None \<Rightarrow> raise CompletedSessionGateError (''INVALID_SESSION_FORMAT:'' @ t) | Some d \<Rightarrow> Inr (date_isoformat (dt_date d)))"

definition gate_date :: "gate_env \<Rightarrow> pyv \<Rightarrow> string option" where
  "gate_date env value =
     (if value = VNone \<or> is_bool value then None
      else let t = str_strip (gate_text env value) in
        if py_len t < 10 then None
        else map_option (\<lambda>d. date_isoformat (dt_date d)) (datetime_fromisoformat (concat (take 10 (code_points t)))))"

definition weekend :: "string \<Rightarrow> bool" where
  \<comment> \<open>\<open>datetime.fromisoformat(session).weekday() >= 5\<close> for a session that is a date\<close>
  "weekend session =
     (case datetime_fromisoformat session of None \<Rightarrow> False | Some d \<Rightarrow> 5 \<le> (ymd_to_ord (dt_date d) + 6) mod 7)"

section \<open>Working dates\<close>

definition working_date_keys :: "string list" where
  "working_date_keys = [''workingDates'', ''working_dates'', ''workingdates'']"

fun unwrap_body :: "obj \<Rightarrow> string list \<Rightarrow> pyv" where
  \<comment> \<open>the first wrapper that holds working dates or a list\<close>
  "unwrap_body payload [] = VDict payload"
| "unwrap_body payload (w # ws) =
     (case oget payload w of
        VDict d \<Rightarrow> if list_ex (ohas d) working_date_keys then VDict d else unwrap_body payload ws
      | VList xs \<Rightarrow> VList xs
      | _ \<Rightarrow> unwrap_body payload ws)"

fun select_key :: "obj \<Rightarrow> string list \<Rightarrow> pyv" where
  "select_key d [] = VDict d"
| "select_key d (k # ks) = (if ohas d k then oget d k else select_key d ks)"

definition working_body :: "pyv \<Rightarrow> pyv" where
  "working_body payload =
     (case payload of
        VDict p \<Rightarrow> (case unwrap_body p [''body'', ''raw_payload'', ''payload'', ''data''] of
                      VDict d \<Rightarrow> select_key d working_date_keys | v \<Rightarrow> v)
      | v \<Rightarrow> v)"

definition item_date :: "gate_env \<Rightarrow> pyv \<Rightarrow> string option" where
  "item_date env item =
     (case item of
        VDict d \<Rightarrow> gate_date env (v_or (v_or (oget d ''date'') (oget d ''workingDate'')) (oget d ''working_date''))
      | v \<Rightarrow> gate_date env v)"

definition extract_working_dates :: "gate_env \<Rightarrow> pyv \<Rightarrow> string list" where
  "extract_working_dates env payload =
     (case working_body payload of
        VList items \<Rightarrow> sorted_set (map the (filter (\<lambda>d. d \<noteq> None) (map (item_date env) items)))
      | VDict d \<Rightarrow> (case gate_date env (oget d ''date'') of None \<Rightarrow> [] | Some day \<Rightarrow> [day])
      | _ \<Rightarrow> [])"

record working =
  wk_status :: string
  wk_strength :: string
  wk_dates :: "string list"
  wk_hash :: "string option"
  wk_retrieved_at :: pyv
  wk_limitations :: "string list"

definition window_start :: "working \<Rightarrow> string option" where
  "window_start w = (if wk_dates w = [] then None else Some (hd (wk_dates w)))"

definition window_end :: "working \<Rightarrow> string option" where
  "window_end w = (if wk_dates w = [] then None else Some (last (wk_dates w)))"

definition normalize_working_dates_evidence :: "gate_env \<Rightarrow> pyv \<Rightarrow> string option \<Rightarrow> working" where
  "normalize_working_dates_evidence env evidence retrieved_at =
     (let given = (case retrieved_at of None \<Rightarrow> VNone | Some t \<Rightarrow> VStr t) in
      if \<not> is_dict evidence \<or> the_dict evidence = []
      then \<lparr>wk_status = ''UNAVAILABLE'', wk_strength = ''UNAVAILABLE'', wk_dates = [], wk_hash = None, wk_retrieved_at = given,
            wk_limitations = [''WORKING_DATES_EVIDENCE_ABSENT'', ''FORWARD_CALENDAR_WINDOW_NO_HISTORICAL_COVERAGE'', ''NO_SESSION_COMPLETED_FLAG'']\<rparr>
      else let dates = extract_working_dates env evidence; e = the_dict evidence;
          identity = [(''provider'', VStr ''DNSE''), (''dataset'', VStr ''working_dates''), (''working_dates'', VList (map VStr dates))] in
        \<lparr>wk_status = if dates \<noteq> [] then ''OBSERVED'' else ''EMPTY'',
         wk_strength = if dates \<noteq> [] then ''WORKING_DATE_IDENTITY_AND_NEIGHBOR_SESSIONS'' else ''UNAVAILABLE'',
         wk_dates = dates, wk_hash = if dates \<noteq> [] then Some (content_hash (ge_text env) identity) else None,
         wk_retrieved_at = v_or (v_or given (oget e ''retrieved_at'')) (oget e ''retrievedAt''),
         wk_limitations = [''FORWARD_CALENDAR_WINDOW_NO_HISTORICAL_COVERAGE'', ''NO_SESSION_COMPLETED_FLAG'', ''PRIOR_NEXT_ONLY_WITHIN_OBSERVED_WINDOW'']\<rparr>)"

fun neighbours :: "'a \<Rightarrow> 'a option \<Rightarrow> 'a list \<Rightarrow> ('a option \<times> 'a option) option" where
  \<comment> \<open>what comes before and after the first occurrence\<close>
  "neighbours x before [] = None"
| "neighbours x before (y # ys) =
     (if y = x then Some (before, case ys of [] \<Rightarrow> None | z # zs \<Rightarrow> Some z) else neighbours x (Some y) ys)"

definition opt_str :: "string option \<Rightarrow> pyv" where
  "opt_str v = (case v of None \<Rightarrow> VNone | Some s \<Rightarrow> VStr s)"

definition neighbor_sessions :: "string list \<Rightarrow> string \<Rightarrow> obj" where
  "neighbor_sessions dates session =
     (case neighbours session None dates of
        None \<Rightarrow> [(''prior_working_date'', VNone), (''next_working_date'', VNone),
                  (''in_observed_window'', VBool (dates \<noteq> [] \<and> hd dates \<le> session \<and> session \<le> last dates)),
                  (''outside_observed_window'', VBool (dates \<noteq> [] \<and> (session < hd dates \<or> last dates < session)))]
      | Some (prior, following) \<Rightarrow>
          [(''prior_working_date'', opt_str prior), (''next_working_date'', opt_str following),
           (''in_observed_window'', VBool True), (''outside_observed_window'', VBool False),
           (''prior_unknown_outside_window'', VBool (prior = None)), (''next_unknown_outside_window'', VBool (following = None))])"

section \<open>Evidence of one exact session\<close>

record exact =
  ex_status :: string
  ex_contract :: pyv
  ex_resolved :: pyv
  ex_retained :: pyv
  ex_requested_at :: pyv
  ex_observed :: int
  ex_attempted :: int
  ex_identity :: pyv
  ex_hash :: pyv
  ex_scope :: pyv
  ex_undisposed :: pyv \<comment> \<open>\<open>unattempted_without_explicit_disposition\<close>\<close>

definition no_exact_evidence :: exact where
  "no_exact_evidence = \<lparr>ex_status = ''ABSENT'', ex_contract = VNone, ex_resolved = VNone, ex_retained = VNone,
     ex_requested_at = VNone, ex_observed = 0, ex_attempted = 0, ex_identity = VNone, ex_hash = VNone,
     ex_scope = VNone, ex_undisposed = VNone\<rparr>"

definition packet_contract :: string where "packet_contract = ''capability_first_eod_collector/v1''"

definition acquired_row :: "pyv \<Rightarrow> pyv \<Rightarrow> bool" where
  "acquired_row session row \<longleftrightarrow>
     (case row of VDict r \<Rightarrow> oget r ''status'' = VStr ''ACQUIRED''
                    \<and> py_eq (v_or (oget r ''provider_session_date'') (oget r ''session'')) session
      | _ \<Rightarrow> False)"

definition packet_evidence :: "obj \<Rightarrow> exact" where
  "packet_evidence e =
     (let session = oget e ''session_date'';
          observations = (case oget e ''observations'' of VList rows \<Rightarrow> rows | _ \<Rightarrow> []);
          acquired = filter (acquired_row session) observations in
      \<lparr>ex_status = if acquired \<noteq> [] then ''OBSERVED'' else ''INSUFFICIENT'', ex_contract = VStr packet_contract,
       ex_resolved = session, ex_retained = session, ex_requested_at = v_or (oget e ''created_at'') (oget e ''requested_at''),
       ex_observed = int (length acquired), ex_attempted = int (length observations),
       ex_identity = oget e ''packet_identity'', ex_hash = oget e ''packet_sha256'',
       ex_scope = VNone, ex_undisposed = VNone\<rparr>)"

definition first_of :: "pyv list \<Rightarrow> pyv" where
  \<comment> \<open>\<open>a or b or c\<close>\<close>
  "first_of vs = foldl v_or (hd vs) (tl vs)"

definition given_or :: "pyv \<Rightarrow> pyv \<Rightarrow> pyv" where
  \<comment> \<open>\<open>v if v is not None else w\<close>\<close>
  "given_or v w = (if v = VNone then w else v)"

definition count_of :: "pyv \<Rightarrow> int res" where
  \<comment> \<open>\<open>int(v or 0)\<close>\<close>
  "count_of v = py_int (v_or v (VInt 0))"

definition envelope_evidence :: "obj \<Rightarrow> exact res" where
  "envelope_evidence e =
     (let block = as_dict (oget e ''resolved_session''); coverage = as_dict (oget e ''exact_session_coverage'');
          resolved = first_of [oget e ''resolved_completed_session'', oget block ''resolved_completed_session'',
                               oget e ''session_date'', oget e ''session''] in
      bindE (count_of (given_or (oget e ''exact_session_observed_count'') (oget coverage ''exact_session_observed_count''))) (\<lambda>observed.
      bindE (count_of (given_or (oget e ''attempted_candidate_count'') (oget coverage ''attempted_candidate_count''))) (\<lambda>attempted.
      Inr \<lparr>ex_status = if observed > 0 then ''OBSERVED'' else ''INSUFFICIENT'',
           ex_contract = v_or (oget e ''contract_version'')
             (VStr (if block \<noteq> [] \<or> coverage \<noteq> [] then ''p3f9b_market_wide_exact_session_scaleout/v1''
                    else ''p3f9_exact_session_mva_snapshot/v2'')),
           ex_resolved = resolved,
           ex_retained = first_of [oget e ''retained_snapshot_session'', oget block ''retained_snapshot_session'', resolved],
           ex_requested_at = first_of [oget e ''requested_at'', oget block ''execution_timestamp'', oget e ''execution_timestamp'',
                                       oget e ''observed_at''],
           ex_observed = observed, ex_attempted = attempted,
           ex_identity = first_of [oget e ''snapshot_identity'', oget e ''artifact_identity'', oget e ''packet_identity''],
           ex_hash = first_of [oget e ''snapshot_sha256'', oget e ''artifact_sha256'', oget e ''packet_sha256''],
           ex_scope = v_or (oget e ''materialization_scope'') (oget (as_dict (oget e ''acquisition_cohort'')) ''materialization_scope''),
           ex_undisposed = (if ohas e ''unattempted_without_explicit_disposition'' then oget e ''unattempted_without_explicit_disposition''
             else oget (as_dict (oget e ''exact_session_dispositions'')) ''unattempted_without_explicit_disposition'')\<rparr>)))"

definition normalize_exact_session_evidence :: "pyv \<Rightarrow> exact res" where
  "normalize_exact_session_evidence evidence =
     (if \<not> is_dict evidence \<or> the_dict evidence = [] then Inr no_exact_evidence
      else let e = the_dict evidence in
        if ohas e ''observations'' \<or> oget e ''contract_version'' = VStr packet_contract then Inr (packet_evidence e)
        else envelope_evidence e)"

definition acquired_after_safety_floor :: "gate_env \<Rightarrow> pyv \<Rightarrow> string \<Rightarrow> int \<Rightarrow> string option res" where
  \<comment> \<open>the reason why not\<close>
  "acquired_after_safety_floor env raw session floor_us =
     (if \<not> v_true raw then Inr (Some ''EXACT_SESSION_ACQUISITION_TIMESTAMP_MISSING'')
      else case parse_requested_at env operating_timezone (Written (gate_text env raw)) of
        Inl (Raise CompletedSessionGateError m) \<Rightarrow> Inr (Some ''EXACT_SESSION_ACQUISITION_TIMESTAMP_UNPARSEABLE'')
      | Inl e \<Rightarrow> Inl e
      | Inr t \<Rightarrow>
          if local_date t \<noteq> session
          then Inr (if session < local_date t then None else Some ''EXACT_SESSION_ACQUIRED_BEFORE_SESSION_DATE'')
          else Inr (if time_of_day t < floor_us then Some ''EXACT_SESSION_ACQUIRED_BEFORE_SAFETY_FLOOR'' else None))"

definition coverage_ratio :: "int \<Rightarrow> int \<Rightarrow> rat res" where
  "coverage_ratio observed attempted =
     (if attempted = 0 then Inr 0
      else if fits_double (of_int observed) \<and> fits_double (of_int attempted)
      then Inr (to_double (to_double (of_int observed) / to_double (of_int attempted)))
      else raise OverflowError ''int too large to convert to float'')"

definition minimum_ratio :: rat where "minimum_ratio = to_double (1 / 5)"

definition coverage_reasons :: "gate_env \<Rightarrow> exact \<Rightarrow> string list res" where
  "coverage_reasons env x =
     (if gate_text env (v_or (ex_contract x) (VStr [])) = packet_contract
      then Inr (if ex_observed x < 1 then [''PACKET_EXACT_SESSION_OBSERVATIONS_INSUFFICIENT''] else [])
      else bindE (if ex_observed x \<le> 0 then Inr True
                  else bindE (coverage_ratio (ex_observed x) (ex_attempted x)) (\<lambda>r. Inr (r < minimum_ratio))) (\<lambda>low.
        Inr (if low then [''P3F9B_EXACT_SESSION_COVERAGE_INSUFFICIENT''] else [])))"

definition exact_session_sufficient :: "gate_env \<Rightarrow> exact \<Rightarrow> string \<Rightarrow> int \<Rightarrow> string list res" where
  \<comment> \<open>the reasons against; it is sufficient if there are none\<close>
  "exact_session_sufficient env x session floor_us =
     (if ex_status x = ''ABSENT'' then Inr [''EXACT_SESSION_EVIDENCE_ABSENT'']
      else if ex_resolved x \<noteq> VStr session \<or> ex_retained x \<noteq> VStr session then Inr [''EXACT_SESSION_IDENTITY_MISMATCH'']
      else bindE (coverage_reasons env x) (\<lambda>low.
           bindE (acquired_after_safety_floor env (ex_requested_at x) session floor_us) (\<lambda>late.
             Inr (low @ (case late of None \<Rightarrow> [] | Some r \<Rightarrow> [r])))))"

definition other_session :: "exact \<Rightarrow> string list \<Rightarrow> bool res" where
  \<comment> \<open>\<open>exact.get("resolved_completed_session") not in {None, *sessions} and exact.get("status") != "ABSENT"\<close>\<close>
  "other_session x sessions =
     (if hashable (ex_resolved x)
      then Inr (ex_resolved x \<noteq> VNone \<and> ex_resolved x \<notin> VStr ` set sessions \<and> ex_status x \<noteq> ''ABSENT'')
      else raise TypeError ''unhashable type'')"

definition resume_reason :: string where
  "resume_reason = ''RETAINED_EXACT_SESSION_IDENTITY_CONFIRMED_WORKING_DATES_UNAVAILABLE''"

definition retained_exact_session_resume :: "gate_env \<Rightarrow> string \<Rightarrow> exact \<Rightarrow> int \<Rightarrow> (bool \<times> string list) res" where
  \<comment> \<open>\<open>_retained_exact_session_resume\<close>\<close>
  "retained_exact_session_resume env session x floor_us =
     bindE (other_session x [session]) (\<lambda>other.
     if other then Inr (False, [''EXACT_SESSION_IDENTITY_MISMATCH'']) else
     bindE (exact_session_sufficient env x session floor_us) (\<lambda>reasons.
       Inr (if reasons \<noteq> [] then (False, reasons) else (True, [resume_reason]))))"

section \<open>The two gates\<close>

datatype gate_status =
    Ready | AttemptEligible | TooEarly | NonWorkingDate | SessionMismatch | ProviderEvidenceUnavailable
  | ExactSessionEvidenceInsufficient | Ambiguous | Blocked

fun status_text :: "gate_status \<Rightarrow> string" where
  "status_text Ready = ''READY''"
| "status_text AttemptEligible = ''ATTEMPT_ELIGIBLE''"
| "status_text TooEarly = ''TOO_EARLY''"
| "status_text NonWorkingDate = ''NON_WORKING_DATE''"
| "status_text SessionMismatch = ''SESSION_MISMATCH''"
| "status_text ProviderEvidenceUnavailable = ''PROVIDER_EVIDENCE_UNAVAILABLE''"
| "status_text ExactSessionEvidenceInsufficient = ''EXACT_SESSION_EVIDENCE_INSUFFICIENT''"
| "status_text Ambiguous = ''AMBIGUOUS''"
| "status_text Blocked = ''BLOCKED''"

record verdict = \<comment> \<open>what \<open>emit\<close> is called with\<close>
  vd_status :: gate_status
  vd_reasons :: "string list"
  vd_resolved :: "string option"
  vd_method :: string

abbreviation conclude :: "gate_status \<Rightarrow> string list \<Rightarrow> string option \<Rightarrow> string \<Rightarrow> verdict" where
  "conclude s rs resolved method \<equiv> \<lparr>vd_status = s, vd_reasons = rs, vd_resolved = resolved, vd_method = method\<rparr>"

record situation = \<comment> \<open>the local variables both gates start from\<close>
  si_instant :: local_time
  si_pass :: bool
  si_session :: "string option"
  si_floor :: int
  si_working :: working
  si_exact :: exact

abbreviation si_date :: "situation \<Rightarrow> string" where "si_date x \<equiv> local_date (si_instant x)"

definition method_of :: "string option \<Rightarrow> string" where
  "method_of session = (if session = None then ''OMITTED_SESSION'' else ''EXPLICIT_SESSION'')"

definition time_refusal :: "situation \<Rightarrow> verdict option" where
  \<comment> \<open>an explicit session of the future, and today's before the floor\<close>
  "time_refusal x =
     (case si_session x of None \<Rightarrow> None
      | Some s \<Rightarrow>
        if si_date x < s then Some (conclude Blocked [''FUTURE_SESSION''] (Some s) ''EXPLICIT_SESSION'')
        else if s = si_date x \<and> \<not> si_pass x then Some (conclude TooEarly [''BEFORE_SAFETY_FLOOR''] (Some s) ''EXPLICIT_SESSION'')
        else None)"

definition calendar_unavailable :: "situation \<Rightarrow> string list \<Rightarrow> verdict" where
  "calendar_unavailable x reasons =
     (if \<not> si_pass x \<and> (si_session x = None \<or> si_session x = Some (si_date x))
      then conclude TooEarly [''BEFORE_SAFETY_FLOOR'', ''WORKING_DATES_UNAVAILABLE''] (si_session x) (method_of (si_session x))
      else conclude ProviderEvidenceUnavailable (''WORKING_DATES_UNAVAILABLE'' # reasons) (si_session x) (method_of (si_session x)))"

definition without_working_dates :: "gate_env \<Rightarrow> gate_status \<Rightarrow> string \<Rightarrow> situation \<Rightarrow> verdict res" where
  \<comment> \<open>the branch of both gates for a calendar that was not observed; only the positive answer differs\<close>
  "without_working_dates env positive reason x =
     (case si_session x of None \<Rightarrow> Inr (calendar_unavailable x [])
      | Some s \<Rightarrow>
        if weekend s then Inr (conclude NonWorkingDate [''WEEKEND_SESSION''] (Some s) ''EXPLICIT_SESSION'')
        else bindE (retained_exact_session_resume env s (si_exact x) (si_floor x)) (\<lambda>(eligible, reasons).
          Inr (if eligible then conclude positive (reason # reasons) (Some s) ''EXPLICIT_SESSION''
               else if ''EXACT_SESSION_IDENTITY_MISMATCH'' \<in> set reasons then conclude SessionMismatch reasons (Some s) ''EXPLICIT_SESSION''
               else calendar_unavailable x reasons)))"

definition in_window :: "working \<Rightarrow> string \<Rightarrow> bool" where
  "in_window w session =
     (case (window_start w, window_end w) of
        (Some a, Some b) \<Rightarrow> a \<noteq> [] \<and> b \<noteq> [] \<and> a \<le> session \<and> session \<le> b | _ \<Rightarrow> False)"

definition latest_of :: "string list \<Rightarrow> string option" where
  \<comment> \<open>\<open>max(xs) if xs else None\<close>\<close>
  "latest_of xs = (if xs = [] then None else Some (Max (set xs)))"

definition ready_reason :: string where "ready_reason = ''EXACT_SESSION_OBSERVED_AFTER_SAFETY_FLOOR''"

definition completed_session :: "gate_env \<Rightarrow> situation \<Rightarrow> string \<Rightarrow> string \<Rightarrow> verdict res" where
  \<comment> \<open>the end of the gate, for the session that was resolved\<close>
  "completed_session env x resolved method =
     bindE (if si_session x = None then Inr False else other_session (si_exact x) [resolved]) (\<lambda>mismatch.
     if mismatch then Inr (conclude SessionMismatch [''PROVIDER_OR_EXACT_SESSION_MISMATCH''] (Some resolved) method) else
     bindE (exact_session_sufficient env (si_exact x) resolved (si_floor x)) (\<lambda>reasons.
     if reasons \<noteq> [] then
       bindE (other_session (si_exact x) [resolved]) (\<lambda>other.
         Inr (conclude (if other then SessionMismatch else ExactSessionEvidenceInsufficient) reasons (Some resolved) method))
     else Inr (if resolved \<in> set (wk_dates (si_working x)) \<or> ex_resolved (si_exact x) = VStr resolved
       then conclude Ready [ready_reason, ''WORKING_DATE_IDENTITY_CONFIRMED_OR_RETAINED''] (Some resolved) method
       else conclude Ambiguous [''WORKING_DATE_AND_EXACT_SESSION_UNALIGNED''] (Some resolved) method)))"

definition completed_explicit :: "gate_env \<Rightarrow> situation \<Rightarrow> string \<Rightarrow> verdict res" where
  "completed_explicit env x session =
     (let m = ''EXPLICIT_SESSION'' in
      if weekend session then Inr (conclude NonWorkingDate [''WEEKEND_SESSION''] (Some session) m)
      else if session \<notin> set (wk_dates (si_working x)) then
        (if in_window (si_working x) session \<or> si_date x \<le> session
         then Inr (conclude NonWorkingDate [''NOT_IN_WORKING_DATES''] (Some session) m)
         else bindE (exact_session_sufficient env (si_exact x) session (si_floor x)) (\<lambda>reasons.
           if reasons \<noteq> []
           then Inr (conclude ProviderEvidenceUnavailable (''WORKING_DATES_WINDOW_DOES_NOT_COVER_SESSION'' # reasons) (Some session) m)
           else completed_session env x session m))
      else completed_session env x session m)"

definition candidates_of :: "situation \<Rightarrow> string list" where
  "candidates_of x =
     filter (\<lambda>d. d \<le> si_date x \<and> \<not> (d = si_date x \<and> \<not> si_pass x)) (wk_dates (si_working x))
     @ (case ex_resolved (si_exact x) of
          VStr s \<Rightarrow> if s \<le> si_date x \<and> \<not> (s = si_date x \<and> \<not> si_pass x) then [s] else []
        | _ \<Rightarrow> [])"

definition completed_latest :: "gate_env \<Rightarrow> situation \<Rightarrow> verdict res" where
  "completed_latest env x =
     (let m = ''LATEST_DEFENSIBLE_COMPLETED_WORKING_SESSION''; candidates = candidates_of x in
      bindE (filterE (\<lambda>d. bindE (exact_session_sufficient env (si_exact x) d (si_floor x)) (\<lambda>reasons. Inr (reasons = []))) Inr
               (sorted_set candidates)) (\<lambda>defensible.
      if defensible = [] then
        (if \<not> si_pass x then Inr (conclude TooEarly [''BEFORE_SAFETY_FLOOR'', ''NO_DEFENSIBLE_COMPLETED_SESSION''] None m)
         else if ex_status (si_exact x) = ''ABSENT''
         then Inr (conclude ExactSessionEvidenceInsufficient [''EXACT_SESSION_EVIDENCE_ABSENT''] (latest_of candidates) m)
         else bindE (other_session (si_exact x) candidates) (\<lambda>other.
           Inr (if other then conclude SessionMismatch [''EXACT_SESSION_IDENTITY_MISMATCH''] (latest_of candidates) m
                else conclude ExactSessionEvidenceInsufficient [''NO_DEFENSIBLE_COMPLETED_SESSION_WITH_EXACT_EVIDENCE'']
                       (latest_of candidates) m)))
      else completed_session env x (Max (set defensible)) m))"

definition completion_verdict :: "gate_env \<Rightarrow> situation \<Rightarrow> verdict res" where
  "completion_verdict env x =
     (case time_refusal x of Some v \<Rightarrow> Inr v
      | None \<Rightarrow>
        if wk_status (si_working x) \<noteq> ''OBSERVED'' then without_working_dates env Ready ready_reason x
        else (case si_session x of Some s \<Rightarrow> completed_explicit env x s | None \<Rightarrow> completed_latest env x))"

definition eligible_reason :: string where "eligible_reason = ''ATTEMPT_ELIGIBLE_AFTER_SAFETY_FLOOR''"

definition attempt :: "situation \<Rightarrow> string \<Rightarrow> string \<Rightarrow> verdict res" where
  \<comment> \<open>the end of the gate, for the session that was resolved\<close>
  "attempt x resolved method =
     bindE (other_session (si_exact x) [resolved]) (\<lambda>other.
       Inr (if other then conclude SessionMismatch [''PROVIDER_OR_EXACT_SESSION_MISMATCH''] (Some resolved) method
            else conclude AttemptEligible [eligible_reason, ''WORKING_DATE_IDENTITY_CONFIRMED''] (Some resolved) method))"

definition attempt_explicit :: "gate_env \<Rightarrow> bool \<Rightarrow> situation \<Rightarrow> string \<Rightarrow> verdict res" where
  "attempt_explicit env historical x session =
     (let m = ''EXPLICIT_SESSION'' in
      if weekend session then Inr (conclude NonWorkingDate [''WEEKEND_SESSION''] (Some session) m)
      else if session \<notin> set (wk_dates (si_working x)) then
        (if in_window (si_working x) session \<or> si_date x \<le> session
         then Inr (conclude NonWorkingDate [''NOT_IN_WORKING_DATES''] (Some session) m)
         else bindE (exact_session_sufficient env (si_exact x) session (si_floor x)) (\<lambda>reasons.
           Inr (if reasons = []
             then conclude AttemptEligible [eligible_reason, ''RETAINED_HISTORICAL_EXACT_SESSION_IDENTITY_CONFIRMED''] (Some session) m
             else if historical
             then conclude AttemptEligible [''ATTEMPT_ELIGIBLE_HISTORICAL_TARGET_SESSION_ACQUISITION'',
                    ''HISTORICAL_WORKING_DATE_IDENTITY_PENDING_EXACT_DNSE_RESPONSE''] (Some session) m
             else conclude ProviderEvidenceUnavailable (''WORKING_DATES_WINDOW_DOES_NOT_COVER_SESSION'' # reasons) (Some session) m)))
      else attempt x session m)"

definition attempt_latest :: "situation \<Rightarrow> verdict res" where
  "attempt_latest x =
     (let m = ''LATEST_WORKING_DATE_NOT_FUTURE''; dates = wk_dates (si_working x);
          candidates = filter (\<lambda>d. d < si_date x \<or> d = si_date x \<and> si_pass x) dates in
      if candidates = [] then Inr
        (if si_date x \<notin> set dates then conclude ProviderEvidenceUnavailable [''NON_TRADING_DAY_NO_QUALIFIED_COMPLETED_SESSION''] None m
         else if \<not> si_pass x then conclude TooEarly [''BEFORE_SAFETY_FLOOR'', ''NO_DEFENSIBLE_INTENDED_SESSION''] None m
         else conclude Blocked [''NO_DEFENSIBLE_INTENDED_SESSION''] None m)
      else let resolved = Max (set candidates) in
        if resolved \<notin> set dates then Inr (conclude NonWorkingDate [''NOT_IN_WORKING_DATES''] (Some resolved) m)
        else attempt x resolved m)"

definition attempt_verdict :: "gate_env \<Rightarrow> bool \<Rightarrow> situation \<Rightarrow> verdict res" where
  "attempt_verdict env historical x =
     (case time_refusal x of Some v \<Rightarrow> Inr v
      | None \<Rightarrow>
        if wk_status (si_working x) \<noteq> ''OBSERVED'' then without_working_dates env AttemptEligible eligible_reason x
        else (case si_session x of Some s \<Rightarrow> attempt_explicit env historical x s | None \<Rightarrow> attempt_latest x))"

section \<open>Calls and records\<close>

record gate_call = \<comment> \<open>the keyword arguments\<close>
  gc_requested_at :: "moment option"
  gc_now :: "moment option"
  gc_session :: "string option"
  gc_timezone :: string
  gc_floor :: int
  gc_working :: pyv
  gc_exact :: pyv
  gc_fetcher :: "pyv res option"
  gc_probe :: bool
  gc_historical :: bool

definition default_floor :: int where "default_floor = (15 * 60 + 30) * 60 * 10 ^ 6"

definition explicit_session :: "string option \<Rightarrow> string option res" where
  \<comment> \<open>\<open>parse_session_date(requested_session) if requested_session else None\<close>\<close>
  "explicit_session session =
     (case session of None \<Rightarrow> Inr None
      | Some s \<Rightarrow> if s = [] then Inr None else bindE (parse_session_date s) (\<lambda>d. Inr (Some d)))"

definition working_payload :: "gate_call \<Rightarrow> pyv res" where
  "working_payload c =
     (if gc_working c = VNone \<and> gc_probe c then (case gc_fetcher c of None \<Rightarrow> Inr VNone | Some r \<Rightarrow> r) else Inr (gc_working c))"

definition situation_of :: "gate_env \<Rightarrow> moment \<Rightarrow> gate_call \<Rightarrow> situation res" where
  \<comment> \<open>the first lines of both gates; \<open>clock\<close> is what \<open>vn_now()\<close> returns\<close>
  "situation_of env clock c =
     (let requested = (case gc_requested_at c of Some m \<Rightarrow> m | None \<Rightarrow> (case gc_now c of Some m \<Rightarrow> m | None \<Rightarrow> clock)) in
      bindE (parse_requested_at env (gc_timezone c) requested) (\<lambda>t.
      bindE (explicit_session (gc_session c)) (\<lambda>session.
      bindE (working_payload c) (\<lambda>payload.
      bindE (normalize_exact_session_evidence (gc_exact c)) (\<lambda>x.
        Inr \<lparr>si_instant = t, si_pass = gc_floor c \<le> time_of_day t, si_session = session, si_floor = gc_floor c,
             si_working = normalize_working_dates_evidence env payload (Some (local_isoformat t)), si_exact = x\<rparr>)))))"

definition gate_boundaries :: obj where
  "gate_boundaries =
     [(''authority_effect'', VStr ''NONE''), (''provider_confirmed_completed'', VBool False), (''raw_as_traded_promoted'', VBool False),
      (''pit_backtest_eligible'', VBool False), (''liquidity_sizing_authority'', VStr ''BLOCKED''), (''valuation_authority'', VBool False),
      (''recommendation_authority'', VBool False)]"

definition strings :: "string list \<Rightarrow> pyv" where "strings xs = VList (map VStr xs)"

definition record_head :: "gate_call \<Rightarrow> situation \<Rightarrow> verdict \<Rightarrow> obj" where
  "record_head c x v =
     (let w = si_working x in
      [(''requested_at'', VStr (local_isoformat (si_instant x))), (''timezone'', VStr (gc_timezone c)),
       (''safety_floor'', VStr (minutes_text (gc_floor c))), (''safety_floor_pass'', VBool (si_pass x)),
       (''requested_session'', opt_str (si_session x)), (''resolved_session'', opt_str (vd_resolved v)),
       (''provider'', VStr ''DNSE''), (''provider_evidence_type'', VStr ''DNSE_WORKING_DATES_CALENDAR_IDENTITY''),
       (''provider_evidence_identity'', opt_str (map_option (\<lambda>h. ''dnse_working_dates:'' @ h) (wk_hash w))),
       (''provider_evidence_hash'', opt_str (wk_hash w)), (''provider_semantic_strength'', VStr (wk_strength w)),
       (''working_dates_window'', VDict [(''start'', opt_str (window_start w)), (''end'', opt_str (window_end w)), (''status'', VStr (wk_status w))])])"

definition record_evidence :: "situation \<Rightarrow> verdict \<Rightarrow> obj" where
  "record_evidence x v =
     (let e = si_exact x in
      [(''neighbor_sessions'', case vd_resolved v of
          Some s \<Rightarrow> VDict (if s = [] then [] else neighbor_sessions (wk_dates (si_working x)) s) | None \<Rightarrow> VDict []),
       (''exact_session_evidence'', VDict
         [(''status'', VStr (ex_status e)), (''source_contract'', ex_contract e), (''resolved_completed_session'', ex_resolved e),
          (''retained_snapshot_session'', ex_retained e), (''requested_at'', ex_requested_at e),
          (''exact_session_observed_count'', VInt (ex_observed e)), (''attempted_candidate_count'', VInt (ex_attempted e)),
          (''identity'', ex_identity e), (''hash'', ex_hash e)]),
       (''resolution_method'', VStr (vd_method v))])"

definition working_dates_statement :: obj where
  "working_dates_statement =
     [(''working_dates_proves'', strings [''working_date_identity_within_observed_window'', ''prior_next_working_date_within_observed_window'']),
      (''working_dates_does_not_prove'',
        strings [''market_session_completed'', ''market_closed'', ''historical_working_dates_outside_observed_window''])]"

definition identify_gate :: "gate_env \<Rightarrow> string \<Rightarrow> obj \<Rightarrow> obj" where
  "identify_gate env kind payload =
     (let digest = content_hash (ge_text env) payload in
      payload @ [(''gate_content_identity'', VStr digest), (''gate_identity'', VStr (kind @ digest))])"

definition gate_record :: "gate_env \<Rightarrow> gate_call \<Rightarrow> situation \<Rightarrow> verdict \<Rightarrow> obj" where
  \<comment> \<open>\<open>_gate_record\<close>\<close>
  "gate_record env c x v =
     identify_gate env ''completed_market_session_gate:''
       ([(''schema_version'', VStr ''completed_market_session_gate/v1''), (''contract_version'', VStr ''completed_market_session_gate/v1'')]
        @ record_head c x v @ record_evidence x v
        @ [(''completion_gate_status'', VStr (status_text (vd_status v))), (''reason_codes'', strings (vd_reasons v)),
           (''ready_semantic'', if vd_status v = Ready then VStr ready_reason else VNone),
           (''authority_statement'', VDict
             ([(''provider_confirmed_completed'', VBool False), (''safety_floor_is_not_session_authority'', VBool True)]
              @ working_dates_statement
              @ [(''ready_means'', VStr ready_reason), (''limitations'', strings (wk_limitations (si_working x))),
                 (''authority_effect'', VStr ''NONE'')])),
           (''authority_boundaries'', VDict gate_boundaries)])"

definition attempt_record :: "gate_env \<Rightarrow> gate_call \<Rightarrow> situation \<Rightarrow> verdict \<Rightarrow> obj" where
  \<comment> \<open>\<open>_attempt_record\<close>\<close>
  "attempt_record env c x v =
     identify_gate env ''completed_market_session_attempt_gate:''
       ([(''schema_version'', VStr ''completed_market_session_gate/v1''), (''contract_version'', VStr ''completed_market_session_gate/v1''),
         (''phase'', VStr ''PRE_ACQUISITION_ATTEMPT'')]
        @ record_head c x v @ [(''working_dates'', strings (wk_dates (si_working x)))] @ record_evidence x v
        @ [(''attempt_gate_status'', VStr (status_text (vd_status v))), (''completion_gate_status'', VNone),
           (''reason_codes'', strings (vd_reasons v)),
           (''attempt_semantic'', if vd_status v = AttemptEligible then VStr ''PRE_ACQUISITION_ATTEMPT_ELIGIBLE'' else VNone),
           (''ready_semantic'', VNone),
           (''authority_statement'', VDict
             ([(''provider_confirmed_completed'', VBool False), (''safety_floor_is_not_session_authority'', VBool True),
               (''attempt_eligible_does_not_mean'', strings [''market_session_completed'', ''market_closed'', ''exact_session_data_proven''])]
              @ working_dates_statement
              @ [(''ready_means'', VStr ready_reason), (''time_alone_never_produces_phase_b_ready'', VBool True),
                 (''limitations'', strings (wk_limitations (si_working x))), (''authority_effect'', VStr ''NONE'')])),
           (''authority_boundaries'', VDict gate_boundaries)])"

definition evaluate_completed_market_session_gate :: "gate_env \<Rightarrow> moment \<Rightarrow> gate_call \<Rightarrow> obj res" where
  "evaluate_completed_market_session_gate env clock c =
     bindE (situation_of env clock c) (\<lambda>x. bindE (completion_verdict env x) (\<lambda>v. Inr (gate_record env c x v)))"

definition evaluate_attempt_eligibility :: "gate_env \<Rightarrow> moment \<Rightarrow> gate_call \<Rightarrow> obj res" where
  "evaluate_attempt_eligibility env clock c =
     bindE (situation_of env clock c) (\<lambda>x. bindE (attempt_verdict env (gc_historical c) x) (\<lambda>v. Inr (attempt_record env c x v)))"

definition retained_exact_session_resume_eligible :: "gate_env \<Rightarrow> moment \<Rightarrow> string \<Rightarrow> string \<Rightarrow> int \<Rightarrow> pyv \<Rightarrow> (bool \<times> string list) res" where
  "retained_exact_session_resume_eligible env requested session timezone floor_us evidence =
     bindE (parse_requested_at env timezone requested) (\<lambda>t. bindE (parse_session_date session) (\<lambda>s.
     if local_date t < s then Inr (False, [''FUTURE_SESSION''])
     else if s = local_date t \<and> time_of_day t < floor_us then Inr (False, [''BEFORE_SAFETY_FLOOR''])
     else if weekend s then Inr (False, [''WEEKEND_SESSION''])
     else bindE (normalize_exact_session_evidence evidence) (\<lambda>x. retained_exact_session_resume env s x floor_us)))"

section \<open>What readiness rests on\<close>

definition enough_observations :: "gate_env \<Rightarrow> exact \<Rightarrow> bool" where
  "enough_observations env e \<longleftrightarrow>
     (if gate_text env (v_or (ex_contract e) (VStr [])) = packet_contract then 1 \<le> ex_observed e
      else 0 < ex_observed e \<and> (case coverage_ratio (ex_observed e) (ex_attempted e) of Inl err \<Rightarrow> False | Inr r \<Rightarrow> minimum_ratio \<le> r))"

definition acquired_late_enough :: "gate_env \<Rightarrow> pyv \<Rightarrow> string \<Rightarrow> int \<Rightarrow> bool" where
  "acquired_late_enough env raw s floor_us \<longleftrightarrow> v_true raw \<and>
     (case parse_requested_at env operating_timezone (Written (gate_text env raw)) of Inl e \<Rightarrow> False
      | Inr t \<Rightarrow> s < local_date t \<or> s = local_date t \<and> floor_us \<le> time_of_day t)"

definition backed :: "gate_env \<Rightarrow> situation \<Rightarrow> string \<Rightarrow> bool" where
  \<comment> \<open>the retained evidence is of this very session, has enough observations and was acquired after the floor\<close>
  "backed env x s \<longleftrightarrow> ex_status (si_exact x) \<noteq> ''ABSENT'' \<and> ex_resolved (si_exact x) = VStr s \<and> ex_retained (si_exact x) = VStr s
     \<and> enough_observations env (si_exact x) \<and> acquired_late_enough env (ex_requested_at (si_exact x)) s (si_floor x)"

definition on_calendar :: "situation \<Rightarrow> string \<Rightarrow> bool" where
  \<comment> \<open>an observed calendar lists the session, or its window is after the session and today is too\<close>
  "on_calendar x s \<longleftrightarrow> (wk_status (si_working x) = ''OBSERVED'' \<longrightarrow> s \<in> set (wk_dates (si_working x))
     \<or> \<not> in_window (si_working x) s \<and> s < si_date x)"

definition session_may_be_over :: "situation \<Rightarrow> string \<Rightarrow> bool" where
  "session_may_be_over x s \<longleftrightarrow> \<not> weekend s \<and> s \<le> si_date x \<and> (s = si_date x \<longrightarrow> si_pass x)"

lemma coverage_enough: "coverage_reasons env e = Inr [] \<longleftrightarrow> enough_observations env e"
  by (auto simp: coverage_reasons_def enough_observations_def bindE_eq_Inr not_less split: sum.splits if_splits)

lemma acquired_enough: "acquired_after_safety_floor env raw s floor_us = Inr None \<longleftrightarrow> acquired_late_enough env raw s floor_us"
proof (cases "parse_requested_at env operating_timezone (Written (gate_text env raw))")
  case (Inl e)
  then show ?thesis
    by (cases e) (auto simp: acquired_after_safety_floor_def acquired_late_enough_def split: exc_class.splits)
next
  case (Inr t)
  then show ?thesis by (auto simp: acquired_after_safety_floor_def acquired_late_enough_def not_less)
qed

lemma sufficient_backed: "exact_session_sufficient env (si_exact x) s (si_floor x) = Inr [] \<longleftrightarrow> backed env x s"
  by (auto simp: exact_session_sufficient_def backed_def bindE_eq_Inr coverage_enough[symmetric] acquired_enough[symmetric]
      split: option.splits if_splits)

lemma backed_not_other: "backed env x s \<Longrightarrow> other_session (si_exact x) [s] = Inr False"
  by (simp add: backed_def other_session_def)

lemma resume_backed: "retained_exact_session_resume env s (si_exact x) (si_floor x) = Inr (True, rs) \<longleftrightarrow> backed env x s \<and> rs = [resume_reason]"
  using backed_not_other[of env x s] sufficient_backed[of env x s]
  by (auto simp: retained_exact_session_resume_def bindE_eq_Inr split: if_splits)

lemma completed_ready:
  "completed_session env x s m = Inr v \<and> vd_status v = Ready \<longleftrightarrow>
     backed env x s \<and> v = conclude Ready [ready_reason, ''WORKING_DATE_IDENTITY_CONFIRMED_OR_RETAINED''] (Some s) m"
proof
  assume "completed_session env x s m = Inr v \<and> vd_status v = Ready"
  then have "exact_session_sufficient env (si_exact x) s (si_floor x) = Inr []"
    and v: "v = conclude Ready [ready_reason, ''WORKING_DATE_IDENTITY_CONFIRMED_OR_RETAINED''] (Some s) m"
    by (auto simp: completed_session_def bindE_eq_Inr split: if_splits)
  then show "backed env x s \<and> v = conclude Ready [ready_reason, ''WORKING_DATE_IDENTITY_CONFIRMED_OR_RETAINED''] (Some s) m"
    using sufficient_backed by blast
next
  assume b: "backed env x s \<and> v = conclude Ready [ready_reason, ''WORKING_DATE_IDENTITY_CONFIRMED_OR_RETAINED''] (Some s) m"
  then have "exact_session_sufficient env (si_exact x) s (si_floor x) = Inr []" "ex_resolved (si_exact x) = VStr s"
    using sufficient_backed by (auto simp: backed_def)
  then show "completed_session env x s m = Inr v \<and> vd_status v = Ready"
    using b backed_not_other[of env x s] by (simp add: completed_session_def)
qed

lemma without_dates_positive:
  assumes "si_session x = Some s" "positive \<notin> {SessionMismatch, NonWorkingDate, TooEarly, ProviderEvidenceUnavailable}"
  shows "(\<exists>v. without_working_dates env positive reason x = Inr v \<and> vd_status v = positive \<and> vd_resolved v = Some s) \<longleftrightarrow>
    \<not> weekend s \<and> backed env x s"
proof (cases "\<not> weekend s \<and> backed env x s")
  case True
  then have "retained_exact_session_resume env s (si_exact x) (si_floor x) = Inr (True, [resume_reason])"
    using resume_backed by blast
  then show ?thesis using True by (simp add: without_working_dates_def assms(1))
next
  case False
  have "vd_status (calendar_unavailable x rs) \<noteq> positive" for rs using assms(2) by (auto simp: calendar_unavailable_def)
  then show ?thesis using False assms(2) resume_backed[of env s x]
    by (auto simp: without_working_dates_def assms(1) bindE_eq_Inr split: if_splits)
qed

lemma refused_in_time:
  assumes "si_session x = Some s"
  shows "time_refusal x = None \<longleftrightarrow> s \<le> si_date x \<and> (s = si_date x \<longrightarrow> si_pass x)"
    and "time_refusal x = Some v \<Longrightarrow> vd_status v \<in> {Blocked, TooEarly}"
  using assms by (auto simp: time_refusal_def not_less split: if_splits)

lemma explicit_ready:
  assumes "si_session x = Some s"
  shows "(\<exists>v. completion_verdict env x = Inr v \<and> vd_status v = Ready \<and> vd_resolved v = Some s) \<longleftrightarrow>
    session_may_be_over x s \<and> on_calendar x s \<and> backed env x s"
proof (cases "time_refusal x")
  case (Some v)
  then have "vd_status v \<noteq> Ready" "\<not> session_may_be_over x s"
    using refused_in_time[OF assms] by (auto simp: session_may_be_over_def)
  then show ?thesis by (simp add: completion_verdict_def Some)
next
  case None
  then have time: "s \<le> si_date x \<and> (s = si_date x \<longrightarrow> si_pass x)" using refused_in_time[OF assms] by simp
  show ?thesis
  proof (cases "wk_status (si_working x) = ''OBSERVED''")
    case False
    then show ?thesis using time without_dates_positive[OF assms, of Ready env ready_reason]
      by (simp add: completion_verdict_def None session_may_be_over_def on_calendar_def)
  next
    case True
    have "(\<exists>v. completed_explicit env x s = Inr v \<and> vd_status v = Ready \<and> vd_resolved v = Some s)
        \<longleftrightarrow> \<not> weekend s \<and> backed env x s \<and> (s \<in> set (wk_dates (si_working x)) \<or> \<not> in_window (si_working x) s \<and> s < si_date x)"
    proof (cases "weekend s \<or> s \<notin> set (wk_dates (si_working x)) \<and> (in_window (si_working x) s \<or> si_date x \<le> s)")
      case True
      then show ?thesis by (auto simp: completed_explicit_def Let_def)
    next
      case False
      have "(\<exists>v. completed_explicit env x s = Inr v \<and> vd_status v = Ready \<and> vd_resolved v = Some s)
          \<longleftrightarrow> (\<exists>v. completed_session env x s ''EXPLICIT_SESSION'' = Inr v \<and> vd_status v = Ready)"
      proof
        assume "\<exists>v. completed_explicit env x s = Inr v \<and> vd_status v = Ready \<and> vd_resolved v = Some s"
        then show "\<exists>v. completed_session env x s ''EXPLICIT_SESSION'' = Inr v \<and> vd_status v = Ready"
          using False by (auto simp: completed_explicit_def Let_def bindE_eq_Inr split: if_splits)
      next
        assume "\<exists>v. completed_session env x s ''EXPLICIT_SESSION'' = Inr v \<and> vd_status v = Ready"
        then obtain v where v: "completed_session env x s ''EXPLICIT_SESSION'' = Inr v \<and> vd_status v = Ready" by blast
        then have b: "exact_session_sufficient env (si_exact x) s (si_floor x) = Inr []" "vd_resolved v = Some s"
          using completed_ready sufficient_backed by auto
        then show "\<exists>v. completed_explicit env x s = Inr v \<and> vd_status v = Ready \<and> vd_resolved v = Some s"
          using False v by (intro exI[of _ v]) (auto simp: completed_explicit_def Let_def)
      qed
      then show ?thesis using False completed_ready by auto
    qed
    then show ?thesis using time True assms
      by (auto simp: completion_verdict_def None session_may_be_over_def on_calendar_def)
  qed
qed

lemma completed_backed:
  assumes "backed env x s"
  shows "completed_session env x s m = Inr (conclude Ready [ready_reason, ''WORKING_DATE_IDENTITY_CONFIRMED_OR_RETAINED''] (Some s) m)"
  using assms completed_ready[of env x s m] by blast

lemma resolved_given:
  assumes "si_session x = Some s" "completion_verdict env x = Inr v"
  shows "vd_resolved v = Some s"
proof -
  have a: "vd_resolved w = Some s" if "completed_session env x s m = Inr w" for w m
    using that by (auto simp: completed_session_def bindE_eq_Inr split: if_splits)
  have b: "vd_resolved w = Some s" if "completed_explicit env x s = Inr w" for w
    using that by (auto simp: completed_explicit_def Let_def bindE_eq_Inr dest: a split: if_splits)
  have c: "vd_resolved w = Some s" if "without_working_dates env Ready ready_reason x = Inr w" for w
    using that by (auto simp: without_working_dates_def assms(1) calendar_unavailable_def bindE_eq_Inr split: if_splits)
  have d: "vd_resolved w = Some s" if "time_refusal x = Some w" for w
    using that by (auto simp: time_refusal_def assms(1) split: if_splits)
  show ?thesis using assms(2) by (auto simp: completion_verdict_def assms(1) dest: b c d split: option.splits if_splits)
qed

lemma sufficient_other:
  assumes "backed env x s" "d \<noteq> s"
  shows "exact_session_sufficient env (si_exact x) d (si_floor x) = Inr [''EXACT_SESSION_IDENTITY_MISMATCH'']"
  using assms by (simp add: exact_session_sufficient_def backed_def)

lemma filterE_one:
  assumes "distinct xs" "s \<in> set xs" "p s = Inr True" "\<And>d. d \<in> set xs \<Longrightarrow> d \<noteq> s \<Longrightarrow> p d = Inr False"
  shows "filterE p Inr xs = Inr [s]"
  using assms
proof (induction xs)
  case (Cons d xs)
  have none: "filterE p Inr ys = Inr []" if "\<And>d. d \<in> set ys \<Longrightarrow> p d = Inr False" for ys
    using that by (induction ys) auto
  show ?case
  proof (cases "d = s")
    case True
    then have "filterE p Inr xs = Inr []" using Cons.prems by (intro none) auto
    then show ?thesis using True Cons.prems(3) by simp
  next
    case False
    then show ?thesis using Cons by simp
  qed
qed simp

lemma filterE_sub: "filterE p Inr xs = Inr ys \<Longrightarrow> y \<in> set ys \<Longrightarrow> y \<in> set xs \<and> p y = Inr True"
  by (induction xs arbitrary: ys) (auto simp: bindE_eq_Inr split: if_splits)

lemma candidate_time: "d \<in> set (candidates_of x) \<Longrightarrow> d \<le> si_date x \<and> (d = si_date x \<longrightarrow> si_pass x)"
  by (auto simp: candidates_of_def split: pyv.splits if_splits)

lemma latest_ready:
  assumes "si_session x = None" "wk_status (si_working x) = ''OBSERVED''"
  shows "(\<exists>v. completion_verdict env x = Inr v \<and> vd_status v = Ready \<and> vd_resolved v = Some s) \<longleftrightarrow>
    s \<le> si_date x \<and> (s = si_date x \<longrightarrow> si_pass x) \<and> backed env x s"
proof -
  have start: "completion_verdict env x = completed_latest env x"
    using assms by (simp add: completion_verdict_def time_refusal_def)
  let ?p = "\<lambda>d. bindE (exact_session_sufficient env (si_exact x) d (si_floor x)) (\<lambda>reasons. Inr (reasons = []))"
  show ?thesis
  proof
    assume "\<exists>v. completion_verdict env x = Inr v \<and> vd_status v = Ready \<and> vd_resolved v = Some s"
    then obtain v ds where v: "vd_status v = Ready" "vd_resolved v = Some s"
      and ds: "filterE ?p Inr (sorted_set (candidates_of x)) = Inr ds"
        "ds \<noteq> []" "completed_session env x (Max (set ds)) ''LATEST_DEFENSIBLE_COMPLETED_WORKING_SESSION'' = Inr v"
      unfolding start completed_latest_def Let_def by (auto simp: bindE_eq_Inr split: if_splits)
    have b: "backed env x (Max (set ds))" "Max (set ds) = s" using completed_ready[of env x _ _ v] ds(3) v by auto
    have "Max (set ds) \<in> set ds" using ds(2) by simp
    from filterE_sub[OF ds(1) this] have "s \<in> set (candidates_of x)" using b(2) by simp
    then show "s \<le> si_date x \<and> (s = si_date x \<longrightarrow> si_pass x) \<and> backed env x s" using b candidate_time by blast
  next
    assume s: "s \<le> si_date x \<and> (s = si_date x \<longrightarrow> si_pass x) \<and> backed env x s"
    then have in_c: "s \<in> set (sorted_set (candidates_of x))" by (auto simp: candidates_of_def backed_def)
    have own: "?p s = Inr True" using s sufficient_backed[of env x s] by simp
    have "?p d = Inr False" if "d \<noteq> s" for d using s sufficient_other[OF _ that] by simp
    then have "filterE ?p Inr (sorted_set (candidates_of x)) = Inr [s]" using in_c own by (intro filterE_one) simp_all
    then have "completion_verdict env x = completed_session env x s ''LATEST_DEFENSIBLE_COMPLETED_WORKING_SESSION''"
      unfolding start completed_latest_def Let_def by simp
    then show "\<exists>v. completion_verdict env x = Inr v \<and> vd_status v = Ready \<and> vd_resolved v = Some s"
      using s completed_backed[of env x s] by simp
  qed
qed

lemma explicit_eligible:
  assumes "si_session x = Some s" "completion_verdict env x = Inr v" "vd_status v = Ready"
  shows "\<exists>w. attempt_verdict env historical x = Inr w \<and> vd_status w = AttemptEligible \<and> vd_resolved w = Some s"
proof -
  have "vd_resolved v = Some s" by (rule resolved_given[OF assms(1,2)])
  then have ok: "session_may_be_over x s" "on_calendar x s" "backed env x s" using explicit_ready[OF assms(1), of env] assms(2,3) by auto
  then have free: "time_refusal x = None" using assms(1) by (auto simp: time_refusal_def session_may_be_over_def)
  have sufficient: "exact_session_sufficient env (si_exact x) s (si_floor x) = Inr []" using ok(3) sufficient_backed by blast
  have mine: "other_session (si_exact x) [s] = Inr False" by (rule backed_not_other[OF ok(3)])
  show ?thesis
  proof (cases "wk_status (si_working x) = ''OBSERVED''")
    case False
    have "retained_exact_session_resume env s (si_exact x) (si_floor x) = Inr (True, [resume_reason])"
      using ok(3) resume_backed by blast
    then show ?thesis using False free ok(1) assms(1)
      by (simp add: attempt_verdict_def without_working_dates_def session_may_be_over_def)
  next
    case True
    then show ?thesis using free ok(1,2) assms(1) sufficient mine
      by (auto simp: attempt_verdict_def attempt_explicit_def attempt_def Let_def session_may_be_over_def on_calendar_def not_le)
  qed
qed

section \<open>The properties of the gates\<close>

definition reports :: "obj \<Rightarrow> string \<Rightarrow> gate_status \<Rightarrow> string \<Rightarrow> bool" where
  "reports r field status s \<longleftrightarrow> oget r field = VStr (status_text status) \<and> oget r ''resolved_session'' = VStr s"

lemma status_text_inj [simp]: "status_text a = status_text b \<longleftrightarrow> a = b"
  by (cases a; cases b; simp)

lemma gate_record_fields:
  "oget (gate_record env c x v) ''completion_gate_status'' = VStr (status_text (vd_status v))"
  "oget (gate_record env c x v) ''resolved_session'' = opt_str (vd_resolved v)"
  by (simp_all add: gate_record_def identify_gate_def Let_def record_head_def record_evidence_def oget_append_keys)

lemma attempt_record_fields:
  "oget (attempt_record env c x v) ''attempt_gate_status'' = VStr (status_text (vd_status v))"
  "oget (attempt_record env c x v) ''resolved_session'' = opt_str (vd_resolved v)"
  by (simp_all add: attempt_record_def identify_gate_def Let_def record_head_def record_evidence_def oget_append_keys)

lemma opt_str_VStr [simp]: "opt_str v = VStr s \<longleftrightarrow> v = Some s"
  by (cases v) (auto simp: opt_str_def)

lemma attempt_eligible_without_dates:
  assumes "si_session x = Some s" "wk_status (si_working x) \<noteq> ''OBSERVED''"
  shows "(\<exists>v. attempt_verdict env historical x = Inr v \<and> vd_status v = AttemptEligible \<and> vd_resolved v = Some s) \<longleftrightarrow>
    session_may_be_over x s \<and> backed env x s"
proof (cases "time_refusal x")
  case (Some v)
  then show ?thesis using refused_in_time[OF assms(1)] by (auto simp: session_may_be_over_def attempt_verdict_def)
next
  case None
  then show ?thesis using refused_in_time[OF assms(1)] without_dates_positive[OF assms(1), of AttemptEligible env eligible_reason] assms(2)
    by (simp add: attempt_verdict_def session_may_be_over_def)
qed

lemma resume_refused:
  assumes "retained_exact_session_resume env s (si_exact x) (si_floor x) = Inr (b, rs)"
  shows "b \<longleftrightarrow> backed env x s"
proof (cases "backed env x s")
  case True
  then have "retained_exact_session_resume env s (si_exact x) (si_floor x) = Inr (True, [resume_reason])" using resume_backed by blast
  then show ?thesis using True assms by simp
next
  case False
  then show ?thesis using assms resume_backed[of env s x rs] by (cases b) auto
qed

lemma gate_reports:
  assumes "situation_of env clock c = Inr x"
  shows "(\<exists>r. evaluate_completed_market_session_gate env clock c = Inr r \<and> reports r ''completion_gate_status'' Ready s) \<longleftrightarrow>
    (\<exists>v. completion_verdict env x = Inr v \<and> vd_status v = Ready \<and> vd_resolved v = Some s)"
  by (auto simp: evaluate_completed_market_session_gate_def assms bindE_eq_Inr reports_def gate_record_fields
      simp flip: status_text.simps)

lemma attempt_reports:
  assumes "situation_of env clock c = Inr x"
  shows "(\<exists>r. evaluate_attempt_eligibility env clock c = Inr r \<and> reports r ''attempt_gate_status'' AttemptEligible s) \<longleftrightarrow>
    (\<exists>v. attempt_verdict env (gc_historical c) x = Inr v \<and> vd_status v = AttemptEligible \<and> vd_resolved v = Some s)"
  by (auto simp: evaluate_attempt_eligibility_def assms bindE_eq_Inr reports_def attempt_record_fields
      simp flip: status_text.simps)

text \<open>
  C25. Time alone never makes a session ready: an explicit session is reported ready exactly if its day is
  over or past the floor and no weekend, an observed calendar lists it or no longer reaches back to it, and
  the evidence retained of this very session suffices and was acquired after the floor.
\<close>

theorem ready_iff_backed:
  assumes "situation_of env clock c = Inr x" "si_session x = Some s"
  shows "(\<exists>r. evaluate_completed_market_session_gate env clock c = Inr r \<and> reports r ''completion_gate_status'' Ready s) \<longleftrightarrow>
    session_may_be_over x s \<and> on_calendar x s \<and> backed env x s"
  unfolding gate_reports[OF assms(1)] by (rule explicit_ready[OF assms(2)])

text \<open>
  C29. Without an explicit session the gate asks for less: it reports a session ready on its evidence alone,
  even one that falls on a weekend or that the observed calendar shows to be no working date, and which it
  refuses when asked for by name.
\<close>

theorem latest_ignores_calendar:
  assumes "situation_of env clock c = Inr x" "si_session x = None"
  shows "(\<exists>r. evaluate_completed_market_session_gate env clock c = Inr r \<and> reports r ''completion_gate_status'' Ready s) \<longleftrightarrow>
    wk_status (si_working x) = ''OBSERVED'' \<and> s \<le> si_date x \<and> (s = si_date x \<longrightarrow> si_pass x) \<and> backed env x s"
proof (cases "wk_status (si_working x) = ''OBSERVED''")
  case True
  then show ?thesis unfolding gate_reports[OF assms(1)] using latest_ready[OF assms(2)] by simp
next
  case False
  then have "completion_verdict env x = Inr (calendar_unavailable x [])"
    using assms(2) by (simp add: completion_verdict_def time_refusal_def without_working_dates_def)
  then show ?thesis unfolding gate_reports[OF assms(1)] using False by (simp add: calendar_unavailable_def)
qed

text \<open>
  C27. The phases are consistent: where the completion gate reports an explicit session ready, the attempt
  gate, given the same arguments, reports it eligible.
\<close>

theorem ready_session_was_eligible:
  assumes "situation_of env clock c = Inr x" "si_session x = Some s"
    and "evaluate_completed_market_session_gate env clock c = Inr r" "oget r ''completion_gate_status'' = VStr (status_text Ready)"
  shows "reports r ''completion_gate_status'' Ready s
    \<and> (\<exists>a. evaluate_attempt_eligibility env clock c = Inr a \<and> reports a ''attempt_gate_status'' AttemptEligible s)"
proof -
  from assms(3,4) obtain v where v: "completion_verdict env x = Inr v" "vd_status v = Ready" "r = gate_record env c x v"
    by (auto simp: evaluate_completed_market_session_gate_def assms(1) bindE_eq_Inr gate_record_fields simp flip: status_text.simps)
  have "vd_resolved v = Some s" by (rule resolved_given[OF assms(2) v(1)])
  then show ?thesis unfolding attempt_reports[OF assms(1)]
    using explicit_eligible[OF assms(2) v(1,2)] v(2,3) by (simp add: reports_def gate_record_fields)
qed

text \<open>
  C28. The check that lets a caller skip the network agrees with both gates: it says yes exactly if they,
  asked for the same session without a calendar, say ready and eligible.
\<close>

theorem resume_mirrors_gates:
  assumes "retained_exact_session_resume_eligible env requested session timezone floor_us evidence = Inr (b, reasons)"
    and "gc_requested_at c = Some requested" "gc_session c = Some session" "gc_timezone c = timezone" "gc_floor c = floor_us"
      "gc_exact c = evidence" "gc_working c = VNone" "\<not> gc_probe c"
  shows "\<exists>s. parse_session_date session = Inr s
    \<and> (b \<longleftrightarrow> (\<exists>r. evaluate_completed_market_session_gate env clock c = Inr r \<and> reports r ''completion_gate_status'' Ready s))
    \<and> (b \<longleftrightarrow> (\<exists>a. evaluate_attempt_eligibility env clock c = Inr a \<and> reports a ''attempt_gate_status'' AttemptEligible s))"
proof -
  from assms(1) obtain t s where t: "parse_requested_at env timezone requested = Inr t" and s: "parse_session_date session = Inr s"
    by (auto simp: retained_exact_session_resume_eligible_def bindE_eq_Inr)
  have "session \<noteq> []" using s by (auto simp: parse_session_date_def str_strip_def datetime_fromisoformat_def)
  then have given: "explicit_session (Some session) = Inr (Some s)" using s by (simp add: explicit_session_def)
  show ?thesis
  proof (cases "normalize_exact_session_evidence evidence")
    case (Inl e)
    then have "situation_of env clock c = Inl e"
      using assms(2-8) t given by (simp add: situation_of_def working_payload_def)
    moreover have "\<not> b" using assms(1) t s Inl by (auto simp: retained_exact_session_resume_eligible_def split: if_splits)
    ultimately show ?thesis
      using s by (simp add: evaluate_completed_market_session_gate_def evaluate_attempt_eligibility_def)
  next
    case (Inr e)
    define x where "x = \<lparr>si_instant = t, si_pass = floor_us \<le> time_of_day t, si_session = Some s, si_floor = floor_us,
      si_working = normalize_working_dates_evidence env VNone (Some (local_isoformat t)), si_exact = e\<rparr>"
    have x: "situation_of env clock c = Inr x"
      using assms(2-8) t given Inr by (simp add: situation_of_def working_payload_def x_def)
    have none: "wk_status (si_working x) = ''UNAVAILABLE''" by (simp add: x_def normalize_working_dates_evidence_def Let_def)
    have field: "si_exact x = e" "si_floor x = floor_us" "si_session x = Some s" by (simp_all add: x_def)
    have b: "b \<longleftrightarrow> session_may_be_over x s \<and> backed env x s"
    proof (cases "session_may_be_over x s")
      case True
      then have "\<not> local_date t < s" "\<not> (s = local_date t \<and> time_of_day t < floor_us)" "\<not> weekend s"
        by (auto simp: session_may_be_over_def x_def)
      then have "retained_exact_session_resume env s (si_exact x) (si_floor x) = Inr (b, reasons)"
        using assms(1) by (simp only: retained_exact_session_resume_eligible_def t s Inr bindE_Inr if_False field)
      then show ?thesis using True resume_refused[of env s x b reasons] by simp
    next
      case False
      then show ?thesis using assms(1) t s
        by (auto simp: retained_exact_session_resume_eligible_def session_may_be_over_def x_def not_less split: if_split_asm)
    qed
    have "on_calendar x s" by (simp add: on_calendar_def none)
    then have "b \<longleftrightarrow> (\<exists>v. completion_verdict env x = Inr v \<and> vd_status v = Ready \<and> vd_resolved v = Some s)"
      using explicit_ready[OF field(3), of env] b by simp
    moreover have "b \<longleftrightarrow> (\<exists>v. attempt_verdict env (gc_historical c) x = Inr v \<and> vd_status v = AttemptEligible \<and> vd_resolved v = Some s)"
      using b by (simp add: attempt_eligible_without_dates[OF field(3)] none)
    ultimately show ?thesis using s unfolding gate_reports[OF x] attempt_reports[OF x] by blast
  qed
qed

lemma working_dates_timeless:
  "wk_status (normalize_working_dates_evidence env payload a) = wk_status (normalize_working_dates_evidence env payload b)"
  "wk_dates (normalize_working_dates_evidence env payload a) = wk_dates (normalize_working_dates_evidence env payload b)"
  by (simp_all add: normalize_working_dates_evidence_def Let_def)

definition no_earlier :: "local_time \<Rightarrow> local_time \<Rightarrow> bool" where
  "no_earlier t u \<longleftrightarrow> local_date t < local_date u \<or> local_date t = local_date u \<and> time_of_day t \<le> time_of_day u"

lemma situation_later:
  assumes "situation_of env clock c = Inr x" "parse_requested_at env (gc_timezone c) later = Inr u" "no_earlier (si_instant x) u"
  obtains y where "situation_of env clock (c\<lparr>gc_requested_at := Some later\<rparr>) = Inr y"
    "si_session y = si_session x" "si_exact y = si_exact x" "si_floor y = si_floor x" "si_instant y = u"
    "wk_status (si_working y) = wk_status (si_working x)" "wk_dates (si_working y) = wk_dates (si_working x)"
    "si_pass x \<longleftrightarrow> si_floor x \<le> time_of_day (si_instant x)" "si_pass y \<longleftrightarrow> si_floor x \<le> time_of_day u"
proof -
  from assms(1) obtain t session payload e where
    step: "explicit_session (gc_session c) = Inr session" "working_payload c = Inr payload"
      "normalize_exact_session_evidence (gc_exact c) = Inr e"
    and x: "x = \<lparr>si_instant = t, si_pass = gc_floor c \<le> time_of_day t, si_session = session, si_floor = gc_floor c,
             si_working = normalize_working_dates_evidence env payload (Some (local_isoformat t)), si_exact = e\<rparr>"
    unfolding situation_of_def Let_def bindE_eq_Inr sum.inject by blast
  have "working_payload (c\<lparr>gc_requested_at := Some later\<rparr>) = Inr payload" using step(2) by (auto simp: working_payload_def split: if_splits)
  then have "situation_of env clock (c\<lparr>gc_requested_at := Some later\<rparr>) = Inr
      (x\<lparr>si_instant := u, si_pass := gc_floor c \<le> time_of_day u,
         si_working := normalize_working_dates_evidence env payload (Some (local_isoformat u))\<rparr>)"
    using assms(2) step by (simp add: situation_of_def x)
  from that[OF this] show thesis
    using working_dates_timeless[of env payload "Some (local_isoformat u)" "Some (local_isoformat t)"] by (simp add: x)
qed

text \<open>
  C26. Readiness is stable: an explicit session that is ready at one time is ready at every later time of the
  operating zone, on the same evidence.
\<close>

theorem ready_is_stable:
  assumes "situation_of env clock c = Inr x" "si_session x = Some s"
    and "evaluate_completed_market_session_gate env clock c = Inr r" "reports r ''completion_gate_status'' Ready s"
    and "parse_requested_at env (gc_timezone c) later = Inr u" "no_earlier (si_instant x) u"
  shows "\<exists>r'. evaluate_completed_market_session_gate env clock (c\<lparr>gc_requested_at := Some later\<rparr>) = Inr r'
    \<and> reports r' ''completion_gate_status'' Ready s"
proof -
  from situation_later[OF assms(1,5,6)] obtain y where
    y: "situation_of env clock (c\<lparr>gc_requested_at := Some later\<rparr>) = Inr y"
      "si_session y = si_session x" "si_exact y = si_exact x" "si_floor y = si_floor x" "si_instant y = u"
      "wk_status (si_working y) = wk_status (si_working x)" "wk_dates (si_working y) = wk_dates (si_working x)"
      "si_pass x \<longleftrightarrow> si_floor x \<le> time_of_day (si_instant x)" "si_pass y \<longleftrightarrow> si_floor x \<le> time_of_day u" .
  have ok: "session_may_be_over x s" "on_calendar x s" "backed env x s"
    using gate_reports[OF assms(1)] explicit_ready[OF assms(2), of env] assms(3,4) by blast+
  have day: "si_date x \<le> si_date y" "si_date y = si_date x \<Longrightarrow> si_pass x \<Longrightarrow> si_pass y" "s \<le> si_date x" "s = si_date x \<Longrightarrow> si_pass x" "\<not> weekend s"
    using assms(6) ok(1) by (auto simp: no_earlier_def session_may_be_over_def y)
  have "session_may_be_over y s" using day by (auto simp: session_may_be_over_def)
  moreover have "in_window (si_working y) s = in_window (si_working x) s"
    by (simp add: in_window_def window_start_def window_end_def y(7))
  then have "on_calendar y s" using ok(2) day(1) by (auto simp: on_calendar_def y(6,7))
  moreover have "backed env y s" using ok(3) by (simp add: backed_def y(3,4))
  moreover have "si_session y = Some s" using y(2) assms(2) by simp
  ultimately show ?thesis unfolding gate_reports[OF y(1)] using explicit_ready[of y s env] by blast
qed

section \<open>The properties at work\<close>

definition hanoi :: gate_env where
  "hanoi = \<lparr>ge_text = sample_text_env, ge_zone = (\<lambda>_. 7 * 3600 * 10 ^ 6), ge_wall_zone = (\<lambda>_. 7 * 3600 * 10 ^ 6)\<rparr>"

definition snapshot_of :: "string \<Rightarrow> string \<Rightarrow> pyv" where
  "snapshot_of session time = VDict [(''resolved_completed_session'', VStr session), (''requested_at'', VStr time),
     (''exact_session_observed_count'', VInt 889), (''attempted_candidate_count'', VInt 1683)]"

definition sample_call :: "string \<Rightarrow> string option \<Rightarrow> pyv \<Rightarrow> pyv \<Rightarrow> gate_call" where
  "sample_call time session calendar evidence =
     \<lparr>gc_requested_at = Some (Written time), gc_now = None, gc_session = session, gc_timezone = operating_timezone,
      gc_floor = default_floor, gc_working = calendar, gc_exact = evidence, gc_fetcher = None, gc_probe = False, gc_historical = False\<rparr>"

definition wednesday :: gate_call where
  "wednesday = sample_call ''2026-08-26T20:00:00+07:00'' (Some ''2026-08-26'')
     (VDict [(''workingDates'', VList [VStr ''2026-08-26'', VStr ''2026-08-27''])])
     (snapshot_of ''2026-08-26'' ''2026-08-26T16:00:00+07:00'')"

definition saturday :: gate_call where
  "saturday = sample_call ''2026-08-29T20:00:00+07:00'' None
     (VDict [(''workingDates'', VList [VStr ''2026-08-28'', VStr ''2026-08-31''])])
     (snapshot_of ''2026-08-29'' ''2026-08-29T16:00:00+07:00'')"

definition holds_for :: "gate_call \<Rightarrow> (situation \<Rightarrow> bool) \<Rightarrow> bool" where
  "holds_for c p = (case situation_of hanoi (Written []) c of Inl e \<Rightarrow> False | Inr x \<Rightarrow> p x)"

lemma holds_forE:
  assumes "holds_for c p"
  obtains x where "situation_of hanoi (Written []) c = Inr x" "p x"
  using assms by (auto simp: holds_for_def split: sum.splits)

definition thursday_morning :: moment where
  "thursday_morning = Written ''2026-08-27T09:00:00+07:00''"

definition is_later :: "moment \<Rightarrow> situation \<Rightarrow> bool" where
  "is_later m x = (case parse_requested_at hanoi operating_timezone m of Inl e \<Rightarrow> False | Inr u \<Rightarrow> no_earlier (si_instant x) u)"

lemma wednesday_holds:
  "holds_for wednesday (\<lambda>x. si_session x = Some ''2026-08-26'' \<and> session_may_be_over x ''2026-08-26''
     \<and> on_calendar x ''2026-08-26'' \<and> backed hanoi x ''2026-08-26'' \<and> is_later thursday_morning x)"
  by code_simp

lemma saturday_holds:
  "holds_for saturday (\<lambda>x. si_session x = None \<and> wk_status (si_working x) = ''OBSERVED'' \<and> weekend ''2026-08-29''
     \<and> si_date x = ''2026-08-29'' \<and> si_pass x \<and> backed hanoi x ''2026-08-29'')"
  by code_simp

lemma wednesday_situation:
  obtains x where "situation_of hanoi (Written []) wednesday = Inr x" "si_session x = Some ''2026-08-26''"
    "session_may_be_over x ''2026-08-26''" "on_calendar x ''2026-08-26''" "backed hanoi x ''2026-08-26''" "is_later thursday_morning x"
  using wednesday_holds by (blast elim: holds_forE)

lemma saturday_situation:
  obtains x where "situation_of hanoi (Written []) saturday = Inr x" "si_session x = None"
    "wk_status (si_working x) = ''OBSERVED''" "weekend ''2026-08-29''" "si_date x = ''2026-08-29''" "si_pass x" "backed hanoi x ''2026-08-29''"
  using saturday_holds by (blast elim: holds_forE)

lemma wednesday_ready:
  "\<exists>r. evaluate_completed_market_session_gate hanoi (Written []) wednesday = Inr r
    \<and> reports r ''completion_gate_status'' Ready ''2026-08-26''"
  by (rule wednesday_situation) (use gate_reports explicit_ready in blast)

theorem ready_iff_backed_witness:
  "\<exists>r. evaluate_completed_market_session_gate hanoi (Written []) wednesday = Inr r
    \<and> reports r ''completion_gate_status'' Ready ''2026-08-26''"
  by (rule wednesday_situation) (use ready_iff_backed in blast)

theorem latest_ignores_calendar_witness:
  "weekend ''2026-08-29'' \<and> (\<exists>r. evaluate_completed_market_session_gate hanoi (Written []) saturday = Inr r
    \<and> reports r ''completion_gate_status'' Ready ''2026-08-29'')"
proof (rule saturday_situation)
  fix x
  assume x: "situation_of hanoi (Written []) saturday = Inr x" "si_session x = None"
    "wk_status (si_working x) = ''OBSERVED''" "weekend ''2026-08-29''" "si_date x = ''2026-08-29''" "si_pass x" "backed hanoi x ''2026-08-29''"
  have "''2026-08-29'' \<le> si_date x" unfolding x(5) by (rule order_refl)
  then show ?thesis using latest_ignores_calendar[OF x(1,2), of "''2026-08-29''"] x(3-7) by blast
qed

theorem ready_session_was_eligible_witness:
  "\<exists>a. evaluate_attempt_eligibility hanoi (Written []) wednesday = Inr a \<and> reports a ''attempt_gate_status'' AttemptEligible ''2026-08-26''"
proof (rule wednesday_situation)
  fix x
  assume x: "situation_of hanoi (Written []) wednesday = Inr x" "si_session x = Some ''2026-08-26''"
  from wednesday_ready obtain r where "evaluate_completed_market_session_gate hanoi (Written []) wednesday = Inr r"
    "oget r ''completion_gate_status'' = VStr (status_text Ready)" unfolding reports_def by blast
  from ready_session_was_eligible[OF x this] show ?thesis by blast
qed

theorem ready_is_stable_witness:
  "\<exists>r. evaluate_completed_market_session_gate hanoi (Written []) (wednesday\<lparr>gc_requested_at := Some thursday_morning\<rparr>) = Inr r
    \<and> reports r ''completion_gate_status'' Ready ''2026-08-26''"
proof (rule wednesday_situation)
  fix x
  assume x: "situation_of hanoi (Written []) wednesday = Inr x" "si_session x = Some ''2026-08-26''" "is_later thursday_morning x"
  from wednesday_ready obtain r where r: "evaluate_completed_market_session_gate hanoi (Written []) wednesday = Inr r"
    "reports r ''completion_gate_status'' Ready ''2026-08-26''" by blast
  from x(3) obtain u where "parse_requested_at hanoi operating_timezone thursday_morning = Inr u" "no_earlier (si_instant x) u"
    by (auto simp: is_later_def split: sum.splits)
  moreover have "gc_timezone wednesday = operating_timezone" by (simp add: wednesday_def sample_call_def)
  ultimately show ?thesis using ready_is_stable[OF x(1,2) r] by simp
qed

definition without_calendar :: gate_call where
  "without_calendar = wednesday\<lparr>gc_working := VNone\<rparr>"

theorem resume_mirrors_gates_witness:
  "(\<exists>s r. parse_session_date ''2026-08-26'' = Inr s
      \<and> evaluate_completed_market_session_gate hanoi (Written []) without_calendar = Inr r
      \<and> reports r ''completion_gate_status'' Ready s)
   \<and> (\<exists>s a. parse_session_date ''2026-08-26'' = Inr s
      \<and> evaluate_attempt_eligibility hanoi (Written []) without_calendar = Inr a \<and> reports a ''attempt_gate_status'' AttemptEligible s)"
proof -
  have "retained_exact_session_resume_eligible hanoi (Written ''2026-08-26T20:00:00+07:00'') ''2026-08-26'' operating_timezone default_floor
      (snapshot_of ''2026-08-26'' ''2026-08-26T16:00:00+07:00'') = Inr (True, [resume_reason])"
    by code_simp
  from resume_mirrors_gates[OF this, of without_calendar "Written []"] show ?thesis
    by (auto simp: without_calendar_def wednesday_def sample_call_def)
qed

end
