(* ===== verification/TapePagination.thy ===== *)
theory TapePagination
  imports CanonicalJson PyFloat
begin

text \<open>
  Backward pagination over the tape of matched trades, \<open>stocklookup_core/evidence/vci_intraday_pagination.py\<close>
  with the scan \<open>paginate\<close> and the offline replay of \<open>tools/run_vci_intraday_pagination.py\<close>, and the parser of
  a page, \<open>parse_intraday_payload\<close> of \<open>vci_direct_basis_pilot.py\<close>.

  A parsed row is a record; a field that the parser leaves out is \<^term>\<open>None\<close>.  The provider is the function
  \<open>tp_request\<close> from the number of the request and its cursor to the body of the response or an exception,
  \<open>json.loads\<close> is \<open>tp_decode\<close>, and \<open>tp_number\<close> is the double a text denotes.
\<close>

record tape_env =
  tp_text :: text_env
  tp_number :: "string \<Rightarrow> rat option"
  tp_decode :: "string \<Rightarrow> pyv res"
  tp_request :: "nat \<Rightarrow> int \<Rightarrow> string res"

section \<open>Pages\<close>

record trade =
  tr_id :: string
  tr_time :: int
  tr_price :: rat
  tr_quantity :: int
  tr_type :: pyv
  tr_volume :: "rat option" \<comment> \<open>\<open>vci.raw_accumulated_volume\<close>\<close>
  tr_value :: "rat option" \<comment> \<open>\<open>vci.raw_accumulated_value\<close>\<close>

definition allowed_tickers :: "string list" where
  "allowed_tickers = [''HPG'', ''VNM'', ''VCB'']"

definition assert_ticker_in_scope :: "string \<Rightarrow> string res" where
  "assert_ticker_in_scope symbol =
     (let upper = str_upper (str_strip symbol) in
      if upper \<notin> set allowed_tickers then raise VCIPilotError (''ticker_out_of_pilot_scope:'' @ upper) else Inr upper)"

definition to_int :: "rat \<Rightarrow> int" where
  "to_int r = (if 0 \<le> r then \<lfloor>r\<rfloor> else \<lceil>r\<rceil>)"

definition number_or :: "tape_env \<Rightarrow> string \<Rightarrow> pyv \<Rightarrow> rat res" where
  \<comment> \<open>\<open>float(v)\<close>, a \<open>TypeError\<close> or \<open>ValueError\<close> turned into a rejection\<close>
  "number_or env message v =
     (case py_float (tp_number env) v of
        Inr r \<Rightarrow> Inr r
      | Inl e \<Rightarrow> if exc_class e = TypeError \<or> exc_class e = ValueError then raise VCIPilotError message else Inl e)"

definition optional_number :: "tape_env \<Rightarrow> string \<Rightarrow> obj \<Rightarrow> string \<Rightarrow> rat option res" where
  "optional_number env at_index d field =
     (if oget d field = VNone then Inr None
      else bindE (number_or env (''intraday_row_unparseable:'' @ field @ ''@'' @ at_index) (oget d field)) (\<lambda>r. Inr (Some r)))"

definition parse_trade :: "tape_env \<Rightarrow> string \<Rightarrow> nat \<Rightarrow> string list \<Rightarrow> pyv \<Rightarrow> trade res" where
  \<comment> \<open>the body of the loop, \<open>seen\<close> the identities of the rows before\<close>
  "parse_trade env symbol i seen item =
     (let at_index = ''index='' @ digits_of_nat i in
      case item of
        VDict d \<Rightarrow>
          if ohas d ''symbol'' \<and> str_upper (str_strip (to_text (tp_text env) (oget d ''symbol''))) \<noteq> symbol
          then raise VCIPilotError (''intraday_row_symbol_mismatch:'' @ at_index)
          else (case find (\<lambda>f. oget d f = VNone) [''truncTime'', ''matchPrice'', ''matchVol''] of
            Some f \<Rightarrow> raise VCIPilotError (''intraday_row_missing_field:'' @ f @ ''@'' @ at_index)
          | None \<Rightarrow>
            let identity = to_text (tp_text env) (oget_default d ''id'' (VStr (''__index_'' @ digits_of_nat i)));
                unparseable = ''intraday_row_unparseable:'' @ at_index in
            if identity \<in> set seen then raise VCIPilotError (''intraday_duplicate_trade_id:'' @ identity)
            else bindE (number_or env unparseable (oget d ''matchVol'')) (\<lambda>quantity.
              bindE (number_or env unparseable (oget d ''matchPrice'')) (\<lambda>price.
              bindE (number_or env unparseable (oget d ''truncTime'')) (\<lambda>time.
              if quantity \<noteq> of_int (to_int quantity) then raise VCIPilotError (''intraday_trade_quantity_not_integral:'' @ at_index)
              else if to_int quantity < 0 then raise VCIPilotError (''intraday_trade_quantity_negative:'' @ at_index)
              else bindE (optional_number env at_index d ''accumulatedVolume'') (\<lambda>volume.
                bindE (optional_number env at_index d ''accumulatedValue'') (\<lambda>value.
                Inr \<lparr>tr_id = identity, tr_time = to_int time, tr_price = price, tr_quantity = to_int quantity,
                     tr_type = oget d ''matchType'', tr_volume = volume, tr_value = value\<rparr>))))))
      | _ \<Rightarrow> raise VCIPilotError (''intraday_row_not_an_object:'' @ at_index))"

fun parse_trades :: "tape_env \<Rightarrow> string \<Rightarrow> nat \<Rightarrow> string list \<Rightarrow> pyv list \<Rightarrow> trade list res" where
  "parse_trades env symbol i seen [] = Inr []"
| "parse_trades env symbol i seen (item # items) =
     bindE (parse_trade env symbol i seen item) (\<lambda>t.
     bindE (parse_trades env symbol (i + 1) (tr_id t # seen) items) (\<lambda>ts. Inr (t # ts)))"

definition parse_intraday_payload :: "tape_env \<Rightarrow> string \<Rightarrow> pyv \<Rightarrow> trade list res" where
  "parse_intraday_payload env ticker payload =
     bindE (assert_ticker_in_scope ticker) (\<lambda>symbol.
       case (case payload of VDict d \<Rightarrow> oget d ''data'' | v \<Rightarrow> v) of
         VList items \<Rightarrow> if items = [] then raise VCIPilotError ''intraday_payload_empty_or_not_a_list''
                         else parse_trades env symbol 0 [] items
       | _ \<Rightarrow> raise VCIPilotError ''intraday_payload_empty_or_not_a_list'')"

section \<open>The budget\<close>

record request_budget =
  rb_cap :: int
  rb_basis :: string
  rb_row_cap :: int
  rb_estimate :: "(int \<times> rat \<times> int \<times> int \<times> rat) option"
    \<comment> \<open>expected quantity, mean quantity, estimated trades and pages, multiplier\<close>

definition finite_float :: "rat \<Rightarrow> rat res" where
  \<comment> \<open>a result that is made an \<open>int\<close> later\<close>
  "finite_float r = (if fits_double r then Inr (to_double r) else raise OverflowError ''cannot convert float infinity to integer'')"

definition as_float :: "int \<Rightarrow> rat res" where
  "as_float i = (if fits_double (of_int i) then Inr (to_double (of_int i)) else raise OverflowError ''int too large to convert to float'')"

definition compute_request_cap :: "int option \<Rightarrow> rat option \<Rightarrow> int \<Rightarrow> rat \<Rightarrow> int \<Rightarrow> request_budget res" where
  "compute_request_cap expected mean row_cap multiplier fixed_cap =
     (if row_cap < 1 then raise PaginationError ''row_cap_invalid''
      else case (expected, mean) of
        (Some quantity, Some m) \<Rightarrow>
          if quantity = 0 \<or> m \<le> 0
          then Inr \<lparr>rb_cap = fixed_cap, rb_basis = ''fixed_safety_cap_no_supportable_estimate'', rb_row_cap = row_cap, rb_estimate = None\<rparr>
          else bindE (as_float quantity) (\<lambda>q. bindE (as_float row_cap) (\<lambda>n.
            bindE (finite_float (q / m)) (\<lambda>trades. bindE (finite_float (trades / n)) (\<lambda>pages.
            bindE (finite_float (pages * multiplier)) (\<lambda>bound.
            Inr \<lparr>rb_cap = to_int bound + 20, rb_basis = ''estimated_from_session_quantity_and_observed_mean_trade_size'',
                 rb_row_cap = row_cap, rb_estimate = Some (quantity, py_round 3 m, to_int trades, to_int pages, multiplier)\<rparr>)))))
      | _ \<Rightarrow> Inr \<lparr>rb_cap = fixed_cap, rb_basis = ''fixed_safety_cap_no_supportable_estimate'', rb_row_cap = row_cap, rb_estimate = None\<rparr>)"

definition server_row_cap :: nat where "server_row_cap = 100"

section \<open>Cursors\<close>

definition oldest_trunc_time :: "trade list \<Rightarrow> int res" where
  "oldest_trunc_time rows =
     (if rows = [] then raise PaginationError ''page_cursor_of_empty_page'' else Inr (Min (set (map tr_time rows))))"

definition next_cursor :: "trade list \<Rightarrow> int res" where
  "next_cursor rows = bindE (oldest_trunc_time rows) (\<lambda>t. Inr (t + 1))"

definition assert_cursor_advances :: "int option \<Rightarrow> int \<Rightarrow> int list \<Rightarrow> unit res" where
  "assert_cursor_advances previous candidate seen =
     (case previous of
        Some p \<Rightarrow> if p \<le> candidate
          then raise PaginationError (''cursor_did_not_advance:'' @ str_of_int p @ ''->'' @ str_of_int candidate)
          else if candidate \<in> set seen then raise PaginationError (''cursor_repeated:'' @ str_of_int candidate) else Inr ()
      | None \<Rightarrow> if candidate \<in> set seen then raise PaginationError (''cursor_repeated:'' @ str_of_int candidate) else Inr ())"

definition dense_second_escape :: "trade list \<Rightarrow> int res" where
  "dense_second_escape rows = oldest_trunc_time rows"

definition page_is_single_second :: "trade list \<Rightarrow> bool" where
  "page_is_single_second rows \<longleftrightarrow> length (remdups (map tr_time rows)) = 1"

definition session_start_reached :: "trade list \<Rightarrow> bool" where
  "session_start_reached rows \<longleftrightarrow>
     list_ex (\<lambda>t. case tr_volume t of None \<Rightarrow> False
       | Some v \<Rightarrow> \<bar>to_double (v - to_double (of_int (tr_quantity t)))\<bar> < 1 / 2) rows"

section \<open>What the scan missed\<close>

record gap =
  gp_after :: string
  gp_before :: string
  gp_span :: "int \<times> int"
  gp_missing :: int

definition volume_of :: "trade \<Rightarrow> rat" where
  "volume_of t = the (tr_volume t)"

definition missing_between :: "trade \<Rightarrow> trade \<Rightarrow> rat" where
  "missing_between p c = to_double (to_double (volume_of c - volume_of p) - to_double (of_int (tr_quantity c)))"

fun gaps_along :: "trade list \<Rightarrow> gap list" where
  "gaps_along (p # c # rest) =
     (if missing_between p c > 1 / 2
      then [\<lparr>gp_after = tr_id p, gp_before = tr_id c, gp_span = (tr_time p, tr_time c), gp_missing = round_half_even (missing_between p c)\<rparr>]
      else []) @ gaps_along (c # rest)"
| "gaps_along _ = []"

definition by_volume :: "trade list \<Rightarrow> trade list" where
  "by_volume rows = sort_key (\<lambda>t. (volume_of t, tr_time t)) (filter (\<lambda>t. tr_volume t \<noteq> None) rows)"

definition enumeration_gaps :: "trade list \<Rightarrow> gap list" where
  \<comment> \<open>\<open>gap_count\<close> and \<open>unenumerated_quantity_total\<close> are its length and sum\<close>
  "enumeration_gaps rows = gaps_along (by_volume rows)"

definition unenumerated_total :: "gap list \<Rightarrow> int" where
  "unenumerated_total gaps = sum_list (map gp_missing gaps)"

section \<open>Duplicates\<close>

definition dedup_key :: "trade \<Rightarrow> string res" where
  "dedup_key t =
     (if str_strip (tr_id t) = [] \<or> starts_with (tr_id t) ''__index_''
      then raise PaginationError ''dedup_requires_a_provider_trade_id'' else Inr (tr_id t))"

definition same_row :: "trade \<Rightarrow> trade \<Rightarrow> bool" where
  "same_row a b \<longleftrightarrow> tr_id a = tr_id b \<and> tr_time a = tr_time b \<and> tr_price a = tr_price b \<and> tr_quantity a = tr_quantity b
     \<and> py_eq (tr_type a) (tr_type b) \<and> tr_volume a = tr_volume b \<and> tr_value a = tr_value b"

record deduped =
  dd_rows :: "trade list"
  dd_raw :: nat
  dd_duplicates :: nat
  dd_conflicting :: nat

definition dedupe_row :: "trade \<Rightarrow> deduped \<Rightarrow> deduped res" where
  "dedupe_row t d =
     bindE (dedup_key t) (\<lambda>key.
       case find (\<lambda>u. tr_id u = key) (dd_rows d) of
         Some u \<Rightarrow> Inr (d\<lparr>dd_duplicates := dd_duplicates d + 1, dd_conflicting := dd_conflicting d + (if same_row u t then 0 else 1)\<rparr>)
       | None \<Rightarrow> Inr (d\<lparr>dd_rows := dd_rows d @ [t]\<rparr>))"

definition dedupe :: "trade list \<Rightarrow> deduped res" where
  "dedupe rows = foldE dedupe_row rows \<lparr>dd_rows = [], dd_raw = length rows, dd_duplicates = 0, dd_conflicting = 0\<rparr>"

section \<open>Reconciliation\<close>

definition stop_reasons :: "string list" where
  "stop_reasons = [''session_start_boundary_reached'', ''empty_page'', ''cursor_did_not_advance'', ''cursor_repeated'', ''request_cap_reached'']"

record closure =
  cl_enumerated :: int
  cl_unenumerated :: int
  cl_total :: int
  cl_daily :: int
  cl_residual :: int
  cl_closes :: bool

record measures =
  ms_earliest :: int
  ms_latest :: int
  ms_quantity_sum :: int
  ms_final_volume :: "rat option"
  ms_max_volume :: "rat option"
  ms_monotonic :: bool
  ms_sum_minus_final :: "int option"
  ms_daily_minus_sum :: "int option"
  ms_values_checked :: nat
  ms_values_matching :: nat
  ms_values_skipped :: nat
  ms_gaps :: "gap list" \<comment> \<open>of which the result lists the first 50\<close>
  ms_enumerated_plus_unenumerated :: int
  ms_fully_enumerated :: bool
  ms_closure :: "closure option"

record reconciliation =
  rc_verdict :: string
  rc_reason :: "string option"
  rc_scale :: "int option"
  rc_full_day :: bool
  rc_measures :: "measures option" \<comment> \<open>\<^term>\<open>None\<close> if there are no rows\<close>

fun adjacent :: "('a \<Rightarrow> 'a \<Rightarrow> bool) \<Rightarrow> 'a list \<Rightarrow> bool" where
  \<comment> \<open>\<open>all(p(x, y) for x, y in zip(xs, xs[1:]))\<close>\<close>
  "adjacent p (x # y # zs) \<longleftrightarrow> p x y \<and> adjacent p (y # zs)"
| "adjacent p _ \<longleftrightarrow> True"

definition value_matches :: "int \<Rightarrow> trade \<Rightarrow> trade \<Rightarrow> bool" where
  "value_matches scale p c \<longleftrightarrow>
     (let delta = to_double (the (tr_value c) - the (tr_value p));
          turnover = to_double (to_double (of_int (tr_quantity c)) * tr_price c) in
      \<bar>to_double (to_double (delta * to_double (of_int scale)) - turnover)\<bar> \<le> max 1 (to_double (turnover * to_double (1 / 10 ^ 6))))"

definition value_pairs :: "trade list \<Rightarrow> (trade \<times> trade) list" where
  "value_pairs ordered = (let rows = filter (\<lambda>t. tr_value t \<noteq> None) ordered in zip rows (drop 1 rows))"

definition at_gap :: "gap list \<Rightarrow> trade \<times> trade \<Rightarrow> bool" where
  "at_gap gaps pc \<longleftrightarrow> (tr_id (fst pc), tr_id (snd pc)) \<in> (\<lambda>g. (gp_after g, gp_before g)) ` set gaps"

definition in_time_order :: "trade list \<Rightarrow> trade list" where
  "in_time_order rows = sort_key (\<lambda>t. (tr_time t, tr_id t)) rows"

definition measure_session :: "trade list \<Rightarrow> int option \<Rightarrow> int \<Rightarrow> measures" where
  \<comment> \<open>the figures of \<open>reconcile_session\<close> for rows that are not empty\<close>
  "measure_session rows daily scale =
     (let ordered = in_time_order rows;
          quantity_sum = sum_list (map tr_quantity ordered);
          gaps = enumeration_gaps ordered;
          volumes = map volume_of (filter (\<lambda>t. tr_volume t \<noteq> None) ordered);
          final = (if volumes = [] then None else Some (last volumes));
          checked = filter (\<lambda>pc. \<not> at_gap gaps pc) (value_pairs ordered);
          total = quantity_sum + unenumerated_total gaps in
      \<lparr>ms_earliest = tr_time (hd ordered), ms_latest = tr_time (last ordered), ms_quantity_sum = quantity_sum,
       ms_final_volume = final, ms_max_volume = (if volumes = [] then None else Some (Max (set volumes))),
       ms_monotonic = adjacent (\<le>) volumes,
       ms_sum_minus_final = map_option (\<lambda>v. quantity_sum - to_int v) final,
       ms_daily_minus_sum = map_option (\<lambda>d. d - quantity_sum) daily,
       ms_values_checked = length checked, ms_values_matching = length (filter (\<lambda>(p, c). value_matches scale p c) checked),
       ms_values_skipped = length (filter (at_gap gaps) (value_pairs ordered)),
       ms_gaps = gaps, ms_enumerated_plus_unenumerated = total, ms_fully_enumerated = (gaps = []),
       ms_closure = map_option (\<lambda>d. \<lparr>cl_enumerated = quantity_sum, cl_unenumerated = unenumerated_total gaps, cl_total = total,
                                     cl_daily = d, cl_residual = total - d, cl_closes = (total = d)\<rparr>) daily\<rparr>)"

definition verdict_of :: "string \<Rightarrow> bool \<Rightarrow> int option \<Rightarrow> measures \<Rightarrow> string \<times> string option \<times> int option" where
  \<comment> \<open>the verdict with its reason and the implied scale\<close>
  "verdict_of stop confirmed daily m =
     (if stop = ''request_cap_reached'' then (''incomplete_request_cap'', None, None)
      else if stop = ''cursor_did_not_advance'' \<or> stop = ''cursor_repeated'' then (''incomplete_cursor_failure'', None, None)
      else if \<not> confirmed then (''incomplete_session_boundary_unknown'', None, None)
      else case daily of
        None \<Rightarrow> (''incomplete_session_boundary_unknown'', Some ''no_daily_volume_to_reconcile_against'', None)
      | Some d \<Rightarrow>
        if ms_gaps m \<noteq> [] then (''incomplete_cursor_failure'', Some ''dense_seconds_exceed_the_one_second_cursor_resolution'', None)
        else if ms_quantity_sum m = d then (''complete_exact_match'', None, None)
        else if ms_quantity_sum m \<noteq> 0 \<and> d mod ms_quantity_sum m = 0
        then (''complete_unit_scaled_match'', None, Some (d div ms_quantity_sum m))
        else (''complete_divergence'', None, None))"

definition reconcile_session :: "trade list \<Rightarrow> int option \<Rightarrow> string \<Rightarrow> bool \<Rightarrow> bool \<Rightarrow> int \<Rightarrow> reconciliation res" where
  "reconcile_session rows daily stop confirmed full_day scale =
     (if stop \<notin> set stop_reasons then raise PaginationError (''stop_reason_unknown:'' @ stop)
      else if rows = []
      then Inr \<lparr>rc_verdict = ''incomplete_session_boundary_unknown'', rc_reason = Some ''no_rows_retained'', rc_scale = None,
                rc_full_day = False, rc_measures = None\<rparr>
      else let m = measure_session rows daily scale in
        (case verdict_of stop confirmed daily m of (verdict, reason, implied) \<Rightarrow>
           Inr \<lparr>rc_verdict = verdict, rc_reason = reason, rc_scale = implied, rc_full_day = full_day, rc_measures = Some m\<rparr>))"

definition reconciliation_verdicts :: "string list" where
  "reconciliation_verdicts = [''complete_exact_match'', ''complete_unit_scaled_match'', ''complete_divergence'', ''incomplete_request_cap'',
     ''incomplete_cursor_failure'', ''incomplete_session_boundary_unknown'']"

definition composition_dimensions :: "string list" where
  "composition_dimensions = [''matched_trade_inclusion'', ''negotiated_trade_inclusion'', ''auction_inclusion'', ''odd_lot_inclusion'', ''market_scope'']"

definition volume_contract :: "reconciliation \<Rightarrow> bool \<Rightarrow> bool \<Rightarrow> obj res" where
  "volume_contract rc unit_qualified identity_qualified =
     (let verdict = rc_verdict rc; complete = starts_with verdict ''complete_'' in
      if verdict \<notin> set reconciliation_verdicts then raise PaginationError (''reconciliation_verdict_invalid:'' @ verdict)
      else Inr
        ([(''volume_field_identity'', VStr (if identity_qualified then ''qualified'' else ''unknown'')),
          (''volume_unit'', VStr (if unit_qualified then ''shares'' else ''unknown'')),
          (''endpoint_session_completeness'', VStr (if complete \<and> rc_full_day rc then ''complete'' else ''incomplete'')),
          (''endpoint_segment_completeness'', VStr (if complete then ''complete'' else ''incomplete'')),
          (''daily_to_intraday_reconciliation'', VStr
            (if verdict = ''complete_exact_match'' then ''exact'' else if verdict = ''complete_unit_scaled_match'' then ''scaled''
             else if verdict = ''complete_divergence'' then ''divergent'' else ''unknown'')),
          (''corporate_action_adjustment'', VStr ''unknown''), (''liquidity_actionable'', VBool False)]
         @ map (\<lambda>d. (d, VStr ''unknown'')) composition_dimensions
         @ [(''market_scope_upgrade_requires'', VList
             [VStr ''direct_field_semantics_naming_the_included_trade_types'', VStr ''first_party_source_definition'',
              VStr ''a_separately_identified_endpoint_with_a_demonstrable_relationship''])]))"

definition assert_market_scope_not_upgraded :: "obj \<Rightarrow> obj res" where
  "assert_market_scope_not_upgraded contract =
     (case find (\<lambda>d. oget contract d \<noteq> VStr ''unknown'') composition_dimensions of
        Some d \<Rightarrow> raise PaginationError (''market_composition_dimension_must_stay_unknown:'' @ d)
      | None \<Rightarrow> if v_true (oget contract ''liquidity_actionable'') then raise PaginationError ''liquidity_actionable_must_stay_false''
                else Inr contract)"

section \<open>The scan\<close>

definition ict :: "int \<Rightarrow> string res" where
  \<comment> \<open>the wall-clock text at UTC+7 of seconds since 1970\<close>
  "ict epoch =
     (let t = 719163 * day_us + epoch * 10 ^ 6 in
      if \<not> in_datetime_range t then raise ValueError ''year is out of range''
      else bindE (shift_instant (\<lambda>_. 7 * 3600 * 10 ^ 6) t) (\<lambda>w.
        let sec = nat (w mod day_us) div 10 ^ 6 in
        Inr (date_isoformat (wall_date w) @ '' '' @ digits2 (sec div 3600) @ '':'' @ digits2 (sec div 60 mod 60) @ '':'' @ digits2 (sec mod 60))))"

record page_detail =
  pd_cursor_ict :: string
  pd_newest :: int
  pd_oldest :: int
  pd_oldest_ict :: string
  pd_next :: int

record transition =
  tn_page :: nat
  tn_cursor :: int
  tn_rows :: nat
  tn_sha :: string
  tn_detail :: "page_detail option" \<comment> \<open>\<^term>\<open>None\<close> for the empty page\<close>
  tn_escape :: "int option"
  tn_failure :: "string option"

record dense_second =
  ds_page :: nat
  ds_second :: int
  ds_ict :: string
  ds_rows :: nat

record scan =
  sc_cursor :: int
  sc_previous :: "int option"
  sc_seen :: "int list"
  sc_transitions :: "transition list"
  sc_dense :: "dense_second list"
  sc_rows :: "trade list"
  sc_made :: nat
  sc_files :: "(string \<times> string) list" \<comment> \<open>the page artifacts by name\<close>

record pilot_run = \<comment> \<open>the constants of the runner\<close>
  pr_ticker :: string
  pr_expected :: int
  pr_mean :: rat
  pr_start :: int

definition vcb_run :: pilot_run where
  "vcb_run = \<lparr>pr_ticker = ''VCB'', pr_expected = 1877000, pr_mean = 359, pr_start = 1785817800\<rparr>"

definition hpg_run :: pilot_run where
  "hpg_run = \<lparr>pr_ticker = ''HPG'', pr_expected = 11145500, pr_mean = 1469, pr_start = 1785817800\<rparr>"

definition pad4 :: "nat \<Rightarrow> string" where
  \<comment> \<open>\<open>f"{n:04d}"\<close>\<close>
  "pad4 n = (let s = digits_of_nat n in replicate (4 - length s) (CHR ''0'') @ s)"

definition page_prefix :: "nat \<Rightarrow> string" where
  "page_prefix n = ''page_'' @ pad4 n @ ''_''"

definition page_name :: "nat \<Rightarrow> int \<Rightarrow> string \<Rightarrow> string" where
  "page_name n cursor digest = page_prefix n @ str_of_int cursor @ ''_'' @ take 16 digest @ ''.raw.json''"

definition page_hash :: "tape_env \<Rightarrow> string \<Rightarrow> string" where
  "page_hash env body = te_sha (tp_text env) body"

definition intraday_payload :: "string \<Rightarrow> int \<Rightarrow> string res" where
  "intraday_payload symbol limit =
     bindE (assert_ticker_in_scope symbol) (\<lambda>s.
       if limit < 1 \<or> 30000 < limit then raise VCIPilotError ''intraday_limit_out_of_bounds'' else Inr s)"

definition fetch_page :: "tape_env \<Rightarrow> pilot_run \<Rightarrow> scan \<Rightarrow> (string \<times> scan) res" where
  \<comment> \<open>one request; its body is kept before anything is read from it\<close>
  "fetch_page env run s =
     bindE (intraday_payload (pr_ticker run) (int server_row_cap)) (\<lambda>_.
     bindE (tp_request env (sc_made s + 1) (sc_cursor s)) (\<lambda>body.
       Inr (body, s\<lparr>sc_made := sc_made s + 1,
                    sc_files := aset (sc_files s) (page_name (sc_made s + 1) (sc_cursor s) (page_hash env body)) body\<rparr>)))"

definition add_transition :: "transition \<Rightarrow> scan \<Rightarrow> scan" where
  "add_transition t s = s\<lparr>sc_transitions := sc_transitions s @ [t]\<rparr>"

definition move_to :: "int \<Rightarrow> scan \<Rightarrow> scan" where
  "move_to c s = s\<lparr>sc_seen := sc_seen s @ [c], sc_previous := Some c, sc_cursor := c\<rparr>"

definition step_past :: "transition \<Rightarrow> trade list \<Rightarrow> string \<Rightarrow> scan \<Rightarrow> (scan \<times> string option) res" where
  \<comment> \<open>the handler of a page within one second\<close>
  "step_past t rows failure s =
     bindE (dense_second_escape rows) (\<lambda>escape. bindE (ict escape) (\<lambda>when.
       let s' = s\<lparr>sc_dense := sc_dense s @ [\<lparr>ds_page = sc_made s, ds_second = escape, ds_ict = when, ds_rows = length rows\<rparr>]\<rparr>;
           t' = t\<lparr>tn_escape := Some escape\<rparr> in
       if escape \<in> set (sc_seen s) \<or> (case sc_previous s of None \<Rightarrow> False | Some p \<Rightarrow> p \<le> escape)
       then Inr (add_transition (t'\<lparr>tn_failure := Some failure\<rparr>) s', Some ''cursor_repeated'')
       else Inr (move_to escape (add_transition t' s'), None)))"

definition advance :: "transition \<Rightarrow> trade list \<Rightarrow> int \<Rightarrow> scan \<Rightarrow> (scan \<times> string option) res" where
  \<comment> \<open>what follows a page without the start of the session\<close>
  "advance t rows candidate s =
     (case assert_cursor_advances (sc_previous s) candidate (sc_seen s) of
        Inr _ \<Rightarrow> bindE (if sc_made s mod 10 = 0 then ict candidate else Inr []) (\<lambda>_. Inr (move_to candidate (add_transition t s), None))
      | Inl e \<Rightarrow>
          if exc_class e \<noteq> PaginationError then Inl e
          else if page_is_single_second rows \<and> str_contains ''did_not_advance'' (exc_message e)
          then step_past t rows (exc_message e) s
          else Inr (add_transition (t\<lparr>tn_failure := Some (exc_message e)\<rparr>) s,
                    Some (if str_contains ''repeated'' (exc_message e) then ''cursor_repeated'' else ''cursor_did_not_advance'')))"

definition transition_of :: "tape_env \<Rightarrow> string \<Rightarrow> int \<Rightarrow> trade list \<Rightarrow> scan \<Rightarrow> transition res" where
  \<comment> \<open>the record of a page with rows; \<open>sc_made\<close> already counts its request\<close>
  "transition_of env body cursor rows s =
     bindE (oldest_trunc_time rows) (\<lambda>oldest. bindE (next_cursor rows) (\<lambda>candidate.
     bindE (ict cursor) (\<lambda>cursor_ict. bindE (ict oldest) (\<lambda>oldest_ict.
       Inr \<lparr>tn_page = sc_made s, tn_cursor = cursor, tn_rows = length rows, tn_sha = page_hash env body,
            tn_detail = Some \<lparr>pd_cursor_ict = cursor_ict, pd_newest = Max (set (map tr_time rows)), pd_oldest = oldest,
                              pd_oldest_ict = oldest_ict, pd_next = candidate\<rparr>,
            tn_escape = None, tn_failure = None\<rparr>))))"

definition scan_step :: "tape_env \<Rightarrow> pilot_run \<Rightarrow> scan \<Rightarrow> (scan \<times> string option) res" where
  \<comment> \<open>the body of the loop, with the reason if it stops there\<close>
  "scan_step env run s =
     bindE (fetch_page env run s) (\<lambda>(body, s1).
     bindE (tp_decode env body) (\<lambda>parsed.
     if \<not> v_true parsed
     then Inr (add_transition \<lparr>tn_page = sc_made s1, tn_cursor = sc_cursor s, tn_rows = 0, tn_sha = page_hash env body,
                 tn_detail = None, tn_escape = None, tn_failure = None\<rparr> s1, Some ''empty_page'')
     else bindE (parse_intraday_payload env (pr_ticker run) parsed) (\<lambda>rows.
       let s2 = s1\<lparr>sc_rows := sc_rows s1 @ rows\<rparr> in
       bindE (transition_of env body (sc_cursor s) rows s2) (\<lambda>t.
       if session_start_reached rows then Inr (add_transition t s2, Some ''session_start_boundary_reached'')
       else bindE (next_cursor rows) (\<lambda>candidate. advance t rows candidate s2)))))"

fun scan_loop :: "tape_env \<Rightarrow> pilot_run \<Rightarrow> nat \<Rightarrow> scan \<Rightarrow> (scan \<times> string) res" where
  \<comment> \<open>the requests left bound the loop\<close>
  "scan_loop env run 0 s = Inr (s, ''request_cap_reached'')"
| "scan_loop env run (Suc left) s =
     bindE (scan_step env run s) (\<lambda>(s', stop). case stop of Some reason \<Rightarrow> Inr (s', reason) | None \<Rightarrow> scan_loop env run left s')"

definition first_scan :: "pilot_run \<Rightarrow> (string \<times> string) list \<Rightarrow> scan" where
  "first_scan run files = \<lparr>sc_cursor = pr_start run, sc_previous = None, sc_seen = [], sc_transitions = [], sc_dense = [],
     sc_rows = [], sc_made = 0, sc_files = files\<rparr>"

record pagination_run =
  pn_budget :: request_budget
  pn_stop :: string
  pn_confirmed :: bool
  pn_scan :: scan \<comment> \<open>requests made, dense seconds, transitions, rows, files\<close>

definition run_budget :: "pilot_run \<Rightarrow> request_budget res" where
  "run_budget run = compute_request_cap (Some (pr_expected run)) (Some (pr_mean run)) (int server_row_cap) (3 / 2) 60"

definition paginate :: "tape_env \<Rightarrow> pilot_run \<Rightarrow> (string \<times> string) list \<Rightarrow> pagination_run res" where
  "paginate env run files =
     bindE (run_budget run) (\<lambda>budget.
     if rb_estimate budget = None then raise KeyError ''estimated_pages''
     else bindE (scan_loop env run (nat (rb_cap budget)) (first_scan run files)) (\<lambda>(s, stop).
       Inr \<lparr>pn_budget = budget, pn_stop = stop, pn_confirmed = (stop = ''session_start_boundary_reached''), pn_scan = s\<rparr>))"

section \<open>Offline replay and analysis\<close>

definition ends_with :: "string \<Rightarrow> string \<Rightarrow> bool" where
  "ends_with s e \<longleftrightarrow> starts_with (rev s) (rev e)"

definition page_artifacts :: "(string \<times> string) list \<Rightarrow> nat \<Rightarrow> string list" where
  \<comment> \<open>\<open>sorted(PAGES_DIR.glob(...))\<close>\<close>
  "page_artifacts files page =
     sorted_set (filter (\<lambda>name. starts_with name (page_prefix page) \<and> ends_with (drop (length (page_prefix page)) name) ''.raw.json'')
       (map fst files))"

definition replay_page :: "tape_env \<Rightarrow> pilot_run \<Rightarrow> (string \<times> string) list \<Rightarrow> transition \<Rightarrow> trade list res" where
  "replay_page env run files t =
     (case page_artifacts files (tn_page t) of
        [] \<Rightarrow> raise PaginationError (''page_artifact_missing:'' @ digits_of_nat (tn_page t))
      | name # _ \<Rightarrow>
          let body = the (map_of files name) in
          if page_hash env body \<noteq> tn_sha t then raise PaginationError (''page_artifact_hash_drift:'' @ digits_of_nat (tn_page t))
          else bindE (tp_decode env body) (\<lambda>parsed.
            if v_true parsed then parse_intraday_payload env (pr_ticker run) parsed else Inr []))"

definition load_pages_offline :: "tape_env \<Rightarrow> pilot_run \<Rightarrow> (string \<times> string) list \<Rightarrow> transition list \<Rightarrow> trade list res" where
  \<comment> \<open>the rows; the other fields of the run are those of its manifest\<close>
  "load_pages_offline env run files transitions =
     bindE (mapE (replay_page env run files) transitions) (\<lambda>pages. Inr (concat pages))"

record analysis =
  an_deduped :: deduped
  an_reconciliation :: reconciliation
  an_contract :: obj

definition values_qualify_unit :: "reconciliation \<Rightarrow> bool" where
  "values_qualify_unit rc =
     (case rc_measures rc of None \<Rightarrow> False | Some m \<Rightarrow> 0 < ms_values_checked m \<and> ms_values_matching m = ms_values_checked m)"

definition analyse :: "trade list \<Rightarrow> string \<Rightarrow> bool \<Rightarrow> int option \<Rightarrow> analysis res" where
  \<comment> \<open>of the rows, the reason to stop, whether the start was confirmed, and the daily volume\<close>
  "analyse rows stop confirmed daily =
     bindE (dedupe rows) (\<lambda>d.
     bindE (reconcile_session (dd_rows d) daily stop confirmed False (10 ^ 6)) (\<lambda>rc.
     bindE (bindE (volume_contract rc (values_qualify_unit rc) True) assert_market_scope_not_upgraded) (\<lambda>contract.
       Inr \<lparr>an_deduped = d, an_reconciliation = rc, an_contract = contract\<rparr>)))"

section \<open>A provider that serves a tape\<close>

definition page_of :: "tape_env \<Rightarrow> pilot_run \<Rightarrow> string \<Rightarrow> trade list res" where
  \<comment> \<open>the rows a body holds\<close>
  "page_of env run body =
     bindE (tp_decode env body) (\<lambda>parsed. if v_true parsed then parse_intraday_payload env (pr_ticker run) parsed else Inr [])"

definition older :: "int \<Rightarrow> trade list \<Rightarrow> trade list" where
  "older c tape = filter (\<lambda>t. tr_time t < c) tape"

definition serves :: "tape_env \<Rightarrow> pilot_run \<Rightarrow> trade list \<Rightarrow> bool" where
  \<comment> \<open>the cursor semantics the module states: the newest rows strictly older than the cursor, up to the cap\<close>
  "serves env run tape \<longleftrightarrow>
     (\<forall>n c. \<exists>body. tp_request env n c = Inr body \<and> page_of env run body = Inr (take server_row_cap (older c tape)))"

fun accumulates :: "trade list \<Rightarrow> bool" where
  \<comment> \<open>newest first, the volume on a row is cumulative including that row\<close>
  "accumulates [] \<longleftrightarrow> True"
| "accumulates (t # ts) \<longleftrightarrow> 0 < tr_quantity t \<and> tr_volume t = Some (of_int (sum_list (map tr_quantity (t # ts)))) \<and> accumulates ts"

definition in_clock_range :: "int \<Rightarrow> bool" where
  "in_clock_range e \<longleftrightarrow> 0 \<le> e \<and> e < 253402275600"

definition genuine_tape :: "trade list \<Rightarrow> bool" where
  "genuine_tape tape \<longleftrightarrow> sorted_wrt (\<lambda>a b. tr_time b \<le> tr_time a) tape \<and> distinct (map tr_id tape)
     \<and> list_all (\<lambda>t. dedup_key t = Inr (tr_id t)) tape \<and> list_all (\<lambda>t. in_clock_range (tr_time t) \<and> in_clock_range (tr_time t + 1)) tape
     \<and> accumulates tape \<and> sum_list (map tr_quantity tape) < 2 ^ 53"

lemma ict_ok: "in_clock_range e \<Longrightarrow> \<exists>s. ict e = Inr s"
  by (auto simp: in_clock_range_def ict_def Let_def in_datetime_range_def shift_instant_def day_us_def)

lemma older_suffix: "sorted_wrt (\<lambda>a b. tr_time b \<le> tr_time a) tape \<Longrightarrow> older c tape = dropWhile (\<lambda>t. c \<le> tr_time t) tape"
proof (induction tape)
  case (Cons t ts)
  have "older c ts = ts" if "tr_time t < c" using that Cons.prems by (auto simp: older_def filter_id_conv)
  then show ?case using Cons by (auto simp: older_def)
qed (simp add: older_def)

lemma accumulates_suffix: "accumulates (xs @ ys) \<Longrightarrow> accumulates ys"
  by (induction xs) auto

lemma accumulates_total: "accumulates ts \<Longrightarrow> 0 \<le> sum_list (map tr_quantity ts) \<and> (sum_list (map tr_quantity ts) = 0 \<longrightarrow> ts = [])"
  by (induction ts) auto

lemma suffix_total: "accumulates (xs @ ys) \<Longrightarrow> sum_list (map tr_quantity ys) \<le> sum_list (map tr_quantity (xs @ ys))"
  by (induction xs) auto

lemma genuine_older:
  assumes "genuine_tape tape"
  shows "genuine_tape (older c tape)"
proof -
  obtain xs where xs: "tape = xs @ older c tape"
    using assms older_suffix[of tape c] takeWhile_dropWhile_id[of "\<lambda>t. c \<le> tr_time t" tape] by (metis genuine_tape_def)
  have "accumulates (xs @ older c tape)" using assms xs by (simp add: genuine_tape_def)
  then have "accumulates (older c tape)" "sum_list (map tr_quantity (older c tape)) \<le> sum_list (map tr_quantity tape)"
    using accumulates_suffix suffix_total xs by metis+
  then show ?thesis using assms
    by (auto simp: genuine_tape_def older_def sorted_wrt_filter list_all_iff distinct_map_filter)
qed

lemma volume_difference:
  assumes "\<bar>a\<bar> < 2 ^ 53" "\<bar>b\<bar> < 2 ^ 53" "\<bar>a - b\<bar> < (2 :: int) ^ 53"
  shows "to_double (of_int a - to_double (of_int b)) = of_int (a - b)"
  using assms to_double_small_int[of b] to_double_small_int[of "a - b"] by simp

lemma starts_at_last:
  assumes "accumulates ts" "sum_list (map tr_quantity ts) < 2 ^ 53" "t \<in> set ts" "session_start_reached [t]"
  shows "t = last ts"
  using assms
proof (induction ts)
  case (Cons u us)
  have total: "0 \<le> sum_list (map tr_quantity us)" "sum_list (map tr_quantity us) = 0 \<longrightarrow> us = []"
    using accumulates_total Cons.prems(1) by auto
  show ?case
  proof (cases "t = u")
    case True
    let ?s = "sum_list (map tr_quantity us)"
    have q: "0 < tr_quantity u" "tr_volume u = Some (of_int (tr_quantity u + ?s))" using Cons.prems(1) by simp_all
    have "to_double (of_int (tr_quantity u + ?s) - to_double (of_int (tr_quantity u))) = of_int ?s"
      using volume_difference[of "tr_quantity u + ?s" "tr_quantity u"] q(1) total(1) Cons.prems(2) by simp
    then have "\<bar>rat_of_int ?s\<bar> < 1 / 2" using Cons.prems(4) q(2) True by (simp add: session_start_reached_def)
    then have "?s = 0" by linarith
    then show ?thesis using total(2) True by simp
  next
    case False
    then have "us \<noteq> []" "t = last us" using Cons total(1) by auto
    then show ?thesis by simp
  qed
qed simp

lemma last_starts:
  assumes "accumulates ts" "sum_list (map tr_quantity ts) < 2 ^ 53" "ts \<noteq> []"
  shows "session_start_reached [last ts]"
  using assms
proof (induction ts)
  case (Cons u us)
  show ?case
  proof (cases "us = []")
    case True
    then have "tr_volume u = Some (of_int (tr_quantity u))" "\<bar>tr_quantity u\<bar> < 2 ^ 53" using Cons.prems by simp_all
    then show ?thesis using True volume_difference[of "tr_quantity u" "tr_quantity u"] by (simp add: session_start_reached_def)
  next
    case False
    then show ?thesis using Cons by simp
  qed
qed simp

lemma session_start_one: "session_start_reached rows \<longleftrightarrow> (\<exists>t\<in>set rows. session_start_reached [t])"
  by (induction rows) (auto simp: session_start_reached_def)

lemma session_start_iff:
  assumes "genuine_tape ts" "ts \<noteq> []"
  shows "session_start_reached (take n ts) \<longleftrightarrow> take n ts = ts"
proof
  assume "session_start_reached (take n ts)"
  then obtain t where t: "t \<in> set (take n ts)" "session_start_reached [t]" using session_start_one[of "take n ts"] by blast
  then have "t = last ts" using starts_at_last[of ts t] assms(1) in_set_takeD[OF t(1)] by (simp add: genuine_tape_def)
  then obtain i where i: "i < n" "i < length ts" "ts ! i = ts ! (length ts - 1)"
    using t(1) assms(2) by (auto simp: in_set_conv_nth last_conv_nth)
  have "distinct ts" using assms(1) by (auto simp: genuine_tape_def distinct_map)
  then have "i = length ts - 1" using i assms(2) by (simp add: nth_eq_iff_index_eq)
  then show "take n ts = ts" using i assms(2) by simp
next
  assume "take n ts = ts"
  moreover have "session_start_reached [last ts]" using last_starts assms by (simp add: genuine_tape_def)
  ultimately show "session_start_reached (take n ts)" using last_in_set[OF assms(2)] session_start_one[of ts] by auto
qed

section \<open>One step of the scan\<close>

lemma ticker_ok: "ticker \<in> set allowed_tickers \<Longrightarrow> assert_ticker_in_scope ticker = Inr ticker"
  by (auto simp: allowed_tickers_def assert_ticker_in_scope_def Let_def str_upper_def str_strip_def is_space_def char_upper_def)

lemma parse_trades_length: "parse_trades env symbol i seen items = Inr ts \<Longrightarrow> length ts = length items"
  by (induction items arbitrary: i seen ts) (auto simp: bindE_eq_Inr)

lemma parse_nonempty: "parse_intraday_payload env ticker parsed \<noteq> Inr []"
  by (auto simp: parse_intraday_payload_def bindE_eq_Inr dest!: parse_trades_length split: pyv.splits if_splits)

lemma fetched:
  assumes "serves env run tape" "pr_ticker run \<in> set allowed_tickers"
  obtains body s1 parsed where "fetch_page env run s = Inr (body, s1)" "tp_decode env body = Inr parsed"
    "v_true parsed \<longleftrightarrow> older (sc_cursor s) tape \<noteq> []"
    "v_true parsed \<longrightarrow> parse_intraday_payload env (pr_ticker run) parsed = Inr (take server_row_cap (older (sc_cursor s) tape))"
    "s1 = s\<lparr>sc_made := sc_made s + 1, sc_files := sc_files s1\<rparr>"
proof -
  from assms(1) obtain body where body: "tp_request env (sc_made s + 1) (sc_cursor s) = Inr body"
    "page_of env run body = Inr (take server_row_cap (older (sc_cursor s) tape))" unfolding serves_def by blast
  from body(2) obtain parsed where parsed: "tp_decode env body = Inr parsed"
    "(if v_true parsed then parse_intraday_payload env (pr_ticker run) parsed else Inr []) = Inr (take server_row_cap (older (sc_cursor s) tape))"
    unfolding page_of_def bindE_eq_Inr by blast
  have "v_true parsed \<longleftrightarrow> older (sc_cursor s) tape \<noteq> []"
    using parsed(2) parse_nonempty[of env "pr_ticker run" parsed] by (auto simp: server_row_cap_def split: if_splits)
  moreover have "v_true parsed \<longrightarrow> parse_intraday_payload env (pr_ticker run) parsed = Inr (take server_row_cap (older (sc_cursor s) tape))"
    using parsed(2) by (cases "v_true parsed") simp_all
  moreover have "fetch_page env run s = Inr (body, s\<lparr>sc_made := sc_made s + 1,
      sc_files := aset (sc_files s) (page_name (sc_made s + 1) (sc_cursor s) (page_hash env body)) body\<rparr>)"
    using body(1) ticker_ok[OF assms(2)] by (simp add: fetch_page_def intraday_payload_def server_row_cap_def)
  ultimately show thesis using parsed(1) that by fastforce
qed

definition same_position :: "scan \<Rightarrow> scan \<Rightarrow> bool" where
  "same_position s s' \<longleftrightarrow> sc_cursor s' = sc_cursor s \<and> sc_previous s' = sc_previous s \<and> sc_seen s' = sc_seen s \<and> sc_dense s' = sc_dense s"

lemma step_on_page:
  assumes "serves env run tape" "pr_ticker run \<in> set allowed_tickers" "older (sc_cursor s) tape \<noteq> []"
    "in_clock_range (sc_cursor s)" "list_all (\<lambda>t. in_clock_range (tr_time t)) tape"
  defines "rows \<equiv> take server_row_cap (older (sc_cursor s) tape)"
  obtains t s2 where "sc_rows s2 = sc_rows s @ rows" "same_position s s2"
    "scan_step env run s = (if session_start_reached rows then Inr (add_transition t s2, Some ''session_start_boundary_reached'')
       else advance t rows (Min (set (map tr_time rows)) + 1) s2)"
proof -
  from fetched[OF assms(1,2), of s] obtain body s1 parsed where f: "fetch_page env run s = Inr (body, s1)" "tp_decode env body = Inr parsed"
    "v_true parsed \<longleftrightarrow> older (sc_cursor s) tape \<noteq> []" "v_true parsed \<longrightarrow> parse_intraday_payload env (pr_ticker run) parsed = Inr rows"
    "s1 = s\<lparr>sc_made := sc_made s + 1, sc_files := sc_files s1\<rparr>" unfolding rows_def .
  have v: "v_true parsed" using f(3) assms(3) by simp
  have ne: "rows \<noteq> []" using assms(3) by (simp add: rows_def server_row_cap_def)
  then have "Min (set (map tr_time rows)) \<in> set (map tr_time rows)" by (intro Min_in) simp_all
  then obtain u where "u \<in> set rows" "tr_time u = Min (set (map tr_time rows))" by auto
  moreover have "in_clock_range (tr_time u)" if "u \<in> set rows"
    using that assms(5) by (auto simp: rows_def older_def list_all_iff dest!: in_set_takeD)
  ultimately have "in_clock_range (Min (set (map tr_time rows)))" by metis
  then obtain old_text cursor_text where "ict (Min (set (map tr_time rows))) = Inr old_text" "ict (sc_cursor s) = Inr cursor_text"
    using ict_ok assms(4) by blast
  then obtain t where "transition_of env body (sc_cursor s) rows (s1\<lparr>sc_rows := sc_rows s1 @ rows\<rparr>) = Inr t"
    using ne by (simp add: transition_of_def oldest_trunc_time_def next_cursor_def)
  then have "scan_step env run s = (if session_start_reached rows then Inr (add_transition t (s1\<lparr>sc_rows := sc_rows s1 @ rows\<rparr>), Some ''session_start_boundary_reached'')
      else advance t rows (Min (set (map tr_time rows)) + 1) (s1\<lparr>sc_rows := sc_rows s1 @ rows\<rparr>))"
    using f(1,2) v f(4) ne by (simp add: scan_step_def Let_def next_cursor_def oldest_trunc_time_def)
  moreover have "sc_rows (s1\<lparr>sc_rows := sc_rows s1 @ rows\<rparr>) = sc_rows s @ rows" "same_position s (s1\<lparr>sc_rows := sc_rows s1 @ rows\<rparr>)"
    by (subst f(5), simp add: same_position_def)+
  ultimately show thesis using that by blast
qed

lemma step_on_empty:
  assumes "serves env run tape" "pr_ticker run \<in> set allowed_tickers" "older (sc_cursor s) tape = []"
  obtains s' where "scan_step env run s = Inr (s', Some ''empty_page'')" "sc_rows s' = sc_rows s" "same_position s s'"
proof -
  from fetched[OF assms(1,2), of s] obtain body s1 parsed where f: "fetch_page env run s = Inr (body, s1)" "tp_decode env body = Inr parsed"
    "v_true parsed \<longleftrightarrow> older (sc_cursor s) tape \<noteq> []"
    "v_true parsed \<longrightarrow> parse_intraday_payload env (pr_ticker run) parsed = Inr (take server_row_cap (older (sc_cursor s) tape))"
    "s1 = s\<lparr>sc_made := sc_made s + 1, sc_files := sc_files s1\<rparr>" .
  let ?t = "\<lparr>tn_page = sc_made s1, tn_cursor = sc_cursor s, tn_rows = 0, tn_sha = page_hash env body, tn_detail = None, tn_escape = None, tn_failure = None\<rparr>"
  have "scan_step env run s = Inr (add_transition ?t s1, Some ''empty_page'')" using f(1-3) assms(3) by (simp add: scan_step_def)
  moreover have "sc_rows (add_transition ?t s1) = sc_rows s" "same_position s (add_transition ?t s1)"
    by (subst f(5), simp add: add_transition_def same_position_def)+
  ultimately show thesis using that by blast
qed

definition heading :: "scan \<Rightarrow> bool" where
  \<comment> \<open>the cursor is the least one tried\<close>
  "heading s \<longleftrightarrow> sc_previous s = None \<and> sc_seen s = [] \<or> sc_previous s = Some (sc_cursor s) \<and> (\<forall>c\<in>set (sc_seen s). sc_cursor s \<le> c)"

lemma advance_moves:
  assumes "heading s" "rows \<noteq> []" "\<And>t. t \<in> set rows \<Longrightarrow> tr_time t < sc_cursor s"
    "\<And>t. t \<in> set rows \<Longrightarrow> in_clock_range (tr_time t) \<and> in_clock_range (tr_time t + 1)"
  defines "oldest \<equiv> Min (set (map tr_time rows))"
  obtains s' where "advance t rows (oldest + 1) s = Inr (s', None)" "sc_rows s' = sc_rows s" "heading s'" "sc_previous s' \<noteq> None"
    "sc_cursor s' = oldest + 1 \<and> sc_dense s' = sc_dense s
     \<or> sc_cursor s' = oldest \<and> (\<forall>t\<in>set rows. tr_time t = oldest) \<and> oldest + 1 = sc_cursor s
       \<and> (\<exists>d. ds_second d = oldest \<and> sc_dense s' = sc_dense s @ [d])"
proof -
  have "oldest \<in> set (map tr_time rows)" unfolding oldest_def using assms(2) by (intro Min_in) simp_all
  then obtain u where u: "u \<in> set rows" "tr_time u = oldest" by auto
  have least: "oldest \<le> tr_time t" if "t \<in> set rows" for t unfolding oldest_def using that by (intro Min_le) simp_all
  obtain a b where shown: "ict oldest = Inr a" "ict (oldest + 1) = Inr b" using ict_ok assms(4)[OF u(1)] u(2) by blast
  show thesis
  proof (cases "sc_previous s = Some (oldest + 1)")
    case False
    then have fresh: "assert_cursor_advances (sc_previous s) (oldest + 1) (sc_seen s) = Inr ()"
      using assms(1) assms(3)[OF u(1)] u(2) by (force simp: heading_def assert_cursor_advances_def)
    have "advance t rows (oldest + 1) s = Inr (move_to (oldest + 1) (add_transition t s), None)"
      using shown by (simp add: advance_def fresh)
    moreover have "heading (move_to (oldest + 1) (add_transition t s))"
      using assms(1) assms(3)[OF u(1)] u(2) by (force simp: heading_def move_to_def add_transition_def)
    ultimately show thesis using that by (simp add: move_to_def add_transition_def)
  next
    case True
    then have here: "oldest + 1 = sc_cursor s" "\<forall>c\<in>set (sc_seen s). oldest + 1 \<le> c" using assms(1) by (auto simp: heading_def)
    then have one: "\<forall>t\<in>set rows. tr_time t = oldest" using least assms(3) by fastforce
    then have "set (map tr_time rows) = {oldest}" using assms(2) by (cases rows) auto
    then have single: "page_is_single_second rows" unfolding page_is_single_second_def by (simp add: length_remdups_card_conv)
    have escape: "dense_second_escape rows = Inr oldest" using assms(2) by (simp add: dense_second_escape_def oldest_trunc_time_def oldest_def)
    let ?message = "''cursor_did_not_advance:'' @ str_of_int (oldest + 1) @ ''->'' @ str_of_int (oldest + 1)"
    let ?d = "\<lparr>ds_page = sc_made s, ds_second = oldest, ds_ict = a, ds_rows = length rows\<rparr>"
    have fails: "assert_cursor_advances (sc_previous s) (oldest + 1) (sc_seen s) = Inl (Raise PaginationError ?message)"
      using True by (simp add: assert_cursor_advances_def raise_def)
    have found: "str_contains ''did_not_advance'' ?message" by (simp add: starts_with_def)
    have new: "oldest \<notin> set (sc_seen s)" using here(2) by force
    define s' where "s' = move_to oldest (add_transition (t\<lparr>tn_escape := Some oldest\<rparr>) (s\<lparr>sc_dense := sc_dense s @ [?d]\<rparr>))"
    have "step_past t rows ?message s = Inr (s', None)"
      using new True shown by (simp add: step_past_def escape s'_def)
    then have "advance t rows (oldest + 1) s = Inr (s', None)"
      unfolding advance_def fails using single found by simp
    moreover have "heading s'" using here by (force simp: s'_def heading_def move_to_def add_transition_def)
    ultimately show thesis using that one here(1) by (auto simp: s'_def move_to_def add_transition_def)
  qed
qed

section \<open>What the scan keeps\<close>

definition reported :: "scan \<Rightarrow> trade \<Rightarrow> bool" where
  \<comment> \<open>retrieved, or within a second the scan says it stepped past\<close>
  "reported s t \<longleftrightarrow> t \<in> set (sc_rows s) \<or> tr_time t \<in> ds_second ` set (sc_dense s)"

definition tracks :: "trade list \<Rightarrow> int \<Rightarrow> scan \<Rightarrow> bool" where
  "tracks tape start s \<longleftrightarrow> heading s \<and> in_clock_range (sc_cursor s) \<and> sc_cursor s \<le> start
     \<and> set (sc_rows s) \<subseteq> set (older start tape) \<and> (\<forall>t\<in>set (older start tape). sc_cursor s \<le> tr_time t \<longrightarrow> reported s t)
     \<and> (sc_rows s = [] \<and> sc_cursor s = start \<or> sc_rows s \<noteq> [] \<and> hd (sc_rows s) = hd (older start tape))"

definition captured :: "trade list \<Rightarrow> int \<Rightarrow> scan \<Rightarrow> bool" where
  "captured tape start s \<longleftrightarrow> set (sc_rows s) \<subseteq> set (older start tape) \<and> (\<forall>t\<in>set (older start tape). reported s t)
     \<and> (older start tape \<noteq> [] \<longrightarrow> sc_rows s \<noteq> [] \<and> hd (sc_rows s) = hd (older start tape))"

lemma genuine_clock: "genuine_tape tape \<Longrightarrow> list_all (\<lambda>t. in_clock_range (tr_time t)) tape"
  by (auto simp: genuine_tape_def list_all_iff)

lemma page_is_newest:
  assumes "sorted_wrt (\<lambda>a b. tr_time b \<le> tr_time a) ts" "t \<in> set ts" "u \<in> set (take n ts)" "tr_time u < tr_time t"
  shows "t \<in> set (take n ts)"
proof (rule ccontr)
  assume "t \<notin> set (take n ts)"
  then have "t \<in> set (drop n ts)" using assms(2) by (metis append_take_drop_id set_append Un_iff)
  then have "tr_time t \<le> tr_time u" using assms(1,3) by (metis append_take_drop_id sorted_wrt_append)
  then show False using assms(4) by simp
qed

lemma older_older: "c \<le> start \<Longrightarrow> older c (older start tape) = older c tape"
  unfolding older_def filter_filter by (rule filter_cong) auto

lemma last_of_older:
  assumes "sorted_wrt (\<lambda>a b. tr_time b \<le> tr_time a) tape" "c \<le> start" "older c tape \<noteq> []"
  shows "last (older start tape) = last (older c tape)"
proof -
  have "sorted_wrt (\<lambda>a b. tr_time b \<le> tr_time a) (older start tape)" using assms(1) by (simp add: older_def sorted_wrt_filter)
  then have "older c tape = dropWhile (\<lambda>t. c \<le> tr_time t) (older start tape)"
    using older_suffix older_older[OF assms(2)] by metis
  then show ?thesis using assms(3) takeWhile_dropWhile_id[of "\<lambda>t. c \<le> tr_time t" "older start tape"] last_appendR by metis
qed

lemma page_extends:
  assumes "tracks tape start s" "older (sc_cursor s) tape \<noteq> []"
  defines "rows \<equiv> take server_row_cap (older (sc_cursor s) tape)"
  shows "rows \<noteq> []" "set rows \<subseteq> set (older start tape)" "hd (sc_rows s @ rows) = hd (older start tape)"
proof -
  show ne: "rows \<noteq> []" using assms(2) by (simp add: rows_def server_row_cap_def)
  show "set rows \<subseteq> set (older start tape)"
    using assms(1) by (force simp: rows_def tracks_def older_def dest: in_set_takeD)
  have "hd rows = hd (older (sc_cursor s) tape)" unfolding rows_def by (simp add: server_row_cap_def hd_take)
  then show "hd (sc_rows s @ rows) = hd (older start tape)" using assms(1) ne by (auto simp: tracks_def hd_append)
qed

lemma step_tracks:
  assumes "tracks tape start s" "serves env run tape" "genuine_tape tape" "pr_ticker run \<in> set allowed_tickers"
  obtains s' stop where "scan_step env run s = Inr (s', stop)"
    "case stop of None \<Rightarrow> tracks tape start s'
     | Some r \<Rightarrow> r \<in> {''session_start_boundary_reached'', ''empty_page''} \<and> captured tape start s'
         \<and> (r = ''session_start_boundary_reached'' \<longrightarrow> older start tape \<noteq> [] \<and> last (older start tape) \<in> set (sc_rows s'))"
proof (cases "older (sc_cursor s) tape = []")
  case True
  from step_on_empty[OF assms(2,4) True] obtain s' where s': "scan_step env run s = Inr (s', Some ''empty_page'')"
    "sc_rows s' = sc_rows s" "same_position s s'" .
  have "sc_cursor s \<le> tr_time t" if "t \<in> set (older start tape)" for t
    using that True by (auto simp: older_def filter_empty_conv not_less)
  moreover have "sc_rows s \<noteq> []" if "older start tape \<noteq> []" using that True assms(1) by (auto simp: tracks_def)
  ultimately have "captured tape start s'"
    using assms(1) s'(2,3) by (auto simp: tracks_def captured_def reported_def same_position_def)
  then show thesis using that s'(1) by fastforce
next
  case False
  let ?rows = "take server_row_cap (older (sc_cursor s) tape)"
  note ext = page_extends[OF assms(1) False]
  have t: "heading s" "in_clock_range (sc_cursor s)" "sc_cursor s \<le> start" using assms(1) by (auto simp: tracks_def)
  from step_on_page[OF assms(2,4) False t(2) genuine_clock[OF assms(3)]] obtain u s2 where
    s2: "sc_rows s2 = sc_rows s @ ?rows" "same_position s s2"
      "scan_step env run s = (if session_start_reached ?rows then Inr (add_transition u s2, Some ''session_start_boundary_reached'')
         else advance u ?rows (Min (set (map tr_time ?rows)) + 1) s2)" .
  have in_page: "tr_time v < sc_cursor s" "in_clock_range (tr_time v)" "in_clock_range (tr_time v + 1)" if "v \<in> set ?rows" for v
    using that assms(3) by (auto simp: older_def genuine_tape_def list_all_iff dest!: in_set_takeD)
  have sub: "set (sc_rows s2) \<subseteq> set (older start tape)" using assms(1) ext(2) s2(1) by (auto simp: tracks_def)
  have old: "reported s2 v" if "v \<in> set (older start tape)" "sc_cursor s \<le> tr_time v" for v
    using that assms(1) s2(1,2) by (auto simp: tracks_def reported_def same_position_def)
  show thesis
  proof (cases "session_start_reached ?rows")
    case True
    then have all: "?rows = older (sc_cursor s) tape" using session_start_iff[OF genuine_older[OF assms(3)] False] by blast
    have first: "older start tape \<noteq> []" "last (older start tape) \<in> set (sc_rows s2)"
      using last_of_older[OF _ t(3) False] assms(3) last_in_set[OF False] s2(1) all ext(1,2) by (auto simp: genuine_tape_def)
    have "reported s2 v" if "v \<in> set (older start tape)" for v
      using that old[OF that] s2(1) all by (cases "sc_cursor s \<le> tr_time v") (auto simp: older_def reported_def not_le)
    then have "captured tape start (add_transition u s2)"
      using sub ext(1,3) s2(1) by (auto simp: captured_def reported_def add_transition_def)
    then show thesis using that s2(3) True first by (fastforce simp: add_transition_def)
  next
    case False
    have head: "heading s2" "sc_cursor s2 = sc_cursor s" using t(1) s2(2) by (auto simp: heading_def same_position_def)
    have lt: "tr_time v < sc_cursor s2" "in_clock_range (tr_time v) \<and> in_clock_range (tr_time v + 1)" if "v \<in> set ?rows" for v
      using in_page[OF that] head(2) by simp_all
    let ?o = "Min (set (map tr_time ?rows))"
    from advance_moves[OF head(1) ext(1) lt, of u] obtain s' where
      s': "advance u ?rows (?o + 1) s2 = Inr (s', None)" "sc_rows s' = sc_rows s2" "heading s'" "sc_previous s' \<noteq> None"
        "sc_cursor s' = ?o + 1 \<and> sc_dense s' = sc_dense s2
         \<or> sc_cursor s' = ?o \<and> (\<forall>t\<in>set ?rows. tr_time t = ?o) \<and> ?o + 1 = sc_cursor s2
           \<and> (\<exists>d. ds_second d = ?o \<and> sc_dense s' = sc_dense s2 @ [d])" .
    have "?o \<in> set (map tr_time ?rows)" using ext(1) by (intro Min_in) simp_all
    then obtain w where w: "w \<in> set ?rows" "tr_time w = ?o" by auto
    have range: "in_clock_range (sc_cursor s')" "sc_cursor s' \<le> start" using s'(5) in_page[OF w(1)] w(2) t(3) by auto
    have new: "reported s' v" if v: "v \<in> set (older start tape)" "sc_cursor s' \<le> tr_time v" for v
    proof (cases "sc_cursor s \<le> tr_time v")
      case True
      then show ?thesis using old[OF v(1)] s'(2,5) by (auto simp: reported_def)
    next
      case False
      then have v': "v \<in> set (older (sc_cursor s) tape)" using v(1) by (auto simp: older_def)
      show ?thesis
      proof (cases "?o < tr_time v")
        case True
        have "sorted_wrt (\<lambda>a b. tr_time b \<le> tr_time a) (older (sc_cursor s) tape)"
          using genuine_older[OF assms(3)] by (simp add: genuine_tape_def)
        then have "v \<in> set ?rows" using page_is_newest[OF _ v' w(1)] w(2) True by simp
        then show ?thesis using s'(2) s2(1) by (simp add: reported_def)
      next
        case False
        then have "tr_time v = ?o" "sc_cursor s' = ?o" using s'(5) v(2) by auto
        then show ?thesis using s'(5) by (auto simp: reported_def)
      qed
    qed
    have "tracks tape start s'"
      using s'(2,3) range new sub ext(1,3) s2(1) by (auto simp: tracks_def)
    then show thesis using that s2(3) False s'(1) by fastforce
  qed
qed

lemma scan_captures:
  assumes "tracks tape start s" "serves env run tape" "genuine_tape tape" "pr_ticker run \<in> set allowed_tickers"
  shows "\<exists>s' stop. scan_loop env run n s = Inr (s', stop)
    \<and> (stop = ''request_cap_reached'' \<or> stop \<in> {''session_start_boundary_reached'', ''empty_page''} \<and> captured tape start s')
    \<and> (stop = ''session_start_boundary_reached'' \<longrightarrow> older start tape \<noteq> [] \<and> last (older start tape) \<in> set (sc_rows s'))"
  using assms(1)
proof (induction n arbitrary: s)
  case (Suc n)
  from step_tracks[OF Suc.prems assms(2-4)] obtain s' stop where step: "scan_step env run s = Inr (s', stop)"
    "case stop of None \<Rightarrow> tracks tape start s'
     | Some r \<Rightarrow> r \<in> {''session_start_boundary_reached'', ''empty_page''} \<and> captured tape start s'
         \<and> (r = ''session_start_boundary_reached'' \<longrightarrow> older start tape \<noteq> [] \<and> last (older start tape) \<in> set (sc_rows s'))" .
  show ?case
  proof (cases stop)
    case None
    then show ?thesis using step Suc.IH[of s'] by simp
  next
    case (Some r)
    then show ?thesis using step by simp
  qed
qed simp

lemma first_scan_tracks: "in_clock_range (pr_start run) \<Longrightarrow> tracks tape (pr_start run) (first_scan run files)"
  by (auto simp: tracks_def first_scan_def heading_def older_def reported_def)

section \<open>What the figures show\<close>

definition counted :: "trade \<Rightarrow> trade \<Rightarrow> bool" where
  \<comment> \<open>\<open>c\<close> is later than \<open>p\<close> on one counter\<close>
  "counted p c \<longleftrightarrow> (\<exists>i j. tr_volume p = Some (of_int i) \<and> tr_volume c = Some (of_int j)
     \<and> 0 \<le> i \<and> 0 < tr_quantity c \<and> i + tr_quantity c \<le> j \<and> j < 2 ^ 53)"

lemma missing_counted:
  assumes "tr_volume p = Some (of_int i)" "tr_volume c = Some (of_int j)" "0 \<le> i" "0 < tr_quantity c" "i + tr_quantity c \<le> j" "j < 2 ^ 53"
  shows "missing_between p c = of_int (j - i - tr_quantity c)"
proof -
  have "to_double (of_int (j - i)) = of_int (j - i)" "to_double (of_int (tr_quantity c)) = of_int (tr_quantity c)"
    "to_double (of_int (j - i - tr_quantity c)) = of_int (j - i - tr_quantity c)"
    by (rule to_double_small_int, use assms in simp)+
  then show ?thesis using assms(1,2) by (simp add: missing_between_def volume_of_def)
qed

lemma gaps_close:
  assumes "sorted_wrt counted (p # ts)" "tr_volume p = Some (of_int i)"
  shows "\<exists>j. tr_volume (last (p # ts)) = Some (of_int j)
    \<and> sum_list (map tr_quantity ts) + unenumerated_total (gaps_along (p # ts)) = j - i"
  using assms
proof (induction ts arbitrary: p i)
  case (Cons c ts)
  from Cons.prems obtain j where j: "tr_volume c = Some (of_int j)" "0 \<le> i" "0 < tr_quantity c" "i + tr_quantity c \<le> j" "j < 2 ^ 53"
    by (auto simp: counted_def)
  have m: "missing_between p c = of_int (j - i - tr_quantity c)" using missing_counted[OF Cons.prems(2) j] .
  have "unenumerated_total (gaps_along (p # c # ts)) = (j - i - tr_quantity c) + unenumerated_total (gaps_along (c # ts))"
  proof (cases "j - i - tr_quantity c = 0")
    case True
    then have "missing_between p c = 0" by (simp add: m)
    then show ?thesis using True by (simp add: unenumerated_total_def)
  next
    case False
    then have "1 \<le> j - i - tr_quantity c" using j(4) by linarith
    then have "1 \<le> missing_between p c" unfolding m by (simp only: of_int_1_le_iff)
    then have "1 / 2 < missing_between p c" "round_half_even (missing_between p c) = j - i - tr_quantity c"
      by (linarith, simp only: m round_half_even_of_int)
    then show ?thesis by (simp add: unenumerated_total_def)
  qed
  moreover obtain k where "tr_volume (last (c # ts)) = Some (of_int k)"
    "sum_list (map tr_quantity ts) + unenumerated_total (gaps_along (c # ts)) = k - j"
    using Cons.IH[of c j] Cons.prems(1) j(1) by auto
  ultimately show ?case by simp
qed (simp add: unenumerated_total_def)

lemma gaps_positive: "sorted_wrt counted ts \<Longrightarrow> g \<in> set (gaps_along ts) \<Longrightarrow> 0 < gp_missing g"
proof (induction ts rule: gaps_along.induct)
  case (1 p c rest)
  from 1(2) obtain i j where m: "tr_volume p = Some (of_int i)" "tr_volume c = Some (of_int j)" "0 \<le> i" "0 < tr_quantity c"
    "i + tr_quantity c \<le> j" "j < 2 ^ 53" by (auto simp: counted_def)
  have "0 < round_half_even (missing_between p c)" if "1 / 2 < missing_between p c"
  proof -
    have "rat_of_int 0 < of_int (j - i - tr_quantity c)" using that missing_counted[OF m] by linarith
    then show ?thesis unfolding missing_counted[OF m] of_int_less_iff round_half_even_of_int .
  qed
  then show ?case using 1 by (auto split: if_splits)
qed simp_all

lemma accumulates_counted: "accumulates ts \<Longrightarrow> sum_list (map tr_quantity ts) < 2 ^ 53 \<Longrightarrow> sorted_wrt (\<lambda>c p. counted p c) ts"
proof (induction ts)
  case (Cons t ts)
  have later: "counted p t" if p: "p \<in> set ts" for p
  proof -
    obtain xs ys where split: "ts = xs @ p # ys" using split_list[OF p] by blast
    have acc: "accumulates (p # ys)" using Cons.prems(1) accumulates_suffix[of "t # xs" "p # ys"] by (simp add: split)
    have le: "sum_list (map tr_quantity (p # ys)) \<le> sum_list (map tr_quantity ts)"
      using suffix_total[of xs "p # ys"] Cons.prems(1) by (simp add: split)
    have pos: "0 \<le> sum_list (map tr_quantity (p # ys))" using accumulates_total[OF acc] by simp
    show ?thesis unfolding counted_def
      using acc le pos Cons.prems
      by (intro exI[of _ "sum_list (map tr_quantity (p # ys))"] exI[of _ "sum_list (map tr_quantity (t # ts))"]) simp
  qed
  have "0 \<le> sum_list (map tr_quantity ts)" "accumulates ts" using Cons.prems(1) accumulates_total[of ts] by auto
  then have "sorted_wrt (\<lambda>c p. counted p c) ts" using Cons.IH Cons.prems by simp
  then show ?case using later by simp
qed simp

lemma counted_less: "counted p c \<Longrightarrow> volume_of p < volume_of c"
proof -
  assume "counted p c"
  then obtain i j where "tr_volume p = Some (of_int i)" "tr_volume c = Some (of_int j)" "i < j" by (auto simp: counted_def)
  then show ?thesis by (simp add: volume_of_def)
qed

lemma counted_asym: "counted a b \<Longrightarrow> \<not> counted b a"
  using counted_less[of a b] counted_less[of b a] by auto

lemma counted_either:
  assumes "sorted_wrt (\<lambda>c p. counted p c) ts" "a \<in> set ts" "b \<in> set ts" "a \<noteq> b"
  shows "counted a b \<or> counted b a"
  using assms by (induction ts) auto

lemma ends_counted:
  assumes "sorted_wrt (\<lambda>c p. counted p c) ts" "a \<in> set ts"
  shows "a = last ts \<or> counted (last ts) a" "a = hd ts \<or> counted a (hd ts)"
  using assms by (induction ts) auto

lemma sorted_distinct_wrt:
  assumes "sorted (map f ts)" "distinct ts" "\<And>a b. a \<in> set ts \<Longrightarrow> b \<in> set ts \<Longrightarrow> a \<noteq> b \<Longrightarrow> f a \<le> f b \<Longrightarrow> r a b"
  shows "sorted_wrt r ts"
  using assms by (induction ts) auto

lemma by_volume_rows:
  assumes "sorted_wrt (\<lambda>c p. counted p c) tape" "accumulates tape" "set rows \<subseteq> set tape" "distinct rows"
  shows "mset (by_volume rows) = mset rows" "sorted_wrt counted (by_volume rows)"
proof -
  have "tr_volume t \<noteq> None" if "t \<in> set tape" for t using that assms(2) by (induction tape) auto
  then have "filter (\<lambda>t. tr_volume t \<noteq> None) rows = rows" using assms(3) by (auto simp: filter_id_conv)
  then show ms: "mset (by_volume rows) = mset rows" by (simp add: by_volume_def)
  then have same: "set (by_volume rows) = set rows" by (rule mset_eq_setD)
  show "sorted_wrt counted (by_volume rows)"
  proof (rule sorted_distinct_wrt)
    show "sorted (map (\<lambda>t. (volume_of t, tr_time t)) (by_volume rows))" by (simp add: by_volume_def)
    show "distinct (by_volume rows)" using ms assms(4) mset_eq_imp_distinct_iff by blast
    fix a b
    assume ab: "a \<in> set (by_volume rows)" "b \<in> set (by_volume rows)" "a \<noteq> b" "(volume_of a, tr_time a) \<le> (volume_of b, tr_time b)"
    then have "counted a b \<or> counted b a" using counted_either[OF assms(1)] same assms(3) by blast
    moreover have "\<not> counted b a" using ab(4) counted_less[of b a] by auto
    ultimately show "counted a b" by blast
  qed
qed

lemma quantities_of_set: "mset xs = mset ys \<Longrightarrow> sum_list (map tr_quantity xs) = sum_list (map tr_quantity ys)"
  by (metis mset_map sum_mset_sum_list)

lemma all_quantities:
  assumes "accumulates tape" "distinct tape" "distinct rows" "set rows \<subseteq> set tape"
    "sum_list (map tr_quantity rows) = sum_list (map tr_quantity tape)"
  shows "set rows = set tape"
proof (rule ccontr)
  assume "set rows \<noteq> set tape"
  then obtain t where t: "t \<in> set tape" "t \<notin> set rows" using assms(4) by blast
  have pos: "0 < tr_quantity u" if "u \<in> set tape" for u using that assms(1) by (induction tape) auto
  have "sum tr_quantity (set tape) = sum tr_quantity (set rows) + sum tr_quantity (set tape - set rows)"
    using sum.subset_diff[OF assms(4), of tr_quantity] by simp
  moreover have "0 < sum tr_quantity (set tape - set rows)" using t pos by (intro sum_pos) auto
  ultimately show False using assms(2,3,5) by (simp add: sum_list_distinct_conv_sum_set)
qed

lemma figures_close:
  assumes "genuine_tape tape" "tape \<noteq> []" "distinct rows" "set rows \<subseteq> set tape" "hd tape \<in> set rows" "last tape \<in> set rows"
  shows "sum_list (map tr_quantity rows) + unenumerated_total (enumeration_gaps rows) = sum_list (map tr_quantity tape)"
    and "enumeration_gaps rows = [] \<longleftrightarrow> set rows = set tape"
proof -
  have acc: "accumulates tape" "distinct tape" using assms(1) by (auto simp: genuine_tape_def distinct_map)
  have order: "sorted_wrt (\<lambda>c p. counted p c) tape" using accumulates_counted assms(1) by (simp add: genuine_tape_def)
  note by_vol = by_volume_rows[OF order acc(1) assms(4,3)]
  have same: "set (by_volume rows) = set rows" using mset_eq_setD[OF by_vol(1)] .
  then obtain p ts where split: "by_volume rows = p # ts" using assms(5) by (cases "by_volume rows") auto
  have "p = last tape"
  proof (rule ccontr)
    assume "p \<noteq> last tape"
    moreover have "p \<in> set tape" "last tape \<in> set (p # ts)" using same split assms(4,6) by auto
    ultimately have "counted (last tape) p" "counted p (last tape)" using ends_counted(1)[OF order] by_vol(2) split by auto
    then show False using counted_asym by blast
  qed
  moreover have "last (p # ts) = hd tape"
  proof (rule ccontr)
    assume n: "last (p # ts) \<noteq> hd tape"
    have "last (p # ts) \<in> set (p # ts)" by (rule last_in_set) simp
    then have l: "last (p # ts) \<in> set tape" using same assms(4) unfolding split by blast
    have "counted (last (p # ts)) (hd tape)" using ends_counted(2)[OF order l] n by simp
    moreover have "sorted_wrt (\<lambda>c p. counted p c) (rev (p # ts))" using by_vol(2) unfolding split sorted_wrt_rev .
    moreover have "hd tape \<in> set (rev (p # ts))" using assms(5) same unfolding split set_rev by simp
    ultimately have "counted (last (p # ts)) (hd tape)" "counted (hd tape) (last (p # ts))"
      using ends_counted(2)[of "rev (p # ts)" "hd tape"] n unfolding hd_rev by auto
    then show False using counted_asym by blast
  qed
  moreover have "tr_volume (last tape) = Some (of_int (tr_quantity (last tape)))"
    using acc(1) assms(2) by (induction tape) auto
  moreover have "tr_volume (hd tape) = Some (of_int (sum_list (map tr_quantity tape)))"
    using acc(1) assms(2) by (cases tape) auto
  ultimately have "sum_list (map tr_quantity (p # ts)) + unenumerated_total (gaps_along (p # ts)) = sum_list (map tr_quantity tape)"
    using gaps_close[of p ts "tr_quantity (last tape)"] by_vol(2) split by auto
  then show close: "sum_list (map tr_quantity rows) + unenumerated_total (enumeration_gaps rows) = sum_list (map tr_quantity tape)"
    using quantities_of_set[OF by_vol(1)] unfolding split enumeration_gaps_def by simp
  show "enumeration_gaps rows = [] \<longleftrightarrow> set rows = set tape"
  proof
    assume "enumeration_gaps rows = []"
    then show "set rows = set tape" using close by (intro all_quantities acc assms(3,4)) (simp add: unenumerated_total_def)
  next
    assume "set rows = set tape"
    then have "sum_list (map tr_quantity rows) = sum_list (map tr_quantity tape)"
      using acc(2) assms(3) by (simp add: sum_list_distinct_conv_sum_set)
    then have total: "sum_list (map gp_missing (enumeration_gaps rows)) = 0" using close by (simp add: unenumerated_total_def)
    show "enumeration_gaps rows = []"
    proof (cases "enumeration_gaps rows")
      case (Cons g gs)
      have "0 < gp_missing h" if "h \<in> set (g # gs)" for h
        using gaps_positive[OF by_vol(2)] that Cons by (simp add: enumeration_gaps_def)
      then have "0 < gp_missing g" "\<forall>m\<in>set (map gp_missing gs). 0 \<le> m" by (auto intro: less_imp_le)
      then have "0 < gp_missing g" "0 \<le> sum_list (map gp_missing gs)" using sum_list_nonneg[of "map gp_missing gs"] by (blast, blast)
      then show ?thesis using total Cons by simp
    qed
  qed
qed

lemma same_trade: "genuine_tape tape \<Longrightarrow> t \<in> set tape \<Longrightarrow> u \<in> set tape \<Longrightarrow> tr_id t = tr_id u \<Longrightarrow> t = u"
  by (auto simp: genuine_tape_def distinct_map dest: inj_onD)

lemma dedupe_loop:
  assumes "genuine_tape tape" "set (dd_rows d) \<union> set rows \<subseteq> set tape" "distinct (dd_rows d)"
  shows "\<exists>e. foldE dedupe_row rows d = Inr e \<and> distinct (dd_rows e) \<and> set (dd_rows e) = set (dd_rows d) \<union> set rows"
  using assms(2,3)
proof (induction rows arbitrary: d)
  case (Cons t rows)
  have key: "dedup_key t = Inr (tr_id t)" using assms(1) Cons.prems(1) by (auto simp: genuine_tape_def list_all_iff)
  obtain d' where d': "dedupe_row t d = Inr d'" "distinct (dd_rows d')" "set (dd_rows d') = insert t (set (dd_rows d))"
  proof (cases "find (\<lambda>u. tr_id u = tr_id t) (dd_rows d)")
    case None
    then have "t \<notin> set (dd_rows d)" by (auto simp: find_None_iff)
    then show thesis using that None Cons.prems by (simp add: dedupe_row_def key)
  next
    case (Some u)
    then have "u \<in> set (dd_rows d)" "tr_id u = tr_id t" by (auto simp: find_Some_iff)
    then have "t \<in> set (dd_rows d)" using same_trade[OF assms(1), of u t] Cons.prems(1) by auto
    then show thesis using that Some Cons.prems(2) by (auto simp: dedupe_row_def key)
  qed
  then have "set (dd_rows d') \<union> set rows \<subseteq> set tape" using Cons.prems(1) by auto
  from Cons.IH[OF this d'(2)] show ?case using d' by auto
qed simp

lemma dedupe_rows:
  assumes "genuine_tape tape" "set rows \<subseteq> set tape"
  obtains d where "dedupe rows = Inr d" "distinct (dd_rows d)" "set (dd_rows d) = set rows"
  using dedupe_loop[OF assms(1), of "\<lparr>dd_rows = [], dd_raw = length rows, dd_duplicates = 0, dd_conflicting = 0\<rparr>" rows] assms(2)
  by (auto simp: dedupe_def)

lemma in_time_order_rows: "mset (in_time_order rows) = mset rows" "distinct (in_time_order rows) \<longleftrightarrow> distinct rows"
  "set (in_time_order rows) = set rows"
  by (simp_all add: in_time_order_def)

lemma measured:
  assumes "genuine_tape tape" "tape \<noteq> []" "distinct rows" "set rows \<subseteq> set tape" "hd tape \<in> set rows" "last tape \<in> set rows"
  shows "ms_enumerated_plus_unenumerated (measure_session rows daily scale) = sum_list (map tr_quantity tape)"
    and "ms_gaps (measure_session rows daily scale) = [] \<longleftrightarrow> set rows = set tape"
    and "set rows = set tape \<Longrightarrow> ms_quantity_sum (measure_session rows daily scale) = sum_list (map tr_quantity tape)"
proof -
  let ?o = "in_time_order rows"
  have o: "distinct ?o" "set ?o \<subseteq> set tape" "hd tape \<in> set ?o" "last tape \<in> set ?o" using assms(3-6) in_time_order_rows by simp_all
  note close = figures_close[OF assms(1,2) o]
  show "ms_enumerated_plus_unenumerated (measure_session rows daily scale) = sum_list (map tr_quantity tape)"
    "ms_gaps (measure_session rows daily scale) = [] \<longleftrightarrow> set rows = set tape"
    using close by (simp_all add: measure_session_def Let_def in_time_order_rows(3))
  show "ms_quantity_sum (measure_session rows daily scale) = sum_list (map tr_quantity tape)" if "set rows = set tape"
  proof -
    have "distinct tape" using assms(1) by (auto simp: genuine_tape_def distinct_map)
    then have "mset ?o = mset tape" using that assms(3) in_time_order_rows(1) by (simp add: set_eq_iff_mset_eq_distinct)
    then show ?thesis using quantities_of_set by (simp add: measure_session_def Let_def)
  qed
qed

lemma reconciled:
  assumes "reconcile_session rows daily stop confirmed full_day scale = Inr rc" "rows \<noteq> []"
  shows "rc_measures rc = Some (measure_session rows daily scale)"
    "rc_verdict rc = fst (verdict_of stop confirmed daily (measure_session rows daily scale))"
proof -
  obtain v reason implied where "verdict_of stop confirmed daily (measure_session rows daily scale) = (v, reason, implied)"
    by (cases "verdict_of stop confirmed daily (measure_session rows daily scale)") auto
  then have "rc = \<lparr>rc_verdict = v, rc_reason = reason, rc_scale = implied, rc_full_day = full_day,
      rc_measures = Some (measure_session rows daily scale)\<rparr>" "v = fst (verdict_of stop confirmed daily (measure_session rows daily scale))"
    using assms by (auto simp: reconcile_session_def Let_def split: if_splits)
  then show "rc_measures rc = Some (measure_session rows daily scale)"
    "rc_verdict rc = fst (verdict_of stop confirmed daily (measure_session rows daily scale))" by simp_all
qed

lemma reconciled_nothing:
  "reconcile_session [] daily stop confirmed full_day scale = Inr rc \<Longrightarrow> rc_verdict rc = ''incomplete_session_boundary_unknown''"
  by (auto simp: reconcile_session_def split: if_splits)

lemma verdict_complete:
  assumes "starts_with (fst (verdict_of stop confirmed daily m)) ''complete_''"
  shows "confirmed" "ms_gaps m = []" "fst (verdict_of stop confirmed daily m) = ''complete_exact_match'' \<longleftrightarrow> daily = Some (ms_quantity_sum m)"
  using assms by (auto simp: verdict_of_def starts_with_def split: if_splits option.splits)

section \<open>The properties of the scan\<close>

text \<open>
  C20. The scan misses nothing silently: against a provider that serves a tape by the stated cursor semantics it
  returns without an exception and without a cursor failure, and unless it ran out of requests every trade
  older than its start was retrieved or lies within a second it reported to have stepped past.
\<close>

theorem scan_misses_nothing_silently:
  assumes "serves env run tape" "genuine_tape tape" "pr_ticker run \<in> set allowed_tickers" "in_clock_range (pr_start run)"
    and "run_budget run = Inr budget" "rb_estimate budget \<noteq> None"
  shows "\<exists>r. paginate env run files = Inr r
    \<and> pn_stop r \<in> {''session_start_boundary_reached'', ''empty_page'', ''request_cap_reached''}
    \<and> (pn_stop r \<noteq> ''request_cap_reached'' \<longrightarrow> (\<forall>t\<in>set (older (pr_start run) tape). reported (pn_scan r) t))"
proof -
  from scan_captures[OF first_scan_tracks[OF assms(4)] assms(1-3), of "nat (rb_cap budget)" files] obtain s stop where
    "scan_loop env run (nat (rb_cap budget)) (first_scan run files) = Inr (s, stop)"
    "stop = ''request_cap_reached'' \<or> stop \<in> {''session_start_boundary_reached'', ''empty_page''} \<and> captured tape (pr_start run) s" by blast
  then show ?thesis using assms(5,6) by (auto simp: paginate_def captured_def)
qed

lemma run_captured:
  assumes "serves env run tape" "genuine_tape tape" "pr_ticker run \<in> set allowed_tickers" "in_clock_range (pr_start run)"
    and "paginate env run files = Inr r"
  shows "pn_confirmed r \<longleftrightarrow> pn_stop r = ''session_start_boundary_reached''"
    and "pn_stop r = ''session_start_boundary_reached'' \<Longrightarrow> captured tape (pr_start run) (pn_scan r)
      \<and> older (pr_start run) tape \<noteq> [] \<and> last (older (pr_start run) tape) \<in> set (sc_rows (pn_scan r))"
proof -
  from assms(5) obtain n where n: "scan_loop env run n (first_scan run files) = Inr (pn_scan r, pn_stop r)"
    and confirmed: "pn_confirmed r \<longleftrightarrow> pn_stop r = ''session_start_boundary_reached''"
    by (auto simp: paginate_def bindE_eq_Inr split: if_splits)
  show "pn_confirmed r \<longleftrightarrow> pn_stop r = ''session_start_boundary_reached''" by (rule confirmed)
  from scan_captures[OF first_scan_tracks[OF assms(4)] assms(1-3), of n files] n
  show "pn_stop r = ''session_start_boundary_reached'' \<Longrightarrow> captured tape (pr_start run) (pn_scan r)
      \<and> older (pr_start run) tape \<noteq> [] \<and> last (older (pr_start run) tape) \<in> set (sc_rows (pn_scan r))" by auto
qed

lemma run_measured:
  assumes "serves env run tape" "genuine_tape tape" "pr_ticker run \<in> set allowed_tickers" "in_clock_range (pr_start run)"
    and "paginate env run files = Inr r" "pn_stop r = ''session_start_boundary_reached''"
    and "analyse (sc_rows (pn_scan r)) (pn_stop r) (pn_confirmed r) daily = Inr a"
  obtains "distinct (dd_rows (an_deduped a))" "set (dd_rows (an_deduped a)) \<subseteq> set (older (pr_start run) tape)"
    "older (pr_start run) tape \<noteq> []" "hd (older (pr_start run) tape) \<in> set (dd_rows (an_deduped a))"
    "last (older (pr_start run) tape) \<in> set (dd_rows (an_deduped a))"
    "reconcile_session (dd_rows (an_deduped a)) daily (pn_stop r) True False (10 ^ 6) = Inr (an_reconciliation a)"
proof -
  have cap: "captured tape (pr_start run) (pn_scan r)" "older (pr_start run) tape \<noteq> []"
    "last (older (pr_start run) tape) \<in> set (sc_rows (pn_scan r))" and confirmed: "pn_confirmed r"
    using run_captured[OF assms(1-5)] assms(6) by auto
  have sub: "set (sc_rows (pn_scan r)) \<subseteq> set (older (pr_start run) tape)" using cap(1) by (simp add: captured_def)
  from dedupe_rows[OF genuine_older[OF assms(2)] sub] obtain d where
    d: "dedupe (sc_rows (pn_scan r)) = Inr d" "distinct (dd_rows d)" "set (dd_rows d) = set (sc_rows (pn_scan r))" .
  have "sc_rows (pn_scan r) \<noteq> []" "hd (sc_rows (pn_scan r)) = hd (older (pr_start run) tape)" using cap(1,2) by (simp_all add: captured_def)
  then have "hd (older (pr_start run) tape) \<in> set (dd_rows d)" using hd_in_set d(3) by metis
  moreover have "an_deduped a = d" "reconcile_session (dd_rows d) daily (pn_stop r) True False (10 ^ 6) = Inr (an_reconciliation a)"
    using assms(7) d(1) confirmed by (auto simp: analyse_def bindE_eq_Inr)
  ultimately show thesis using that d sub cap(2,3) by simp
qed

text \<open>
  C22. The omission is exactly measurable: in a run that reaches the start of the session, what was enumerated and
  what the gaps measure add up to the quantity of all trades, whatever the scan stepped past.
\<close>

theorem omission_measured_exactly:
  assumes "serves env run tape" "genuine_tape tape" "pr_ticker run \<in> set allowed_tickers" "in_clock_range (pr_start run)"
    and "paginate env run files = Inr r" "pn_stop r = ''session_start_boundary_reached''"
    and "analyse (sc_rows (pn_scan r)) (pn_stop r) (pn_confirmed r) daily = Inr a"
  shows "\<exists>m. rc_measures (an_reconciliation a) = Some m
    \<and> ms_enumerated_plus_unenumerated m = sum_list (map tr_quantity (older (pr_start run) tape))
    \<and> (ms_gaps m = [] \<longleftrightarrow> set (dd_rows (an_deduped a)) = set (older (pr_start run) tape))"
proof (rule run_measured[OF assms])
  let ?F = "older (pr_start run) tape" and ?D = "dd_rows (an_deduped a)"
  assume d: "distinct ?D" "set ?D \<subseteq> set ?F" "?F \<noteq> []" "hd ?F \<in> set ?D" "last ?F \<in> set ?D"
    "reconcile_session ?D daily (pn_stop r) True False (10 ^ 6) = Inr (an_reconciliation a)"
  have "?D \<noteq> []" using d(4) by auto
  then have "rc_measures (an_reconciliation a) = Some (measure_session ?D daily (10 ^ 6))" using reconciled(1)[OF d(6)] by blast
  then show ?thesis using measured[OF genuine_older[OF assms(2)] d(3,1,2,4,5)] by simp
qed

text \<open>
  C21. A complete verdict is earned: the analysis of a run says complete only if every trade older than the start
  was retrieved, once, and says an exact match only if their quantities add up to the daily volume.
\<close>

theorem complete_verdict_earned:
  assumes "serves env run tape" "genuine_tape tape" "pr_ticker run \<in> set allowed_tickers" "in_clock_range (pr_start run)"
    and "paginate env run files = Inr r"
    and "analyse (sc_rows (pn_scan r)) (pn_stop r) (pn_confirmed r) daily = Inr a"
    and "starts_with (rc_verdict (an_reconciliation a)) ''complete_''"
  shows "mset (dd_rows (an_deduped a)) = mset (older (pr_start run) tape)
    \<and> (rc_verdict (an_reconciliation a) = ''complete_exact_match'' \<longleftrightarrow> daily = Some (sum_list (map tr_quantity (older (pr_start run) tape))))"
proof -
  let ?F = "older (pr_start run) tape" and ?D = "dd_rows (an_deduped a)"
  from assms(6) have rc: "reconcile_session ?D daily (pn_stop r) (pn_confirmed r) False (10 ^ 6) = Inr (an_reconciliation a)"
    by (auto simp: analyse_def bindE_eq_Inr)
  have some: "?D \<noteq> []" using rc assms(7) reconciled_nothing by (force simp: starts_with_def)
  have "pn_confirmed r" using verdict_complete(1) assms(7) unfolding reconciled(2)[OF rc some] by blast
  then have stop: "pn_stop r = ''session_start_boundary_reached''" using run_captured(1)[OF assms(1-5)] by simp
  show ?thesis
  proof (rule run_measured[OF assms(1-5) stop assms(6)])
    assume d: "distinct ?D" "set ?D \<subseteq> set ?F" "?F \<noteq> []" "hd ?F \<in> set ?D" "last ?F \<in> set ?D"
      "reconcile_session ?D daily (pn_stop r) True False (10 ^ 6) = Inr (an_reconciliation a)"
    let ?m = "measure_session ?D daily (10 ^ 6)"
    note m = measured[OF genuine_older[OF assms(2)] d(3,1,2,4,5), of daily "10 ^ 6"]
    note verdict = reconciled(2)[OF d(6) some]
    have "ms_gaps ?m = []" using verdict_complete(2) assms(7) unfolding verdict by blast
    then have all: "set ?D = set ?F" using m(2) by blast
    then have total: "ms_quantity_sum ?m = sum_list (map tr_quantity ?F)" by (rule m(3))
    have "distinct ?F" using genuine_older[OF assms(2)] by (auto simp: genuine_tape_def distinct_map)
    then have "mset ?D = mset ?F" using all d(1) by (simp add: set_eq_iff_mset_eq_distinct)
    moreover have "rc_verdict (an_reconciliation a) = ''complete_exact_match'' \<longleftrightarrow> daily = Some (sum_list (map tr_quantity ?F))"
      using verdict_complete(3)[of "pn_stop r" True daily ?m] assms(7) unfolding verdict total by blast
    ultimately show ?thesis by blast
  qed
qed

definition sparse :: "trade list \<Rightarrow> bool" where
  \<comment> \<open>no second fills a page\<close>
  "sparse tape \<longleftrightarrow> (\<forall>second. length (filter (\<lambda>t. tr_time t = second) tape) < server_row_cap)"

lemma sparse_page:
  assumes "sparse tape" "server_row_cap \<le> length (older c tape)"
  shows "\<exists>t\<in>set (take server_row_cap (older c tape)). tr_time t \<noteq> second"
proof (rule ccontr)
  let ?P = "take server_row_cap (older c tape)" and ?at = "filter (\<lambda>t. tr_time t = second)"
  assume "\<not> (\<exists>t\<in>set ?P. tr_time t \<noteq> second)"
  then have "?at ?P = ?P" by (simp add: filter_id_conv)
  moreover have "length (?at (older c tape)) = length (?at ?P) + length (?at (drop server_row_cap (older c tape)))"
    by (metis append_take_drop_id filter_append length_append)
  ultimately have "length ?P \<le> length (?at (older c tape))" by simp
  moreover have "?at (older c tape) = older c (?at tape)" by (simp add: older_def conj_commute)
  then have "length (?at (older c tape)) \<le> length (?at tape)" by (metis length_filter_le older_def)
  moreover have "length (?at tape) < server_row_cap" using assms(1) by (simp add: sparse_def)
  ultimately show False using assms(2) by simp
qed

lemma step_sparse:
  assumes "serves env run tape" "genuine_tape tape" "pr_ticker run \<in> set allowed_tickers" "sparse tape"
    and "heading s" "in_clock_range (sc_cursor s)" "older (sc_cursor s) tape \<noteq> []"
  obtains s' where "scan_step env run s = Inr (s', Some ''session_start_boundary_reached'')" "sc_dense s' = sc_dense s"
  | s' where "scan_step env run s = Inr (s', None)" "sc_dense s' = sc_dense s" "heading s'" "in_clock_range (sc_cursor s')"
      "older (sc_cursor s') tape \<noteq> []" "length (older (sc_cursor s') tape) < length (older (sc_cursor s) tape)"
proof -
  let ?P = "take server_row_cap (older (sc_cursor s) tape)"
  from step_on_page[OF assms(1,3,7,6) genuine_clock[OF assms(2)]] obtain u s2 where
    s2: "sc_rows s2 = sc_rows s @ ?P" "same_position s s2"
      "scan_step env run s = (if session_start_reached ?P then Inr (add_transition u s2, Some ''session_start_boundary_reached'')
         else advance u ?P (Min (set (map tr_time ?P)) + 1) s2)" .
  show thesis
  proof (cases "session_start_reached ?P")
    case True
    then show thesis using s2 that(1) by (simp add: add_transition_def same_position_def)
  next
    case False
    then have "?P \<noteq> older (sc_cursor s) tape" using session_start_iff[OF genuine_older[OF assms(2)] assms(7)] by blast
    then have full: "server_row_cap \<le> length (older (sc_cursor s) tape)" by (metis nle_le take_all)
    have ne: "?P \<noteq> []" using assms(7) by (simp add: server_row_cap_def)
    have head: "heading s2" "sc_cursor s2 = sc_cursor s" "sc_dense s2 = sc_dense s" using assms(5) s2(2) by (auto simp: heading_def same_position_def)
    have in_page: "tr_time v < sc_cursor s2" "in_clock_range (tr_time v) \<and> in_clock_range (tr_time v + 1)" if "v \<in> set ?P" for v
      using that assms(2) head(2) by (auto simp: older_def genuine_tape_def list_all_iff dest!: in_set_takeD)
    let ?o = "Min (set (map tr_time ?P))"
    from advance_moves[OF head(1) ne in_page, of u] obtain s' where
      s': "advance u ?P (?o + 1) s2 = Inr (s', None)" "sc_rows s' = sc_rows s2" "heading s'" "sc_previous s' \<noteq> None"
        "sc_cursor s' = ?o + 1 \<and> sc_dense s' = sc_dense s2
         \<or> sc_cursor s' = ?o \<and> (\<forall>t\<in>set ?P. tr_time t = ?o) \<and> ?o + 1 = sc_cursor s2
           \<and> (\<exists>d. ds_second d = ?o \<and> sc_dense s' = sc_dense s2 @ [d])" .
    from sparse_page[OF assms(4) full] obtain v where v: "v \<in> set ?P" "tr_time v \<noteq> ?o" by blast
    have here: "sc_cursor s' = ?o + 1" "sc_dense s' = sc_dense s" using s'(5) v head(3) by auto
    have "?o \<in> set (map tr_time ?P)" using ne by (intro Min_in) simp_all
    then obtain w where w: "w \<in> set ?P" "tr_time w = ?o" by auto
    have "?o \<le> tr_time v" using v(1) by (intro Min_le) simp_all
    then have late: "sc_cursor s' \<le> tr_time v" using v(2) here(1) by linarith
    have le: "sc_cursor s' \<le> sc_cursor s" using late in_page(1)[OF v(1)] head(2) by simp
    have "length (older (sc_cursor s') tape) = length (older (sc_cursor s') (older (sc_cursor s) tape))" by (simp add: older_older[OF le])
    also have "\<dots> < length (older (sc_cursor s) tape)"
      unfolding older_def[of "sc_cursor s'"] using late in_set_takeD[OF v(1)] by (intro length_filter_less) auto
    finally have less: "length (older (sc_cursor s') tape) < length (older (sc_cursor s) tape)" .
    have "w \<in> set (older (sc_cursor s') tape)" using w here(1) in_set_takeD[OF w(1)] by (simp add: older_def)
    then have "older (sc_cursor s') tape \<noteq> []" by auto
    moreover have "in_clock_range (sc_cursor s')" using in_page(2)[OF w(1)] w(2) here(1) by simp
    ultimately show thesis using that(2) s2(3) False s'(1,3) here(2) less by simp
  qed
qed

lemma sparse_finishes:
  assumes "serves env run tape" "genuine_tape tape" "pr_ticker run \<in> set allowed_tickers" "sparse tape"
    and "heading s" "in_clock_range (sc_cursor s)" "older (sc_cursor s) tape \<noteq> []" "length (older (sc_cursor s) tape) \<le> n"
  shows "\<exists>s'. scan_loop env run n s = Inr (s', ''session_start_boundary_reached'') \<and> sc_dense s' = sc_dense s"
  using assms(5-8)
proof (induction n arbitrary: s)
  case (Suc n)
  show ?case
  proof (rule step_sparse[OF assms(1-4) Suc.prems(1-3)])
    fix s'
    assume s': "scan_step env run s = Inr (s', None)" "sc_dense s' = sc_dense s" "heading s'" "in_clock_range (sc_cursor s')"
      "older (sc_cursor s') tape \<noteq> []" "length (older (sc_cursor s') tape) < length (older (sc_cursor s) tape)"
    then have "length (older (sc_cursor s') tape) \<le> n" using Suc.prems(4) by simp
    then show ?case using Suc.IH[OF s'(3-5)] s'(1,2) by simp
  qed simp
qed simp

lemma sparse_run:
  assumes "serves env run tape" "genuine_tape tape" "pr_ticker run \<in> set allowed_tickers" "in_clock_range (pr_start run)"
    and "run_budget run = Inr budget" "rb_estimate budget \<noteq> None"
    and "sparse tape" "older (pr_start run) tape \<noteq> []" "int (length (older (pr_start run) tape)) \<le> rb_cap budget"
  shows "\<exists>r d. paginate env run files = Inr r \<and> pn_confirmed r \<and> pn_stop r = ''session_start_boundary_reached'' \<and> sc_dense (pn_scan r) = []
    \<and> dedupe (sc_rows (pn_scan r)) = Inr d \<and> mset (dd_rows d) = mset (older (pr_start run) tape)"
proof -
  let ?F = "older (pr_start run) tape"
  have first: "heading (first_scan run files)" "sc_cursor (first_scan run files) = pr_start run" "sc_dense (first_scan run files) = []"
    by (simp_all add: first_scan_def heading_def)
  have "length ?F \<le> nat (rb_cap budget)" using assms(9) by linarith
  then obtain s where s: "scan_loop env run (nat (rb_cap budget)) (first_scan run files) = Inr (s, ''session_start_boundary_reached'')" "sc_dense s = []"
    using sparse_finishes[OF assms(1-3,7) first(1)] first(2,3) assms(4,8) by auto
  let ?r = "\<lparr>pn_budget = budget, pn_stop = ''session_start_boundary_reached'', pn_confirmed = True, pn_scan = s\<rparr>"
  have r: "paginate env run files = Inr ?r" using s(1) assms(5,6) by (simp add: paginate_def)
  have cap: "captured tape (pr_start run) s" using run_captured(2)[OF assms(1-4) r] by simp
  then have sub: "set (sc_rows s) = set ?F" using s(2) by (auto simp: captured_def reported_def)
  from dedupe_rows[OF genuine_older[OF assms(2)] equalityD1[OF sub]] obtain d where
    d: "dedupe (sc_rows s) = Inr d" "distinct (dd_rows d)" "set (dd_rows d) = set (sc_rows s)" .
  have "distinct ?F" using genuine_older[OF assms(2)] by (auto simp: genuine_tape_def distinct_map)
  then have "mset (dd_rows d) = mset ?F" using d sub by (simp add: set_eq_iff_mset_eq_distinct)
  then show ?thesis using r s(2) d(1) by (intro exI[of _ ?r] exI[of _ d]) simp
qed

text \<open>
  C23. A tape without a full second is scanned to its start: with a request for each trade the scan reaches the
  start of the session without stepping past anything, and its rows, once each, are the trades older than its start.
\<close>

theorem sparse_scan_completes:
  assumes "serves env run tape" "genuine_tape tape" "pr_ticker run \<in> set allowed_tickers" "in_clock_range (pr_start run)"
    and "run_budget run = Inr budget" "rb_estimate budget \<noteq> None"
    and "sparse tape" "older (pr_start run) tape \<noteq> []" "int (length (older (pr_start run) tape)) \<le> rb_cap budget"
  shows "\<exists>r d. paginate env run files = Inr r \<and> pn_confirmed r \<and> sc_dense (pn_scan r) = []
    \<and> dedupe (sc_rows (pn_scan r)) = Inr d \<and> mset (dd_rows d) = mset (older (pr_start run) tape)"
  using sparse_run[OF assms, of files] by blast

section \<open>Replaying a run from its pages\<close>

lemma number_of_pad4 [simp]: "number_of (pad4 n) = n"
proof -
  have "foldl (\<lambda>a c. a * 10 + digit_value c) 0 (replicate k (CHR ''0'')) = 0" for k
    by (induction k) (simp_all add: digit_value_def)
  then show ?thesis using number_of_digits[of n] by (simp add: pad4_def Let_def number_of_def)
qed

lemma pad4_digits: "c \<in> set (pad4 n) \<Longrightarrow> c \<noteq> CHR ''_''"
  by (auto simp: pad4_def Let_def is_digit_def dest: digits_of_nat_digits)

lemma page_prefix_inj: "starts_with (page_prefix m @ rest) (page_prefix n) \<Longrightarrow> m = n"
proof -
  assume "starts_with (page_prefix m @ rest) (page_prefix n)"
  then obtain more where "page_prefix m @ rest = page_prefix n @ more" unfolding starts_with_prefix by blast
  then have eq: "pad4 m @ ''_'' @ rest = pad4 n @ ''_'' @ more" by (simp add: page_prefix_def)
  have "takeWhile (\<lambda>c. c \<noteq> CHR ''_'') (pad4 k @ ''_'' @ r) = pad4 k" for k r
    using pad4_digits by (subst takeWhile_append2) auto
  then have "pad4 m = pad4 n" using eq by metis
  then show "m = n" using number_of_pad4 by metis
qed

definition is_page_of :: "nat \<Rightarrow> string \<Rightarrow> bool" where
  "is_page_of n name \<longleftrightarrow> (\<exists>rest. name = page_prefix n @ rest)"

definition matches_page :: "nat \<Rightarrow> string \<Rightarrow> bool" where
  "matches_page page name \<longleftrightarrow> starts_with name (page_prefix page) \<and> ends_with (drop (length (page_prefix page)) name) ''.raw.json''"

lemma page_name_matches: "is_page_of n (page_name n c digest)" "matches_page n (page_name n c digest)"
  by (auto simp: is_page_of_def page_name_def matches_page_def ends_with_def starts_with_prefix)

lemma aset_names: "set (map fst (aset files name body)) = insert name (set (map fst files))"
  unfolding set_map dom_map_of_conv_image_fst[symmetric] map_of_aset by simp

lemma artifacts_set: "set (page_artifacts files page) = {name \<in> set (map fst files). matches_page page name}"
  by (auto simp: page_artifacts_def matches_page_def)

lemma artifacts_other:
  assumes "is_page_of n name" "n \<noteq> page"
  shows "page_artifacts (aset files name body) page = page_artifacts files page"
proof -
  have "\<not> matches_page page name" using assms page_prefix_inj by (auto simp: is_page_of_def matches_page_def)
  then have "set (page_artifacts (aset files name body) page) = set (page_artifacts files page)"
    by (auto simp: artifacts_set aset_names simp flip: set_map)
  moreover have "sorted (page_artifacts fs page) \<and> distinct (page_artifacts fs page)" for fs by (simp add: page_artifacts_def)
  ultimately show ?thesis by (metis sorted_distinct_set_unique)
qed

lemma artifacts_new:
  assumes "is_page_of n name" "matches_page n name" "\<And>other. other \<in> set (map fst files) \<Longrightarrow> \<exists>m. m \<noteq> n \<and> is_page_of m other"
  shows "page_artifacts (aset files name body) n = [name]"
proof -
  have "\<not> matches_page n other" if "other \<in> set (map fst files)" for other
    using assms(3)[OF that] page_prefix_inj by (auto simp: is_page_of_def matches_page_def)
  then have "set (page_artifacts (aset files name body) n) = set [name]"
    using assms(2) unfolding artifacts_set aset_names by auto
  moreover have "sorted (page_artifacts fs n) \<and> distinct (page_artifacts fs n)" for fs by (simp add: page_artifacts_def)
  ultimately show ?thesis by (metis sorted_distinct_set_unique sorted1 distinct_singleton)
qed

definition replays :: "tape_env \<Rightarrow> pilot_run \<Rightarrow> scan \<Rightarrow> bool" where
  "replays env run s \<longleftrightarrow> load_pages_offline env run (sc_files s) (sc_transitions s) = Inr (sc_rows s)
     \<and> (\<forall>t\<in>set (sc_transitions s). tn_page t \<le> sc_made s) \<and> (\<forall>name\<in>set (map fst (sc_files s)). \<exists>m\<le>sc_made s. is_page_of m name)"

definition adds_page :: "scan \<Rightarrow> transition \<Rightarrow> scan \<Rightarrow> bool" where
  \<comment> \<open>the same files, rows and count, and one more transition, for the page of \<open>t\<close>\<close>
  "adds_page s t s' \<longleftrightarrow> (\<exists>u. sc_transitions s' = sc_transitions s @ [u] \<and> tn_page u = tn_page t \<and> tn_sha u = tn_sha t)
     \<and> sc_rows s' = sc_rows s \<and> sc_files s' = sc_files s \<and> sc_made s' = sc_made s"

lemma adds_page_add: "tn_page u = tn_page t \<Longrightarrow> tn_sha u = tn_sha t \<Longrightarrow> adds_page s t (add_transition u s)"
  "adds_page s t s' \<Longrightarrow> adds_page s t (move_to c s')"
  by (auto simp: adds_page_def add_transition_def move_to_def)

lemma step_past_adds: "step_past t rows failure s = Inr (s', stop) \<Longrightarrow> adds_page s t s'"
  by (auto simp: step_past_def Let_def bindE_eq_Inr adds_page_def add_transition_def move_to_def split: if_splits)

lemma advance_adds: "advance t rows candidate s = Inr (s', stop) \<Longrightarrow> adds_page s t s'"
  by (auto simp: advance_def bindE_eq_Inr split: sum.splits if_splits intro!: adds_page_add dest: step_past_adds)

lemma step_adds:
  assumes "scan_step env run s = Inr (s', stop)"
  obtains body rows t where "page_of env run body = Inr rows" "tn_page t = sc_made s + 1" "tn_sha t = page_hash env body"
    "sc_made s' = sc_made s + 1" "sc_transitions s' = sc_transitions s @ [t]" "sc_rows s' = sc_rows s @ rows"
    "sc_files s' = aset (sc_files s) (page_name (sc_made s + 1) (sc_cursor s) (page_hash env body)) body"
proof -
  from assms obtain body s1 parsed where f: "fetch_page env run s = Inr (body, s1)" "tp_decode env body = Inr parsed"
    by (auto simp: scan_step_def bindE_eq_Inr)
  then have s1: "s1 = s\<lparr>sc_made := sc_made s + 1,
      sc_files := aset (sc_files s) (page_name (sc_made s + 1) (sc_cursor s) (page_hash env body)) body\<rparr>"
    by (auto simp: fetch_page_def bindE_eq_Inr)
  show thesis
  proof (cases "v_true parsed")
    case False
    let ?t = "\<lparr>tn_page = sc_made s1, tn_cursor = sc_cursor s, tn_rows = 0, tn_sha = page_hash env body,
        tn_detail = None, tn_escape = None, tn_failure = None\<rparr>"
    have "s' = add_transition ?t s1" using False assms f by (simp add: scan_step_def)
    moreover have "page_of env run body = Inr []" using f(2) False by (simp add: page_of_def)
    ultimately show thesis using that[of body "[]" ?t] by (simp add: add_transition_def s1)
  next
    case True
    then obtain rows t where rows: "parse_intraday_payload env (pr_ticker run) parsed = Inr rows"
      and t: "transition_of env body (sc_cursor s) rows (s1\<lparr>sc_rows := sc_rows s1 @ rows\<rparr>) = Inr t"
      and rest: "(if session_start_reached rows then Inr (add_transition t (s1\<lparr>sc_rows := sc_rows s1 @ rows\<rparr>), Some ''session_start_boundary_reached'')
        else bindE (next_cursor rows) (\<lambda>candidate. advance t rows candidate (s1\<lparr>sc_rows := sc_rows s1 @ rows\<rparr>))) = Inr (s', stop)"
      using assms f unfolding scan_step_def Let_def by (auto simp: bindE_eq_Inr)
    have "adds_page (s1\<lparr>sc_rows := sc_rows s1 @ rows\<rparr>) t s'"
      using rest by (auto simp: bindE_eq_Inr split: if_splits intro: adds_page_add(1) advance_adds)
    then obtain u where "sc_transitions s' = sc_transitions s @ [u]" "tn_page u = tn_page t" "tn_sha u = tn_sha t"
      "sc_rows s' = sc_rows s @ rows" "sc_files s' = sc_files s1" "sc_made s' = sc_made s + 1" by (auto simp: adds_page_def s1)
    moreover have "tn_page t = sc_made s + 1" "tn_sha t = page_hash env body" using t by (auto simp: transition_of_def bindE_eq_Inr s1)
    moreover have "page_of env run body = Inr rows" using f(2) rows True by (simp add: page_of_def)
    ultimately show thesis using that[of body rows u] by (simp add: s1)
  qed
qed

lemma mapE_append: "mapE f (xs @ ys) = bindE (mapE f xs) (\<lambda>a. bindE (mapE f ys) (\<lambda>b. Inr (a @ b)))"
proof (induction xs)
  case Nil
  show ?case by (cases "mapE f ys") simp_all
next
  case (Cons x xs)
  then show ?case by (cases "f x"; cases "mapE f xs"; cases "mapE f ys") simp_all
qed

lemma step_replays:
  assumes "replays env run s" "scan_step env run s = Inr (s', stop)"
  shows "replays env run s'"
proof -
  from step_adds[OF assms(2)] obtain body rows t where st: "page_of env run body = Inr rows" "tn_page t = sc_made s + 1"
    "tn_sha t = page_hash env body" "sc_made s' = sc_made s + 1" "sc_transitions s' = sc_transitions s @ [t]" "sc_rows s' = sc_rows s @ rows"
    "sc_files s' = aset (sc_files s) (page_name (sc_made s + 1) (sc_cursor s) (page_hash env body)) body" .
  let ?name = "page_name (sc_made s + 1) (sc_cursor s) (page_hash env body)"
  note name = page_name_matches[of "sc_made s + 1" "sc_cursor s" "page_hash env body"]
  have bounds: "\<And>u. u \<in> set (sc_transitions s) \<Longrightarrow> tn_page u \<le> sc_made s"
    "\<And>n. n \<in> set (map fst (sc_files s)) \<Longrightarrow> \<exists>m\<le>sc_made s. is_page_of m n" using assms(1) by (auto simp: replays_def)
  have old: "replay_page env run (sc_files s') u = replay_page env run (sc_files s) u" if u: "u \<in> set (sc_transitions s)" for u
  proof -
    have same: "page_artifacts (sc_files s') (tn_page u) = page_artifacts (sc_files s) (tn_page u)"
      unfolding st(7) using bounds(1)[OF u] by (intro artifacts_other[OF name(1)]) simp
    have "\<not> matches_page (tn_page u) ?name" using name(1) bounds(1)[OF u] page_prefix_inj
      by (fastforce simp: is_page_of_def matches_page_def)
    then have "map_of (sc_files s') n = map_of (sc_files s) n" if "n \<in> set (page_artifacts (sc_files s) (tn_page u))" for n
      using that unfolding artifacts_set st(7) map_of_aset by auto
    then show ?thesis unfolding replay_page_def same by (auto split: list.splits)
  qed
  have others: "\<exists>m. m \<noteq> sc_made s + 1 \<and> is_page_of m n" if "n \<in> set (map fst (sc_files s))" for n
  proof -
    from bounds(2)[OF that] obtain m where "m \<le> sc_made s" "is_page_of m n" by blast
    then show ?thesis by (intro exI[of _ m]) simp
  qed
  have "page_artifacts (sc_files s') (tn_page t) = [?name]"
    unfolding st(2,7) by (rule artifacts_new[OF name others])
  then have new: "replay_page env run (sc_files s') t = Inr rows"
    using st(1,3) by (simp add: replay_page_def st(7) map_of_aset page_of_def)
  obtain pages where pages: "mapE (replay_page env run (sc_files s)) (sc_transitions s) = Inr pages" "concat pages = sc_rows s"
    using assms(1) by (auto simp: replays_def load_pages_offline_def bindE_eq_Inr)
  then have "mapE (replay_page env run (sc_files s')) (sc_transitions s) = Inr pages" using mapE_cong old by metis
  then have "load_pages_offline env run (sc_files s') (sc_transitions s') = Inr (sc_rows s')"
    using new pages(2) by (simp add: load_pages_offline_def st(5,6) mapE_append)
  moreover have "\<exists>m\<le>sc_made s + 1. is_page_of m n" if "n \<in> set (map fst (sc_files s'))" for n
  proof (cases "n = ?name")
    case False
    then have "n \<in> set (map fst (sc_files s))" using that unfolding st(7) aset_names by blast
    from bounds(2)[OF this] obtain m where "m \<le> sc_made s" "is_page_of m n" by blast
    then show ?thesis by (intro exI[of _ m]) simp
  qed (use name(1) in auto)
  moreover have "tn_page u \<le> sc_made s + 1" if "u \<in> set (sc_transitions s')" for u
    using that bounds(1)[of u] st(2) unfolding st(5) by auto
  ultimately show ?thesis unfolding replays_def st(4) by blast
qed

text \<open>
  C24. A run can be analysed offline: replaying its pages from the artifacts it wrote into an empty directory,
  hashes checked, returns the rows it saw, whatever the provider answered.
\<close>

theorem offline_replay_agrees:
  assumes "paginate env run [] = Inr r"
  shows "load_pages_offline env run (sc_files (pn_scan r)) (sc_transitions (pn_scan r)) = Inr (sc_rows (pn_scan r))"
proof -
  have loop: "replays env run s'" if "scan_loop env run n s = Inr (s', stop)" "replays env run s" for n s s' stop
    using that
  proof (induction n arbitrary: s)
    case (Suc n)
    then show ?case by (auto simp: bindE_eq_Inr split: option.splits dest: step_replays)
  qed simp
  have "replays env run (first_scan run [])" by (simp add: replays_def first_scan_def load_pages_offline_def)
  then show ?thesis using assms loop by (auto simp: paginate_def bindE_eq_Inr replays_def split: if_splits)
qed

section \<open>The properties at work\<close>

definition sample_tape :: "trade list" where
  "sample_tape = [
     \<lparr>tr_id = ''c'', tr_time = 1785809703, tr_price = 60, tr_quantity = 100, tr_type = VStr ''b'', tr_volume = Some 600, tr_value = None\<rparr>,
     \<lparr>tr_id = ''b'', tr_time = 1785809701, tr_price = 61, tr_quantity = 300, tr_type = VStr ''s'', tr_volume = Some 500, tr_value = None\<rparr>,
     \<lparr>tr_id = ''a'', tr_time = 1785809700, tr_price = 60, tr_quantity = 200, tr_type = VStr ''b'', tr_volume = Some 200, tr_value = None\<rparr>]"

definition small_run :: pilot_run where
  "small_run = vcb_run\<lparr>pr_expected := 51200, pr_mean := 256\<rparr>"

definition sample_item :: "trade \<Rightarrow> pyv" where
  "sample_item t = VDict [(''id'', VStr (tr_id t)), (''truncTime'', VInt (tr_time t)), (''matchPrice'', VFloat (tr_price t)),
     (''matchVol'', VInt (tr_quantity t)), (''matchType'', tr_type t), (''accumulatedVolume'', VFloat (the (tr_volume t)))]"

definition sample_provider :: tape_env where
  \<comment> \<open>a body is as long as its page\<close>
  "sample_provider = \<lparr>tp_text = sample_text_env, tp_number = (\<lambda>_. None),
     tp_decode = (\<lambda>body. Inr (VList (map sample_item (drop (3 - length body) sample_tape)))),
     tp_request = (\<lambda>n c. Inr (replicate (length (older c sample_tape)) (CHR ''x'')))\<rparr>"

lemma sample_genuine: "genuine_tape sample_tape"
  by code_simp

lemma sample_pages:
  "page_of sample_provider small_run [] = Inr []"
  "page_of sample_provider small_run ''x'' = Inr (drop 2 sample_tape)"
  "page_of sample_provider small_run ''xx'' = Inr (drop 1 sample_tape)"
  "page_of sample_provider small_run ''xxx'' = Inr sample_tape"
  by code_simp+

lemma sample_serves: "serves sample_provider small_run sample_tape"
  unfolding serves_def
proof (intro allI)
  fix n :: nat and c :: int
  let ?k = "length (older c sample_tape)"
  have k: "?k \<le> 3" using length_filter_le[of _ sample_tape] by (simp add: older_def sample_tape_def)
  have suffix: "older c sample_tape = drop (3 - ?k) sample_tape"
  proof -
    have s: "older c sample_tape = drop (length (takeWhile (\<lambda>t. c \<le> tr_time t) sample_tape)) sample_tape"
      using older_suffix[of sample_tape c] sample_genuine dropWhile_eq_drop by (metis genuine_tape_def)
    then have "?k = 3 - length (takeWhile (\<lambda>t. c \<le> tr_time t) sample_tape)" by (metis length_drop sample_tape_def list.size(3,4) numeral_3_eq_3 One_nat_def add_Suc_right add_0_right)
    moreover have "length (takeWhile (\<lambda>t. c \<le> tr_time t) sample_tape) \<le> 3"
      using length_takeWhile_le[of _ sample_tape] by (simp add: sample_tape_def)
    ultimately have "length (takeWhile (\<lambda>t. c \<le> tr_time t) sample_tape) = 3 - ?k" by simp
    then show ?thesis using s by simp
  qed
  have "page_of sample_provider small_run (replicate ?k (CHR ''x'')) = Inr (drop (3 - ?k) sample_tape)"
  proof -
    consider "?k = 0" | "?k = 1" | "?k = 2" | "?k = 3" using k by linarith
    then show ?thesis using sample_pages by cases (simp_all add: numeral_3_eq_3 numeral_2_eq_2 sample_tape_def)
  qed
  moreover have "take server_row_cap (older c sample_tape) = older c sample_tape" using k by (simp add: server_row_cap_def)
  ultimately have "page_of sample_provider small_run (replicate ?k (CHR ''x'')) = Inr (take server_row_cap (older c sample_tape))"
    using suffix by simp
  moreover have "tp_request sample_provider n c = Inr (replicate ?k (CHR ''x''))" by (simp add: sample_provider_def)
  ultimately show "\<exists>body. tp_request sample_provider n c = Inr body
      \<and> page_of sample_provider small_run body = Inr (take server_row_cap (older c sample_tape))" by blast
qed

lemma sample_setting: "pr_ticker small_run \<in> set allowed_tickers" "in_clock_range (pr_start small_run)"
  "older (pr_start small_run) sample_tape = sample_tape" "sparse sample_tape"
proof -
  show "sparse sample_tape" unfolding sparse_def
  proof
    fix second
    show "length (filter (\<lambda>t. tr_time t = second) sample_tape) < server_row_cap"
      using length_filter_le[of _ sample_tape] by (rule le_less_trans) (simp add: sample_tape_def server_row_cap_def)
  qed
qed code_simp+

lemma sample_budget: "\<exists>budget. run_budget small_run = Inr budget \<and> rb_estimate budget \<noteq> None \<and> 3 \<le> rb_cap budget"
proof -
  have "case run_budget small_run of Inl e \<Rightarrow> False | Inr b \<Rightarrow> rb_estimate b \<noteq> None \<and> 3 \<le> rb_cap b" by code_simp
  then show ?thesis by (auto split: sum.splits)
qed

lemma contract_holds:
  assumes "rc_verdict rc \<in> set reconciliation_verdicts"
  shows "\<exists>c. bindE (volume_contract rc unit_ok True) assert_market_scope_not_upgraded = Inr c"
  using assms by (auto simp: volume_contract_def assert_market_scope_not_upgraded_def composition_dimensions_def Let_def)

lemma reconciled_returns:
  assumes "stop \<in> set stop_reasons"
  shows "\<exists>rc. reconcile_session rows daily stop confirmed full_day scale = Inr rc \<and> rc_verdict rc \<in> set reconciliation_verdicts"
proof -
  obtain v reason implied where v: "verdict_of stop confirmed daily (measure_session rows daily scale) = (v, reason, implied)"
    by (cases "verdict_of stop confirmed daily (measure_session rows daily scale)") auto
  then have "v \<in> set reconciliation_verdicts"
    by (auto simp: verdict_of_def reconciliation_verdicts_def split: if_splits option.splits)
  then show ?thesis using assms v by (auto simp: reconcile_session_def Let_def reconciliation_verdicts_def)
qed

lemma analyse_returns:
  assumes "dedupe rows = Inr d" "stop \<in> set stop_reasons"
  obtains a where "analyse rows stop confirmed daily = Inr a"
proof -
  from reconciled_returns[OF assms(2)] obtain rc where
    rc: "reconcile_session (dd_rows d) daily stop confirmed False (10 ^ 6) = Inr rc" "rc_verdict rc \<in> set reconciliation_verdicts" by blast
  from contract_holds[OF rc(2)] obtain c where "bindE (volume_contract rc (values_qualify_unit rc) True) assert_market_scope_not_upgraded = Inr c"
    by blast
  then show thesis using that assms(1) rc(1) by (simp add: analyse_def)
qed

lemma sample_run:
  obtains r a where "paginate sample_provider small_run [] = Inr r" "pn_stop r = ''session_start_boundary_reached''"
    "analyse (sc_rows (pn_scan r)) (pn_stop r) (pn_confirmed r) (Some 600) = Inr a"
    "starts_with (rc_verdict (an_reconciliation a)) ''complete_''"
proof -
  from sample_budget obtain budget where b: "run_budget small_run = Inr budget" "rb_estimate budget \<noteq> None" "3 \<le> rb_cap budget" by blast
  have n: "older (pr_start small_run) sample_tape \<noteq> []" "int (length (older (pr_start small_run) sample_tape)) \<le> rb_cap budget"
    using b(3) unfolding sample_setting(3) by (simp_all add: sample_tape_def)
  from sparse_run[OF sample_serves sample_genuine sample_setting(1,2) b(1,2) sample_setting(4) n, of "[]"] obtain r d where
    r: "paginate sample_provider small_run [] = Inr r" "pn_stop r = ''session_start_boundary_reached''"
      "dedupe (sc_rows (pn_scan r)) = Inr d" "mset (dd_rows d) = mset (older (pr_start small_run) sample_tape)" by blast
  have "pn_stop r \<in> set stop_reasons" using r(2) by (simp add: stop_reasons_def)
  from analyse_returns[OF r(3) this] obtain a where a: "analyse (sc_rows (pn_scan r)) (pn_stop r) (pn_confirmed r) (Some 600) = Inr a" by blast
  then have d: "an_deduped a = d" using r(3) by (auto simp: analyse_def bindE_eq_Inr)
  have "starts_with (rc_verdict (an_reconciliation a)) ''complete_''"
  proof (rule run_measured[OF sample_serves sample_genuine sample_setting(1,2) r(1,2) a])
    let ?F = "older (pr_start small_run) sample_tape" and ?D = "dd_rows (an_deduped a)"
    assume m: "distinct ?D" "set ?D \<subseteq> set ?F" "?F \<noteq> []" "hd ?F \<in> set ?D" "last ?F \<in> set ?D"
      "reconcile_session ?D (Some 600) (pn_stop r) True False (10 ^ 6) = Inr (an_reconciliation a)"
    have some: "?D \<noteq> []" and all: "set ?D = set ?F" using m(4) r(4) d mset_eq_setD by auto
    note ms = measured[OF genuine_older[OF sample_genuine] m(3,1,2,4,5), of "Some 600" "10 ^ 6"]
    have "ms_gaps (measure_session ?D (Some 600) (10 ^ 6)) = []" using ms(2) all by blast
    moreover have "ms_quantity_sum (measure_session ?D (Some 600) (10 ^ 6)) = 600"
      using ms(3)[OF all] unfolding sample_setting(3) by (simp add: sample_tape_def)
    ultimately show ?thesis unfolding reconciled(2)[OF m(6) some] by (simp add: verdict_of_def r(2) starts_with_def)
  qed
  then show thesis using that r(1,2) a by blast
qed

theorem scan_misses_nothing_silently_witness:
  "\<exists>r. paginate sample_provider small_run [] = Inr r
    \<and> pn_stop r \<in> {''session_start_boundary_reached'', ''empty_page'', ''request_cap_reached''}"
proof -
  from sample_budget obtain budget where b: "run_budget small_run = Inr budget" "rb_estimate budget \<noteq> None" by blast
  from scan_misses_nothing_silently[OF sample_serves sample_genuine sample_setting(1,2) b, of "[]"] show ?thesis by blast
qed

theorem omission_measured_exactly_witness:
  "\<exists>r a m. paginate sample_provider small_run [] = Inr r
    \<and> analyse (sc_rows (pn_scan r)) (pn_stop r) (pn_confirmed r) (Some 600) = Inr a
    \<and> rc_measures (an_reconciliation a) = Some m \<and> ms_enumerated_plus_unenumerated m = 600"
proof (rule sample_run)
  fix r a
  assume r: "paginate sample_provider small_run [] = Inr r" "pn_stop r = ''session_start_boundary_reached''"
    "analyse (sc_rows (pn_scan r)) (pn_stop r) (pn_confirmed r) (Some 600) = Inr a"
  have "sum_list (map tr_quantity (older (pr_start small_run) sample_tape)) = 600"
    unfolding sample_setting(3) by (simp add: sample_tape_def)
  then show ?thesis using omission_measured_exactly[OF sample_serves sample_genuine sample_setting(1,2) r] r by metis
qed

theorem complete_verdict_earned_witness:
  "\<exists>r a. paginate sample_provider small_run [] = Inr r
    \<and> analyse (sc_rows (pn_scan r)) (pn_stop r) (pn_confirmed r) (Some 600) = Inr a
    \<and> rc_verdict (an_reconciliation a) = ''complete_exact_match'' \<and> mset (dd_rows (an_deduped a)) = mset sample_tape"
proof (rule sample_run)
  fix r a
  assume r: "paginate sample_provider small_run [] = Inr r"
    "analyse (sc_rows (pn_scan r)) (pn_stop r) (pn_confirmed r) (Some 600) = Inr a"
    "starts_with (rc_verdict (an_reconciliation a)) ''complete_''"
  have "sum_list (map tr_quantity (older (pr_start small_run) sample_tape)) = 600"
    unfolding sample_setting(3) by (simp add: sample_tape_def)
  then show ?thesis using complete_verdict_earned[OF sample_serves sample_genuine sample_setting(1,2) r] r
    unfolding sample_setting(3) by auto
qed

theorem sparse_scan_completes_witness:
  "\<exists>r d. paginate sample_provider small_run [] = Inr r \<and> pn_confirmed r
    \<and> dedupe (sc_rows (pn_scan r)) = Inr d \<and> mset (dd_rows d) = mset sample_tape"
proof -
  from sample_budget obtain budget where b: "run_budget small_run = Inr budget" "rb_estimate budget \<noteq> None" "3 \<le> rb_cap budget" by blast
  have n: "older (pr_start small_run) sample_tape \<noteq> []" "int (length (older (pr_start small_run) sample_tape)) \<le> rb_cap budget"
    using b(3) unfolding sample_setting(3) by (simp_all add: sample_tape_def)
  from sparse_scan_completes[OF sample_serves sample_genuine sample_setting(1,2) b(1,2) sample_setting(4) n, of "[]"]
  show ?thesis unfolding sample_setting(3) by blast
qed

theorem offline_replay_agrees_witness:
  "\<exists>r. paginate sample_provider small_run [] = Inr r
    \<and> load_pages_offline sample_provider small_run (sc_files (pn_scan r)) (sc_transitions (pn_scan r)) = Inr (sc_rows (pn_scan r))"
proof (rule sample_run)
  fix r
  assume r: "paginate sample_provider small_run [] = Inr r"
  show ?thesis using r offline_replay_agrees[OF r] by blast
qed

end
