(* ===== verification/CaseLedger.thy ===== *)
theory CaseLedger
  imports CanonicalJson
begin

text \<open>
  Prospective research cases: \<open>prospective_research_case_learning_ledger.py\<close>.  A case freezes what was
  known at its creation; later observations are appended to its history as updates, each after the one
  before; the ledger counts what the updates of many histories say of their claims.

  A case, an update and a history are mappings, their identities the hash of their canonical text.  The
  values in them are those of a JSON document, so the keys of a mapping are strings; a counter of names
  that are no strings raises here (\<open>tally_names\<close>).  \<open>copy.deepcopy\<close> is the identity, the values
  being immutable.  The hash and the texts of floats are the environment \<open>text_env\<close>.
\<close>

section \<open>Constants and identities\<close>

definition case_method :: string where
  "case_method = ''prospective_research_case_learning_ledger/v1''"

definition lifecycle_states :: "string list" where
  "lifecycle_states =
     [''OPEN'', ''ACTIVE'', ''NEEDS_MORE_EVIDENCE'', ''THESIS_STRENGTHENED'', ''THESIS_WEAKENED'',
      ''THESIS_INVALIDATED'', ''CLOSED_INCONCLUSIVE'', ''CLOSED_RESEARCH_COMPLETE'']"

definition outcome_states :: "string list" where
  "outcome_states =
     [''UNRESOLVED'', ''SUPPORTED'', ''PARTIALLY_SUPPORTED'', ''CONTRADICTED'', ''INVALIDATED_BY_NEW_EVIDENCE'',
      ''NOT_TESTABLE'', ''NOT_APPLICABLE'']"

definition relationship_kinds :: "string list" where
  "relationship_kinds = [''SUPPORTS'', ''CONTRADICTS'', ''RESOLVES'', ''DOES_NOT_ADDRESS'']"

definition scenario_states :: "string list" where
  "scenario_states =
     [''NOT_OBSERVED'', ''EMERGING'', ''OBSERVED'', ''FAILED_TO_MATERIALIZE'', ''INVALIDATED'', ''UNKNOWN'']"

definition identified_by :: "text_env \<Rightarrow> obj \<Rightarrow> string \<Rightarrow> string \<Rightarrow> bool" where
  \<comment> \<open>\<open>_identity\<close>\<close>
  "identified_by env d field pre \<longleftrightarrow> oget d field = VStr (pre @ content_hash env (odel d field))"

definition case_prefix :: string where "case_prefix = ''prospective_research_case:''"

definition case_body :: "obj \<Rightarrow> obj" where
  "case_body d = odel (odel d ''case_id'') ''case_content_identity''"

definition case_identity :: "text_env \<Rightarrow> obj \<Rightarrow> bool" where
  "case_identity env d \<longleftrightarrow>
     oget d ''case_id'' = VStr (case_prefix @ content_hash env (case_body d))
     \<and> oget d ''case_content_identity'' = VStr (case_prefix @ content_hash env (case_body d))"

definition update_prefix :: string where "update_prefix = ''prospective_case_update:''"
definition history_prefix :: string where "history_prefix = ''prospective_case_history:''"

section \<open>Times\<close>

definition parse_time :: "pyv \<Rightarrow> datetime res" where
  \<comment> \<open>\<open>_time\<close>: a value without \<open>replace\<close> raises \<open>AttributeError\<close>, which is not caught\<close>
  "parse_time v =
     (case v of
        VStr s \<Rightarrow> (case datetime_fromisoformat (str_replace ''Z'' ''+00:00'' s) of
                     None \<Rightarrow> raise ValueError ''INVALID_ISO_TIMESTAMP'' | Some t \<Rightarrow> Inr t)
      | _ \<Rightarrow> raise AttributeError ''replace'')"

definition same_kind :: "datetime \<Rightarrow> datetime \<Rightarrow> bool" where
  \<comment> \<open>both with a UTC offset or both without\<close>
  "same_kind t u \<longleftrightarrow> (dt_offset t = None \<longleftrightarrow> dt_offset u = None)"

definition compare_times :: "(int \<Rightarrow> int \<Rightarrow> bool) \<Rightarrow> datetime \<Rightarrow> datetime \<Rightarrow> bool res" where
  \<comment> \<open>\<open><\<close> and \<open><=\<close> of \<open>datetime\<close>\<close>
  "compare_times r t u =
     (if same_kind t u then Inr (r (instant t) (instant u))
      else raise TypeError ''can't compare offset-naive and offset-aware datetimes'')"

definition same_time :: "datetime \<Rightarrow> datetime \<Rightarrow> bool" where
  "same_time t u \<longleftrightarrow> same_kind t u \<and> instant t = instant u"

definition compare_fields :: "(int \<Rightarrow> int \<Rightarrow> bool) \<Rightarrow> pyv res \<Rightarrow> pyv res \<Rightarrow> bool res" where
  \<comment> \<open>the two values are read and parsed from left to right\<close>
  "compare_fields r a b =
     bindE (bindE a parse_time) (\<lambda>t. bindE (bindE b parse_time) (\<lambda>u. compare_times r t u))"

section \<open>Creating a case\<close>

fun find_record :: "pyv \<Rightarrow> pyv list \<Rightarrow> pyv res" where
  "find_record ticker [] = raise ValueError ''TICKER_NOT_IN_DECISION_WORKFLOW''"
| "find_record ticker (row # rows) =
     bindE (attr_item row ''ticker'') (\<lambda>t. if py_eq t ticker then Inr row else find_record ticker rows)"

definition record_of :: "obj \<Rightarrow> pyv \<Rightarrow> pyv res" where
  "record_of decision ticker =
     bindE (bindE (oitem decision ''records'') py_iter) (find_record ticker)"

definition same_items :: "pyv res \<Rightarrow> pyv res \<Rightarrow> string \<Rightarrow> unit res" where
  \<comment> \<open>\<open>if a != b: raise\<close>\<close>
  "same_items a b message =
     bindE a (\<lambda>x. bindE b (\<lambda>y. if py_eq x y then Inr () else raise ValueError message))"

definition evidence_claim :: "pyv \<Rightarrow> pyv res" where
  "evidence_claim item =
     bindE (attr_item item ''evidence_id'') (\<lambda>i. bindE (attr_item item ''classification'') (\<lambda>c.
     bindE (attr_item item ''section'') (\<lambda>s. bindE (attr_item item ''authority'') (\<lambda>a.
       Inr (VDict [(''claim_id'', i), (''claim_type'', c), (''section'', s), (''authority_class'', a),
                   (''supporting_evidence_ids'', VList [i]), (''origin'', VStr ''DETERMINISTIC_DECISION_EVIDENCE'')])))))"

definition provenance_of :: "pyv \<Rightarrow> pyv \<Rightarrow> pyv \<Rightarrow> pyv \<Rightarrow> pyv \<Rightarrow> pyv \<Rightarrow> obj" where
  "provenance_of draft validation review state reviewer edits =
     [(''draft_identity'', draft), (''validation_identity'', validation), (''human_review_identity'', review),
      (''human_review_state'', state), (''human_reviewer'', reviewer), (''human_modifications'', edits)]"

definition no_provenance :: obj where
  "no_provenance = provenance_of VNone VNone VNone (VStr ''HUMAN_REVIEW_REQUIRED'') VNone (VList [])"

definition mapping_of :: "pyv \<Rightarrow> pyv res" where
  \<comment> \<open>\<open>dict(v)\<close> of a mapping\<close>
  "mapping_of v = (case v of VDict d \<Rightarrow> Inr v | _ \<Rightarrow> raise TypeError ''not a mapping'')"

definition draft_claims :: "obj \<Rightarrow> obj \<Rightarrow> obj option \<Rightarrow> obj option \<Rightarrow> (pyv list \<times> obj) res" where
  \<comment> \<open>the claims of a validated draft, with what was reviewed of it\<close>
  "draft_claims ai draft validation review =
     (case validation of
        None \<Rightarrow> raise ValueError ''CASE_DRAFT_NOT_VALIDATED''
      | Some v \<Rightarrow>
        if v = [] \<or> oget v ''validation_status'' \<noteq> VStr ''VALID'' then raise ValueError ''CASE_DRAFT_NOT_VALIDATED'' else
        bindE (oitem ai ''ai_input_identity'') (\<lambda>source.
        if \<not> py_eq (oget v ''source_ai_input_identity'') source then raise ValueError ''CASE_DRAFT_NOT_VALIDATED''
        else if \<not> py_eq (oget draft ''source_ai_input_identity'') source
        then raise ValueError ''CASE_DRAFT_AI_INPUT_MISMATCH'' else
        bindE (case review of None \<Rightarrow> Inr ()
               | Some h \<Rightarrow>
                 if \<not> py_eq (oget h ''source_ai_input_identity'') source
                 then raise ValueError ''CASE_HUMAN_REVIEW_PROVENANCE_MISMATCH''
                 else same_items (Inr (oget h ''validation_identity'')) (oitem v ''validation_identity'')
                        ''CASE_HUMAN_REVIEW_PROVENANCE_MISMATCH'') (\<lambda>_.
        bindE (bindE (oitem draft ''claims'') py_iter) (\<lambda>claims.
        bindE (oitem draft ''draft_identity'') (\<lambda>di. bindE (oitem v ''validation_identity'') (\<lambda>vi.
        case review of
          Some (kv # h) \<Rightarrow>
            bindE (mapping_of (oget_default (kv # h) ''reviewer'' (VDict []))) (\<lambda>reviewer.
            bindE (py_iter (oget_default (kv # h) ''human_modifications'' (VList []))) (\<lambda>edits.
              Inr (claims, provenance_of di vi (oget (kv # h) ''review_packet_identity'')
                (oget (kv # h) ''review_state'') reviewer (VList edits))))
        | _ \<Rightarrow> Inr (claims, provenance_of di vi VNone (VStr ''HUMAN_REVIEW_REQUIRED'') VNone (VList []))))))))"

definition claims_of :: "obj \<Rightarrow> obj option \<Rightarrow> obj option \<Rightarrow> obj option \<Rightarrow> (pyv list \<times> obj) res" where
  "claims_of ai draft validation review =
     (case draft of
        Some d \<Rightarrow> draft_claims ai d validation review
      | None \<Rightarrow> bindE (bindE (bindE (oitem ai ''evidence'') py_iter) (mapE evidence_claim)) (\<lambda>claims.
                  Inr (claims, no_provenance)))"

definition check_t0 :: "obj option \<Rightarrow> unit res" where
  "check_t0 t0 =
     (case t0 of None \<Rightarrow> Inr ()
      | Some t \<Rightarrow>
        if \<not> is_str (oget t ''completed_session'')
        then raise ValueError ''OUTCOME_MEASUREMENT_T0_COMPLETED_SESSION_REQUIRED''
        else let close = oget t ''close'' in
          if close \<noteq> VNone \<and> (\<not> is_dict close \<or> \<not> v_true (oget (the_dict close) ''price_basis_identity'')
                               \<or> \<not> v_true (oget (the_dict close) ''source_identity''))
          then raise ValueError ''OUTCOME_MEASUREMENT_T0_CLOSE_BASIS_IDENTITY_REQUIRED'' else Inr ())"

fun section_claims :: "string \<Rightarrow> pyv list \<Rightarrow> pyv list res" where
  \<comment> \<open>the identifiers of the claims of a section\<close>
  "section_claims name [] = Inr []"
| "section_claims name (claim # claims) =
     bindE (attr_get claim ''section'') (\<lambda>s.
       if s = VStr name
       then bindE (attr_item claim ''claim_id'') (\<lambda>i. bindE (section_claims name claims) (\<lambda>ids. Inr (i # ids)))
       else section_claims name claims)"

definition identify_case :: "text_env \<Rightarrow> obj \<Rightarrow> obj" where
  "identify_case env body =
     (let i = VStr (case_prefix @ content_hash env body) in body @ [(''case_id'', i), (''case_content_identity'', i)])"

definition frozen_case ::
  "obj \<Rightarrow> obj \<Rightarrow> pyv \<Rightarrow> pyv \<Rightarrow> string \<Rightarrow> string \<Rightarrow> pyv list \<times> obj \<Rightarrow> string \<Rightarrow> obj option \<Rightarrow> obj res" where
  \<comment> \<open>the mapping \<open>case\<close>\<close>
  "frozen_case decision ai ticker row created_at known_at claimed lifecycle t0 =
     bindE (mapE (oitem decision) [''as_of'', ''artifact_identity'']) (\<lambda>ds.
     bindE (oitem ai ''ai_input_identity'') (\<lambda>ai_id.
     bindE (mapE (attr_item row) [''strategy_research_lanes'', ''scenario_axis'']) (\<lambda>rs.
     bindE (mapE (oitem ai) [''catalyst_event_state'', ''risks'', ''unknown_or_missing_evidence'',
                             ''blocked_dimensions'', ''evidence'']) (\<lambda>as.
     bindE (bindE (py_iter (as ! 4)) (mapE (\<lambda>item. attr_item item ''evidence_id''))) (\<lambda>ids.
     bindE (section_claims ''THESIS'' (fst claimed)) (\<lambda>thesis.
     bindE (section_claims ''COUNTER_THESIS'' (fst claimed)) (\<lambda>counter.
       Inr [(''schema_version'', VStr ''1.0.0''), (''contract_version'', VStr (case_method @ ''/case'')), (''ticker'', ticker),
            (''created_at'', VStr created_at), (''known_at'', VStr known_at), (''as_of'', ds ! 0),
            (''source_decision_workflow_identity'', ds ! 1), (''source_ai_input_identity'', ai_id),
            (''frozen_universe'', ds ! 0), (''frozen_strategy_research_lanes'', rs ! 0),
            (''frozen_scenario_axis'', rs ! 1), (''frozen_catalyst_evidence'', as ! 0), (''frozen_risks'', as ! 1),
            (''unresolved_questions'', as ! 2), (''blocked_capabilities'', as ! 3), (''original_evidence'', as ! 4),
            (''original_evidence_ids'', VList ids), (''original_claims'', VList (fst claimed)),
            (''thesis_claim_ids'', VList thesis), (''counter_thesis_claim_ids'', VList counter),
            (''ai_human_provenance'', VDict (snd claimed)), (''lifecycle_state'', VStr lifecycle),
            (''outcome_measurement_t0'', case t0 of None \<Rightarrow> VNone | Some t \<Rightarrow> VDict t),
            (''authority_boundary'',
              VDict [(''research_snapshot_not_recommendation'', VBool True), (''no_historical_pit_backfill'', VBool True),
                     (''price_movement_is_not_thesis_proof'', VBool True),
                     (''portfolio_sizing_execution'', VStr ''NOT_EMITTED'')])])))))))"

definition create_research_case ::
  "text_env \<Rightarrow> obj \<Rightarrow> obj \<Rightarrow> string \<Rightarrow> string \<Rightarrow> obj option \<Rightarrow> obj option \<Rightarrow> obj option \<Rightarrow> obj option \<Rightarrow> obj res" where
  "create_research_case env decision ai created_at known_at draft validation review t0 =
     bindE (parse_time (VStr created_at)) (\<lambda>created. bindE (parse_time (VStr known_at)) (\<lambda>known.
     if \<not> same_time created known then raise ValueError ''CASE_CREATED_AT_MUST_EQUAL_KNOWN_AT'' else
     bindE (oitem ai ''ticker'') (\<lambda>ticker. bindE (record_of decision ticker) (\<lambda>row.
     bindE (same_items (oitem ai ''source_decision_workflow_identity'') (oitem decision ''artifact_identity'')
              ''CASE_AI_INPUT_DECISION_IDENTITY_MISMATCH'') (\<lambda>_.
     bindE (same_items (oitem ai ''as_of'') (oitem decision ''as_of'') ''CASE_AS_OF_MISMATCH'') (\<lambda>_.
     bindE (claims_of ai draft validation review) (\<lambda>claimed.
     bindE (oitem ai ''blocked_dimensions'') (\<lambda>blocked.
     bindE (check_t0 t0) (\<lambda>_.
     bindE (frozen_case decision ai ticker row created_at known_at claimed
              (if v_true blocked then ''NEEDS_MORE_EVIDENCE'' else ''OPEN'') t0) (\<lambda>body.
       Inr (identify_case env body)))))))))))"

section \<open>Readiness\<close>

definition keyed_row :: "pyv \<Rightarrow> obj \<Rightarrow> obj res" where
  \<comment> \<open>one step of \<open>{row["ticker"]: row for row in rows}\<close>; the keys of a mapping are strings\<close>
  "keyed_row row d =
     bindE (attr_item row ''ticker'') (\<lambda>t. case t of VStr k \<Rightarrow> Inr (oset d k row) | _ \<Rightarrow> raise TypeError ''key is not a string'')"

definition keyed_rows :: "pyv res \<Rightarrow> obj res" where
  "keyed_rows rows = bindE (bindE rows py_iter) (\<lambda>rs. foldE keyed_row rs [])"

definition blocked_axes :: "pyv \<Rightarrow> pyv list res" where
  \<comment> \<open>\<open>[name for name, value in axes.items() if value["eligibility"] in ("BLOCKED", "UNKNOWN")]\<close>\<close>
  "blocked_axes axes =
     (case axes of
        VDict d \<Rightarrow> filterE (\<lambda>kv. bindE (attr_item (snd kv) ''eligibility'') (\<lambda>e. Inr (e = VStr ''BLOCKED'' \<or> e = VStr ''UNKNOWN'')))
                     (\<lambda>kv. Inr (VStr (fst kv))) d
      | _ \<Rightarrow> raise AttributeError ''items'')"

definition readiness_row :: "obj \<Rightarrow> obj \<Rightarrow> string \<Rightarrow> (pyv list \<times> pyv) res" where
  \<comment> \<open>the reasons of a row and the row\<close>
  "readiness_row packets records ticker =
     bindE (oitem records ticker) (\<lambda>entry.
     bindE (bindE (attr_item entry ''analytical_eligibility'') blocked_axes) (\<lambda>reasons.
     bindE (bindE (oitem packets ticker) (\<lambda>p. attr_item p ''ai_input_identity'')) (\<lambda>i.
     bindE (bindE (attr_item entry ''human_review'') (\<lambda>h. attr_item h ''workflow_state'')) (\<lambda>state.
       Inr (reasons, VDict [(''ticker'', VStr ticker), (''readiness'', VStr ''CASE_CREATABLE''), (''reason_codes'', VList reasons),
         (''ai_input_identity'', i), (''human_review_state'', state), (''model_draft_state'', VStr ''MODEL_DRAFT_PENDING'')])))))"

definition readiness_body :: "obj \<Rightarrow> obj \<Rightarrow> (pyv list \<times> pyv) list \<Rightarrow> obj res" where
  "readiness_body decision collection rows =
     bindE (oitem decision ''as_of'') (\<lambda>as_of. bindE (oitem decision ''artifact_identity'') (\<lambda>workflow.
     bindE (oitem collection ''artifact_identity'') (\<lambda>inputs. bindE (tally_names (concat (map fst rows))) (\<lambda>gaps.
     let n = VInt (int (length rows)) in
       Inr [(''schema_version'', VStr ''1.0.0''), (''contract_version'', VStr (case_method @ ''/readiness'')), (''as_of'', as_of),
            (''source_decision_workflow_identity'', workflow), (''source_ai_input_collection_identity'', inputs),
            (''records'', VList (map snd rows)),
            (''coverage'', VDict [(''cohort_count'', n), (''CASE_CREATABLE'', n), (''NEEDS_MORE_EVIDENCE'', VInt 0),
               (''NOT_CREATABLE'', VInt 0), (''material_gap_dimension_counts'', gaps), (''model_draft_pending_count'', n)]),
            (''authority_boundary'', VDict [(''readiness_is_not_investment_eligibility'', VBool True),
               (''no_cases_persisted_by_readiness'', VBool True), (''historical_backfill'', VStr ''NOT_PERFORMED'')]),
            (''verdict'', VStr ''PROSPECTIVE_CASE_READINESS_READY'')]))))"

definition case_readiness :: "text_env \<Rightarrow> obj \<Rightarrow> obj \<Rightarrow> obj res" where
  "case_readiness env decision collection =
     bindE (same_items (oitem collection ''source_decision_workflow_identity'') (oitem decision ''artifact_identity'')
              ''AI_INPUT_DECISION_WORKFLOW_IDENTITY_MISMATCH'') (\<lambda>_.
     bindE (keyed_rows (oitem collection ''packets'')) (\<lambda>packets. bindE (keyed_rows (oitem decision ''records'')) (\<lambda>records.
     if fst ` set packets \<noteq> fst ` set records then raise ValueError ''CASE_READINESS_COHORT_MISMATCH'' else
     bindE (mapE (readiness_row packets records) (sorted_set (map fst records))) (\<lambda>rows.
     bindE (readiness_body decision collection rows) (\<lambda>body.
       Inr (body @ [(''artifact_identity'', VStr (''prospective_case_readiness:'' @ content_hash env body))]))))))"

text \<open>
  Readiness covers the cohort: one row for each record, in the order of the tickers, and as many are counted
  as creatable, whatever their blocked axes.
\<close>

lemma readiness_covers_cohort:
  assumes "case_readiness env decision collection = Inr a"
  shows "\<exists>packets records rows. keyed_rows (oitem collection ''packets'') = Inr packets
    \<and> keyed_rows (oitem decision ''records'') = Inr records \<and> fst ` set packets = fst ` set records
    \<and> oget a ''records'' = VList rows
    \<and> map (\<lambda>r. oget (the_dict r) ''ticker'') rows = map VStr (sorted_set (map fst records))"
proof -
  from assms obtain packets records rows body where
    p: "keyed_rows (oitem collection ''packets'') = Inr packets" "keyed_rows (oitem decision ''records'') = Inr records"
      "fst ` set packets = fst ` set records"
    and rows: "mapE (readiness_row packets records) (sorted_set (map fst records)) = Inr rows"
    and body: "readiness_body decision collection rows = Inr body"
    and a: "a = body @ [(''artifact_identity'', VStr (''prospective_case_readiness:'' @ content_hash env body))]"
    unfolding case_readiness_def bindE_eq_Inr if_raise_eq_Inr by (simp only: sum.inject not_not) blast
  have row: "oget (the_dict r) ''ticker'' = VStr t" if "readiness_row packets records t = Inr (x, r)" for t x r
    using that unfolding readiness_row_def by (auto simp: bindE_eq_Inr)
  have "map (\<lambda>r. oget (the_dict (snd r)) ''ticker'') rs = map VStr ts"
    if "mapE (readiness_row packets records) ts = Inr rs" for ts rs
    using that by (induction ts arbitrary: rs) (auto simp: bindE_eq_Inr row)
  from this[OF rows] have "map (\<lambda>r. oget (the_dict r) ''ticker'') (map snd rows) = map VStr (sorted_set (map fst records))"
    by (simp add: comp_def)
  moreover obtain x y z w where "body = [(''schema_version'', VStr ''1.0.0''), (''contract_version'', VStr (case_method @ ''/readiness'')),
      (''as_of'', x), (''source_decision_workflow_identity'', y), (''source_ai_input_collection_identity'', z),
      (''records'', VList (map snd rows))] @ w"
    using body unfolding readiness_body_def Let_def by (auto simp: bindE_eq_Inr)
  then have "oget a ''records'' = VList (map snd rows)" by (simp add: a)
  ultimately show ?thesis using p by blast
qed

section \<open>Updates\<close>

definition in_set :: "pyv \<Rightarrow> pyv list \<Rightarrow> bool res" where
  \<comment> \<open>\<open>v in s\<close> for a set of values\<close>
  "in_set v xs = (if hashable v then Inr (list_ex (py_eq v) xs) else raise TypeError ''unhashable type'')"

definition original_claims :: "obj \<Rightarrow> pyv list res" where
  "original_claims c =
     bindE (bindE (oitem c ''original_claims'') py_iter) (mapE (\<lambda>claim.
       bindE (attr_item claim ''claim_id'') (\<lambda>i. if hashable i then Inr i else raise TypeError ''unhashable type'')))"

definition check_relation :: "string \<Rightarrow> pyv list \<Rightarrow> pyv \<Rightarrow> unit res" where
  "check_relation kind claims relation =
     (let invalid = raise ValueError ''UPDATE_CLAIM_RELATION_INVALID'' in
      bindE (bindE (attr_get relation ''original_claim_id'') (\<lambda>i. in_set i claims)) (\<lambda>known. if \<not> known then invalid else
      bindE (bindE (attr_get relation ''relationship'') (\<lambda>r. member_of r relationship_kinds)) (\<lambda>valid. if \<not> valid then invalid else
      bindE (bindE (attr_get relation ''claim_outcome'') (\<lambda>r. member_of r outcome_states)) (\<lambda>valid. if \<not> valid then invalid else
      bindE (attr_item relation ''relationship'') (\<lambda>r.
      if kind = ''MARKET_OBSERVATION'' \<and> r \<noteq> VStr ''DOES_NOT_ADDRESS''
      then raise ValueError ''PRICE_MOVEMENT_CANNOT_PROVE_OR_REFUTE_THESIS'' else Inr ())))))"

definition check_scenario :: "obj \<Rightarrow> pyv \<Rightarrow> unit res" where
  "check_scenario c u =
     (let invalid = raise ValueError ''SCENARIO_OR_CATALYST_UPDATE_INVALID'' in
      bindE (bindE (attr_get u ''state'') (\<lambda>s. member_of s scenario_states)) (\<lambda>valid. if \<not> valid then invalid else
      bindE (attr_get u ''original_evidence_id'') (\<lambda>i. bindE (bindE (oitem c ''original_evidence_ids'') (py_in i)) (\<lambda>known.
      if \<not> known then invalid else Inr ()))))"

definition update_body ::
  "obj \<Rightarrow> string \<Rightarrow> string \<Rightarrow> string \<Rightarrow> string \<Rightarrow> pyv list \<Rightarrow> pyv list \<Rightarrow> pyv list \<Rightarrow> pyv \<Rightarrow> bool \<Rightarrow> obj res" where
  \<comment> \<open>the mapping \<open>update\<close>\<close>
  "update_body c observed_at known_at source kind relationships scenarios catalysts review fixture =
     bindE (oitem c ''case_id'') (\<lambda>i. Inr
       [(''schema_version'', VStr ''1.0.0''), (''contract_version'', VStr (case_method @ ''/case_update'')), (''case_id'', i),
        (''observed_at'', VStr observed_at), (''known_at'', VStr known_at), (''source_evidence_identity'', VStr source),
        (''evidence_kind'', VStr kind), (''relationships'', VList relationships), (''scenario_updates'', VList scenarios),
        (''catalyst_updates'', VList catalysts), (''human_review_identity'', review), (''fixture'', VBool fixture),
        (''relationship_boundary'', VStr ''DESCRIPTIVE_EVIDENCE_RELATION_NOT_INVESTMENT_PERFORMANCE''),
        (''lifecycle_transition_basis'',
          VStr (if v_true review then ''HUMAN_REVIEWED_EVIDENCE_UPDATE'' else ''DETERMINISTIC_EVIDENCE_UPDATE''))])"

definition build_case_update ::
  "text_env \<Rightarrow> obj \<Rightarrow> string \<Rightarrow> string \<Rightarrow> string \<Rightarrow> string \<Rightarrow> pyv list \<Rightarrow> pyv list \<Rightarrow> pyv list \<Rightarrow> pyv \<Rightarrow> bool \<Rightarrow> obj res" where
  "build_case_update env c observed_at known_at source kind relationships scenarios catalysts review fixture =
     (let misordered = raise ValueError ''UPDATE_TEMPORAL_ORDER_INVALID'' in
      bindE (compare_fields (\<le>) (Inr (VStr observed_at)) (oitem c ''known_at'')) (\<lambda>early. if early then misordered else
      bindE (compare_fields (<) (Inr (VStr known_at)) (Inr (VStr observed_at))) (\<lambda>early. if early then misordered else
      if source = [] then raise ValueError ''UPDATE_SOURCE_EVIDENCE_IDENTITY_REQUIRED'' else
      bindE (original_claims c) (\<lambda>claims.
      bindE (foldE (\<lambda>r _. check_relation kind claims r) relationships ()) (\<lambda>_.
      if fixture \<and> kind \<noteq> ''TEST_FIXTURE'' then raise ValueError ''FIXTURE_UPDATE_MUST_BE_EXPLICITLY_TEST_FIXTURE'' else
      bindE (foldE (\<lambda>u _. check_scenario c u) (scenarios @ catalysts) ()) (\<lambda>_.
      bindE (update_body c observed_at known_at source kind relationships scenarios catalysts review fixture) (\<lambda>body.
        Inr (body @ [(''update_identity'', VStr (update_prefix @ content_hash env body))]))))))))"

definition foreign_update :: "text_env \<Rightarrow> obj \<Rightarrow> pyv \<Rightarrow> bool res" where
  \<comment> \<open>a prior update of another case, or one that was changed\<close>
  "foreign_update env c item =
     bindE (attr_get item ''case_id'') (\<lambda>i.
       Inr (\<not> py_eq i (oget c ''case_id'') \<or> \<not> identified_by env (the_dict item) ''update_identity'' update_prefix))"

definition same_update :: "obj \<Rightarrow> pyv \<Rightarrow> bool res" where
  "same_update u item =
     bindE (attr_get item ''update_identity'') (\<lambda>i. Inr (py_eq i (oget u ''update_identity'')))"

definition looks_ahead :: "obj \<Rightarrow> pyv \<Rightarrow> bool res" where
  "looks_ahead c item = compare_fields (\<le>) (attr_item item ''observed_at'') (oitem c ''known_at'')"

definition history_body :: "obj \<Rightarrow> pyv list \<Rightarrow> pyv \<Rightarrow> obj" where
  "history_body c updates lifecycle =
     [(''schema_version'', VStr ''1.0.0''), (''contract_version'', VStr (case_method @ ''/case_history'')),
      (''case'', VDict c), (''updates'', VList updates), (''lifecycle_state'', lifecycle),
      (''authority_boundary'',
        VDict [(''original_case_immutable'', VBool True), (''updates_append_only'', VBool True),
               (''price_movement_not_thesis_proof'', VBool True), (''investment_authority'', VStr ''NOT_EMITTED'')])]"

definition identify_history :: "text_env \<Rightarrow> obj \<Rightarrow> obj" where
  "identify_history env body = body @ [(''case_history_identity'', VStr (history_prefix @ content_hash env body))]"

definition append_case_update :: "text_env \<Rightarrow> obj \<Rightarrow> pyv list \<Rightarrow> obj \<Rightarrow> pyv \<Rightarrow> obj res" where
  "append_case_update env c prior u lifecycle =
     (if \<not> case_identity env c then raise ValueError ''CASE_CONTENT_IDENTITY_INVALID'' else
      bindE (member_of lifecycle lifecycle_states) (\<lambda>valid.
      if \<not> valid \<or> \<not> py_eq (oget u ''case_id'') (oget c ''case_id'')
      then raise ValueError ''CASE_UPDATE_LIFECYCLE_INVALID''
      else if \<not> identified_by env u ''update_identity'' update_prefix
      then raise ValueError ''CASE_UPDATE_IDENTITY_INVALID'' else
      bindE (anyE (foreign_update env c) prior) (\<lambda>foreign.
      if foreign then raise ValueError ''PRIOR_CASE_UPDATE_IDENTITY_INVALID'' else
      bindE (anyE (same_update u) prior) (\<lambda>again.
      if again then raise ValueError ''CASE_UPDATE_ALREADY_APPENDED'' else
      bindE (if prior = [] then Inr False
             else compare_fields (\<le>) (oitem u ''observed_at'') (attr_item (last prior) ''observed_at'')) (\<lambda>late.
      if late then raise ValueError ''CASE_UPDATE_OBSERVED_ORDER_INVALID'' else
      bindE (anyE (looks_ahead c) (prior @ [VDict u])) (\<lambda>ahead.
      if ahead then raise ValueError ''CASE_HISTORY_LOOKAHEAD_VIOLATION'' else
      Inr (identify_history env (history_body c (prior @ [VDict u]) lifecycle))))))))"

section \<open>The learning ledger\<close>

record learning =
  ln_relationships :: "pyv list"
  ln_fixtures :: nat
  ln_blockers :: "pyv list"
  ln_gaps :: "string list"
  ln_edits :: nat

definition counted_names :: "pyv \<Rightarrow> pyv list res" where
  \<comment> \<open>what \<open>Counter.update\<close> counts of a list of names\<close>
  "counted_names v =
     (case v of VNone \<Rightarrow> Inr []
      | VList xs \<Rightarrow> if list_all hashable xs then Inr xs else raise TypeError ''unhashable type''
      | VStr s \<Rightarrow> py_iter v
      | _ \<Rightarrow> raise TypeError ''object is not iterable'')"

fun lane_gaps :: "obj \<Rightarrow> string list res" where
  "lane_gaps [] = Inr []"
| "lane_gaps ((name, v) # lanes) =
     bindE (attr_item v ''eligibility'') (\<lambda>e. bindE (lane_gaps lanes) (\<lambda>names.
       Inr (if e \<in> {VStr ''BLOCKED'', VStr ''UNKNOWN''} then name # names else names)))"

definition items_of :: "pyv \<Rightarrow> obj res" where
  "items_of v = (case v of VDict d \<Rightarrow> Inr d | _ \<Rightarrow> raise AttributeError ''items'')"

definition learn_update :: "text_env \<Rightarrow> pyv \<Rightarrow> learning \<Rightarrow> learning res" where
  "learn_update env item l =
     bindE (mapping_of item) (\<lambda>m.
     if \<not> identified_by env (the_dict m) ''update_identity'' update_prefix
     then raise ValueError ''CASE_UPDATE_IDENTITY_INVALID'' else
     bindE (oitem (the_dict m) ''fixture'') (\<lambda>fixture.
     if v_true fixture then Inr (l\<lparr>ln_fixtures := ln_fixtures l + 1\<rparr>)
     else bindE (bindE (oitem (the_dict m) ''relationships'') py_iter) (\<lambda>rs.
       Inr (l\<lparr>ln_relationships := ln_relationships l @ rs\<rparr>))))"

definition learn_history :: "text_env \<Rightarrow> obj \<Rightarrow> learning \<Rightarrow> learning res" where
  "learn_history env h l =
     (if \<not> identified_by env h ''case_history_identity'' history_prefix
      then raise ValueError ''CASE_HISTORY_IDENTITY_INVALID'' else
      bindE (bindE (oitem h ''case'') mapping_of) (\<lambda>m. let c = the_dict m in
      if \<not> case_identity env c then raise ValueError ''CASE_CONTENT_IDENTITY_INVALID'' else
      bindE (bindE (oitem c ''blocked_capabilities'') counted_names) (\<lambda>blockers.
      bindE (bindE (bindE (oitem c ''frozen_strategy_research_lanes'') items_of) lane_gaps) (\<lambda>gaps.
      bindE (bindE (bindE (oitem c ''ai_human_provenance'') (\<lambda>p. attr_item p ''human_modifications'')) py_size) (\<lambda>edits.
      bindE (bindE (oitem h ''updates'') py_iter) (\<lambda>updates.
        foldE (learn_update env) updates
          (l\<lparr>ln_blockers := ln_blockers l @ blockers, ln_gaps := ln_gaps l @ gaps, ln_edits := ln_edits l + edits\<rparr>)))))))"

definition nothing_learned :: learning where
  "nothing_learned = \<lparr>ln_relationships = [], ln_fixtures = 0, ln_blockers = [], ln_gaps = [], ln_edits = 0\<rparr>"

definition learning_body :: "nat \<Rightarrow> learning \<Rightarrow> obj res" where
  "learning_body n l =
     bindE (mapE (\<lambda>r. attr_item r ''claim_outcome'') (ln_relationships l)) (\<lambda>outcomes.
     bindE (tally_names outcomes) (\<lambda>outcome_counts.
     bindE (bindE (mapE (\<lambda>r. attr_item r ''relationship'') (ln_relationships l)) tally_names) (\<lambda>relationship_counts.
     bindE (tally_names (ln_blockers l)) (\<lambda>blocker_counts.
     bindE (tally_names (map VStr (ln_gaps l))) (\<lambda>gap_counts.
       Inr [(''schema_version'', VStr ''1.0.0''), (''contract_version'', VStr (case_method @ ''/learning_ledger'')),
            (''case_history_count'', VInt (int n)),
            (''production_observation_summary'',
              VDict [(''claim_outcome_counts'', outcome_counts), (''relationship_counts'', relationship_counts),
                     (''resolved_claim_count'', VInt (int (length (filter (\<lambda>v. v \<noteq> VStr ''UNRESOLVED'') outcomes))))]),
            (''patterns'',
              VDict [(''authority_blocker_counts'', blocker_counts), (''strategy_lane_gap_counts'', gap_counts),
                     (''human_edit_count'', VInt (int (ln_edits l))),
                     (''fixture_update_count_excluded_from_learning'', VInt (int (ln_fixtures l)))]),
            (''authority_boundary'',
              VDict [(''observational_learning_only'', VBool True), (''fixture_updates_excluded'', VBool True),
                     (''no_automatic_model_rule_or_authority_promotion'', VBool True),
                     (''recommendation_weights_execution'', VStr ''NOT_EMITTED'')]),
            (''verdict'', VStr ''PROSPECTIVE_RESEARCH_CASE_LEARNING_LEDGER_READY'')])))))"

definition build_learning_ledger :: "text_env \<Rightarrow> obj list \<Rightarrow> obj res" where
  "build_learning_ledger env histories =
     bindE (foldE (learn_history env) histories nothing_learned) (\<lambda>l.
     bindE (learning_body (length histories) l) (\<lambda>body.
       Inr (body @ [(''ledger_identity'',
         VStr (''prospective_research_case_learning_ledger:'' @ content_hash env body))])))"

section \<open>Identities hold by construction\<close>

declare oget_append_keys [simp]

lemma odel_append: "odel (d @ e) k = odel d k @ odel e k"
  by (simp add: odel_def)

lemma identify_case_ok:
  assumes "''case_id'' \<notin> fst ` set body" "''case_content_identity'' \<notin> fst ` set body"
  shows "case_identity env (identify_case env body)" "case_body (identify_case env body) = body"
proof -
  show *: "case_body (identify_case env body) = body"
    using assms by (simp add: case_body_def identify_case_def Let_def odel_append odel_absent)
  show "case_identity env (identify_case env body)"
    unfolding case_identity_def * using assms by (simp add: identify_case_def Let_def)
qed

lemma identified_by_append:
  assumes "field \<notin> fst ` set body"
  shows "identified_by env (body @ [(field, VStr (pre @ content_hash env body))]) field pre"
  using assms by (simp add: identified_by_def odel_append odel_absent)

lemma frozen_case_fields:
  assumes "frozen_case decision ai ticker row created_at known_at claimed lifecycle t0 = Inr body"
  shows "map fst body =
     [''schema_version'', ''contract_version'', ''ticker'', ''created_at'', ''known_at'', ''as_of'',
      ''source_decision_workflow_identity'', ''source_ai_input_identity'', ''frozen_universe'',
      ''frozen_strategy_research_lanes'', ''frozen_scenario_axis'', ''frozen_catalyst_evidence'', ''frozen_risks'',
      ''unresolved_questions'', ''blocked_capabilities'', ''original_evidence'', ''original_evidence_ids'',
      ''original_claims'', ''thesis_claim_ids'', ''counter_thesis_claim_ids'', ''ai_human_provenance'',
      ''lifecycle_state'', ''outcome_measurement_t0'', ''authority_boundary'']"
    "oget body ''known_at'' = VStr known_at" "oget body ''lifecycle_state'' = VStr lifecycle"
    "\<exists>ids. oget body ''original_evidence_ids'' = VList ids" "oget body ''original_claims'' = VList (fst claimed)"
  using assms unfolding frozen_case_def by (auto simp: res_simps)

lemma created_case:
  assumes "create_research_case env decision ai created_at known_at draft validation review t0 = Inr c"
  shows "case_identity env c" "oget c ''known_at'' = VStr known_at"
    "\<exists>k. parse_time (VStr known_at) = Inr k"
    "oget c ''lifecycle_state'' \<in> {VStr ''OPEN'', VStr ''NEEDS_MORE_EVIDENCE''}"
proof -
  from assms obtain ticker row claimed lifecycle body where
    body: "frozen_case decision ai ticker row created_at known_at claimed lifecycle t0 = Inr body"
    and c: "c = identify_case env body" and l: "lifecycle \<in> {''OPEN'', ''NEEDS_MORE_EVIDENCE''}"
    and k: "\<exists>k. parse_time (VStr known_at) = Inr k"
    unfolding create_research_case_def by (auto simp: res_simps split: if_splits)
  note keys = frozen_case_fields(1)[OF body, THEN arg_cong, of set]
  have fresh: "''case_id'' \<notin> fst ` set body" "''case_content_identity'' \<notin> fst ` set body"
    using keys by simp_all
  show "case_identity env c" unfolding c by (rule identify_case_ok(1)[OF fresh])
  have "''known_at'' \<in> fst ` set body" "''lifecycle_state'' \<in> fst ` set body" using keys by simp_all
  then show "oget c ''known_at'' = VStr known_at"
    "oget c ''lifecycle_state'' \<in> {VStr ''OPEN'', VStr ''NEEDS_MORE_EVIDENCE''}"
    unfolding c identify_case_def Let_def using frozen_case_fields[OF body] l by auto
  show "\<exists>k. parse_time (VStr known_at) = Inr k" by (rule k)
qed

section \<open>What a built update says\<close>

lemma foldE_unit: "foldE (\<lambda>x _. f x) xs () = Inr () \<longleftrightarrow> (\<forall>x\<in>set xs. f x = Inr ())"
proof (induction xs)
  case (Cons x xs)
  then show ?case by (cases "f x") auto
qed simp

lemma compare_fields_Inr:
  "compare_fields r a b = Inr v \<longleftrightarrow>
     (\<exists>x y t u. a = Inr x \<and> b = Inr y \<and> parse_time x = Inr t \<and> parse_time y = Inr u \<and> same_kind t u
        \<and> v = r (instant t) (instant u))"
  by (auto simp: compare_fields_def compare_times_def res_simps)

lemma update_body_fields:
  assumes "update_body c observed_at known_at source kind relationships scenarios catalysts review fixture = Inr body"
  shows "''update_identity'' \<notin> fst ` set body" "oget body ''observed_at'' = VStr observed_at"
    "oget body ''case_id'' = oget c ''case_id''" "oget body ''relationships'' = VList relationships"
    "oget body ''fixture'' = VBool fixture" "oget body ''known_at'' = VStr known_at"
  using assms by (auto simp: update_body_def oitem_def oget_def res_simps split: option.splits)

section \<open>The history of a case\<close>

text \<open>
  What can be appended to a case: the updates recorded so far and the state the last one left the case
  in, starting with no updates and the state of the case.
\<close>

inductive recorded :: "text_env \<Rightarrow> obj \<Rightarrow> pyv list \<Rightarrow> pyv \<Rightarrow> bool" for env c where
  start: "recorded env c [] (oget c ''lifecycle_state'')"
| append: "recorded env c us lifecycle \<Longrightarrow> append_case_update env c us u lifecycle' = Inr h
    \<Longrightarrow> recorded env c (us @ [VDict u]) lifecycle'"

inductive_cases recorded_snocE: "recorded env c (us @ [u]) lifecycle"

definition observed_time :: "pyv \<Rightarrow> datetime" where
  "observed_time item = (case bindE (attr_item item ''observed_at'') parse_time of Inr t \<Rightarrow> t)"

definition known_time :: "obj \<Rightarrow> datetime" where
  "known_time c = (case bindE (oitem c ''known_at'') parse_time of Inr t \<Rightarrow> t)"

definition after_case :: "obj \<Rightarrow> pyv \<Rightarrow> bool" where
  \<comment> \<open>observed at a time that is later than what the case knew\<close>
  "after_case c item \<longleftrightarrow> is_ok (bindE (attr_item item ''observed_at'') parse_time)
     \<and> is_ok (bindE (oitem c ''known_at'') parse_time)
     \<and> same_kind (observed_time item) (known_time c) \<and> instant (known_time c) < instant (observed_time item)"

definition own_update :: "text_env \<Rightarrow> obj \<Rightarrow> pyv \<Rightarrow> bool" where
  "own_update env c item \<longleftrightarrow> is_dict item \<and> oget (the_dict item) ''case_id'' = oget c ''case_id''
     \<and> identified_by env (the_dict item) ''update_identity'' update_prefix"

definition observed_before :: "pyv \<Rightarrow> pyv \<Rightarrow> bool" where
  "observed_before x y \<longleftrightarrow> instant (observed_time x) < instant (observed_time y)"

lemma attr_get_Inr: "attr_get v k = Inr w \<longleftrightarrow> (\<exists>d. v = VDict d \<and> w = oget d k)"
  by (cases v) (auto simp: attr_get_def)

lemma attr_item_simps [simp]: "attr_item (VDict d) k = oitem d k"
  by (simp add: attr_item_def)

lemma looks_ahead_False: "looks_ahead c item = Inr False \<longleftrightarrow> after_case c item"
  by (auto simp: looks_ahead_def compare_fields_Inr after_case_def observed_time_def known_time_def not_le
      res_simps elim!: is_okE)

lemma foreign_update_False:
  assumes "case_identity env c"
  shows "foreign_update env c item = Inr False \<longleftrightarrow> own_update env c item"
  using assms by (cases item) (auto simp: foreign_update_def own_update_def attr_get_def case_identity_def)

lemma same_update_False:
  "same_update u item = Inr False \<longleftrightarrow> (\<exists>d. item = VDict d \<and> \<not> py_eq (oget d ''update_identity'') (oget u ''update_identity''))"
  by (cases item) (auto simp: same_update_def attr_get_def)

lemma lifecycle_member: "member_of v lifecycle_states = Inr True \<longleftrightarrow> v \<in> VStr ` set lifecycle_states"
  by (cases v) (auto simp: member_of_def)

lemma guard_Inr:
  "bindE r (\<lambda>b. if b then raise x m else k) = Inr w \<longleftrightarrow> r = Inr False \<and> k = Inr w"
  "bindE r (\<lambda>b. if \<not> b then raise x m else k) = Inr w \<longleftrightarrow> r = Inr True \<and> k = Inr w"
  "bindE r (\<lambda>b. if \<not> b \<or> p then raise x m else k) = Inr w \<longleftrightarrow> r = Inr True \<and> \<not> p \<and> k = Inr w"
  by (auto simp: bindE_eq_Inr)

lemma append_case_update_Inr:
  "append_case_update env c us u lifecycle = Inr h \<longleftrightarrow>
     case_identity env c \<and> lifecycle \<in> VStr ` set lifecycle_states \<and> own_update env c (VDict u)
     \<and> (\<forall>item\<in>set us. own_update env c item)
     \<and> (\<forall>item\<in>set us. oget (the_dict item) ''update_identity'' \<noteq> oget u ''update_identity'')
     \<and> (us \<noteq> [] \<longrightarrow> compare_fields (\<le>) (oitem u ''observed_at'') (attr_item (last us) ''observed_at'') = Inr False)
     \<and> (\<forall>item\<in>set us \<union> {VDict u}. after_case c item)
     \<and> h = identify_history env (history_body c (us @ [VDict u]) lifecycle)"
  (is "?l \<longleftrightarrow> ?r")
proof (cases "case_identity env c")
  case True
  note id = foreign_update_False[OF True] 
  obtain i where i: "oget c ''case_id'' = VStr i" using True by (auto simp: case_identity_def)
  have own: "own_update env c (VDict u) = (py_eq (oget u ''case_id'') (oget c ''case_id'')
      \<and> identified_by env u ''update_identity'' update_prefix)"
    by (simp add: own_update_def i)
  have same: "(\<forall>item\<in>set us. same_update u item = Inr False) \<longleftrightarrow>
      (\<forall>item\<in>set us. oget (the_dict item) ''update_identity'' \<noteq> oget u ''update_identity'')"
    if mine: "own_update env c (VDict u)" "\<forall>item\<in>set us. own_update env c item"
  proof -
    obtain j where "oget u ''update_identity'' = VStr j" using mine(1) by (auto simp: own_update_def identified_by_def)
    then show ?thesis using mine(2) unfolding same_update_False own_update_def by (fastforce elim!: is_dict.elims)
  qed
  have "?l \<longleftrightarrow> lifecycle \<in> VStr ` set lifecycle_states \<and> own_update env c (VDict u)
     \<and> (\<forall>item\<in>set us. own_update env c item) \<and> (\<forall>item\<in>set us. same_update u item = Inr False)
     \<and> (us \<noteq> [] \<longrightarrow> compare_fields (\<le>) (oitem u ''observed_at'') (attr_item (last us) ''observed_at'') = Inr False)
     \<and> (\<forall>item\<in>set us \<union> {VDict u}. after_case c item)
     \<and> h = identify_history env (history_body c (us @ [VDict u]) lifecycle)"
    unfolding append_case_update_def guard_Inr if_raise_eq_Inr anyE_False id own looks_ahead_False[symmetric]
      lifecycle_member[symmetric] not_not
    using True by auto
  then show ?thesis using same True by blast
qed (simp add: append_case_update_def)

definition update_id :: "pyv \<Rightarrow> pyv" where
  "update_id item = oget (the_dict item) ''update_identity''"

definition history_ok :: "text_env \<Rightarrow> obj \<Rightarrow> pyv list \<Rightarrow> bool" where
  "history_ok env c us \<longleftrightarrow> sorted_wrt observed_before us \<and> distinct (map update_id us)
     \<and> (\<forall>item\<in>set us. own_update env c item \<and> after_case c item)"

lemma later_than_last:
  assumes "sorted_wrt observed_before us" "us \<noteq> [] \<Longrightarrow> observed_before (last us) x" "y \<in> set us"
  shows "observed_before y x"
proof -
  from assms(3) obtain zs z where us: "us = zs @ [z]" by (cases us rule: rev_cases) auto
  then show ?thesis using assms by (cases "y = z") (auto simp: sorted_wrt_append observed_before_def)
qed

lemma after_last:
  "compare_fields (\<le>) (oitem u ''observed_at'') (attr_item x ''observed_at'') = Inr False
    \<Longrightarrow> observed_before x (VDict u)"
  by (auto simp: compare_fields_Inr observed_before_def observed_time_def)

lemma appended_ok:
  assumes "history_ok env c us" "append_case_update env c us u lifecycle = Inr h"
  shows "history_ok env c (us @ [VDict u])"
proof -
  note u = assms(2)[unfolded append_case_update_Inr]
  have "observed_before x (VDict u)" if "x \<in> set us" for x
    using later_than_last[of us "VDict u" x] u that assms(1) after_last by (auto simp: history_ok_def)
  then show ?thesis using u assms(1) unfolding history_ok_def
    by (auto simp: sorted_wrt_append update_id_def)
qed

lemma recorded_ok:
  assumes "recorded env c us lifecycle"
  shows "history_ok env c us" "lifecycle \<in> insert (oget c ''lifecycle_state'') (VStr ` set lifecycle_states)"
  using assms by (induction rule: recorded.induct)
    (auto simp: history_ok_def[of _ _ "[]"] intro: appended_ok, auto simp: append_case_update_Inr)

section \<open>Every case can be continued\<close>

lemma updates_differ:
  assumes "inj (te_sha env)" "float_text (te_float env)"
    and "own_update env c item" "update_id item = VStr (update_prefix @ content_hash env body)"
    and "oget body ''observed_at'' = VStr s"
  shows "attr_item item ''observed_at'' = Inr (VStr s)"
proof -
  obtain d where item: "item = VDict d" using assms(3) by (cases item) (auto simp: own_update_def)
  have "json_dumps (te_float env) (VDict (odel d ''update_identity'')) = json_dumps (te_float env) (VDict body)"
    using assms(3,4) injD[OF assms(1)]
    by (auto simp: own_update_def identified_by_def update_id_def item content_hash_def canonical_def)
  note same = json_dumps_inject[OF assms(2) this]
  have "sort_keys (oget d ''observed_at'') = sort_keys (oget (odel d ''update_identity'') ''observed_at'')" by simp
  also have "\<dots> = sort_keys (oget body ''observed_at'')" using same by (simp only: flip: oget_sort_keys)
  finally have "sort_keys (oget d ''observed_at'') = VStr s" by (simp add: assms(5))
  then have "oget d ''observed_at'' = VStr s" by simp
  then show ?thesis by (simp add: item oitem_def oget_def split: option.splits)
qed

lemma next_update:
  assumes rec: "history_ok env c us" and c: "case_identity env c" and env: "inj (te_sha env)" "float_text (te_float env)"
    and t: "parse_time (VStr s) = Inr t" and k: "oitem c ''known_at'' = Inr kv" "parse_time kv = Inr k"
    and later: "same_kind t k" "instant k < instant t" "\<forall>item\<in>set us. instant (observed_time item) < instant t"
    and claims: "original_claims c = Inr claims" and rs: "\<forall>r\<in>set rs. check_relation kind claims r = Inr ()"
    and source: "source \<noteq> []" and state: "state \<in> set lifecycle_states"
  shows "\<exists>u h. build_case_update env c s s source kind rs [] [] VNone False = Inr u
     \<and> append_case_update env c us u (VStr state) = Inr h \<and> oitem u ''observed_at'' = Inr (VStr s)
     \<and> oget u ''relationships'' = VList rs \<and> oget u ''fixture'' = VBool False"
proof -
  have id: "oitem c ''case_id'' = Inr (oget c ''case_id'')"
    using c by (auto simp: case_identity_def oitem_def oget_def split: option.splits)
  then obtain body where body: "update_body c s s source kind rs [] [] VNone False = Inr body"
    by (simp add: update_body_def)
  note fields = update_body_fields[OF body]
  let ?u = "body @ [(''update_identity'', VStr (update_prefix @ content_hash env body))]"
  have checked: "foldE (\<lambda>r _. check_relation kind claims r) rs () = Inr ()" using rs by (simp only: foldE_unit)
  have built: "build_case_update env c s s source kind rs [] [] VNone False = Inr ?u"
  proof -
    have "compare_fields (\<le>) (Inr (VStr s)) (oitem c ''known_at'') = Inr False"
      "compare_fields (<) (Inr (VStr s)) (Inr (VStr s)) = Inr False"
      using t k later by (simp_all add: compare_fields_def compare_times_def same_kind_def)
    then show ?thesis unfolding build_case_update_def Let_def using claims source body checked by simp
  qed
  have at: "oitem ?u ''observed_at'' = Inr (VStr s)"
    using fields(2) by (simp add: oitem_def oget_def map_add_def split: option.splits)
  have "''case_id'' \<in> fst ` set body" using body by (auto simp: update_body_def res_simps)
  then have own: "own_update env c (VDict ?u)"
    using identified_by_append[OF fields(1)] fields(3) by (auto simp: own_update_def)
  have time: "observed_time (VDict ?u) = t" by (simp add: observed_time_def at t)
  have after: "after_case c (VDict ?u)"
    using t k later by (simp add: after_case_def at time known_time_def)
  have fresh: "update_id item \<noteq> VStr (update_prefix @ content_hash env body)" if item: "item \<in> set us" for item
  proof
    assume same: "update_id item = VStr (update_prefix @ content_hash env body)"
    have "own_update env c item" using rec item by (simp add: history_ok_def)
    from updates_differ[OF env this same fields(2)] have "observed_time item = t" by (simp add: observed_time_def t)
    then show False using later(3) item by auto
  qed
  have before: "compare_fields (\<le>) (oitem ?u ''observed_at'') (attr_item (last us) ''observed_at'') = Inr False" if "us \<noteq> []"
  proof -
    have l: "after_case c (last us)" "instant (observed_time (last us)) < instant t"
      using rec later(3) that by (auto simp: history_ok_def)
    then obtain v where "attr_item (last us) ''observed_at'' = Inr v" "parse_time v = Inr (observed_time (last us))"
      by (auto simp: after_case_def observed_time_def res_simps elim!: is_okE)
    moreover have "same_kind t (observed_time (last us))"
      using l(1) later(1) k by (auto simp: after_case_def same_kind_def known_time_def)
    ultimately show ?thesis using l(2) t by (simp add: compare_fields_def compare_times_def at)
  qed
  have "append_case_update env c us ?u (VStr state)
      = Inr (identify_history env (history_body c (us @ [VDict ?u]) (VStr state)))"
    unfolding append_case_update_Inr
    using c own after before rec state fresh fields(1) by (auto simp: history_ok_def update_id_def)
  moreover have "oget ?u ''relationships'' = VList rs" "oget ?u ''fixture'' = VBool False"
    using fields(4,5) by (simp_all add: oget_def map_add_def split: option.splits)
  ultimately show ?thesis using built at by blast
qed

fun follow_plan :: "text_env \<Rightarrow> obj \<Rightarrow> string \<Rightarrow> (string \<times> string \<times> string) list \<Rightarrow> pyv list \<Rightarrow> pyv list res" where
  \<comment> \<open>builds and appends an update for each planned time, source and state\<close>
  "follow_plan env c kind [] us = Inr us"
| "follow_plan env c kind ((s, source, state) # plan) us =
     bindE (build_case_update env c s s source kind [] [] [] VNone False) (\<lambda>u.
     bindE (append_case_update env c us u (VStr state)) (\<lambda>h. follow_plan env c kind plan (us @ [VDict u])))"

fun plan_ok :: "obj \<Rightarrow> int \<Rightarrow> (string \<times> string \<times> string) list \<Rightarrow> bool" where
  \<comment> \<open>sources are named, states known, and the times later than the given one and increasing\<close>
  "plan_ok c now [] \<longleftrightarrow> True"
| "plan_ok c now ((s, source, state) # plan) \<longleftrightarrow> source \<noteq> [] \<and> state \<in> set lifecycle_states
     \<and> (case parse_time (VStr s) of Inl e \<Rightarrow> False
        | Inr t \<Rightarrow> same_kind t (known_time c) \<and> now < instant t \<and> plan_ok c (instant t) plan)"

definition latest :: "obj \<Rightarrow> pyv list \<Rightarrow> int" where
  "latest c us = instant (if us = [] then known_time c else observed_time (last us))"

lemma latest_bounds:
  assumes "history_ok env c us"
  shows "item \<in> set us \<Longrightarrow> instant (observed_time item) \<le> latest c us" "instant (known_time c) \<le> latest c us"
proof -
  show "instant (known_time c) \<le> latest c us"
    using assms by (auto simp: latest_def history_ok_def after_case_def dest!: bspec[of _ _ "last us"])
  assume "item \<in> set us"
  then obtain zs z where us: "us = zs @ [z]" by (cases us rule: rev_cases) auto
  then show "instant (observed_time item) \<le> latest c us"
    using assms \<open>item \<in> set us\<close> by (auto simp: latest_def history_ok_def sorted_wrt_append observed_before_def)
qed

lemma plan_followed:
  assumes c: "case_identity env c" and env: "inj (te_sha env)" "float_text (te_float env)"
    and k: "oitem c ''known_at'' = Inr kv" "parse_time kv = Inr k" and claims: "original_claims c = Inr claims"
  shows "recorded env c us lifecycle \<Longrightarrow> plan_ok c (latest c us) plan \<Longrightarrow>
     \<exists>us'. follow_plan env c kind plan us = Inr (us @ us') \<and> length us' = length plan
       \<and> recorded env c (us @ us') (if plan = [] then lifecycle else VStr (snd (snd (last plan))))"
proof (induction plan arbitrary: us lifecycle rule: list.induct)
  case Nil
  then show ?case by auto
next
  case (Cons p plan)
  obtain s source state where p: "p = (s, source, state)" by (cases p)
  from Cons.prems(2) obtain t where t: "parse_time (VStr s) = Inr t" "same_kind t (known_time c)" "latest c us < instant t"
      "source \<noteq> []" "state \<in> set lifecycle_states" and rest: "plan_ok c (instant t) plan"
    by (auto simp: p split: sum.splits)
  note ok = recorded_ok(1)[OF Cons.prems(1)]
  have known: "known_time c = k" by (simp add: known_time_def k)
  have times: "same_kind t k" "instant k < instant t" "\<forall>item\<in>set us. instant (observed_time item) < instant t"
    using t latest_bounds[OF ok] by (auto simp: known intro: le_less_trans)
  from next_update[OF ok c env t(1) k times claims _ t(4,5), of "[]" kind] obtain u h where
    u: "build_case_update env c s s source kind [] [] [] VNone False = Inr u"
      "append_case_update env c us u (VStr state) = Inr h" "oitem u ''observed_at'' = Inr (VStr s)"
    by auto
  have "latest c (us @ [VDict u]) = instant t" by (simp add: latest_def observed_time_def u(3) t(1))
  then obtain us' where "follow_plan env c kind plan ((us @ [VDict u])) = Inr ((us @ [VDict u]) @ us')"
      "length us' = length plan"
      "recorded env c ((us @ [VDict u]) @ us') (if plan = [] then VStr state else VStr (snd (snd (last plan))))"
    using Cons.IH[OF recorded.append[OF Cons.prems(1) u(2)]] rest by metis
  then show ?case by (intro exI[of _ "VDict u # us'"]) (auto simp: p u split: if_splits)
qed

section \<open>The properties of histories\<close>

text \<open>
  C9. A history only moves forward: its updates all belong to the case, carry the identity of their
  content, were observed after everything the case knew, each strictly after the one before, and no two
  have the same identity.
\<close>

theorem history_moves_forward:
  assumes "recorded env c us lifecycle"
  shows "sorted_wrt observed_before us \<and> distinct (map update_id us)
    \<and> (\<forall>item\<in>set us. own_update env c item \<and> after_case c item)
    \<and> lifecycle \<in> insert (oget c ''lifecycle_state'') (VStr ` set lifecycle_states)"
  using recorded_ok[OF assms] by (simp add: history_ok_def)

text \<open>
  C8. A case can always be continued: after any history of a created case, every plan of later
  observations can be carried out, each observation leaving the case in the planned state, whatever the
  states before were; so a closed case can be taken up again.  The claims of the case must have hashable
  identifiers, and the hash no collisions.
\<close>

theorem case_can_always_continue:
  assumes "create_research_case env decision ai created_at known_at draft validation review t0 = Inr c"
    and "inj (te_sha env)" "float_text (te_float env)" "original_claims c = Inr claims"
    and "recorded env c us lifecycle" "plan_ok c (latest c us) plan"
  shows "\<exists>us'. follow_plan env c kind plan us = Inr (us @ us') \<and> length us' = length plan
    \<and> recorded env c (us @ us') (if plan = [] then lifecycle else VStr (snd (snd (last plan))))"
proof -
  note c = created_case[OF assms(1)]
  then obtain k where "oitem c ''known_at'' = Inr (VStr known_at)" "parse_time (VStr known_at) = Inr k"
    by (auto simp: oitem_def oget_def split: option.splits)
  from plan_followed[OF c(1) assms(2,3) this assms(4-6)] show ?thesis .
qed

section \<open>A sample case\<close>

definition sample_decision :: obj where
  "sample_decision =
     [(''artifact_identity'', VStr ''decision:1''), (''as_of'', VStr ''2026-08-21''),
      (''records'', VList [VDict [(''ticker'', VStr ''HPG''),
         (''strategy_research_lanes'', VDict [(''VALUE'', VDict [(''eligibility'', VStr ''BLOCKED'')])]),
         (''scenario_axis'', VDict [])]])]"

definition sample_ai :: obj where
  "sample_ai =
     [(''ticker'', VStr ''HPG''), (''source_decision_workflow_identity'', VStr ''decision:1''), (''as_of'', VStr ''2026-08-21''),
      (''ai_input_identity'', VStr ''ai:1''), (''blocked_dimensions'', VList [VStr ''VALUATION'']),
      (''evidence'', VList [VDict [(''evidence_id'', VStr ''e1''), (''classification'', VStr ''FACT''), (''section'', VStr ''THESIS''),
         (''authority'', VStr ''OFFICIAL'')]]),
      (''catalyst_event_state'', VDict []), (''risks'', VList []), (''unknown_or_missing_evidence'', VList [])]"

definition sample_body :: obj where
  "sample_body = (case frozen_case sample_decision sample_ai (VStr ''HPG'') (the_list (oget sample_decision ''records'') ! 0)
     ''2026-08-22T09:00:00+07:00'' ''2026-08-22T09:00:00+07:00''
     ([VDict [(''claim_id'', VStr ''e1''), (''claim_type'', VStr ''FACT''), (''section'', VStr ''THESIS''),
        (''authority_class'', VStr ''OFFICIAL''), (''supporting_evidence_ids'', VList [VStr ''e1'']),
        (''origin'', VStr ''DETERMINISTIC_DECISION_EVIDENCE'')]], no_provenance) ''NEEDS_MORE_EVIDENCE'' None of Inr b \<Rightarrow> b)"

definition sample_case :: obj where
  "sample_case = identify_case sample_text_env sample_body"

definition sample_time :: string where
  "sample_time = ''2026-08-22T09:00:00+07:00''"

lemma sample_parts:
  "is_ok (parse_time (VStr sample_time)) \<and> oitem sample_ai ''ticker'' = Inr (VStr ''HPG'')
   \<and> record_of sample_decision (VStr ''HPG'') = Inr (the_list (oget sample_decision ''records'') ! 0)
   \<and> same_items (oitem sample_ai ''source_decision_workflow_identity'') (oitem sample_decision ''artifact_identity'')
      ''CASE_AI_INPUT_DECISION_IDENTITY_MISMATCH'' = Inr ()
   \<and> same_items (oitem sample_ai ''as_of'') (oitem sample_decision ''as_of'') ''CASE_AS_OF_MISMATCH'' = Inr ()
   \<and> is_ok (claims_of sample_ai None None None)
   \<and> oitem sample_ai ''blocked_dimensions'' = Inr (VList [VStr ''VALUATION'']) \<and> check_t0 None = Inr ()
   \<and> (case claims_of sample_ai None None None of Inr claimed \<Rightarrow>
        frozen_case sample_decision sample_ai (VStr ''HPG'') (the_list (oget sample_decision ''records'') ! 0)
          sample_time sample_time claimed ''NEEDS_MORE_EVIDENCE'' None = Inr sample_body)"
  by code_simp

lemma sample_created:
  "create_research_case sample_text_env sample_decision sample_ai sample_time sample_time None None None None = Inr sample_case"
  using sample_parts unfolding create_research_case_def sample_case_def
  by (auto elim!: is_okE simp: same_time_def same_kind_def)

lemma sample_body_values:
  "original_claims sample_body = Inr [VStr ''e1''] \<and> oget sample_body ''lifecycle_state'' = VStr ''NEEDS_MORE_EVIDENCE''
   \<and> oget sample_body ''known_at'' = VStr sample_time
   \<and> plan_ok sample_body (latest sample_body []) [(''2026-08-23T09:00:00+07:00'', ''s'', ''CLOSED_INCONCLUSIVE''),
        (''2026-08-24T02:00:00Z'', ''s'', ''ACTIVE'')]"
  by code_simp

lemma identified_item: "oitem body k = Inr v \<Longrightarrow> oitem (identify_case env body) k = Inr v"
  by (auto simp: oitem_def identify_case_def Let_def map_add_def split: option.splits)

lemma plan_ok_cong: "known_time c = known_time d \<Longrightarrow> plan_ok c now plan = plan_ok d now plan"
  by (induction c now plan rule: plan_ok.induct) (auto split: sum.splits)

lemma sample_case_values:
  "original_claims sample_case = Inr [VStr ''e1'']" "known_time sample_case = known_time sample_body"
  "latest sample_case [] = latest sample_body []" "inj (te_sha sample_text_env)" "float_text (te_float sample_text_env)"
proof -
  note body = sample_body_values
  have "\<exists>v. oitem sample_body ''original_claims'' = Inr v" "\<exists>v. oitem sample_body ''known_at'' = Inr v"
    using body by (auto simp: original_claims_def res_simps) (auto simp: oitem_def oget_def split: option.splits)
  then obtain v w where "oitem sample_body ''original_claims'' = Inr v" "oitem sample_body ''known_at'' = Inr w" by blast
  then show "original_claims sample_case = Inr [VStr ''e1'']" "known_time sample_case = known_time sample_body"
    using body by (simp_all add: original_claims_def known_time_def sample_case_def identified_item)
  then show "latest sample_case [] = latest sample_body []" by (simp add: latest_def)
  show "inj (te_sha sample_text_env)" "float_text (te_float sample_text_env)"
    using sample_float_text by (simp_all add: sample_text_env_def)
qed

lemma sample_recorded: "recorded sample_text_env sample_case [] (oget sample_case ''lifecycle_state'')"
  by (rule recorded.start)

definition sample_plan :: "(string \<times> string \<times> string) list" where
  "sample_plan = [(''2026-08-23T09:00:00+07:00'', ''s'', ''CLOSED_INCONCLUSIVE''), (''2026-08-24T02:00:00Z'', ''s'', ''ACTIVE'')]"

lemma sample_plan:
  "plan_ok sample_case (latest sample_case []) sample_plan" "length sample_plan = 2"
  "(if sample_plan = [] then lifecycle else VStr (snd (snd (last sample_plan)))) = VStr ''ACTIVE''"
  unfolding sample_plan_def sample_case_values(3) plan_ok_cong[OF sample_case_values(2)]
  using sample_body_values by (blast, simp_all)

lemma sample_followed: "\<exists>us. length us = 2 \<and> recorded sample_text_env sample_case us (VStr ''ACTIVE'')"
proof -
  obtain k where "oitem sample_case ''known_at'' = Inr (VStr sample_time)" "parse_time (VStr sample_time) = Inr k"
    using created_case(2,3)[OF sample_created] by (auto simp: oitem_def oget_def split: option.splits)
  from plan_followed[OF created_case(1)[OF sample_created] sample_case_values(4,5) this sample_case_values(1)
      sample_recorded sample_plan(1)]
  show ?thesis unfolding sample_plan by auto
qed

theorem case_can_always_continue_witness:
  "\<exists>us. length us = 2 \<and> recorded sample_text_env sample_case us (VStr ''ACTIVE'')
     \<and> follow_plan sample_text_env sample_case ''OFFICIAL_DOCUMENT'' sample_plan [] = Inr us"
  using case_can_always_continue[OF sample_created sample_case_values(4,5,1) sample_recorded sample_plan(1)]
  unfolding sample_plan by auto

theorem history_moves_forward_witness:
  "\<exists>us. length us = 2 \<and> sorted_wrt observed_before us \<and> (\<forall>item\<in>set us. own_update sample_text_env sample_case item)"
  using sample_followed history_moves_forward by blast

section \<open>What an update may say\<close>

definition relation_ok :: "string \<Rightarrow> pyv list \<Rightarrow> pyv \<Rightarrow> bool" where
  "relation_ok kind claims r \<longleftrightarrow> is_dict r \<and> (\<exists>i\<in>set claims. py_eq (oget (the_dict r) ''original_claim_id'') i)
     \<and> oget (the_dict r) ''relationship'' \<in> VStr ` set relationship_kinds
     \<and> oget (the_dict r) ''claim_outcome'' \<in> VStr ` set outcome_states
     \<and> (kind = ''MARKET_OBSERVATION'' \<longrightarrow> oget (the_dict r) ''relationship'' = VStr ''DOES_NOT_ADDRESS'')"

lemma member_of_Inr: "member_of v xs = Inr b \<Longrightarrow> b \<longleftrightarrow> v \<in> VStr ` set xs"
  by (simp add: member_of_def split: if_splits)

lemma check_relation_Inr:
  assumes "check_relation kind claims r = Inr ()"
  shows "relation_ok kind claims r"
proof -
  note ok = assms[unfolded check_relation_def Let_def guard_Inr bindE_eq_Inr if_raise_eq_Inr attr_get_Inr]
  then obtain d where r: "r = VDict d" by blast
  have "in_set (oget d ''original_claim_id'') claims = Inr True" using ok r by auto
  moreover have "member_of (oget d ''relationship'') relationship_kinds = Inr True"
    "member_of (oget d ''claim_outcome'') outcome_states = Inr True" using ok r by auto
  moreover have "kind = ''MARKET_OBSERVATION'' \<Longrightarrow> oget d ''relationship'' = VStr ''DOES_NOT_ADDRESS''"
    using ok r by (auto simp: oitem_def oget_def split: option.splits)
  ultimately show ?thesis
    by (auto simp: r relation_ok_def in_set_def list_ex_iff dest!: member_of_Inr split: if_splits)
qed

lemma check_scenario_Inr:
  assumes "check_scenario c u = Inr ()"
  shows "is_dict u \<and> oget (the_dict u) ''state'' \<in> VStr ` set scenario_states
    \<and> bindE (oitem c ''original_evidence_ids'') (py_in (oget (the_dict u) ''original_evidence_id'')) = Inr True"
  using assms unfolding check_scenario_def Let_def guard_Inr
  by (auto simp: res_simps attr_get_Inr dest!: member_of_Inr)

lemma build_case_update_Inr:
  assumes "build_case_update env c observed_at known_at source kind relations scenarios catalysts review fixture = Inr u"
  shows "compare_fields (\<le>) (Inr (VStr observed_at)) (oitem c ''known_at'') = Inr False"
    "compare_fields (<) (Inr (VStr known_at)) (Inr (VStr observed_at)) = Inr False" "source \<noteq> []"
    "fixture \<Longrightarrow> kind = ''TEST_FIXTURE''"
    "\<exists>claims. original_claims c = Inr claims \<and> (\<forall>r\<in>set relations. check_relation kind claims r = Inr ())"
    "\<forall>x\<in>set (scenarios @ catalysts). check_scenario c x = Inr ()"
    "\<exists>body. update_body c observed_at known_at source kind relations scenarios catalysts review fixture = Inr body
       \<and> u = body @ [(''update_identity'', VStr (update_prefix @ content_hash env body))]"
proof -
  note u = assms[unfolded build_case_update_def Let_def guard_Inr if_raise_eq_Inr bindE_eq_Inr[of "original_claims c"]
      bindE_eq_Inr[of "foldE _ _ _"] bindE_eq_Inr[of "update_body _ _ _ _ _ _ _ _ _ _"]]
  from u show "compare_fields (\<le>) (Inr (VStr observed_at)) (oitem c ''known_at'') = Inr False"
    "compare_fields (<) (Inr (VStr known_at)) (Inr (VStr observed_at)) = Inr False" "source \<noteq> []" by blast+
  from u show "fixture \<Longrightarrow> kind = ''TEST_FIXTURE''"
    "\<forall>x\<in>set (scenarios @ catalysts). check_scenario c x = Inr ()" by (force simp: foldE_unit)+
  from u show "\<exists>claims. original_claims c = Inr claims \<and> (\<forall>r\<in>set relations. check_relation kind claims r = Inr ())"
    "\<exists>body. update_body c observed_at known_at source kind relations scenarios catalysts review fixture = Inr body
       \<and> u = body @ [(''update_identity'', VStr (update_prefix @ content_hash env body))]"
    by (force simp: foldE_unit)+
qed

text \<open>
  An update that is built is bound to its case: it carries the case's identity and the hash of its
  content, is observed after what the case knew and known no earlier than observed, names its source,
  relates only to claims and evidence of the case, in the permitted terms; a market observation only
  as not addressing a claim, a fixture only as test evidence.
\<close>

theorem built_update_is_bound:
  assumes "build_case_update env c observed_at known_at source kind relations scenarios catalysts review fixture = Inr u"
  shows "own_update env c (VDict u) \<and> after_case c (VDict u) \<and> source \<noteq> []
    \<and> (\<exists>t. parse_time (VStr known_at) = Inr t \<and> instant (observed_time (VDict u)) \<le> instant t)
    \<and> oget u ''relationships'' = VList relations
    \<and> (\<exists>claims. original_claims c = Inr claims \<and> (\<forall>r\<in>set relations. relation_ok kind claims r))
    \<and> (\<forall>x\<in>set (scenarios @ catalysts). oget (the_dict x) ''state'' \<in> VStr ` set scenario_states
         \<and> bindE (oitem c ''original_evidence_ids'') (py_in (oget (the_dict x) ''original_evidence_id'')) = Inr True)
    \<and> (fixture \<longrightarrow> kind = ''TEST_FIXTURE'')"
proof -
  note u = build_case_update_Inr[OF assms]
  obtain body where body:
    "update_body c observed_at known_at source kind relations scenarios catalysts review fixture = Inr body"
    and ub: "u = body @ [(''update_identity'', VStr (update_prefix @ content_hash env body))]"
    using u(7) by blast
  note fields = update_body_fields[OF body]
  have at: "oitem u ''observed_at'' = Inr (VStr observed_at)" "oget u ''relationships'' = VList relations"
    "oget u ''case_id'' = oget c ''case_id''"
    using fields(2,3,4) body unfolding ub
    by (simp_all add: oitem_def oget_def map_add_def split: option.splits)
  have own: "own_update env c (VDict u)"
    using identified_by_append[OF fields(1)] at(3) by (simp add: own_update_def ub)
  have times: "after_case c (VDict u)"
    "\<exists>t. parse_time (VStr known_at) = Inr t \<and> instant (observed_time (VDict u)) \<le> instant t"
    using u(1,2) by (auto simp: compare_fields_Inr after_case_def observed_time_def known_time_def at(1))
  obtain claims where claims: "original_claims c = Inr claims" "\<forall>r\<in>set relations. check_relation kind claims r = Inr ()"
    using u(5) by (elim exE conjE)
  have relations: "\<exists>claims. original_claims c = Inr claims \<and> (\<forall>r\<in>set relations. relation_ok kind claims r)"
    by (rule exI[of _ claims], rule conjI[OF claims(1)], rule ballI, rule check_relation_Inr, rule bspec[OF claims(2)])
  show ?thesis
    by (intro conjI own times u(3) at(2) relations ballI impI)
      (use check_scenario_Inr u(6) in blast, use check_scenario_Inr u(6) in blast, use u(4) in blast)
qed

section \<open>What the ledger learns\<close>

definition values_in :: "pyv \<Rightarrow> pyv list" where
  "values_in v = (case py_iter v of Inr xs \<Rightarrow> xs | Inl e \<Rightarrow> [])"

definition is_fixture :: "pyv \<Rightarrow> bool" where
  "is_fixture u \<longleftrightarrow> v_true (oget (the_dict u) ''fixture'')"

definition all_updates :: "obj list \<Rightarrow> pyv list" where
  "all_updates hs = concat (map (\<lambda>h. values_in (oget h ''updates'')) hs)"

definition production_relations :: "pyv list \<Rightarrow> pyv list" where
  "production_relations us =
     concat (map (\<lambda>u. values_in (oget (the_dict u) ''relationships'')) (filter (\<lambda>u. \<not> is_fixture u) us))"

definition named :: "string \<Rightarrow> string \<Rightarrow> pyv list \<Rightarrow> pyv" where
  \<comment> \<open>how many of the mappings have the name in the field, nothing if none has\<close>
  "named field name rs =
     (let n = length (filter (\<lambda>r. oget (the_dict r) field = VStr name) rs) in if n = 0 then VNone else VInt (int n))"

lemma values_in_item: "bindE (oitem d k) py_iter = Inr xs \<Longrightarrow> values_in (oget d k) = xs"
  by (auto simp: oitem_def oget_def values_in_def res_simps split: option.splits)

lemma learn_update_Inr:
  assumes "learn_update env u s = Inr t"
  shows "t = (if is_fixture u then s\<lparr>ln_fixtures := ln_fixtures s + 1\<rparr>
     else s\<lparr>ln_relationships := ln_relationships s @ values_in (oget (the_dict u) ''relationships'')\<rparr>)"
proof -
  obtain d where u: "u = VDict d" using assms by (cases u) (auto simp: learn_update_def mapping_of_def)
  obtain v where v: "oitem d ''fixture'' = Inr v" using assms
    by (auto simp: learn_update_def mapping_of_def u res_simps)
  then have f: "is_fixture u = v_true v" by (simp add: is_fixture_def u oitem_def oget_def split: option.splits)
  show ?thesis
    using assms v unfolding f by (auto simp: learn_update_def mapping_of_def u bindE_eq_Inr values_in_item split: if_splits)
qed

lemma learn_updates:
  assumes "foldE (learn_update env) us s = Inr t"
  shows "ln_relationships t = ln_relationships s @ production_relations us
    \<and> ln_fixtures t = ln_fixtures s + length (filter is_fixture us)"
  using assms
proof (induction us arbitrary: s)
  case (Cons u us)
  then obtain s' where s': "learn_update env u s = Inr s'" "foldE (learn_update env) us s' = Inr t"
    by (auto simp: res_simps)
  then show ?case using Cons.IH[OF s'(2)] learn_update_Inr[OF s'(1)] by (simp add: production_relations_def)
qed (simp add: production_relations_def)

lemma learn_histories:
  assumes "foldE (learn_history env) hs s = Inr t"
  shows "ln_relationships t = ln_relationships s @ production_relations (all_updates hs)
    \<and> ln_fixtures t = ln_fixtures s + length (filter is_fixture (all_updates hs))"
  using assms
proof (induction hs arbitrary: s)
  case (Cons h hs)
  then obtain s' where s': "learn_history env h s = Inr s'" "foldE (learn_history env) hs s' = Inr t"
    by (auto simp: res_simps)
  then obtain us r where us: "bindE (oitem h ''updates'') py_iter = Inr us" "foldE (learn_update env) us r = Inr s'"
      "ln_relationships r = ln_relationships s" "ln_fixtures r = ln_fixtures s"
    by (auto simp: learn_history_def Let_def bindE_eq_Inr split: if_splits)
  then show ?case
    using Cons.IH[OF s'(2)] learn_updates[OF us(2)] values_in_item[OF us(1)]
    by (simp add: all_updates_def production_relations_def)
qed (simp add: all_updates_def production_relations_def)

lemma tally_names_Inr:
  assumes "tally_names (map (\<lambda>r. oget (the_dict r) field) rs) = Inr v"
  shows "\<exists>d. v = VDict d \<and> (\<forall>name. oget d name = named field name rs)"
proof -
  let ?xs = "map (\<lambda>r. oget (the_dict r) field) rs"
  let ?f = "\<lambda>k. (k, VInt (int (count_list (map the_str ?xs) k)))"
  from assms have str: "list_all is_str ?xs" and v: "v = VDict (map ?f (sorted_set (map the_str ?xs)))"
    by (simp_all add: tally_names_def split: if_splits)
  have count: "count_list (map the_str ?xs) name = length (filter (\<lambda>r. oget (the_dict r) field = VStr name) rs)" for name
    using str by (induction rs) (auto elim!: is_str.elims)
  have "map_of (map ?f ks) name = (if name \<in> set ks then Some (snd (?f name)) else None)" for ks name
    by (induction ks) auto
  then have "oget (map ?f (sorted_set (map the_str ?xs))) name =
      (if name \<in> set (map the_str ?xs) then snd (?f name) else VNone)" for name
    by (simp only: oget_def set_sorted_set split: if_splits option.splits) simp
  moreover have "name \<notin> set (map the_str ?xs) \<longleftrightarrow> count_list (map the_str ?xs) name = 0" for name
    by (simp only: count_list_0_iff)
  ultimately have "oget (map ?f (sorted_set (map the_str ?xs))) name = named field name rs" for name
    unfolding named_def Let_def count[symmetric] by auto
  then show ?thesis using v by blast
qed

lemma mapE_attr_item: "mapE (\<lambda>r. attr_item r k) rs = Inr xs \<Longrightarrow> xs = map (\<lambda>r. oget (the_dict r) k) rs"
  by (induction rs arbitrary: xs)
     (auto simp: res_simps attr_item_def oitem_def oget_def split: pyv.splits option.splits)

definition summary_of :: "obj \<Rightarrow> obj" where
  "summary_of l = the_dict (oget l ''production_observation_summary'')"

text \<open>
  The ledger never learns from fixtures: its counts of claim outcomes and of relationships, and of
  resolved claims, are those of the updates that are no fixtures, over all histories; the fixtures are
  only counted.
\<close>

theorem ledger_never_learns_fixtures:
  assumes "build_learning_ledger env hs = Inr l"
  defines "rs \<equiv> production_relations (all_updates hs)"
  shows "(\<forall>name. oget (the_dict (oget (summary_of l) ''claim_outcome_counts'')) name = named ''claim_outcome'' name rs)
    \<and> (\<forall>name. oget (the_dict (oget (summary_of l) ''relationship_counts'')) name = named ''relationship'' name rs)
    \<and> oget (summary_of l) ''resolved_claim_count''
        = VInt (int (length (filter (\<lambda>r. oget (the_dict r) ''claim_outcome'' \<noteq> VStr ''UNRESOLVED'') rs)))
    \<and> oget (the_dict (oget l ''patterns'')) ''fixture_update_count_excluded_from_learning''
        = VInt (int (length (filter is_fixture (all_updates hs))))"
proof -
  from assms(1) obtain t body where t: "foldE (learn_history env) hs nothing_learned = Inr t"
    and body: "learning_body (length hs) t = Inr body" and l: "l = body @ [(''ledger_identity'',
         VStr (''prospective_research_case_learning_ledger:'' @ content_hash env body))]"
    unfolding build_learning_ledger_def bindE_eq_Inr by auto
  have rs: "ln_relationships t = rs" "ln_fixtures t = length (filter is_fixture (all_updates hs))"
    using learn_histories[OF t] by (simp_all add: rs_def nothing_learned_def)
  from body obtain outs oc kinds rc where outs: "mapE (\<lambda>r. attr_item r ''claim_outcome'') rs = Inr outs" "tally_names outs = Inr oc"
    and kinds: "mapE (\<lambda>r. attr_item r ''relationship'') rs = Inr kinds" "tally_names kinds = Inr rc"
    and fields: "oget l ''production_observation_summary'' = VDict [(''claim_outcome_counts'', oc), (''relationship_counts'', rc),
        (''resolved_claim_count'', VInt (int (length (filter (\<lambda>v. v \<noteq> VStr ''UNRESOLVED'') outs))))]"
      "oget (the_dict (oget l ''patterns'')) ''fixture_update_count_excluded_from_learning'' = VInt (int (ln_fixtures t))"
    unfolding learning_body_def bindE_eq_Inr l by (auto simp: rs)
  note got = mapE_attr_item[OF outs(1)] mapE_attr_item[OF kinds(1)]
  from tally_names_Inr[OF outs(2)[unfolded got]] tally_names_Inr[OF kinds(2)[unfolded got]]
  show ?thesis unfolding summary_of_def fields rs(2) by (auto simp: got filter_map o_def)
qed

section \<open>A price movement that resolves a claim\<close>

definition market_relation :: pyv where
  "market_relation = VDict [(''original_claim_id'', VStr ''e1''), (''relationship'', VStr ''DOES_NOT_ADDRESS''),
     (''claim_outcome'', VStr ''SUPPORTED'')]"

lemma market_relation_checked:
  "check_relation ''MARKET_OBSERVATION'' [VStr ''e1''] market_relation = Inr ()
   \<and> (case parse_time (VStr ''2026-08-23T09:00:00+07:00'') of Inl e \<Rightarrow> False
      | Inr t \<Rightarrow> same_kind t (known_time sample_body) \<and> instant (known_time sample_body) < instant t)
   \<and> ''ACTIVE'' \<in> set lifecycle_states"
  by code_simp

lemma learn_single:
  assumes "case_identity env c" "own_update env c (VDict u)"
    and "oitem u ''fixture'' = Inr (VBool False)" "oitem u ''relationships'' = Inr (VList rs)"
    and "bindE (oitem c ''blocked_capabilities'') counted_names = Inr bs"
    and "bindE (bindE (oitem c ''frozen_strategy_research_lanes'') items_of) lane_gaps = Inr gs"
    and "bindE (bindE (oitem c ''ai_human_provenance'') (\<lambda>p. attr_item p ''human_modifications'')) py_size = Inr n"
  shows "learn_history env (identify_history env (history_body c [VDict u] lifecycle)) nothing_learned
    = Inr \<lparr>ln_relationships = rs, ln_fixtures = 0, ln_blockers = bs, ln_gaps = gs, ln_edits = n\<rparr>"
proof -
  let ?h = "identify_history env (history_body c [VDict u] lifecycle)"
  have "identified_by env ?h ''case_history_identity'' history_prefix"
    unfolding identify_history_def by (rule identified_by_append) (simp add: history_body_def)
  moreover have "oitem ?h ''case'' = Inr (VDict c)" "oitem ?h ''updates'' = Inr (VList [VDict u])"
    by (simp_all add: identify_history_def history_body_def oitem_def)
  moreover have "identified_by env u ''update_identity'' update_prefix" using assms(2) by (simp add: own_update_def)
  ultimately show ?thesis
    using assms by (simp add: learn_history_def Let_def mapping_of_def learn_update_def nothing_learned_def)
qed

lemma sample_body_lists:
  "bindE (oitem sample_body ''blocked_capabilities'') counted_names = Inr [VStr ''VALUATION'']
   \<and> bindE (bindE (oitem sample_body ''frozen_strategy_research_lanes'') items_of) lane_gaps = Inr [''VALUE'']
   \<and> bindE (bindE (oitem sample_body ''ai_human_provenance'') (\<lambda>p. attr_item p ''human_modifications'')) py_size = Inr 0"
  by code_simp

lemma identified_bind: "bindE (oitem body k) f = Inr v \<Longrightarrow> bindE (oitem (identify_case env body) k) f = Inr v"
  using identified_item by (auto simp: bindE_eq_Inr)

definition sample_update_time :: string where
  "sample_update_time = ''2026-08-23T09:00:00+07:00''"

lemma market_update:
  "\<exists>u h. build_case_update sample_text_env sample_case sample_update_time sample_update_time ''s'' ''MARKET_OBSERVATION''
       [market_relation] [] [] VNone False = Inr u
     \<and> append_case_update sample_text_env sample_case [] u (VStr ''ACTIVE'') = Inr h \<and> oitem u ''observed_at'' = Inr (VStr sample_update_time)
     \<and> oget u ''relationships'' = VList [market_relation] \<and> oget u ''fixture'' = VBool False"
proof -
  from market_relation_checked obtain t where t: "parse_time (VStr sample_update_time) = Inr t"
    "same_kind t (known_time sample_body)" "instant (known_time sample_body) < instant t"
    by (auto simp: sample_update_time_def split: sum.splits)
  obtain k where k: "oitem sample_case ''known_at'' = Inr (VStr sample_time)" "parse_time (VStr sample_time) = Inr k"
    using created_case(2,3)[OF sample_created] by (auto simp: oitem_def oget_def split: option.splits)
  then have "known_time sample_body = k" unfolding sample_case_values(2)[symmetric] by (simp add: known_time_def)
  then show ?thesis
    using market_relation_checked t
    by (intro next_update[OF recorded_ok(1)[OF sample_recorded] created_case(1)[OF sample_created] sample_case_values(4,5)
        t(1) k _ _ _ sample_case_values(1)]) auto
qed

text \<open>
  The boundary the histories declare, that a price movement is no proof of a thesis, is not kept by the
  outcome an update names: a market observation that does not address a claim may name it supported, and
  the ledger counts the claim as resolved by it.
\<close>

theorem market_observation_resolves_claim:
  "\<exists>u h l. build_case_update sample_text_env sample_case sample_update_time sample_update_time ''s'' ''MARKET_OBSERVATION''
       [market_relation] [] [] VNone False = Inr u
     \<and> append_case_update sample_text_env sample_case [] u (VStr ''ACTIVE'') = Inr h
     \<and> build_learning_ledger sample_text_env [h] = Inr l
     \<and> summary_of l = [(''claim_outcome_counts'', VDict [(''SUPPORTED'', VInt 1)]),
         (''relationship_counts'', VDict [(''DOES_NOT_ADDRESS'', VInt 1)]), (''resolved_claim_count'', VInt 1)]"
proof -
  obtain u h where u: "build_case_update sample_text_env sample_case sample_update_time sample_update_time ''s'' ''MARKET_OBSERVATION''
       [market_relation] [] [] VNone False = Inr u"
    and h: "append_case_update sample_text_env sample_case [] u (VStr ''ACTIVE'') = Inr h"
    and f: "oget u ''relationships'' = VList [market_relation]" "oget u ''fixture'' = VBool False"
    using market_update by blast
  have items: "oitem u ''fixture'' = Inr (VBool False)" "oitem u ''relationships'' = Inr (VList [market_relation])"
    using f by (simp_all add: oitem_def oget_def split: option.splits)
  have c: "case_identity sample_text_env sample_case" "own_update sample_text_env sample_case (VDict u)"
    and heq: "h = identify_history sample_text_env (history_body sample_case [VDict u] (VStr ''ACTIVE''))"
    using h unfolding append_case_update_Inr by simp_all
  note lists = sample_body_lists[THEN conjunct1] sample_body_lists[THEN conjunct2, THEN conjunct1]
    sample_body_lists[THEN conjunct2, THEN conjunct2]
  have read: "bindE (oitem sample_case ''blocked_capabilities'') counted_names = Inr [VStr ''VALUATION'']"
    "bindE (bindE (oitem sample_case ''frozen_strategy_research_lanes'') items_of) lane_gaps = Inr [''VALUE'']"
    "bindE (bindE (oitem sample_case ''ai_human_provenance'') (\<lambda>p. attr_item p ''human_modifications'')) py_size = Inr 0"
    using lists identified_item[of sample_body] unfolding sample_case_def bindE_eq_Inr by blast+
  have learned: "learn_history sample_text_env h nothing_learned = Inr \<lparr>ln_relationships = [market_relation], ln_fixtures = 0,
      ln_blockers = [VStr ''VALUATION''], ln_gaps = [''VALUE''], ln_edits = 0\<rparr>"
    unfolding heq by (rule learn_single[OF c items read])
  obtain body where body: "learning_body 1 \<lparr>ln_relationships = [market_relation], ln_fixtures = 0,
      ln_blockers = [VStr ''VALUATION''], ln_gaps = [''VALUE''], ln_edits = 0\<rparr> = Inr body"
    "oget body ''production_observation_summary'' = VDict [(''claim_outcome_counts'', VDict [(''SUPPORTED'', VInt 1)]),
         (''relationship_counts'', VDict [(''DOES_NOT_ADDRESS'', VInt 1)]), (''resolved_claim_count'', VInt 1)]"
    "''production_observation_summary'' \<in> fst ` set body"
    by (simp add: learning_body_def market_relation_def tally_names_def sorted_set_def oitem_def)
  show ?thesis
  proof (intro exI conjI)
    show "build_learning_ledger sample_text_env [h] = Inr (body @ [(''ledger_identity'',
         VStr (''prospective_research_case_learning_ledger:'' @ content_hash sample_text_env body))])"
      using body(1) learned by (simp add: build_learning_ledger_def)
    show "summary_of (body @ [(''ledger_identity'',
         VStr (''prospective_research_case_learning_ledger:'' @ content_hash sample_text_env body))]) =
       [(''claim_outcome_counts'', VDict [(''SUPPORTED'', VInt 1)]),
         (''relationship_counts'', VDict [(''DOES_NOT_ADDRESS'', VInt 1)]), (''resolved_claim_count'', VInt 1)]"
      using body(2,3) by (simp add: summary_of_def)
  qed (fact u h)+
qed

theorem built_update_is_bound_witness:
  "\<exists>u claims. oget u ''relationships'' = VList [market_relation] \<and> own_update sample_text_env sample_case (VDict u)
     \<and> after_case sample_case (VDict u) \<and> relation_ok ''MARKET_OBSERVATION'' claims market_relation"
proof -
  obtain u where "build_case_update sample_text_env sample_case sample_update_time sample_update_time ''s''
      ''MARKET_OBSERVATION'' [market_relation] [] [] VNone False = Inr u"
    using market_update by blast
  note bound = built_update_is_bound[OF this]
  then obtain claims where "\<forall>r\<in>set [market_relation]. relation_ok ''MARKET_OBSERVATION'' claims r" by blast
  then show ?thesis using bound by (intro exI[of _ u] exI[of _ claims]) simp
qed

theorem ledger_never_learns_fixtures_witness:
  "\<exists>h l. build_learning_ledger sample_text_env [h] = Inr l
     \<and> named ''claim_outcome'' ''SUPPORTED'' (production_relations (all_updates [h])) = VInt 1"
proof -
  obtain h l where l: "build_learning_ledger sample_text_env [h] = Inr l"
    "oget (summary_of l) ''claim_outcome_counts'' = VDict [(''SUPPORTED'', VInt 1)]"
    using market_observation_resolves_claim by force
  from ledger_never_learns_fixtures[OF l(1)]
  have "oget (the_dict (oget (summary_of l) ''claim_outcome_counts'')) ''SUPPORTED''
    = named ''claim_outcome'' ''SUPPORTED'' (production_relations (all_updates [h]))" by blast
  then show ?thesis using l by auto
qed

end
