(* ===== verification/CaseStore.thy ===== *)
theory CaseStore
  imports CaseLedger
begin

text \<open>
  The durable store of research cases: \<open>durable_prospective_research_case_store.py\<close>.  A case is one
  immutable envelope, its later updates immutable events that name the event before them; reading a case
  verifies every identity, puts its events in order and rebuilds its history through \<open>CaseLedger\<close>.

  The store is the list of its files, by path below the root.  A file holds a JSON value or something
  that is none (the writer lock).  A JSON file is written with its keys sorted, so what is read back is
  \<open>sort_keys\<close> of what was written.  Directories and failures of the operating system itself are not
  modelled.
\<close>

section \<open>Files\<close>

datatype stored = Json pyv | Other

type_synonym store = "(string list \<times> stored) list"

definition lock_path :: "string list" where "lock_path = [''.writer.lock'']"
definition contract_path :: "string list" where "contract_path = [''store_contract.json'']"

definition stored_case_path :: "text_env \<Rightarrow> string \<Rightarrow> string list" where
  "stored_case_path env case_id = [''cases'', te_sha env case_id @ ''.json'']"

definition stored_event_path :: "text_env \<Rightarrow> string \<Rightarrow> string list" where
  "stored_event_path env event_id = [''events'', te_sha env event_id @ ''.json'']"

definition json_files :: "string \<Rightarrow> store \<Rightarrow> string list list" where
  \<comment> \<open>\<open>sorted(directory.glob("*.json"))\<close>\<close>
  "json_files dir s =
     sorted_set (filter (\<lambda>p. length p = 2 \<and> p ! 0 = dir \<and> suffix ''.json'' (p ! 1)) (map fst s))"

definition unreadable :: "'a res" where
  "unreadable = raise DurableCaseStoreError ''STORE_RECORD_UNREADABLE_OR_TAMPERED''"

definition read_json :: "string list \<Rightarrow> store \<Rightarrow> obj res" where
  "read_json p s =
     (case map_of s p of
        Some (Json v) \<Rightarrow> (case v of VDict d \<Rightarrow> Inr d | _ \<Rightarrow> raise DurableCaseStoreError ''STORE_RECORD_NOT_OBJECT'')
      | _ \<Rightarrow> unreadable)"

definition write_new_json :: "string list \<Rightarrow> obj \<Rightarrow> (store, unit) act" where
  "write_new_json p d =
     (\<lambda>s. if map_of s p \<noteq> None then (raise DurableCaseStoreError ''DUPLICATE_CONTENT_INSERTION'', s)
          else (Inr (), s @ [(p, Json (sort_keys (VDict d)))]))"

definition writer :: "(store, 'a) act \<Rightarrow> (store, 'a) act" where
  \<comment> \<open>the writer lock around the action, released also when it raises\<close>
  "writer m =
     (\<lambda>s. if map_of s lock_path \<noteq> None then (raise DurableCaseStoreError ''STORE_WRITER_LOCKED'', s)
          else (case m (s @ [(lock_path, Other)]) of (r, t) \<Rightarrow> (r, filter (\<lambda>kv. fst kv \<noteq> lock_path) t)))"

definition reading :: "(store \<Rightarrow> 'a res) \<Rightarrow> (store, 'a) act" where
  "reading f = (\<lambda>s. (f s, s))"

section \<open>The store contract\<close>

definition store_method :: string where "store_method = ''durable_prospective_research_case_store/v1''"

definition store_contract :: "text_env \<Rightarrow> obj" where
  "store_contract env =
     (let payload =
        [(''schema_version'', VStr ''1.0.0''), (''contract_version'', VStr store_method),
         (''storage_boundary'', VStr ''EXPLICIT_LOCAL_NON_PRODUCTION_ARTIFACT_STORE''),
         (''writer_model'', VStr ''LOCAL_ONE_WRITER_EXCLUSIVE_LOCK''),
         (''case_storage'', VStr ''IMMUTABLE_CONTENT_ADDRESSED_ENVELOPES''),
         (''event_storage'', VStr ''IMMUTABLE_APPEND_ONLY_CONTENT_ADDRESSED_EVENTS''),
         (''authority_boundary'', VDict [(''production_database'', VStr ''NOT_USED''),
            (''recommendation_portfolio_execution'', VStr ''NOT_EMITTED'')])]
      in payload @ [(''store_contract_identity'', VStr (''durable_case_store_contract:'' @ content_hash env payload))])"

definition same_contract :: "text_env \<Rightarrow> store \<Rightarrow> bool res" where
  "same_contract env s =
     bindE (read_json contract_path s) (\<lambda>d. Inr (py_eq (VDict d) (VDict (store_contract env))))"

definition verify_contract :: "text_env \<Rightarrow> (store, unit) act" where
  "verify_contract env =
     (\<lambda>s. if map_of s contract_path \<noteq> None
          then (bindE (same_contract env s) (\<lambda>same.
                  if same then Inr () else raise DurableCaseStoreError ''STORE_CONTRACT_IDENTITY_MISMATCH''), s)
          else (case write_new_json contract_path (store_contract env) s of
                  (Inr (), t) \<Rightarrow> (Inr (), t)
                | (Inl e, t) \<Rightarrow>
                    if map_of t contract_path = None then (Inl e, t)
                    else (bindE (same_contract env t) (\<lambda>same. if same then Inr () else Inl e), t)))"

definition open_store :: "text_env \<Rightarrow> string list \<Rightarrow> (store, string list) act" where
  \<comment> \<open>\<open>__init__\<close>, with the registered evidence identities\<close>
  "open_store env registered =
     (if [] \<in> set registered
      then act_raise DurableCaseStoreError ''INVALID_RETAINED_UPDATE_EVIDENCE_IDENTITY''
      else act_bind (verify_contract env) (\<lambda>_. act_return registered))"

section \<open>Events\<close>

definition check_timestamp :: "pyv \<Rightarrow> unit res" where
  \<comment> \<open>\<open>_timestamp\<close>, of which only the exception is used\<close>
  "check_timestamp v =
     (case parse_time v of Inr t \<Rightarrow> Inr () | Inl e \<Rightarrow> raise DurableCaseStoreError ''INVALID_EVENT_TIMESTAMP'')"

definition event_prefix :: string where "event_prefix = ''durable_research_case_event:''"

definition make_event ::
  "text_env \<Rightarrow> pyv \<Rightarrow> string \<Rightarrow> pyv \<Rightarrow> pyv \<Rightarrow> string \<Rightarrow> pyv \<Rightarrow> pyv \<Rightarrow> obj \<Rightarrow> bool \<Rightarrow> obj res" where
  \<comment> \<open>\<open>_event\<close>\<close>
  "make_event env case_id kind observed_at known_at actor references prior payload fixture =
     bindE (check_timestamp observed_at) (\<lambda>_. bindE (check_timestamp known_at) (\<lambda>_.
     bindE (py_iter references) (\<lambda>refs.
       let body = [(''schema_version'', VStr ''1.0.0''), (''contract_version'', VStr (store_method @ ''/event'')),
                   (''case_id'', case_id), (''event_type'', VStr kind), (''observed_at'', observed_at), (''known_at'', known_at),
                   (''actor_or_source'', VStr actor), (''evidence_references'', VList refs), (''prior_event_id'', prior),
                   (''payload'', VDict payload), (''fixture'', VBool fixture)];
           event_id = VStr (event_prefix @ content_hash env body)
       in Inr (body @ [(''event_id'', event_id), (''content_identity'', event_id)]))))"

definition event_body :: "obj \<Rightarrow> obj" where
  "event_body e = odel (odel e ''event_id'') ''content_identity''"

definition verify_event :: "text_env \<Rightarrow> pyv \<Rightarrow> unit res" where
  "verify_event env event =
     bindE (mapping_of event) (\<lambda>m. let e = the_dict m; expected = VStr (event_prefix @ content_hash env (event_body e)) in
       if oget e ''event_id'' \<noteq> expected \<or> oget e ''content_identity'' \<noteq> expected
       then raise DurableCaseStoreError ''EVENT_CONTENT_IDENTITY_INVALID''
       else bindE (check_timestamp (VStr (to_text env (oget e ''observed_at'')))) (\<lambda>_.
            check_timestamp (VStr (to_text env (oget e ''known_at'')))))"

definition edit_event :: "text_env \<Rightarrow> obj \<Rightarrow> obj \<Rightarrow> bool \<Rightarrow> pyv \<Rightarrow> pyv \<times> obj list \<Rightarrow> (pyv \<times> obj list) res" where
  \<comment> \<open>an event for one human modification, after the given one\<close>
  "edit_event env c review fixture edit acc =
     bindE (oitem c ''known_at'') (\<lambda>known.
     bindE (oitem c ''case_id'') (\<lambda>i. bindE (attr_get edit ''reviewer_identity'') (\<lambda>who.
     bindE (mapping_of edit) (\<lambda>m. bindE (oitem review ''review_packet_identity'') (\<lambda>packet.
     bindE (make_event env i ''HUMAN_EDIT_RECORDED'' known known (to_text env (v_or who (VStr ''HUMAN_REVIEWER'')))
              (VList []) (fst acc) [(''human_edit'', m), (''human_review_identity'', packet)] fixture) (\<lambda>e.
       Inr (oget e ''event_id'', snd acc @ [e])))))))"

definition reviewer_text :: "text_env \<Rightarrow> obj \<Rightarrow> string res" where
  "reviewer_text env review =
     bindE (attr_get (oget_default review ''reviewer'' (VDict [])) ''identity'') (\<lambda>who.
       Inr (to_text env (v_or who (VStr ''HUMAN_REVIEWER''))))"

definition t0_events :: "text_env \<Rightarrow> obj \<Rightarrow> obj \<Rightarrow> obj \<Rightarrow> obj \<Rightarrow> obj list res" where
  "t0_events env c draft validation review =
     (let fixture = v_true (oget draft ''fixture'') in
      bindE (oitem c ''known_at'') (\<lambda>known. bindE (oitem c ''case_id'') (\<lambda>i.
      bindE (oitem c ''original_evidence_ids'') (\<lambda>refs.
      bindE (mapE (\<lambda>k. bindE (oitem c k) (\<lambda>v. Inr (k, v)))
               [''case_content_identity'', ''source_decision_workflow_identity'', ''source_ai_input_identity'']) (\<lambda>payload.
      bindE (make_event env i ''CASE_CREATED'' known known ''WORKBENCH_CREATE_CASE'' refs VNone payload fixture) (\<lambda>created.
      bindE (make_event env i ''AI_DRAFT_VALIDATED'' known known ''DETERMINISTIC_VALIDATOR'' (VList []) (oget created ''event_id'')
               [(''draft'', VDict draft), (''validation'', VDict validation)] fixture) (\<lambda>validated.
      bindE (reviewer_text env review) (\<lambda>who. bindE (oitem review ''source_ai_input_identity'') (\<lambda>source.
      bindE (make_event env i ''HUMAN_REVIEW_RECORDED'' known known who (VList [source]) (oget validated ''event_id'')
               [(''human_review'', VDict review)] fixture) (\<lambda>reviewed.
      bindE (py_iter (oget_default review ''human_modifications'' (VList []))) (\<lambda>edits.
      bindE (foldE (edit_event env c review fixture) edits (oget reviewed ''event_id'', [])) (\<lambda>r.
        Inr ([created, validated, reviewed] @ snd r)))))))))))))"

section \<open>Reading a case\<close>

definition envelope_prefix :: string where "envelope_prefix = ''durable_research_case_envelope:''"

definition load_case_envelope :: "text_env \<Rightarrow> string \<Rightarrow> store \<Rightarrow> obj res" where
  "load_case_envelope env case_id s =
     (let p = stored_case_path env case_id in
      if map_of s p = None then raise DurableCaseStoreError ''CASE_NOT_FOUND'' else
      bindE (read_json p s) (\<lambda>envelope.
      if \<not> identified_by env envelope ''content_identity'' envelope_prefix
      then raise DurableCaseStoreError ''CASE_ENVELOPE_CONTENT_IDENTITY_INVALID'' else
      let c = oget_default envelope ''case'' (VDict []) in
      bindE (attr_get c ''case_id'') (\<lambda>i.
      if i \<noteq> VStr case_id \<or> \<not> case_identity env (the_dict c)
      then raise DurableCaseStoreError ''CASE_CONTENT_IDENTITY_INVALID'' else
      bindE (py_iter (oget_default envelope ''initial_events'' (VList []))) (\<lambda>events.
      bindE (foldE (\<lambda>e _. verify_event env e) events ()) (\<lambda>_. Inr envelope)))))"

definition list_case_ids :: "text_env \<Rightarrow> store \<Rightarrow> string list res" where
  "list_case_ids env s =
     bindE (mapE (\<lambda>p. bindE (read_json p s) (\<lambda>d.
              bindE (attr_get (oget_default d ''case'' (VDict [])) ''case_id'') (\<lambda>raw.
                if is_str raw then bindE (load_case_envelope env (the_str raw) s) (\<lambda>_. Inr raw) else Inr raw)))
            (json_files ''cases'' s)) (\<lambda>ids.
     if \<not> list_all is_str ids \<or> \<not> distinct ids
     then raise DurableCaseStoreError ''DUPLICATE_OR_INVALID_CASE_ID'' else Inr (sort (map the_str ids)))"

text \<open>The events of a case in order: from the one without a predecessor, each to its only successor.\<close>

definition event_id :: "pyv \<Rightarrow> pyv" where "event_id e = oget (the_dict e) ''event_id''"
definition prior_id :: "pyv \<Rightarrow> pyv" where "prior_id e = oget (the_dict e) ''prior_event_id''"

definition successors :: "pyv list \<Rightarrow> pyv \<Rightarrow> pyv list" where
  \<comment> \<open>\<open>children[i]\<close>\<close>
  "successors events i = filter (\<lambda>e. prior_id e = i) events"

partial_function (option) follow_chain :: "pyv list \<Rightarrow> pyv \<Rightarrow> pyv list \<Rightarrow> pyv list res option" where
  \<comment> \<open>the \<open>while True\<close> loop\<close>
  "follow_chain events current ordered =
     (case successors events (event_id current) of
        [] \<Rightarrow> Some (Inr (ordered @ [current]))
      | [e] \<Rightarrow> follow_chain events e (ordered @ [current])
      | _ \<Rightarrow> Some (raise DurableCaseStoreError ''CONCURRENT_CONFLICTING_APPEND''))"

fun check_links :: "pyv list \<Rightarrow> pyv list \<Rightarrow> unit res" where
  \<comment> \<open>each predecessor that is named is known\<close>
  "check_links ids [] = Inr ()"
| "check_links ids (e # es) =
     (if prior_id e \<noteq> VNone \<and> \<not> hashable (prior_id e) then raise TypeError ''unhashable type''
      else if prior_id e \<noteq> VNone \<and> prior_id e \<notin> set ids
      then raise DurableCaseStoreError ''EVENT_PRIOR_LINK_UNKNOWN'' else check_links ids es)"

definition order_events :: "pyv list \<Rightarrow> pyv list res" where
  "order_events events =
     (let ids = map event_id events in
      if \<not> distinct ids then raise DurableCaseStoreError ''DUPLICATE_EVENT_ID'' else
      bindE (check_links ids events) (\<lambda>_.
      case successors events VNone of
        [e] \<Rightarrow>
          (case follow_chain events e [] of
             None \<Rightarrow> raise RuntimeError ''does not return''
           | Some r \<Rightarrow> bindE r (\<lambda>ordered.
               if length ordered \<noteq> length events
               then raise DurableCaseStoreError ''EVENT_CHAIN_DISCONNECTED'' else Inr ordered))
      | _ \<Rightarrow> raise DurableCaseStoreError ''EVENT_CHAIN_ROOT_INVALID''))"

definition appended_events :: "text_env \<Rightarrow> string \<Rightarrow> store \<Rightarrow> pyv list res" where
  "appended_events env case_id s =
     bindE (mapE (\<lambda>p. bindE (read_json p s) (\<lambda>d. bindE (verify_event env (VDict d)) (\<lambda>_. Inr (VDict d))))
              (json_files ''events'' s)) (\<lambda>events.
       Inr (filter (\<lambda>e. oget (the_dict e) ''case_id'' = VStr case_id) events))"

definition case_events :: "text_env \<Rightarrow> string \<Rightarrow> store \<Rightarrow> pyv list res" where
  "case_events env case_id s =
     bindE (load_case_envelope env case_id s) (\<lambda>envelope.
     bindE (bindE (oitem envelope ''initial_events'') py_iter) (\<lambda>initial.
     bindE (appended_events env case_id s) (\<lambda>appended. order_events (initial @ appended))))"

section \<open>Persisting a case\<close>

definition commit_case :: "text_env \<Rightarrow> pyv \<Rightarrow> obj \<Rightarrow> (store, obj) act" where
  \<comment> \<open>the envelope gets its identity and is written as a new file under the lock, then read back\<close>
  "commit_case env case_id body =
     (let envelope = body @ [(''content_identity'', VStr (envelope_prefix @ content_hash env body))] in
      act_bind (writer (write_new_json (stored_case_path env (the_str case_id)) envelope)) (\<lambda>_.
      reading (load_case_envelope env (the_str case_id))))"

definition lift_res :: "'a res \<Rightarrow> (store, 'a) act" where
  "lift_res r = (\<lambda>s. (r, s))"

definition case_envelope :: "obj \<Rightarrow> obj \<Rightarrow> obj \<Rightarrow> obj \<Rightarrow> obj list \<Rightarrow> obj" where
  "case_envelope c draft validation review events =
     [(''schema_version'', VStr ''1.0.0''), (''contract_version'', VStr (store_method @ ''/case_envelope'')),
      (''record_type'', VStr ''IMMUTABLE_T0_CASE''), (''case'', VDict c), (''ai_draft'', VDict draft),
      (''validation'', VDict validation), (''human_review'', VDict review), (''initial_events'', VList (map VDict events)),
      (''storage_boundary'', VStr ''LOCAL_NON_PRODUCTION_RESEARCH_CASE_RECORD'')]"

definition persist_case :: "text_env \<Rightarrow> obj \<Rightarrow> obj \<Rightarrow> obj \<Rightarrow> obj \<Rightarrow> (store, obj) act" where
  "persist_case env c draft validation review =
     (if \<not> case_identity env c then act_raise DurableCaseStoreError ''CASE_CONTENT_IDENTITY_INVALID''
      else act_bind (lift_res (
        if oget validation ''validation_status'' \<noteq> VStr ''VALID''
        then raise DurableCaseStoreError ''CASE_VALIDATION_PROVENANCE_INVALID'' else
        bindE (oitem c ''ai_human_provenance'') (\<lambda>p. bindE (attr_item p ''validation_identity'') (\<lambda>v.
        if \<not> py_eq (oget validation ''validation_identity'') v
        then raise DurableCaseStoreError ''CASE_VALIDATION_PROVENANCE_INVALID'' else
        bindE (attr_item p ''human_review_identity'') (\<lambda>h.
        if \<not> py_eq (oget review ''review_packet_identity'') h
        then raise DurableCaseStoreError ''CASE_HUMAN_REVIEW_PROVENANCE_INVALID'' else
        t0_events env c draft validation review))))) (\<lambda>events.
        commit_case env (oget c ''case_id'') (case_envelope c draft validation review events)))"

definition admission_body :: "obj \<Rightarrow> obj" where
  "admission_body admission = odel (odel admission ''admission_identity'') ''case''"

definition text_or_empty :: "text_env \<Rightarrow> pyv \<Rightarrow> string" where
  \<comment> \<open>\<open>str(v or "")\<close>\<close>
  "text_or_empty env v = (if v_true v then to_text env v else [])"

definition admitted_envelope :: "obj \<Rightarrow> obj \<Rightarrow> obj \<Rightarrow> obj" where
  "admitted_envelope c admission event =
     [(''schema_version'', VStr ''1.0.0''), (''contract_version'', VStr (store_method @ ''/case_envelope'')),
      (''record_type'', VStr ''IMMUTABLE_T0_CASE''), (''case'', VDict c),
      (''ai_draft'', VDict [(''fixture'', VBool False), (''admission_mode'', VStr ''DETERMINISTIC_POLICY'')]),
      (''validation'', VNone), (''human_review'', VNone), (''policy_admission'', VDict admission),
      (''initial_events'', VList [VDict event]),
      (''storage_boundary'', VStr ''LOCAL_NON_PRODUCTION_RESEARCH_CASE_RECORD'')]"

definition persist_policy_admitted_case :: "text_env \<Rightarrow> obj \<Rightarrow> obj \<Rightarrow> (store, obj) act" where
  "persist_policy_admitted_case env c admission =
     (if \<not> case_identity env c then act_raise DurableCaseStoreError ''CASE_CONTENT_IDENTITY_INVALID''
      else if oget admission ''admission_status'' \<noteq> VStr ''ADMITTED'' \<or> oget admission ''case_id'' \<noteq> oget c ''case_id''
      then act_raise DurableCaseStoreError ''POLICY_ADMISSION_PROVENANCE_INVALID''
      else let body = admission_body admission; i = oget admission ''admission_identity'' in
        if i \<noteq> VStr (''prospective_case_admission:'' @ content_hash env body)
        then act_raise DurableCaseStoreError ''POLICY_ADMISSION_IDENTITY_INVALID''
        else let known = VStr (text_or_empty env (oget c ''known_at'')); admitted = oset body ''admission_identity'' i in
          act_bind (lift_res (make_event env (oget c ''case_id'') ''CASE_ADMITTED_BY_POLICY'' known known
            ''prospective_case_admission_policy/v1''
            (VList [VStr (text_or_empty env (oget admission ''workspace_projection_identity''))]) VNone
            [(''admission'', VDict admitted), (''case_content_identity'', oget c ''case_content_identity'')] False)) (\<lambda>event.
          commit_case env (oget c ''case_id'') (admitted_envelope c admitted event)))"

section \<open>Appending an update\<close>

definition as_store_error :: "'a res \<Rightarrow> 'a res" where
  \<comment> \<open>\<open>except ValueError as exc: raise DurableCaseStoreError(str(exc))\<close>\<close>
  "as_store_error r =
     (case r of Inl (Raise ValueError m) \<Rightarrow> raise DurableCaseStoreError m | _ \<Rightarrow> r)"

definition check_evidence :: "text_env \<Rightarrow> string list \<Rightarrow> obj \<Rightarrow> string res" where
  \<comment> \<open>the source of an update, which must be registered, or named a fixture\<close>
  "check_evidence env registered u =
     (let source = text_or_empty env (oget u ''source_evidence_identity'') in
      if v_true (oget u ''fixture'')
      then if oget u ''evidence_kind'' \<noteq> VStr ''TEST_FIXTURE'' \<or> \<not> starts_with source ''fixture:''
           then raise DurableCaseStoreError ''TEST_FIXTURE_EVIDENCE_IDENTITY_REQUIRED'' else Inr source
      else if source \<notin> set registered
      then raise DurableCaseStoreError ''UPDATE_EVIDENCE_IDENTITY_NOT_REGISTERED'' else Inr source)"

definition update_event :: "pyv \<Rightarrow> bool res" where
  "update_event e = bindE (attr_item e ''event_type'') (\<lambda>t. Inr (t = VStr ''CASE_UPDATE''))"

definition previous_update :: "pyv \<Rightarrow> pyv res" where
  "previous_update e = bindE (attr_item e ''payload'') (\<lambda>p. attr_item p ''update'')"

text \<open>
  The update is checked and its event built from what the store holds; only the writing happens under the
  lock.
\<close>

definition plan_update :: "text_env \<Rightarrow> string list \<Rightarrow> string \<Rightarrow> obj \<Rightarrow> string \<Rightarrow> store \<Rightarrow> (obj \<times> obj) res" where
  \<comment> \<open>the history that is returned and the event that is to be written\<close>
  "plan_update env registered case_id u lifecycle s =
     bindE (load_case_envelope env case_id s) (\<lambda>envelope. bindE (oitem envelope ''case'') (\<lambda>c.
     if oget u ''case_id'' \<noteq> VStr case_id \<or> \<not> identified_by env u ''update_identity'' update_prefix
     then raise DurableCaseStoreError ''UPDATE_CONTENT_IDENTITY_INVALID'' else
     bindE (check_evidence env registered u) (\<lambda>source.
     bindE (case_events env case_id s) (\<lambda>events.
     bindE (filterE update_event previous_update events) (\<lambda>previous.
     bindE (as_store_error (append_case_update env (the_dict c) previous u (VStr lifecycle))) (\<lambda>history.
     bindE (oitem u ''observed_at'') (\<lambda>observed. bindE (oitem u ''known_at'') (\<lambda>known.
     bindE (make_event env (VStr case_id) ''CASE_UPDATE'' observed known source (VList [VStr source]) (event_id (last events))
              [(''update'', VDict u), (''lifecycle_state'', VStr lifecycle)] (v_true (oget u ''fixture''))) (\<lambda>event.
       Inr (history, event))))))))))"

definition commit_event :: "text_env \<Rightarrow> obj \<Rightarrow> (store, unit) act" where
  "commit_event env event = writer (write_new_json (stored_event_path env (the_str (oget event ''event_id''))) event)"

definition append_update :: "text_env \<Rightarrow> string list \<Rightarrow> string \<Rightarrow> obj \<Rightarrow> string \<Rightarrow> (store, obj) act" where
  "append_update env registered case_id u lifecycle =
     act_bind (reading (plan_update env registered case_id u lifecycle)) (\<lambda>(history, event).
     act_bind (commit_event env event) (\<lambda>_. act_return history))"

section \<open>Replaying a case\<close>

record replay =
  rp_case :: obj
  rp_events :: "pyv list"
  rp_history :: obj
  rp_lifecycle :: pyv
  rp_claims :: obj
  rp_scenarios :: obj
  rp_catalysts :: obj
  rp_identity :: string

definition replay_event :: "pyv \<Rightarrow> pyv list \<times> pyv \<Rightarrow> (pyv list \<times> pyv) res" where
  \<comment> \<open>the updates and the state after one more event\<close>
  "replay_event e acc =
     bindE (update_event e) (\<lambda>b. if \<not> b then Inr acc else
     bindE (attr_item e ''payload'') (\<lambda>p. bindE (attr_get p ''update'') (\<lambda>u.
       if \<not> is_dict u then raise DurableCaseStoreError ''CASE_UPDATE_PAYLOAD_INVALID''
       else bindE (attr_get p ''lifecycle_state'') (\<lambda>l. Inr (fst acc @ [u], l)))))"

definition set_status :: "string \<Rightarrow> string \<Rightarrow> pyv \<Rightarrow> obj \<Rightarrow> obj res" where
  \<comment> \<open>\<open>d[item[key]] = item[value]\<close>; the keys of a mapping are strings\<close>
  "set_status key value item d =
     bindE (attr_item item value) (\<lambda>v. bindE (attr_item item key) (\<lambda>k.
       case k of VStr i \<Rightarrow> Inr (oset d i v) | _ \<Rightarrow> raise TypeError ''key is not a string''))"

definition claim_start :: "pyv \<Rightarrow> obj \<Rightarrow> obj res" where
  "claim_start claim d =
     bindE (attr_item claim ''claim_id'') (\<lambda>k.
       case k of VStr i \<Rightarrow> Inr (oset d i (VStr ''UNRESOLVED'')) | _ \<Rightarrow> raise TypeError ''key is not a string'')"

definition status_update :: "string \<Rightarrow> string \<Rightarrow> string \<Rightarrow> pyv \<Rightarrow> obj \<Rightarrow> obj res" where
  \<comment> \<open>the statuses one list of an update sets\<close>
  "status_update field key value u d =
     bindE (bindE (attr_item u field) py_iter) (\<lambda>items. foldE (set_status key value) items d)"

definition apply_update :: "pyv \<Rightarrow> obj \<times> obj \<times> obj \<Rightarrow> (obj \<times> obj \<times> obj) res" where
  "apply_update u acc =
     bindE (status_update ''relationships'' ''original_claim_id'' ''claim_outcome'' u (fst acc)) (\<lambda>claims.
     bindE (status_update ''scenario_updates'' ''original_evidence_id'' ''state'' u (fst (snd acc))) (\<lambda>scenarios.
     bindE (status_update ''catalyst_updates'' ''original_evidence_id'' ''state'' u (snd (snd acc))) (\<lambda>catalysts.
       Inr (claims, scenarios, catalysts))))"

definition replay_history :: "text_env \<Rightarrow> obj \<Rightarrow> pyv list \<Rightarrow> pyv \<Rightarrow> obj res" where
  "replay_history env c updates lifecycle =
     (if updates = [] then Inr (identify_history env (history_body c [] lifecycle))
      else as_store_error (append_case_update env c (butlast updates) (the_dict (last updates)) lifecycle))"

definition replay_of_id :: "text_env \<Rightarrow> string \<Rightarrow> obj \<Rightarrow> pyv list \<Rightarrow> string" where
  "replay_of_id env case_id history events =
     ''durable_case_replay:'' @ content_hash env
       [(''case_id'', VStr case_id), (''history_identity'', oget history ''case_history_identity''),
        (''events'', VList (map event_id events))]"

definition replay_case :: "text_env \<Rightarrow> string \<Rightarrow> store \<Rightarrow> replay res" where
  "replay_case env case_id s =
     bindE (load_case_envelope env case_id s) (\<lambda>envelope. bindE (oitem envelope ''case'') (\<lambda>c.
     bindE (case_events env case_id s) (\<lambda>events.
     bindE (oitem (the_dict c) ''lifecycle_state'') (\<lambda>start.
     bindE (foldE replay_event events ([], start)) (\<lambda>r.
     bindE (replay_history env (the_dict c) (fst r) (snd r)) (\<lambda>history.
     bindE (bindE (oitem (the_dict c) ''original_claims'') py_iter) (\<lambda>claims.
     bindE (foldE claim_start claims []) (\<lambda>unresolved.
     bindE (foldE apply_update (fst r) (unresolved, [], [])) (\<lambda>status.
     bindE (bindE (oitem (the_dict c) ''ai_human_provenance'') mapping_of) (\<lambda>_.
       Inr \<lparr>rp_case = the_dict c, rp_events = events, rp_history = history, rp_lifecycle = snd r,
            rp_claims = fst status, rp_scenarios = fst (snd status), rp_catalysts = snd (snd status),
            rp_identity = replay_of_id env case_id history events\<rparr>))))))))))"

definition replay_all_histories :: "text_env \<Rightarrow> store \<Rightarrow> obj list res" where
  "replay_all_histories env s =
     bindE (list_case_ids env s) (mapE (\<lambda>i. bindE (replay_case env i s) (\<lambda>r. Inr (rp_history r))))"

definition is_test_draft :: "text_env \<Rightarrow> pyv \<Rightarrow> bool res" where
  "is_test_draft env draft =
     bindE (attr_get draft ''fixture'') (\<lambda>f. Inr (v_true f
       \<or> starts_with (to_text env (oget_default (the_dict draft) ''draft_identity'' (VStr []))) ''TEST_FIXTURE:''))"

definition test_case :: "text_env \<Rightarrow> store \<Rightarrow> string \<Rightarrow> bool res" where
  "test_case env s i =
     bindE (load_case_envelope env i s) (\<lambda>envelope. bindE (oitem envelope ''ai_draft'') (is_test_draft env))"

definition store_learning_ledger :: "text_env \<Rightarrow> store \<Rightarrow> obj res" where
  \<comment> \<open>\<open>build_learning_ledger\<close> of the store\<close>
  "store_learning_ledger env s =
     bindE (list_case_ids env s) (\<lambda>ids.
     bindE (filterE (\<lambda>i. bindE (test_case env s i) (\<lambda>t. Inr (\<not> t)))
              (\<lambda>i. bindE (replay_case env i s) (\<lambda>r. Inr (rp_history r))) ids) (build_learning_ledger env))"

definition live_counts :: "text_env \<Rightarrow> store \<Rightarrow> (nat \<times> nat) res" where
  \<comment> \<open>the two counts of \<open>live_readiness\<close>\<close>
  "live_counts env s =
     bindE (list_case_ids env s) (\<lambda>ids.
     bindE (mapE (test_case env s) ids) (\<lambda>tests. Inr (length ids, length (filter Not tests))))"

section \<open>Putting events in order\<close>

text \<open>
  The events are in order if the first has no predecessor and each other names the one before it.
\<close>

definition in_order :: "pyv list \<Rightarrow> bool" where
  "in_order es \<longleftrightarrow> es \<noteq> [] \<and> prior_id (hd es) = VNone
     \<and> (\<forall>i. Suc i < length es \<longrightarrow> prior_id (es ! Suc i) = event_id (es ! i))"

definition named_events :: "pyv list \<Rightarrow> bool" where
  \<comment> \<open>what the verification of the events gives: identifiers that are strings, no two the same\<close>
  "named_events es \<longleftrightarrow> (\<forall>e\<in>set es. is_str (event_id e)) \<and> distinct (map event_id es)"

lemma named_event_neq_None: "named_events es \<Longrightarrow> e \<in> set es \<Longrightarrow> event_id e \<noteq> VNone"
  by (auto simp: named_events_def)

lemma named_event_inj: "named_events es \<Longrightarrow> e \<in> set es \<Longrightarrow> f \<in> set es \<Longrightarrow> event_id e = event_id f \<Longrightarrow> e = f"
  by (auto simp: named_events_def distinct_map dest: inj_onD)

lemma set_successors: "e \<in> set (successors es i) \<longleftrightarrow> e \<in> set es \<and> prior_id e = i"
  by (auto simp: successors_def)

lemma in_order_snoc:
  "in_order (es @ [e]) \<longleftrightarrow> (if es = [] then prior_id e = VNone else in_order es \<and> prior_id e = event_id (last es))"
proof (cases "es = []")
  case False
  have "(\<forall>i. Suc i < length (es @ [e]) \<longrightarrow> prior_id ((es @ [e]) ! Suc i) = event_id ((es @ [e]) ! i)) \<longleftrightarrow>
      (\<forall>i. Suc i < length es \<longrightarrow> prior_id (es ! Suc i) = event_id (es ! i)) \<and> prior_id e = event_id (last es)"
    (is "(\<forall>i. ?P i) \<longleftrightarrow> (\<forall>i. ?Q i) \<and> ?R")
  proof
    assume l: "\<forall>i. ?P i"
    have "?R" using l[rule_format, of "length es - 1"] False by (simp add: nth_append last_conv_nth)
    moreover have "?Q i" for i using l[rule_format, of i] by (auto simp: nth_append)
    ultimately show "(\<forall>i. ?Q i) \<and> ?R" by blast
  next
    assume r: "(\<forall>i. ?Q i) \<and> ?R"
    show "\<forall>i. ?P i"
    proof (intro allI impI)
      fix i
      assume "Suc i < length (es @ [e])"
      moreover have "Suc i = length es \<Longrightarrow> length es - Suc 0 = i" by simp
      ultimately show "prior_id ((es @ [e]) ! Suc i) = event_id ((es @ [e]) ! i)"
        using r False by (cases "Suc i = length es") (auto simp: nth_append last_conv_nth)
    qed
  qed
  then show ?thesis using False by (auto simp: in_order_def hd_append)
qed (simp add: in_order_def)

lemma in_order_new_event:
  \<comment> \<open>a successor of the last event is not among the events in order\<close>
  assumes "in_order os" "named_events es" "set os \<subseteq> set es" "distinct os" "prior_id e = event_id (last os)"
  shows "e \<notin> set os"
proof
  assume "e \<in> set os"
  then obtain i where i: "i < length os" "e = os ! i" by (metis in_set_conv_nth)
  have ne: "os \<noteq> []" using assms(1) by (simp add: in_order_def)
  have l: "last os \<in> set es" using ne assms(3) by auto
  show False
  proof (cases i)
    case 0
    then have "prior_id e = VNone" using i ne assms(1) by (simp add: in_order_def hd_conv_nth)
    then show False using assms(5) named_event_neq_None[OF assms(2) l] by simp
  next
    case (Suc j)
    then have "event_id (os ! j) = event_id (last os)" using assms(1,5) i by (simp add: in_order_def)
    moreover have "os ! j \<in> set es" using Suc i assms(3) nth_mem[of j os] by auto
    ultimately have "os ! j = last os" using named_event_inj[OF assms(2)] l by blast
    then have "j = length os - 1" using assms(4) i Suc ne by (simp add: last_conv_nth nth_eq_iff_index_eq)
    then show False using i Suc by simp
  qed
qed

lemma follow_chain_simp:
  "follow_chain es e os =
     (case successors es (event_id e) of
        [] \<Rightarrow> Some (Inr (os @ [e]))
      | [f] \<Rightarrow> follow_chain es f (os @ [e])
      | _ \<Rightarrow> Some (raise DurableCaseStoreError ''CONCURRENT_CONFLICTING_APPEND''))"
  by (subst follow_chain.simps) simp

lemma follow_chain_ends:
  assumes "named_events es"
  shows "in_order (os @ [e]) \<Longrightarrow> set (os @ [e]) \<subseteq> set es \<Longrightarrow> distinct (os @ [e]) \<Longrightarrow>
     follow_chain es e os = Some (raise DurableCaseStoreError ''CONCURRENT_CONFLICTING_APPEND'')
     \<or> (\<exists>ps. follow_chain es e os = Some (Inr ps) \<and> in_order ps \<and> set ps \<subseteq> set es \<and> distinct ps
          \<and> prefix (os @ [e]) ps \<and> successors es (event_id (last ps)) = [])"
proof (induction "length es - length os" arbitrary: os e rule: less_induct)
  case less
  note ends = follow_chain_simp[of es e os]
  show ?case
  proof (cases "successors es (event_id e)")
    case Nil
    then show ?thesis using ends less.prems by auto
  next
    case (Cons f fs)
    show ?thesis
    proof (cases fs)
      case Nil
      then have f: "successors es (event_id e) = [f]" using Cons by simp
      then have "f \<in> set es" "prior_id f = event_id e" using set_successors[of f es "event_id e"] by auto
      then have new: "f \<notin> set (os @ [e])"
        using in_order_new_event[OF less.prems(1) assms less.prems(2,3)] by simp
      have "length (os @ [e]) \<le> length es"
        using less.prems(2,3) by (metis card_length card_mono distinct_card le_trans List.finite_set)
      then have "length es - length (os @ [e]) < length es - length os" by simp
      moreover have "in_order ((os @ [e]) @ [f])" using less.prems(1) \<open>prior_id f = event_id e\<close>
        by (simp only: in_order_snoc[of "os @ [e]" f]) simp
      moreover have "set ((os @ [e]) @ [f]) \<subseteq> set es" "distinct ((os @ [e]) @ [f])"
        using less.prems(2,3) \<open>f \<in> set es\<close> new by auto
      ultimately have "follow_chain es f (os @ [e]) = Some (raise DurableCaseStoreError ''CONCURRENT_CONFLICTING_APPEND'')
         \<or> (\<exists>ps. follow_chain es f (os @ [e]) = Some (Inr ps) \<and> in_order ps \<and> set ps \<subseteq> set es \<and> distinct ps
              \<and> prefix ((os @ [e]) @ [f]) ps \<and> successors es (event_id (last ps)) = [])"
        by (rule less.hyps)
      then show ?thesis unfolding ends f by (auto simp: prefix_def)
    next
      case (Cons g gs)
      then show ?thesis using ends \<open>successors es (event_id e) = f # fs\<close> by simp
    qed
  qed
qed

lemma set_single: "distinct xs \<Longrightarrow> set xs = {x} \<Longrightarrow> xs = [x]"
  by (cases xs) (auto simp: subset_singleton_iff)

lemma successors_in_order:
  assumes "in_order os" "mset os = mset es" "named_events es"
  shows "successors es VNone = [hd os]"
    "i < length os \<Longrightarrow> successors es (event_id (os ! i)) = (if Suc i < length os then [os ! Suc i] else [])"
proof -
  have set: "set os = set es" using assms(2) by (rule mset_eq_setD)
  have d: "distinct es" "distinct os" using assms(2,3) mset_eq_imp_distinct_iff
    by (auto simp: named_events_def distinct_map)
  have ne: "os \<noteq> []" using assms(1) by (simp add: in_order_def)
  have prior: "prior_id (os ! Suc j) = event_id (os ! j)" if "Suc j < length os" for j
    using assms(1) that by (simp add: in_order_def)
  have id: "is_str (event_id (os ! j))" if "j < length os" for j
    using assms(3) set nth_mem[OF that] by (simp add: named_events_def)
  have first: "prior_id (os ! 0) = VNone" using assms(1) ne by (simp add: in_order_def hd_conv_nth)
  have "os ! j = hd os" if "j < length os" "prior_id (os ! j) = VNone" for j
    using prior[of "j - 1"] id[of "j - 1"] that ne by (cases j) (auto simp: hd_conv_nth)
  then have "set (successors es VNone) = {hd os}"
    using first ne unfolding set_eq_iff set_successors set[symmetric] by (auto simp: in_set_conv_nth hd_conv_nth)
  then show "successors es VNone = [hd os]" by (rule set_single[rotated]) (simp add: successors_def d(1))
  assume i: "i < length os"
  have "k = Suc i" if "k < length os" "prior_id (os ! k) = event_id (os ! i)" for k
  proof (cases k)
    case 0
    then show ?thesis using that first id[OF i] by simp
  next
    case (Suc m)
    then have "event_id (os ! m) = event_id (os ! i)" using prior[of m] that by simp
    then have "os ! m = os ! i" using named_event_inj[OF assms(3)] set nth_mem[OF i] nth_mem[of m os] that Suc by auto
    then show ?thesis using d(2) that Suc i by (simp add: nth_eq_iff_index_eq)
  qed
  then have only: "x = os ! Suc i \<and> Suc i < length os" if "x \<in> set (successors es (event_id (os ! i)))" for x
    using that unfolding set_successors set[symmetric] by (metis in_set_conv_nth)
  have dist: "distinct (successors es (event_id (os ! i)))" by (simp add: successors_def d(1))
  show "successors es (event_id (os ! i)) = (if Suc i < length os then [os ! Suc i] else [])"
  proof (cases "Suc i < length os")
    case True
    then have "os ! Suc i \<in> set (successors es (event_id (os ! i)))"
      unfolding set_successors set[symmetric] by (simp add: prior)
    then have "set (successors es (event_id (os ! i))) = {os ! Suc i}" using only by blast
    from set_single[OF dist this] True show ?thesis by simp
  next
    case False
    then show ?thesis using only by (cases "successors es (event_id (os ! i))") auto
  qed
qed

lemma follow_chain_in_order:
  assumes "in_order os" "mset os = mset es" "named_events es"
  shows "i < length os \<Longrightarrow> follow_chain es (os ! i) (take i os) = Some (Inr os)"
proof (induction "length os - i" arbitrary: i rule: less_induct)
  case less
  note s = successors_in_order(2)[OF assms less.prems]
  have t: "take i os @ [os ! i] = take (Suc i) os" using less.prems by (simp add: take_Suc_conv_app_nth)
  show ?case
  proof (cases "Suc i < length os")
    case True
    then show ?thesis using less.hyps[of "Suc i"] less.prems s t by (subst follow_chain_simp) simp
  next
    case False
    then show ?thesis using s t less.prems by (subst follow_chain_simp) simp
  qed
qed

lemma check_links_ok: "(\<And>e. e \<in> set es \<Longrightarrow> prior_id e = VNone \<or> hashable (prior_id e) \<and> prior_id e \<in> set ids)
    \<Longrightarrow> check_links ids es = Inr ()"
  by (induction ids es rule: check_links.induct) auto

lemma order_events_Inr:
  assumes "\<forall>e\<in>set es. is_str (event_id e)"
  shows "order_events es = Inr os \<longleftrightarrow> distinct (map event_id es) \<and> in_order os \<and> mset os = mset es"
proof
  assume l: "order_events es = Inr os"
  then have n: "named_events es" using assms
    by (simp add: order_events_def Let_def named_events_def split: if_splits)
  from l obtain e where e: "successors es VNone = [e]" "follow_chain es e [] = Some (Inr os)" "length os = length es"
    using n by (auto simp: order_events_def Let_def named_events_def bindE_eq_Inr split: list.splits option.splits if_splits)
  have e': "prior_id e = VNone" "e \<in> set es" using set_successors[of e es VNone] e(1) by auto
  have "in_order ([] @ [e])" "set ([] @ [e]) \<subseteq> set es" "distinct ([] @ [e])"
    using e' by (simp_all add: in_order_def)
  from follow_chain_ends[OF n this] e(2) have os: "in_order os" "set os \<subseteq> set es" "distinct os" by auto
  have d: "distinct es" using n by (simp add: named_events_def distinct_map)
  have "set os = set es"
    using os(2,3) e(3) d by (intro card_subset_eq) (simp_all add: distinct_card)
  then have "mset os = mset es" using os(3) d by (simp add: set_eq_iff_mset_eq_distinct)
  then show "distinct (map event_id es) \<and> in_order os \<and> mset os = mset es"
    using os(1) n by (simp add: named_events_def)
next
  assume r: "distinct (map event_id es) \<and> in_order os \<and> mset os = mset es"
  then have n: "named_events es" and os: "in_order os" "mset os = mset es" using assms by (simp_all add: named_events_def)
  have ne: "os \<noteq> []" using os(1) by (simp add: in_order_def)
  have "check_links (map event_id es) es = Inr ()"
  proof (rule check_links_ok)
    fix e
    assume "e \<in> set es"
    then obtain i where i: "i < length os" "e = os ! i" using mset_eq_setD[OF os(2)] by (metis in_set_conv_nth)
    show "prior_id e = VNone \<or> hashable (prior_id e) \<and> prior_id e \<in> set (map event_id es)"
    proof (cases i)
      case 0
      then show ?thesis using i ne os(1) by (simp add: in_order_def hd_conv_nth)
    next
      case (Suc j)
      then have "prior_id e = event_id (os ! j)" "os ! j \<in> set es"
        using i os(1) mset_eq_setD[OF os(2)] nth_mem[of j os] by (auto simp: in_order_def)
      then show ?thesis using assms by (auto elim!: is_str.elims)
    qed
  qed
  moreover have "follow_chain es (hd os) [] = Some (Inr os)"
    using follow_chain_in_order[OF os n, of 0] ne by (simp add: hd_conv_nth)
  ultimately show "order_events es = Inr os"
    using r successors_in_order(1)[OF os n] mset_eq_length[OF os(2)] by (simp add: order_events_def Let_def)
qed

lemma verified_event:
  assumes "verify_event env e = Inr ()"
  shows "is_dict e" "is_str (event_id e)"
  using assms by (auto simp: verify_event_def mapping_of_def event_id_def Let_def bindE_eq_Inr split: pyv.splits if_splits)

text \<open>
  C12. Reading a case ends and puts its events in the one order they can have: of verified events with
  distinct identities the loop along the chain always returns, and the result is an ordering of the events
  exactly if it starts with the event without a predecessor and each other names the one before it,
  whatever the order the files were listed in.
\<close>

theorem events_put_in_order:
  assumes "\<forall>e\<in>set es. verify_event env e = Inr ()"
  shows "(order_events es = Inr os \<longleftrightarrow> distinct (map event_id es) \<and> in_order os \<and> mset os = mset es)
    \<and> (distinct (map event_id es) \<and> successors es VNone = [e] \<longrightarrow> follow_chain es e [] \<noteq> None)"
proof -
  have str: "\<forall>e\<in>set es. is_str (event_id e)" using assms verified_event by blast
  moreover have "follow_chain es e [] \<noteq> None" if "distinct (map event_id es)" "successors es VNone = [e]"
  proof -
    have n: "named_events es" using str that(1) by (simp add: named_events_def)
    have "prior_id e = VNone" "e \<in> set es" using set_successors[of e es VNone] that(2) by auto
    then have "in_order ([] @ [e])" "set ([] @ [e]) \<subseteq> set es" "distinct ([] @ [e])" by (simp_all add: in_order_def)
    from follow_chain_ends[OF n this] show ?thesis by auto
  qed
  ultimately show ?thesis using order_events_Inr by blast
qed

section \<open>What is read back\<close>

lemma sort_keys_idem [simp]: "sort_keys (sort_keys v) = sort_keys v"
proof (induction v)
  case (VDict d)
  let ?d = "map (map_prod id sort_keys) d"
  have "map (map_prod id sort_keys) (sort_key fst ?d) = sort_key fst ?d"
  proof (rule map_idI)
    fix kv
    assume "kv \<in> set (sort_key fst ?d)"
    then obtain k v where "kv = (k, sort_keys v)" "(k, v) \<in> set d" by auto
    then show "map_prod id sort_keys kv = kv" using VDict.IH[of "(k, v)" v] by simp
  qed
  then show ?case by (simp add: sort_key_id_if_sorted)
qed simp_all

definition stored_form :: "obj \<Rightarrow> obj" where
  \<comment> \<open>what is read of a mapping that was written\<close>
  "stored_form d = the_dict (sort_keys (VDict d))"

lemma sort_keys_stored [simp]: "sort_keys (VDict (stored_form d)) = sort_keys (VDict d)"
  using sort_keys_idem[of "VDict d"] by (simp add: stored_form_def)

lemma stored_form_def': "VDict (stored_form d) = sort_keys (VDict d)"
  by (simp add: stored_form_def)

lemma oget_stored: "oget (stored_form d) k = sort_keys (oget d k)"
  by (simp only: stored_form_def oget_sort_keys)

lemma odel_stored: "odel (stored_form d) k = stored_form (odel d k)"
  by (simp add: stored_form_def odel_def filter_sort filter_map o_def)

lemma stored_form_idem [simp]: "stored_form (stored_form d) = stored_form d"
  using sort_keys_stored[of d] by (simp add: stored_form_def)

lemma canonical_stored [simp]: "content_hash env (stored_form d) = content_hash env d"
  by (simp add: content_hash_def canonical_def json_dumps_def del: sort_keys.simps)

lemma identified_stored [simp]: "identified_by env (stored_form d) field pre = identified_by env d field pre"
  by (simp add: identified_by_def oget_stored odel_stored)

lemma case_identity_stored [simp]: "case_identity env (stored_form d) = case_identity env d"
  by (simp add: case_identity_def case_body_def oget_stored odel_stored)

lemma oitem_stored: "oitem (stored_form d) k = bindE (oitem d k) (\<lambda>v. Inr (sort_keys v))"
proof -
  have "map_of (stored_form d) k = map_option sort_keys (map_of d k)"
    by (simp add: stored_form_def map_of_map_prod)
  then show ?thesis by (simp add: oitem_def split: option.splits)
qed

lemma oitem_stored_str [simp]: "oitem d k = Inr (VStr x) \<Longrightarrow> oitem (stored_form d) k = Inr (VStr x)"
  by (simp add: oitem_stored)

section \<open>What the operations keep\<close>

definition store_extends :: "store \<Rightarrow> store \<Rightarrow> bool" where
  \<comment> \<open>every file but the lock is still there, unchanged, and the lock is not left behind\<close>
  "store_extends s t \<longleftrightarrow> (\<forall>p f. p \<noteq> lock_path \<longrightarrow> map_of s p = Some f \<longrightarrow> map_of t p = Some f)
     \<and> (map_of s lock_path = None \<longrightarrow> map_of t lock_path = None)"

definition act_keeps :: "('s \<Rightarrow> 's \<Rightarrow> bool) \<Rightarrow> ('s, 'a) act \<Rightarrow> bool" where
  "act_keeps R m \<longleftrightarrow> (\<forall>s. R s (snd (m s)))"

locale act_effect =
  fixes R :: "'s \<Rightarrow> 's \<Rightarrow> bool"
  assumes refl: "R s s"
    and trans: "R s t \<Longrightarrow> R t u \<Longrightarrow> R s u"
begin

lemma bind:
  assumes "act_keeps R m" "\<And>v. act_keeps R (k v)"
  shows "act_keeps R (act_bind m k)"
  unfolding act_keeps_def
proof
  fix s
  have "R s (snd (m s))" using assms(1) by (simp add: act_keeps_def)
  then show "R s (snd (act_bind m k s))"
    using assms(2) trans by (auto simp: act_bind_def act_keeps_def split: prod.splits sum.splits)
qed

lemma no_effect: "(\<And>s. snd (m s) = s) \<Longrightarrow> act_keeps R m"
  by (simp add: act_keeps_def refl)

lemma cases: "act_keeps R m \<Longrightarrow> act_keeps R n \<Longrightarrow> act_keeps R (if b then m else n)"
  by simp

end

interpretation extending: act_effect store_extends
  by unfold_locales (auto simp: store_extends_def)

lemma map_of_filter_path: "map_of (filter (\<lambda>kv. fst kv \<noteq> q) s) p = (if p = q then None else map_of s p)"
  by (induction s) auto

lemma write_new_json_keeps: "p \<noteq> lock_path \<Longrightarrow> act_keeps store_extends (write_new_json p d)"
  by (auto simp: act_keeps_def write_new_json_def store_extends_def map_add_def split: option.splits)

lemma writer_keeps:
  assumes "act_keeps store_extends m"
  shows "act_keeps store_extends (writer m)"
  unfolding act_keeps_def
proof
  fix s
  obtain r t where m: "m (s @ [(lock_path, Other)]) = (r, t)" by fastforce
  have "store_extends (s @ [(lock_path, Other)]) t"
    using assms m unfolding act_keeps_def by (metis snd_conv)
  then have "map_of t p = Some f" if "p \<noteq> lock_path" "map_of s p = Some f" for p f
    using that by (simp add: store_extends_def map_add_def)
  then show "store_extends s (snd (writer m s))"
    by (auto simp: writer_def m store_extends_def map_of_filter_path)
qed

lemma paths_distinct [simp]:
  "stored_case_path env i \<noteq> lock_path" "stored_event_path env e \<noteq> lock_path" "contract_path \<noteq> lock_path"
  "stored_case_path env i \<noteq> stored_event_path env e" "stored_event_path env e \<noteq> stored_case_path env i"
  "contract_path \<noteq> stored_case_path env i" "contract_path \<noteq> stored_event_path env e"
  by (simp_all add: stored_case_path_def stored_event_path_def lock_path_def contract_path_def)

lemma commit_case_keeps: "act_keeps store_extends (commit_case env i body)"
  unfolding commit_case_def Let_def
  by (intro extending.bind writer_keeps write_new_json_keeps extending.no_effect) (simp_all add: reading_def)

lemma persist_case_keeps: "act_keeps store_extends (persist_case env c draft validation review)"
  unfolding persist_case_def
  by (intro extending.cases extending.bind commit_case_keeps extending.no_effect) (simp_all add: lift_res_def)

lemma persist_admitted_keeps: "act_keeps store_extends (persist_policy_admitted_case env c admission)"
  unfolding persist_policy_admitted_case_def Let_def
  by (intro extending.cases extending.bind commit_case_keeps extending.no_effect) (simp_all add: lift_res_def)

lemma commit_event_keeps: "act_keeps store_extends (commit_event env e)"
  unfolding commit_event_def by (intro writer_keeps write_new_json_keeps) simp

lemma append_update_keeps: "act_keeps store_extends (append_update env registered i u l)"
  unfolding append_update_def
proof (intro extending.bind)
  show "act_keeps store_extends (case v of (h, e) \<Rightarrow> act_bind (commit_event env e) (\<lambda>_. act_return h))" for v
    by (cases v) (simp, intro extending.bind commit_event_keeps extending.no_effect, simp)
qed (simp add: extending.no_effect reading_def)

lemma open_store_keeps: "act_keeps store_extends (open_store env registered)"
proof -
  have "snd (verify_contract env s) = (if map_of s contract_path \<noteq> None then s
      else snd (write_new_json contract_path (store_contract env) s))" for s
    unfolding verify_contract_def write_new_json_def by (simp split: unit.split)
  then have "act_keeps store_extends (verify_contract env)"
    using write_new_json_keeps[of contract_path "store_contract env"] extending.refl by (simp add: act_keeps_def)
  then have "act_keeps store_extends (act_bind (verify_contract env) (\<lambda>_. act_return registered))"
    by (rule extending.bind) (rule extending.no_effect, simp)
  then show ?thesis
    unfolding open_store_def by (simp add: extending.no_effect)
qed

text \<open>
  C11. The store only grows: opening it, persisting a case, with or without review, and appending an
  update leave every file that was there as it was, whether they succeed or raise, and never leave the
  writer lock behind.
\<close>

theorem store_append_only:
  "store_extends s (snd (open_store env registered s))
    \<and> store_extends s (snd (persist_case env c draft validation review s))
    \<and> store_extends s (snd (persist_policy_admitted_case env c admission s))
    \<and> store_extends s (snd (append_update env registered case_id u lifecycle s))"
  using open_store_keeps persist_case_keeps persist_admitted_keeps append_update_keeps
  by (simp add: act_keeps_def)

section \<open>Writing and reading events\<close>

lemma commit_event_Inr:
  assumes "commit_event env e s = (Inr (), t)" "oget e ''event_id'' = VStr i"
  shows "map_of s lock_path = None" "map_of s (stored_event_path env i) = None"
    "t = s @ [(stored_event_path env i, Json (VDict (stored_form e)))]"
proof -
  have absent: "filter (\<lambda>kv. fst kv \<noteq> lock_path) s = s" if "map_of s lock_path = None"
    using that by (force simp: filter_id_conv map_of_eq_None_iff)
  have "stored_event_path env i \<noteq> lock_path" by simp
  then show "map_of s lock_path = None" "map_of s (stored_event_path env i) = None"
    "t = s @ [(stored_event_path env i, Json (VDict (stored_form e)))]"
    using assms absent
    by (auto simp: commit_event_def writer_def write_new_json_def map_add_def stored_form_def' split: if_splits option.splits
        simp del: sort_keys.simps)
qed

lemma check_timestamp_str: "check_timestamp v = Inr () \<Longrightarrow> is_str v"
  by (cases v) (auto simp: check_timestamp_def parse_time_def raise_def)

lemma make_event_Inr:
  assumes "make_event env i kind obsd known actor refs prior payload fixture = Inr e"
  shows "oget e ''case_id'' = i" "oget e ''event_type'' = VStr kind" "oget e ''prior_event_id'' = prior"
    "oget e ''payload'' = VDict payload" "oget e ''event_id'' = VStr (event_prefix @ content_hash env (event_body e))"
    "oget e ''content_identity'' = VStr (event_prefix @ content_hash env (event_body e))"
    "oget e ''observed_at'' = obsd" "oget e ''known_at'' = known"
    "check_timestamp obsd = Inr ()" "check_timestamp known = Inr ()"
  using assms by (auto simp: make_event_def Let_def bindE_eq_Inr event_body_def)

lemma verify_stored_event:
  assumes "make_event env i kind obsd known actor refs prior payload fixture = Inr e"
  shows "verify_event env (VDict (stored_form e)) = Inr ()"
proof -
  note e = make_event_Inr[OF assms]
  obtain x y where xy: "obsd = VStr x" "known = VStr y"
    using check_timestamp_str[OF e(9)] check_timestamp_str[OF e(10)] by (auto elim!: is_str.elims)
  have body: "content_hash env (event_body (stored_form e)) = content_hash env (event_body e)"
    by (simp add: event_body_def odel_stored)
  show ?thesis
    using e(5-10) unfolding verify_event_def mapping_of_def
    by (simp add: oget_stored body xy to_text_def)
qed

lemma verified_same_event:
  assumes "inj (te_sha env)" "float_text (te_float env)"
    and "verify_event env (VDict d) = Inr ()" "verify_event env (VDict e) = Inr ()"
    and "oget d ''event_id'' = oget e ''event_id''" "k \<notin> {''event_id'', ''content_identity''}"
  shows "sort_keys (oget d k) = sort_keys (oget e k)"
proof -
  have "content_hash env (event_body d) = content_hash env (event_body e)"
    using assms(3-5) by (auto simp: verify_event_def mapping_of_def Let_def split: if_splits)
  then have "json_dumps (te_float env) (VDict (event_body d)) = json_dumps (te_float env) (VDict (event_body e))"
    using injD[OF assms(1)] by (auto simp: content_hash_def canonical_def)
  note same = json_dumps_inject[OF assms(2) this]
  have "sort_keys (oget d k) = sort_keys (oget (event_body d) k)" using assms(6) by (simp add: event_body_def)
  also have "\<dots> = sort_keys (oget (event_body e) k)" using same by (simp only: flip: oget_sort_keys)
  also have "\<dots> = sort_keys (oget e k)" using assms(6) by (simp add: event_body_def)
  finally show ?thesis .
qed

lemma load_cong:
  assumes "map_of t (stored_case_path env i) = map_of s (stored_case_path env i)"
  shows "load_case_envelope env i t = load_case_envelope env i s"
  by (simp add: load_case_envelope_def Let_def read_json_def assms)

lemma load_Inr:
  assumes "load_case_envelope env i s = Inr envelope"
  shows "\<exists>c. oget envelope ''case'' = VDict c \<and> oitem envelope ''case'' = Inr (VDict c) \<and> oget c ''case_id'' = VStr i
      \<and> case_identity env c"
    "bindE (oitem envelope ''initial_events'') py_iter = Inr initial \<Longrightarrow> \<forall>e\<in>set initial. verify_event env e = Inr ()"
proof -
  from assms obtain c events where c: "oget_default envelope ''case'' (VDict []) = VDict c" "oget c ''case_id'' = VStr i"
      "case_identity env c"
    and events: "py_iter (oget_default envelope ''initial_events'' (VList [])) = Inr events"
      "foldE (\<lambda>e _. verify_event env e) events () = Inr ()"
    by (auto simp: load_case_envelope_def Let_def bindE_eq_Inr attr_get_Inr split: if_splits)
  have "oitem envelope ''case'' = Inr (VDict c)"
    using c(1,2) by (auto simp: oget_default_def oitem_def split: option.splits)
  then show "\<exists>c. oget envelope ''case'' = VDict c \<and> oitem envelope ''case'' = Inr (VDict c) \<and> oget c ''case_id'' = VStr i
      \<and> case_identity env c"
    using c by (auto simp: oitem_def oget_def split: option.splits)
  show "bindE (oitem envelope ''initial_events'') py_iter = Inr initial \<Longrightarrow> \<forall>e\<in>set initial. verify_event env e = Inr ()"
    using events by (auto simp: oitem_def oget_default_def foldE_unit split: option.splits)
qed

lemma mapE_Inr_iff: "mapE f xs = Inr ys \<longleftrightarrow> (\<forall>x\<in>set xs. is_ok (f x)) \<and> ys = map (\<lambda>x. projr (f x)) xs"
proof (induction xs arbitrary: ys)
  case (Cons x xs)
  then show ?case by (cases "f x") (auto simp: bindE_eq_Inr)
qed auto

lemma mset_json_files:
  assumes "q \<notin> fst ` set s" "q = [dir, n]" "suffix ''.json'' n"
  shows "mset (json_files dir (s @ [(q, f)])) = add_mset q (mset (json_files dir s))"
proof -
  have "mset (json_files dir (s @ [(q, f)])) = mset (q # json_files dir s)"
    using assms by (intro set_eq_iff_mset_eq_distinct[THEN iffD1]) (auto simp: json_files_def)
  then show ?thesis by simp
qed

definition read_event :: "text_env \<Rightarrow> store \<Rightarrow> string list \<Rightarrow> pyv res" where
  "read_event env s p = bindE (read_json p s) (\<lambda>d. bindE (verify_event env (VDict d)) (\<lambda>_. Inr (VDict d)))"

lemma appended_events_eq:
  "appended_events env i s = bindE (mapE (read_event env s) (json_files ''events'' s)) (\<lambda>events.
     Inr (filter (\<lambda>e. oget (the_dict e) ''case_id'' = VStr i) events))"
  by (simp add: appended_events_def read_event_def[abs_def])

lemma event_path_shape: "stored_event_path env x = [''events'', te_sha env x @ ''.json'']" "suffix ''.json'' (te_sha env x @ ''.json'')"
  unfolding stored_event_path_def by (simp, rule suffixI, rule HOL.refl)

lemma appended_any:
  assumes "appended_events env i s = Inr es" "map_of s (stored_event_path env x) = None" "verify_event env (VDict d) = Inr ()"
  shows "\<exists>es'. appended_events env i (s @ [(stored_event_path env x, Json (VDict d))]) = Inr es'
     \<and> mset es' = (if oget d ''case_id'' = VStr i then add_mset (VDict d) (mset es) else mset es)"
proof -
  let ?q = "stored_event_path env x" and ?files = "json_files ''events'' s"
  let ?t = "s @ [(?q, Json (VDict d))]"
  have fresh: "?q \<notin> fst ` set s" using assms(2) by (simp add: map_of_eq_None_iff)
  have same: "read_event env ?t p = read_event env s p" if "p \<in> set ?files" for p
  proof -
    have "p \<in> fst ` set s" using that by (auto simp: json_files_def)
    then have "map_of ?t p = map_of s p" by (auto simp: map_add_def split: option.splits simp: map_of_eq_None_iff)
    then show ?thesis by (simp add: read_event_def read_json_def)
  qed
  have new: "read_event env ?t ?q = Inr (VDict d)"
    using assms(2,3) by (simp add: read_event_def read_json_def map_add_def)
  have m: "mset (json_files ''events'' ?t) = add_mset ?q (mset ?files)"
    by (rule mset_json_files[OF fresh event_path_shape])
  from m have set: "set (json_files ''events'' ?t) = insert ?q (set ?files)" by (metis set_mset_add_mset_insert set_mset_mset)
  from assms(1) obtain all where all: "mapE (read_event env s) ?files = Inr all"
    and es: "es = filter (\<lambda>e. oget (the_dict e) ''case_id'' = VStr i) all"
    unfolding appended_events_eq bindE_eq_Inr by auto
  let ?all' = "map (\<lambda>p. projr (read_event env ?t p)) (json_files ''events'' ?t)"
  have "mapE (read_event env ?t) (json_files ''events'' ?t) = Inr ?all'"
    using all new same unfolding mapE_Inr_iff set by simp
  moreover have "mset ?all' = add_mset (VDict d) (mset all)"
    using all same unfolding mapE_Inr_iff mset_map m by (simp add: new) (auto intro!: image_mset_cong)
  then have "mset (filter (\<lambda>e. oget (the_dict e) ''case_id'' = VStr i) ?all')
      = (if oget d ''case_id'' = VStr i then add_mset (VDict d) (mset es) else mset es)"
    unfolding es mset_filter by simp
  ultimately show ?thesis unfolding appended_events_eq by auto
qed

lemma appended_after:
  assumes "appended_events env i s = Inr es" "map_of s (stored_event_path env x) = None" "verify_event env (VDict d) = Inr ()"
    and "oget d ''case_id'' = VStr i"
  shows "\<exists>es'. appended_events env i (s @ [(stored_event_path env x, Json (VDict d))]) = Inr es'
     \<and> mset es' = add_mset (VDict d) (mset es)"
  using appended_any[OF assms(1-3)] assms(4) by simp

section \<open>The events of a case after an append\<close>

lemma appended_verified: "appended_events env i s = Inr es \<Longrightarrow> e \<in> set es \<Longrightarrow> verify_event env e = Inr ()"
  unfolding appended_events_eq
  by (auto simp: bindE_eq_Inr read_event_def dest!: mapE_Inr_set)

lemma case_events_Inr:
  assumes "case_events env i s = Inr os"
  shows "\<exists>envelope initial es. load_case_envelope env i s = Inr envelope
    \<and> bindE (oitem envelope ''initial_events'') py_iter = Inr initial \<and> appended_events env i s = Inr es
    \<and> order_events (initial @ es) = Inr os \<and> (\<forall>e\<in>set (initial @ es). verify_event env e = Inr ())
    \<and> distinct (map event_id (initial @ es)) \<and> in_order os \<and> mset os = mset (initial @ es)"
proof -
  from assms obtain envelope initial es where parts: "load_case_envelope env i s = Inr envelope"
      "bindE (oitem envelope ''initial_events'') py_iter = Inr initial" "appended_events env i s = Inr es"
      "order_events (initial @ es) = Inr os"
    unfolding case_events_def bindE_eq_Inr[of "load_case_envelope _ _ _"] bindE_eq_Inr[of "bindE _ py_iter"]
      bindE_eq_Inr[of "appended_events _ _ _"] by blast
  have verified: "\<forall>e\<in>set (initial @ es). verify_event env e = Inr ()"
    using load_Inr(2)[OF parts(1,2)] appended_verified[OF parts(3)] by auto
  then have "\<forall>e\<in>set (initial @ es). is_str (event_id e)" using verified_event by blast
  from order_events_Inr[OF this] parts verified show ?thesis by blast
qed

lemma case_events_after:
  assumes env: "inj (te_sha env)" "float_text (te_float env)"
    and old: "case_events env i s = Inr os" and fresh: "map_of s (stored_event_path env x) = None"
    and d: "verify_event env (VDict d) = Inr ()" "oget d ''case_id'' = VStr i" "oget d ''prior_event_id'' = event_id (last os)"
  shows "case_events env i (s @ [(stored_event_path env x, Json (VDict d))]) = Inr (os @ [VDict d])"
proof -
  let ?t = "s @ [(stored_event_path env x, Json (VDict d))]"
  from case_events_Inr[OF old] obtain envelope initial es where parts: "load_case_envelope env i s = Inr envelope"
      "bindE (oitem envelope ''initial_events'') py_iter = Inr initial" "appended_events env i s = Inr es"
    and ok: "\<forall>e\<in>set (initial @ es). verify_event env e = Inr ()"
      "distinct (map event_id (initial @ es))" "in_order os" "mset os = mset (initial @ es)" by blast
  have load: "load_case_envelope env i ?t = Inr envelope"
    using load_cong[of ?t env i s] parts(1) by (auto simp: map_add_def split: option.splits)
  obtain es' where es': "appended_events env i ?t = Inr es'" "mset es' = add_mset (VDict d) (mset es)"
    using appended_after[OF parts(3) fresh d(1,2)] by blast
  have n: "named_events (initial @ es)" 
    using ok(1,2) verified_event(2) unfolding named_events_def by blast
  have "distinct (initial @ es)" using ok(2) unfolding distinct_map[of event_id] by (rule conjunct1)
  then have os: "set os = set (initial @ es)" "distinct os"
    using mset_eq_setD[OF ok(4)] mset_eq_imp_distinct_iff[OF ok(4)] by blast+
  have ne: "os \<noteq> []" using ok(3) by (simp add: in_order_def)
  then have last: "last os \<in> set (initial @ es)" unfolding os(1)[symmetric] by simp
  have new: "event_id (VDict d) \<noteq> event_id e" if e: "e \<in> set (initial @ es)" for e
  proof
    assume same: "event_id (VDict d) = event_id e"
    obtain e' where e': "e = VDict e'" "verify_event env (VDict e') = Inr ()"
      using ok(1) e verified_event(1) by (cases e) fastforce+
    have "is_str (event_id (last os))" using n last by (simp add: named_events_def)
    then obtain j where j: "event_id (last os) = VStr j" by (auto elim!: is_str.elims)
    have "sort_keys (oget e' ''prior_event_id'') = sort_keys (oget d ''prior_event_id'')"
      using same verified_same_event[OF env e'(2) d(1), of "''prior_event_id''"] by (simp add: event_id_def e'(1))
    then have "prior_id e = event_id (last os)" using d(3) by (simp add: j prior_id_def e'(1))
    from in_order_new_event[OF ok(3) n _ os(2) this] show False using e os(1) by simp
  qed
  have mset: "mset (initial @ es') = mset ((os @ [VDict d]))" using ok(4) es'(2) by simp
  have "distinct (map event_id (initial @ es')) \<longleftrightarrow> distinct (map event_id (os @ [VDict d]))"
    by (rule mset_eq_imp_distinct_iff) (simp only: mset_map mset)
  moreover have "distinct (map event_id os) \<longleftrightarrow> distinct (map event_id (initial @ es))"
    by (rule mset_eq_imp_distinct_iff) (simp only: mset_map ok(4))
  ultimately have dist: "distinct (map event_id (initial @ es'))"
    using ok(2) new os(1) by auto
  have str: "\<forall>e\<in>set (initial @ es'). is_str (event_id e)"
    unfolding mset_eq_setD[OF mset] using n verified_event(2)[OF d(1)] os(1) by (simp add: named_events_def)
  have "in_order (os @ [VDict d])" using ok(3) ne d(3) by (simp add: in_order_snoc prior_id_def)
  then have "order_events (initial @ es') = Inr (os @ [VDict d])"
    unfolding order_events_Inr[OF str] using dist mset by simp
  then show ?thesis by (simp add: case_events_def load parts(2) es'(1))
qed

lemma update_of_event:
  assumes "attr_item e ''event_type'' = Inr (VStr ''CASE_UPDATE'')" "attr_item e ''payload'' = Inr p"
    "attr_get p ''update'' = Inr u" "is_dict u" "attr_get p ''lifecycle_state'' = Inr l"
  shows "replay_event e (us, k) = Inr (us @ [u], l)"
  using assms by (simp add: replay_event_def update_event_def)

lemma previous_replayed:
  assumes "filterE update_event previous_update events = Inr ps" "foldE replay_event events (us, k) = Inr (vs, l)"
  shows "vs = us @ ps"
  using assms
proof (induction events arbitrary: ps us k)
  case (Cons e events)
  from Cons.prems(2) obtain r where r: "replay_event e (us, k) = Inr r" "foldE replay_event events r = Inr (vs, l)"
    by (auto simp: bindE_eq_Inr)
  from r(1) obtain b where b: "update_event e = Inr b" by (auto simp: replay_event_def bindE_eq_Inr)
  show ?case
  proof (cases b)
    case False
    then show ?thesis using Cons.IH[of ps us k] Cons.prems r b by (simp add: replay_event_def)
  next
    case True
    with r(1) b obtain p u m where u: "attr_item e ''payload'' = Inr p" "attr_get p ''update'' = Inr u" "r = (us @ [u], m)"
      by (auto simp: replay_event_def bindE_eq_Inr split: if_splits)
    from Cons.prems(1) b True obtain v ps' where v: "previous_update e = Inr v" "ps = v # ps'"
        "filterE update_event previous_update events = Inr ps'"
      by (auto simp: bindE_eq_Inr)
    have "v = u" using v(1) u(1,2)
      by (auto simp: previous_update_def attr_get_Inr oitem_def oget_def split: option.splits)
    then show ?thesis using Cons.IH[OF v(3), of "us @ [u]" m] r(2) u(3) v(2) by simp
  qed
qed simp

lemma foldE_append: "foldE f (xs @ ys) s = bindE (foldE f xs s) (foldE f ys)"
proof (induction xs arbitrary: s)
  case (Cons x xs)
  then show ?case by (cases "f x s") simp_all
qed simp

section \<open>Replaying what was appended\<close>

lemma after_case_stored:
  assumes "after_case c (VDict u)"
  shows "after_case c (VDict (stored_form u))" "observed_time (VDict (stored_form u)) = observed_time (VDict u)"
    "oitem (stored_form u) ''observed_at'' = oitem u ''observed_at''"
proof -
  from assms obtain v t where "oitem u ''observed_at'' = Inr v" "parse_time v = Inr t"
    by (auto simp: after_case_def res_simps elim!: is_okE)
  then obtain x where "oitem u ''observed_at'' = Inr (VStr x)" by (cases v) (auto simp: parse_time_def)
  then show same: "oitem (stored_form u) ''observed_at'' = oitem u ''observed_at''" by simp
  then show "observed_time (VDict (stored_form u)) = observed_time (VDict u)" by (simp add: observed_time_def)
  then show "after_case c (VDict (stored_form u))" using assms same by (simp add: after_case_def)
qed

lemma own_update_stored:
  assumes "case_identity env c" "own_update env c (VDict u)"
  shows "own_update env c (VDict (stored_form u))"
    "oget (stored_form u) ''update_identity'' = oget u ''update_identity''"
proof -
  obtain i where "oget c ''case_id'' = VStr i" using assms(1) by (auto simp: case_identity_def)
  then show "own_update env c (VDict (stored_form u))" using assms(2) by (simp add: own_update_def oget_stored)
  show "oget (stored_form u) ''update_identity'' = oget u ''update_identity''"
    using assms(2) by (auto simp: own_update_def identified_by_def oget_stored)
qed

lemma identify_history_cong:
  assumes "map (map_prod id sort_keys) a = map (map_prod id sort_keys) b"
  shows "sort_keys (VDict (identify_history env a)) = sort_keys (VDict (identify_history env b))"
proof -
  have "content_hash env a = content_hash env b"
    by (simp add: content_hash_def canonical_def json_dumps_def assms)
  then show ?thesis by (simp add: identify_history_def assms)
qed

lemma append_stored:
  assumes "append_case_update env c us u lifecycle = Inr h"
  shows "\<exists>h'. append_case_update env c us (stored_form u) lifecycle = Inr h' \<and> stored_form h' = stored_form h"
proof -
  note u = assms[unfolded append_case_update_Inr]
  have own: "own_update env c (VDict (stored_form u))" "oget (stored_form u) ''update_identity'' = oget u ''update_identity''"
    using own_update_stored u by blast+
  have after: "after_case c (VDict u)" using u by simp
  note after' = after_case_stored[OF after]
  let ?h = "identify_history env (history_body c (us @ [VDict (stored_form u)]) lifecycle)"
  have "append_case_update env c us (stored_form u) lifecycle = Inr ?h"
    unfolding append_case_update_Inr own(2) after'(3) using u own(1) after'(1) by simp
  moreover have "stored_form ?h = stored_form h"
  proof -
    have "map (map_prod id sort_keys) (history_body c (us @ [VDict (stored_form u)]) lifecycle)
        = map (map_prod id sort_keys) (history_body c (us @ [VDict u]) lifecycle)"
      using sort_keys_stored[of u] by (simp add: history_body_def)
    from identify_history_cong[OF this] have "sort_keys (VDict ?h) = sort_keys (VDict h)" using u by simp
    then show ?thesis by (simp add: stored_form_def)
  qed
  ultimately show ?thesis by blast
qed

lemma plan_update_Inr:
  assumes "plan_update env registered i u lifecycle s = Inr (h, e)"
  shows "\<exists>envelope c source events ps. load_case_envelope env i s = Inr envelope \<and> oitem envelope ''case'' = Inr (VDict c)
    \<and> oget u ''case_id'' = VStr i \<and> case_events env i s = Inr events
    \<and> filterE update_event previous_update events = Inr ps
    \<and> append_case_update env c ps u (VStr lifecycle) = Inr h
    \<and> (\<exists>observed known. make_event env (VStr i) ''CASE_UPDATE'' observed known source (VList [VStr source])
         (event_id (last events)) [(''update'', VDict u), (''lifecycle_state'', VStr lifecycle)]
         (v_true (oget u ''fixture'')) = Inr e)"
proof -
  have store_error: "as_store_error r = Inr v \<longleftrightarrow> r = Inr v" for r and v :: obj
    by (auto simp: as_store_error_def raise_def split: sum.splits py_exc.splits exc_class.splits)
  from assms obtain envelope where load: "load_case_envelope env i s = Inr envelope"
    by (auto simp: plan_update_def bindE_eq_Inr)
  then obtain c where c: "oitem envelope ''case'' = Inr (VDict c)" using load_Inr(1) by blast
  from assms show ?thesis
    unfolding plan_update_def load c bindE_Inr if_raise_eq_Inr bindE_eq_Inr store_error by (simp add: load c) blast
qed

lemma as_store_error_Inr [simp]: "as_store_error (Inr v) = Inr v"
  by (simp add: as_store_error_def)

lemma update_replayed:
  assumes "make_event env i ''CASE_UPDATE'' obsd known source refs prior
     [(''update'', VDict u), (''lifecycle_state'', VStr lifecycle)] fixture = Inr e"
  shows "replay_event (VDict (stored_form e)) (us, k) = Inr (us @ [VDict (stored_form u)], VStr lifecycle)"
proof (rule update_of_event)
  note fields = make_event_Inr[OF assms]
  have item: "oitem e ''event_type'' = Inr (VStr ''CASE_UPDATE'')"
    using fields(2) by (simp add: oitem_def oget_def split: option.splits)
  show "attr_item (VDict (stored_form e)) ''event_type'' = Inr (VStr ''CASE_UPDATE'')"
    using item(1) by simp
  have "oitem e ''payload'' = Inr (VDict [(''update'', VDict u), (''lifecycle_state'', VStr lifecycle)])"
    using fields(4) by (simp add: oitem_def oget_def split: option.splits)
  then show "attr_item (VDict (stored_form e)) ''payload''
      = Inr (VDict (stored_form [(''update'', VDict u), (''lifecycle_state'', VStr lifecycle)]))"
    by (simp add: oitem_stored flip: stored_form_def' del: sort_keys.simps)
  show "attr_get (VDict (stored_form [(''update'', VDict u), (''lifecycle_state'', VStr lifecycle)])) ''update''
      = Inr (VDict (stored_form u))"
    by (simp add: attr_get_def oget_stored flip: stored_form_def' del: sort_keys.simps)
  show "attr_get (VDict (stored_form [(''update'', VDict u), (''lifecycle_state'', VStr lifecycle)])) ''lifecycle_state''
      = Inr (VStr lifecycle)"
    by (simp add: attr_get_def oget_stored)
qed simp

lemma set_status_ok:
  assumes "is_dict x" "is_str (oget (the_dict x) key)" "oget (the_dict x) value \<noteq> VNone"
  shows "is_ok (set_status key value (sort_keys x) d)"
proof -
  obtain xd where x: "x = VDict xd" using assms(1) by (cases x) auto
  obtain k where k: "oget xd key = VStr k" using assms(2) by (auto simp: x elim!: is_str.elims)
  have "oitem xd key = Inr (VStr k)" "\<exists>v. oitem xd value = Inr v"
    using k assms(3) by (auto simp: x oitem_def oget_def split: option.splits)
  then show ?thesis
    by (auto simp: x set_status_def oitem_stored simp flip: stored_form_def' simp del: sort_keys.simps(7))
qed

lemma foldE_ok: "(\<And>x d. x \<in> set xs \<Longrightarrow> is_ok (f x d)) \<Longrightarrow> is_ok (foldE f xs d)"
proof (induction xs arbitrary: d)
  case (Cons x xs)
  obtain d' where "f x d = Inr d'" using Cons.prems[of x d] by (auto elim!: is_okE)
  then show ?case using Cons.IH[of d'] Cons.prems by simp
qed simp

lemma status_update_ok:
  assumes "oitem u field = Inr (VList xs)"
    and "\<And>x. x \<in> set xs \<Longrightarrow> is_dict x \<and> is_str (oget (the_dict x) key) \<and> oget (the_dict x) value \<noteq> VNone"
  shows "is_ok (status_update field key value (VDict (stored_form u)) d)"
proof -
  have "bindE (attr_item (VDict (stored_form u)) field) py_iter = Inr (map sort_keys xs)"
    using assms(1) by (simp add: oitem_stored)
  moreover have "is_ok (foldE (set_status key value) (map sort_keys xs) d)"
    using assms(2) set_status_ok by (intro foldE_ok) auto
  ultimately show ?thesis by (simp add: status_update_def)
qed

lemma claim_ids_str:
  assumes "foldE claim_start claims d = Inr e" "claim \<in> set claims" "attr_item claim ''claim_id'' = Inr i"
  shows "is_str i"
  using assms
proof (induction claims arbitrary: d)
  case (Cons c claims)
  show ?case
  proof (cases "claim = c")
    case True
    then show ?thesis using Cons.prems by (cases i) (simp_all add: claim_start_def)
  next
    case False
    then show ?thesis using Cons by (auto simp: bindE_eq_Inr)
  qed
qed simp

lemma original_claims_str:
  assumes "bindE (oitem c ''original_claims'') py_iter = Inr claims" "foldE claim_start claims [] = Inr e"
    and "original_claims c = Inr ids" "i \<in> set ids"
  shows "is_str i"
proof -
  from assms(1,3) have "mapE (\<lambda>claim. bindE (attr_item claim ''claim_id'') (\<lambda>i. if hashable i then Inr i
      else raise TypeError ''unhashable type'')) claims = Inr ids"
    by (simp add: original_claims_def)
  then obtain claim where "claim \<in> set claims" "attr_item claim ''claim_id'' = Inr i"
    using mapE_Inr_set[OF _ assms(4)] by (fastforce simp: bindE_eq_Inr)
  then show ?thesis using claim_ids_str[OF assms(2)] by blast
qed

lemma built_update_applies:
  assumes built: "build_case_update env c observed_at known_at source kind relations scenarios catalysts review fixture = Inr u"
    and claims: "bindE (oitem c ''original_claims'') py_iter = Inr claims" "foldE claim_start claims [] = Inr unresolved"
    and ids: "\<forall>x\<in>set (scenarios @ catalysts). is_str (oget (the_dict x) ''original_evidence_id'')"
  shows "is_ok (apply_update (VDict (stored_form u)) acc)"
proof -
  note b = build_case_update_Inr[OF built]
  obtain ids' where ids': "original_claims c = Inr ids'" "\<forall>r\<in>set relations. check_relation kind ids' r = Inr ()"
    using b(5) by (elim exE conjE)
  have rel: "is_dict r \<and> is_str (oget (the_dict r) ''original_claim_id'') \<and> oget (the_dict r) ''claim_outcome'' \<noteq> VNone"
    if r: "r \<in> set relations" for r
  proof -
    have ok: "relation_ok kind ids' r" using ids'(2) r check_relation_Inr by blast
    then obtain i where i: "i \<in> set ids'" "py_eq (oget (the_dict r) ''original_claim_id'') i" by (auto simp: relation_ok_def)
    obtain k where "i = VStr k" using original_claims_str[OF claims ids'(1) i(1)] by (auto elim!: is_str.elims)
    then have "is_str (oget (the_dict r) ''original_claim_id'')" using i(2) by simp
    then show ?thesis using ok by (auto simp: relation_ok_def)
  qed
  have sc: "is_dict x \<and> is_str (oget (the_dict x) ''original_evidence_id'') \<and> oget (the_dict x) ''state'' \<noteq> VNone"
    if x: "x \<in> set (scenarios @ catalysts)" for x
    using check_scenario_Inr[OF b(6)[rule_format, OF x]] ids x by auto
  obtain body where body: "update_body c observed_at known_at source kind relations scenarios catalysts review fixture = Inr body"
    and u: "u = body @ [(''update_identity'', VStr (update_prefix @ content_hash env body))]" using b(7) by blast
  have items: "oitem u ''relationships'' = Inr (VList relations)" "oitem u ''scenario_updates'' = Inr (VList scenarios)"
    "oitem u ''catalyst_updates'' = Inr (VList catalysts)"
    using body unfolding u update_body_def bindE_eq_Inr by (auto simp: oitem_def)
  obtain x where x: "status_update ''relationships'' ''original_claim_id'' ''claim_outcome'' (VDict (stored_form u)) (fst acc) = Inr x"
    by (rule is_okE[OF status_update_ok[OF items(1) rel]])
  obtain y where y: "status_update ''scenario_updates'' ''original_evidence_id'' ''state'' (VDict (stored_form u)) (fst (snd acc)) = Inr y"
    using sc by (elim is_okE[OF status_update_ok[OF items(2)], rotated]) simp_all
  obtain z where z: "status_update ''catalyst_updates'' ''original_evidence_id'' ''state'' (VDict (stored_form u)) (snd (snd acc)) = Inr z"
    using sc by (elim is_okE[OF status_update_ok[OF items(3)], rotated]) simp_all
  show ?thesis by (simp add: apply_update_def x y z)
qed

lemma append_update_Inr:
  assumes "append_update env registered i u lifecycle s = (Inr h, t)"
  shows "\<exists>e. plan_update env registered i u lifecycle s = Inr (h, e) \<and> commit_event env e s = (Inr (), t)"
  using assms by (auto simp: append_update_def reading_def act_bind_def act_return_def split: sum.splits prod.splits)

lemma replay_case_Inr:
  assumes "replay_case env i s = Inr r"
  shows "\<exists>envelope start ps claims unresolved status v.
    load_case_envelope env i s = Inr envelope \<and> oitem envelope ''case'' = Inr (VDict (rp_case r))
    \<and> case_events env i s = Inr (rp_events r) \<and> oitem (rp_case r) ''lifecycle_state'' = Inr start
    \<and> foldE replay_event (rp_events r) ([], start) = Inr (ps, rp_lifecycle r)
    \<and> replay_history env (rp_case r) ps (rp_lifecycle r) = Inr (rp_history r)
    \<and> bindE (oitem (rp_case r) ''original_claims'') py_iter = Inr claims \<and> foldE claim_start claims [] = Inr unresolved
    \<and> foldE apply_update ps (unresolved, [], []) = Inr status
    \<and> bindE (oitem (rp_case r) ''ai_human_provenance'') mapping_of = Inr v"
proof -
  obtain envelope where l: "load_case_envelope env i s = Inr envelope"
    using assms by (auto simp: replay_case_def bindE_eq_Inr[of "load_case_envelope _ _ _"])
  then obtain c where c: "oitem envelope ''case'' = Inr (VDict c)" using load_Inr(1) by blast
  obtain start claims where "oitem c ''lifecycle_state'' = Inr start" "bindE (oitem c ''original_claims'') py_iter = Inr claims"
    using assms unfolding replay_case_def l c bindE_Inr pyv.sel
    by (auto simp: bindE_eq_Inr[of "case_events _ _ _"] bindE_eq_Inr[of "oitem _ _"] bindE_eq_Inr[of "foldE _ _ _"]
        bindE_eq_Inr[of "replay_history _ _ _ _"] bindE_eq_Inr[of "bindE (oitem _ _) py_iter"])
  then show ?thesis
    using assms unfolding replay_case_def l c bindE_Inr pyv.sel
    by (auto simp: bindE_eq_Inr[of "case_events _ _ _"] bindE_eq_Inr[of "foldE _ _ _"]
        bindE_eq_Inr[of "replay_history _ _ _ _"] bindE_eq_Inr[of "bindE (oitem _ _) mapping_of"] l c)
qed

lemma last_event_str:
  assumes "case_events env i s = Inr os"
  shows "is_str (event_id (last os))"
proof -
  from case_events_Inr[OF assms] obtain initial es where
    "\<forall>e\<in>set (initial @ es). verify_event env e = Inr ()" "in_order os" "mset os = mset (initial @ es)" by blast
  moreover from this have "last os \<in> set (initial @ es)"
    using mset_eq_setD last_in_set by (metis in_order_def)
  ultimately show ?thesis using verified_event(2) by blast
qed

lemma commit_planned:
  \<comment> \<open>what the events of the case are after the event of a plan was written\<close>
  assumes env: "inj (te_sha env)" "float_text (te_float env)"
    and plan: "plan_update env registered i u lifecycle s = Inr (h, e)" and commit: "commit_event env e s = (Inr (), t)"
    and events: "case_events env i s = Inr os"
  shows "case_events env i t = Inr (os @ [VDict (stored_form e)])" "load_case_envelope env i t = load_case_envelope env i s"
proof -
  obtain obsd known source where e: "make_event env (VStr i) ''CASE_UPDATE'' obsd known source (VList [VStr source])
      (event_id (last os)) [(''update'', VDict u), (''lifecycle_state'', VStr lifecycle)] (v_true (oget u ''fixture'')) = Inr e"
    using plan_update_Inr[OF plan] events by auto
  note fields = make_event_Inr[OF e]
  note t = commit_event_Inr[OF commit fields(5)]
  have prior: "oget (stored_form e) ''prior_event_id'' = event_id (last os)"
    using last_event_str[OF events] by (auto simp: oget_stored fields(3) elim!: is_str.elims)
  have id: "oget (stored_form e) ''case_id'' = VStr i" by (simp add: oget_stored fields(1))
  show "case_events env i t = Inr (os @ [VDict (stored_form e)])"
    unfolding t(3) by (rule case_events_after[OF env events t(2) verify_stored_event[OF e] id prior])
  show "load_case_envelope env i t = load_case_envelope env i s"
    unfolding t(3) by (rule load_cong) (auto simp: map_add_def split: option.splits)
qed

text \<open>
  C10. The store implements the ledger: after an update that was built for a readable case was appended,
  the case is readable, its events are those before and the new one at the end, the history the replay
  rebuilds from the files is the one the append returned (up to the order of keys, so with the same
  identity), and the state is the one given.  The hash has no collisions; the evidence the update refers to
  has identifiers that are strings.
\<close>

theorem replay_after_append:
  assumes "inj (te_sha env)" "float_text (te_float env)" and "replay_case env i s = Inr r"
    and "build_case_update env (rp_case r) observed_at known_at source kind relations scenarios catalysts review fixture = Inr u"
    and "\<forall>x\<in>set (scenarios @ catalysts). is_str (oget (the_dict x) ''original_evidence_id'')"
    and "append_update env registered i u lifecycle s = (Inr h, t)"
  shows "\<exists>r' e. replay_case env i t = Inr r' \<and> rp_case r' = rp_case r \<and> rp_events r' = rp_events r @ [e]
    \<and> stored_form (rp_history r') = stored_form h \<and> rp_lifecycle r' = VStr lifecycle"
proof -
  obtain e where plan: "plan_update env registered i u lifecycle s = Inr (h, e)" "commit_event env e s = (Inr (), t)"
    using append_update_Inr[OF assms(6)] by blast
  from replay_case_Inr[OF assms(3)] obtain envelope start ps claims unresolved status v where
    r: "load_case_envelope env i s = Inr envelope" "oitem envelope ''case'' = Inr (VDict (rp_case r))"
      "case_events env i s = Inr (rp_events r)" "oitem (rp_case r) ''lifecycle_state'' = Inr start"
      "foldE replay_event (rp_events r) ([], start) = Inr (ps, rp_lifecycle r)"
    and rc: "bindE (oitem (rp_case r) ''original_claims'') py_iter = Inr claims" "foldE claim_start claims [] = Inr unresolved"
      "foldE apply_update ps (unresolved, [], []) = Inr status"
      "bindE (oitem (rp_case r) ''ai_human_provenance'') mapping_of = Inr v"
    by (elim exE conjE)
  note t = commit_planned[OF assms(1,2) plan r(3)]
  from plan_update_Inr[OF plan(1)] r(1-3) obtain ps' obsd known src where
    p: "filterE update_event previous_update (rp_events r) = Inr ps'"
      "append_case_update env (rp_case r) ps' u (VStr lifecycle) = Inr h"
    and e: "make_event env (VStr i) ''CASE_UPDATE'' obsd known src (VList [VStr src]) (event_id (last (rp_events r)))
         [(''update'', VDict u), (''lifecycle_state'', VStr lifecycle)] (v_true (oget u ''fixture'')) = Inr e"
    by auto
  have "ps = ps'" using previous_replayed[OF p(1) r(5)] by simp
  with append_stored[OF p(2)] obtain h' where h': "append_case_update env (rp_case r) ps (stored_form u) (VStr lifecycle) = Inr h'"
    "stored_form h' = stored_form h" by blast
  have fold: "foldE replay_event (rp_events r @ [VDict (stored_form e)]) ([], start)
      = Inr (ps @ [VDict (stored_form u)], VStr lifecycle)"
    by (simp add: foldE_append r(5) update_replayed[OF e])
  obtain status' where status: "foldE apply_update (ps @ [VDict (stored_form u)]) (unresolved, [], []) = Inr status'"
    using built_update_applies[OF assms(4) rc(1,2) assms(5), of status] by (auto simp: foldE_append rc(3) elim!: is_okE)
  show ?thesis
    unfolding replay_case_def t r(1,2) bindE_Inr pyv.sel r(4) fold fst_conv snd_conv replay_history_def rc status
    using h' by simp
qed

section \<open>Two appends at once\<close>

lemma in_order_same_prior:
  assumes "in_order os" "named_events os" "x \<in> set os" "y \<in> set os" "prior_id x = prior_id y" "prior_id x \<noteq> VNone"
  shows "x = y"
proof -
  have pos: "\<exists>i. Suc i < length os \<and> z = os ! Suc i \<and> prior_id z = event_id (os ! i)"
    if z: "z \<in> set os" "prior_id z \<noteq> VNone" for z
  proof -
    obtain j where j: "j < length os" "z = os ! j" using z(1) by (metis in_set_conv_nth)
    show ?thesis
    proof (cases j)
      case 0
      then have "z = hd os" using j by (simp add: hd_conv_nth)
      then show ?thesis using z(2) assms(1) by (simp add: in_order_def)
    next
      case (Suc m)
      then show ?thesis using j assms(1) by (intro exI[of _ m]) (simp add: in_order_def)
    qed
  qed
  obtain i j where i: "Suc i < length os" "x = os ! Suc i" "prior_id x = event_id (os ! i)"
    and j: "Suc j < length os" "y = os ! Suc j" "prior_id y = event_id (os ! j)"
    using pos[OF assms(3,6)] pos[OF assms(4)] assms(5,6) by metis
  have "i < length os" "j < length os" using i(1) j(1) by simp_all
  then have "os ! i \<in> set os" "os ! j \<in> set os" by (metis nth_mem)+
  then have "os ! i = os ! j" using named_event_inj[OF assms(2)] i(3) j(3) assms(5) by metis
  moreover have "distinct os" using assms(2) by (simp add: named_events_def distinct_map)
  ultimately have "i = j" using i(1) j(1) by (simp add: nth_eq_iff_index_eq)
  then show ?thesis using i j by simp
qed

lemma appended_contains:
  assumes "appended_events env i t = Inr es" "map_of t (stored_event_path env x) = Some (Json (VDict d))"
    and "oget d ''case_id'' = VStr i"
  shows "VDict d \<in> set es"
proof -
  let ?q = "stored_event_path env x"
  from assms(1) obtain all where all: "mapE (read_event env t) (json_files ''events'' t) = Inr all"
    and es: "es = filter (\<lambda>e. oget (the_dict e) ''case_id'' = VStr i) all"
    unfolding appended_events_eq bindE_eq_Inr by auto
  have "?q \<in> set (json_files ''events'' t)"
    using assms(2) event_path_shape[of env x] map_of_SomeD[OF assms(2)]
    by (force simp: json_files_def)
  moreover from this have "read_event env t ?q = Inr (VDict d)"
    using all assms(2) unfolding mapE_Inr_iff
    by (auto simp: read_event_def read_json_def bindE_eq_Inr elim!: is_okE dest!: bspec)
  ultimately have "VDict d \<in> set all" using all unfolding mapE_Inr_iff by force
  then show ?thesis using assms(3) es by simp
qed

lemma planned_stored:
  assumes "plan_update env registered i u lifecycle s = Inr (h, e)" "commit_event env e s' = (Inr (), t')" "store_extends t' t"
    and "case_events env i s = Inr os"
  shows "\<exists>x. map_of t (stored_event_path env x) = Some (Json (VDict (stored_form e)))"
    "oget (stored_form e) ''case_id'' = VStr i" "oget (stored_form e) ''prior_event_id'' = event_id (last os)"
    "\<exists>k. oget (stored_form e) ''payload'' = VDict k \<and> oget k ''update'' = VDict (stored_form u)"
proof -
  obtain obsd known source where e: "make_event env (VStr i) ''CASE_UPDATE'' obsd known source (VList [VStr source])
      (event_id (last os)) [(''update'', VDict u), (''lifecycle_state'', VStr lifecycle)] (v_true (oget u ''fixture'')) = Inr e"
    using plan_update_Inr[OF assms(1)] assms(4) by auto
  note fields = make_event_Inr[OF e]
  note c = commit_event_Inr[OF assms(2) fields(5)]
  show "\<exists>x. map_of t (stored_event_path env x) = Some (Json (VDict (stored_form e)))"
    using assms(3) c(2) unfolding store_extends_def c(3)
    by (intro exI[of _ "event_prefix @ content_hash env (event_body e)"]) (simp add: map_add_def)
  show "oget (stored_form e) ''case_id'' = VStr i" by (simp add: oget_stored fields(1))
  show "oget (stored_form e) ''prior_event_id'' = event_id (last os)"
    using last_event_str[OF assms(4)] by (auto simp: oget_stored fields(3) elim!: is_str.elims)
  show "\<exists>k. oget (stored_form e) ''payload'' = VDict k \<and> oget k ''update'' = VDict (stored_form u)"
    by (intro exI[of _ "stored_form [(''update'', VDict u), (''lifecycle_state'', VStr lifecycle)]"])
       (simp add: oget_stored fields(4) flip: stored_form_def' del: sort_keys.simps)
qed

text \<open>
  C19. The writer lock does not serialise appends: the events of a case are read before the lock is taken,
  so two appends that were both planned from one state of the store can both be written; after that the
  case can never again be replayed or appended to, whatever is added to the store.
\<close>

theorem interleaved_appends_block_case:
  assumes "plan_update env registered i u lifecycle s = Inr (h, e)" "plan_update env registered' i u' lifecycle' s = Inr (h', e')"
    and "commit_event env e s = (Inr (), t)" "commit_event env e' t = (Inr (), t')"
    and "oget u ''update_identity'' \<noteq> oget u' ''update_identity''" "store_extends t' later"
  shows "\<not> is_ok (replay_case env i later) \<and> \<not> is_ok (fst (append_update env any i v state later))"
proof -
  obtain os where os: "case_events env i s = Inr os" using plan_update_Inr[OF assms(1)] by blast
  have "store_extends t t'" using commit_event_keeps[of env e'] assms(4) by (metis act_keeps_def snd_conv)
  then have "store_extends t later" using assms(6) extending.trans by blast
  note x = planned_stored[OF assms(1,3) this os] and y = planned_stored[OF assms(2,4,6) os]
  have str: "is_str (event_id (last os))" by (rule last_event_str[OF os])
  have own: "oget (stored_form w) ''update_identity'' = oget w ''update_identity''"
    if "plan_update env reg i w l s = Inr (g, f)" for reg w l g f
    using plan_update_Inr[OF that] append_case_update_Inr own_update_stored(2) by blast
  have blocked: "\<not> is_ok (case_events env i later)"
  proof
    assume "is_ok (case_events env i later)"
    then obtain ps where "case_events env i later = Inr ps" by (rule is_okE)
    from case_events_Inr[OF this] obtain initial es where es: "appended_events env i later = Inr es"
      "\<forall>e\<in>set (initial @ es). verify_event env e = Inr ()" "distinct (map event_id (initial @ es))"
      "in_order ps" "mset ps = mset (initial @ es)" by blast
    have sub: "set ps = set (initial @ es)" by (rule mset_eq_setD[OF es(5)])
    have "distinct (map event_id ps) \<longleftrightarrow> distinct (map event_id (initial @ es))"
      by (rule mset_eq_imp_distinct_iff) (simp only: mset_map es(5))
    then have n: "named_events ps" using es(2,3) verified_event(2) unfolding named_events_def sub by blast
    have "VDict (stored_form e) \<in> set ps" "VDict (stored_form e') \<in> set ps"
      using appended_contains[OF es(1) _ x(2)] appended_contains[OF es(1) _ y(2)] x(1) y(1) sub by auto
    then have "VDict (stored_form e) = VDict (stored_form e')"
      by (rule in_order_same_prior[OF es(4) n]) (use x(3) y(3) str in \<open>auto simp: prior_id_def\<close>)
    then have "stored_form u = stored_form u'" using x(4) y(4) by auto
    then show False using assms(5) own[OF assms(1)] own[OF assms(2)] by metis
  qed
  have "\<not> is_ok (replay_case env i later)"
  proof
    assume "is_ok (replay_case env i later)"
    then obtain r where "replay_case env i later = Inr r" by (rule is_okE)
    then show False using replay_case_Inr[of env i later r] blocked by auto
  qed
  moreover have "\<not> is_ok (fst (append_update env any i v state later))"
  proof
    assume "is_ok (fst (append_update env any i v state later))"
    then obtain g t'' where "append_update env any i v state later = (Inr g, t'')"
      by (metis is_okE prod.collapse)
    then show False using append_update_Inr[of env any i v state later g t''] plan_update_Inr[of env any i v state later g] blocked
      by auto
  qed
  ultimately show ?thesis by blast
qed

section \<open>A case that was admitted can be replayed\<close>

lemma commit_case_Inr:
  assumes "commit_case env (VStr i) body s = (Inr envelope, t)"
  shows "load_case_envelope env i t = Inr envelope" "map_of s (stored_case_path env i) = None"
    "t = s @ [(stored_case_path env i,
       Json (VDict (stored_form (body @ [(''content_identity'', VStr (envelope_prefix @ content_hash env body))]))))]"
proof -
  have absent: "filter (\<lambda>kv. fst kv \<noteq> lock_path) s = s" if "map_of s lock_path = None"
    using that by (force simp: filter_id_conv map_of_eq_None_iff)
  have ne: "stored_case_path env i \<noteq> lock_path" by simp
  note unfold = commit_case_def Let_def act_bind_def writer_def write_new_json_def reading_def
  have free: "map_of s lock_path = None" "map_of s (stored_case_path env i) = None"
    using assms ne by (auto simp: unfold map_add_def raise_def split: if_splits option.splits)
  then show "map_of s (stored_case_path env i) = None" by blast
  show t: "t = s @ [(stored_case_path env i,
       Json (VDict (stored_form (body @ [(''content_identity'', VStr (envelope_prefix @ content_hash env body))]))))]"
    using assms free absent[OF free(1)] ne
    by (simp add: unfold map_add_def stored_form_def' del: sort_keys.simps)
  show "load_case_envelope env i t = Inr envelope"
    using assms free absent[OF free(1)] ne unfolding t
    by (simp add: unfold map_add_def stored_form_def' del: sort_keys.simps)
qed

lemma loaded_envelope:
  assumes "load_case_envelope env i t = Inr envelope" "map_of t (stored_case_path env i) = Some (Json (VDict d))"
  shows "envelope = d"
  using assms by (auto simp: load_case_envelope_def Let_def read_json_def bindE_eq_Inr split: if_splits)

lemma appended_events_case:
  assumes "appended_events env i s = Inr es" "map_of s (stored_case_path env i) = None"
  shows "appended_events env i (s @ [(stored_case_path env i, f)]) = Inr es"
proof -
  let ?t = "s @ [(stored_case_path env i, f)]"
  have files: "json_files ''events'' ?t = json_files ''events'' s"
    by (simp add: json_files_def stored_case_path_def)
  have "read_event env ?t p = read_event env s p" if "p \<in> set (json_files ''events'' s)" for p
  proof -
    have "p \<noteq> stored_case_path env i" using that by (auto simp: json_files_def stored_case_path_def)
    then have "map_of ?t p = map_of s p" by (simp add: map_add_def split: option.splits)
    then show ?thesis by (simp add: read_event_def read_json_def)
  qed
  then have "mapE (read_event env ?t) (json_files ''events'' s) = mapE (read_event env s) (json_files ''events'' s)"
    by (rule mapE_cong)
  then show ?thesis using assms(1) by (simp add: appended_events_eq files)
qed

lemma created_case_fields:
  assumes "create_research_case env decision ai created_at known_at draft validation review t0 = Inr c"
  shows "\<exists>claims. oitem c ''original_claims'' = Inr (VList claims)" "\<exists>p. oitem c ''ai_human_provenance'' = Inr (VDict p)"
    "\<exists>state. oitem c ''lifecycle_state'' = Inr (VStr state)" "\<exists>i. oget c ''case_id'' = VStr i"
proof -
  from assms obtain ticker row claimed lifecycle body where
    body: "frozen_case decision ai ticker row created_at known_at claimed lifecycle t0 = Inr body"
    and c: "c = identify_case env body"
    unfolding create_research_case_def by (auto simp: res_simps split: if_splits)
  have "oitem body ''original_claims'' = Inr (VList (fst claimed))" "oitem body ''ai_human_provenance'' = Inr (VDict (snd claimed))"
    "oitem body ''lifecycle_state'' = Inr (VStr lifecycle)"
    using body unfolding frozen_case_def by (auto simp: res_simps oitem_def)
  then show "\<exists>claims. oitem c ''original_claims'' = Inr (VList claims)" "\<exists>p. oitem c ''ai_human_provenance'' = Inr (VDict p)"
    "\<exists>state. oitem c ''lifecycle_state'' = Inr (VStr state)"
    unfolding c using identified_item by blast+
  show "\<exists>i. oget c ''case_id'' = VStr i"
    using created_case(1)[OF assms] by (auto simp: case_identity_def)
qed

lemma claims_start_ok:
  assumes "\<forall>claim\<in>set claims. is_dict claim \<and> is_str (oget (the_dict claim) ''claim_id'')"
  shows "is_ok (foldE claim_start (map sort_keys claims) d)"
proof (rule foldE_ok)
  fix x d
  assume "x \<in> set (map sort_keys claims)"
  then obtain claim where x: "x = sort_keys claim" and "claim \<in> set claims" by auto
  with assms obtain e k where claim: "claim = VDict e" "oget e ''claim_id'' = VStr k"
    by (cases claim) (auto elim!: is_str.elims)
  then have "oitem e ''claim_id'' = Inr (VStr k)" by (simp add: oitem_def oget_def split: option.splits)
  then show "is_ok (claim_start x d)"
    by (simp add: x claim(1) claim_start_def flip: stored_form_def' del: sort_keys.simps(7))
qed

lemma admitted_event:
  assumes "persist_policy_admitted_case env c admission s = (Inr envelope, t)"
  shows "\<exists>admitted e. make_event env (oget c ''case_id'') ''CASE_ADMITTED_BY_POLICY''
      (VStr (text_or_empty env (oget c ''known_at''))) (VStr (text_or_empty env (oget c ''known_at'')))
      ''prospective_case_admission_policy/v1''
      (VList [VStr (text_or_empty env (oget admission ''workspace_projection_identity''))]) VNone
      [(''admission'', VDict admitted), (''case_content_identity'', oget c ''case_content_identity'')] False = Inr e
    \<and> commit_case env (oget c ''case_id'') (admitted_envelope c admitted e) s = (Inr envelope, t)"
  using assms
  by (auto simp: persist_policy_admitted_case_def Let_def act_bind_eq_Inr lift_res_def act_raise_def raise_def split: if_splits)

lemma case_field_stored: "oitem c k = Inr v \<Longrightarrow> oitem (stored_form c) k = Inr (sort_keys v)"
  by (simp add: oitem_stored)

lemma replay_admitted:
  assumes state: "oitem c ''lifecycle_state'' = Inr (VStr state)" and p: "oitem c ''ai_human_provenance'' = Inr (VDict p)"
    and claims: "oitem c ''original_claims'' = Inr (VList claims)"
      "\<forall>claim\<in>set claims. is_dict claim \<and> is_str (oget (the_dict claim) ''claim_id'')"
    and id: "oget c ''case_id'' = VStr i" and none: "appended_events env i s = Inr []"
    and persisted: "persist_policy_admitted_case env c admission s = (Inr envelope, t)"
  shows "\<exists>r e. replay_case env i t = Inr r \<and> rp_case r = stored_form c \<and> rp_events r = [e]
    \<and> rp_lifecycle r = oget c ''lifecycle_state''
    \<and> rp_history r = identify_history env (history_body (stored_form c) [] (oget c ''lifecycle_state''))"
proof -
  obtain admitted e where e: "make_event env (VStr i) ''CASE_ADMITTED_BY_POLICY''
      (VStr (text_or_empty env (oget c ''known_at''))) (VStr (text_or_empty env (oget c ''known_at'')))
      ''prospective_case_admission_policy/v1''
      (VList [VStr (text_or_empty env (oget admission ''workspace_projection_identity''))]) VNone
      [(''admission'', VDict admitted), (''case_content_identity'', oget c ''case_content_identity'')] False = Inr e"
    and commit: "commit_case env (VStr i) (admitted_envelope c admitted e) s = (Inr envelope, t)"
    using admitted_event[OF persisted] id by auto
  note fields = make_event_Inr[OF e]
  let ?b = "admitted_envelope c admitted e @ [(''content_identity'',
      VStr (envelope_prefix @ content_hash env (admitted_envelope c admitted e)))]"
  note t = commit_case_Inr[OF commit]
  have envelope: "envelope = stored_form ?b"
    by (rule loaded_envelope[OF t(1)]) (use t(2) in \<open>simp add: t(3) map_add_def\<close>)
  have items: "oitem ?b ''case'' = Inr (VDict c)" "oitem ?b ''initial_events'' = Inr (VList [VDict e])"
    by (simp_all add: admitted_envelope_def oitem_def)
  have initial: "bindE (oitem envelope ''initial_events'') py_iter = Inr [VDict (stored_form e)]"
    using items(2) unfolding envelope by (simp add: oitem_stored stored_form_def')
  have stored_case: "oitem envelope ''case'' = Inr (VDict (stored_form c))"
    using case_field_stored[OF items(1)] unfolding envelope stored_form_def'[symmetric] .
  let ?e = "VDict (stored_form e)"
  have "order_events [?e] = Inr [?e]"
  proof (subst order_events_Inr)
    show "\<forall>x\<in>set [?e]. is_str (event_id x)" using verified_event(2)[OF verify_stored_event[OF e]] by simp
    show "distinct (map event_id [?e]) \<and> in_order [?e] \<and> mset [?e] = mset [?e]"
      using fields(3) by (simp add: in_order_def prior_id_def oget_stored)
  qed
  moreover have "appended_events env i t = Inr []" unfolding t(3) by (rule appended_events_case[OF none t(2)])
  ultimately have events: "case_events env i t = Inr [?e]" by (simp add: case_events_def t(1) initial)
  have kind: "oitem e ''event_type'' = Inr (VStr ''CASE_ADMITTED_BY_POLICY'')"
    using fields(2) by (simp add: oitem_def oget_def split: option.splits)
  have update: "replay_event ?e ([], l) = Inr ([], l)" for l
    using kind by (simp add: replay_event_def update_event_def)
  have sc: "oitem (stored_form c) ''lifecycle_state'' = Inr (VStr state)"
    "bindE (oitem (stored_form c) ''original_claims'') py_iter = Inr (map sort_keys claims)"
    "\<exists>v. bindE (oitem (stored_form c) ''ai_human_provenance'') mapping_of = Inr v"
    using case_field_stored[OF state] case_field_stored[OF claims(1)] case_field_stored[OF p] by (simp_all add: mapping_of_def)
  obtain v where v: "bindE (oitem (stored_form c) ''ai_human_provenance'') mapping_of = Inr v" using sc(3) by blast
  obtain start where start: "foldE claim_start (map sort_keys claims) [] = Inr start"
    using claims_start_ok[OF claims(2)] by (rule is_okE)
  have l: "oget c ''lifecycle_state'' = VStr state" using state by (simp add: oitem_def oget_def split: option.splits)
  show ?thesis
    unfolding replay_case_def t(1) bindE_Inr stored_case pyv.sel events sc(1,2) foldE.simps update fst_conv snd_conv
      replay_history_def start v l by simp
qed

text \<open>
  What is persisted can be replayed: a created case with named claims that was admitted by policy into
  a store without events of it replays to itself, in its own state, with a history of no updates and the
  one event of its admission.
\<close>

theorem admitted_case_replays:
  assumes created: "create_research_case env decision ai created_at known_at draft validation review t0 = Inr c"
    and claims: "oitem c ''original_claims'' = Inr (VList claims)"
      "\<forall>claim\<in>set claims. is_dict claim \<and> is_str (oget (the_dict claim) ''claim_id'')"
    and id: "oget c ''case_id'' = VStr i" and none: "appended_events env i s = Inr []"
    and persisted: "persist_policy_admitted_case env c admission s = (Inr envelope, t)"
  shows "\<exists>r e. replay_case env i t = Inr r \<and> rp_case r = stored_form c \<and> rp_events r = [e]
    \<and> rp_lifecycle r = oget c ''lifecycle_state''
    \<and> rp_history r = identify_history env (history_body (stored_form c) [] (oget c ''lifecycle_state''))"
proof -
  obtain state p where "oitem c ''lifecycle_state'' = Inr (VStr state)" "oitem c ''ai_human_provenance'' = Inr (VDict p)"
    using created_case_fields[OF created] by blast
  from replay_admitted[OF this assms(2-)] show ?thesis .
qed

section \<open>A sample store\<close>

lemma writer_write_ok:
  assumes "map_of s lock_path = None" "map_of s p = None" "p \<noteq> lock_path"
  shows "writer (write_new_json p d) s = (Inr (), s @ [(p, Json (VDict (stored_form d)))])"
proof -
  have "filter (\<lambda>kv. fst kv \<noteq> lock_path) s = s" using assms(1) by (force simp: filter_id_conv map_of_eq_None_iff)
  then show ?thesis using assms by (simp add: writer_def write_new_json_def map_add_def stored_form_def' del: sort_keys.simps)
qed

lemma commit_case_ok:
  assumes "map_of s lock_path = None" "map_of s (stored_case_path env i) = None"
    and c: "case_identity env c" "oget c ''case_id'' = VStr i"
    and e: "make_event env j kind obsd known actor refs prior payload fixture = Inr e"
  shows "\<exists>envelope. commit_case env (VStr i) (admitted_envelope c admitted e) s
     = (Inr envelope, s @ [(stored_case_path env i, Json (VDict envelope))])"
proof -
  let ?body = "admitted_envelope c admitted e"
  let ?b = "?body @ [(''content_identity'', VStr (envelope_prefix @ content_hash env ?body))]"
  have id: "identified_by env ?b ''content_identity'' envelope_prefix"
    by (rule identified_by_append) (simp add: admitted_envelope_def)
  have "oitem ?b ''case'' = Inr (VDict c)" "oitem ?b ''initial_events'' = Inr (VList [VDict e])"
    by (simp_all add: admitted_envelope_def oitem_def)
  then have items: "oitem (stored_form ?b) ''case'' = Inr (VDict (stored_form c))"
    "oitem (stored_form ?b) ''initial_events'' = Inr (VList [VDict (stored_form e)])"
    by (simp_all add: oitem_stored stored_form_def')
  then have "oget_default (stored_form ?b) ''case'' v = VDict (stored_form c)"
    "oget_default (stored_form ?b) ''initial_events'' v = VList [VDict (stored_form e)]" for v
    by (simp_all add: oitem_def oget_default_def split: option.splits)
  then have load: "load_case_envelope env i (s @ [(stored_case_path env i, Json (VDict (stored_form ?b)))]) = Inr (stored_form ?b)"
    using assms(2) id c verify_stored_event[OF e]
    by (simp add: load_case_envelope_def Let_def read_json_def map_add_def attr_get_def oget_stored)
  show ?thesis
    using load writer_write_ok[OF assms(1,2)]
    by (intro exI[of _ "stored_form ?b"]) (simp add: commit_case_def act_bind_def reading_def)
qed

lemma persist_admitted_ok:
  assumes "map_of s lock_path = None" "map_of s (stored_case_path env i) = None"
    and c: "case_identity env c" "oget c ''case_id'' = VStr i" "oget c ''known_at'' = VStr known" "check_timestamp (VStr known) = Inr ()"
    and admission: "oget admission ''admission_status'' = VStr ''ADMITTED''" "oget admission ''case_id'' = VStr i"
      "oget admission ''admission_identity'' = VStr (''prospective_case_admission:'' @ content_hash env (admission_body admission))"
  shows "\<exists>envelope. persist_policy_admitted_case env c admission s
     = (Inr envelope, s @ [(stored_case_path env i, Json (VDict envelope))])"
proof -
  have "known \<noteq> []"
  proof
    assume "known = []"
    moreover have "check_timestamp (VStr []) \<noteq> Inr ()" by code_simp
    ultimately show False using c(4) by simp
  qed
  then have text_known: "text_or_empty env (oget c ''known_at'') = known" by (simp add: text_or_empty_def to_text_def c(3))
  obtain e where e: "make_event env (VStr i) ''CASE_ADMITTED_BY_POLICY'' (VStr known) (VStr known)
      ''prospective_case_admission_policy/v1''
      (VList [VStr (text_or_empty env (oget admission ''workspace_projection_identity''))]) VNone
      [(''admission'', VDict (oset (admission_body admission) ''admission_identity'' (oget admission ''admission_identity''))),
       (''case_content_identity'', oget c ''case_content_identity'')] False = Inr e"
    using c(4) by (simp add: make_event_def Let_def)
  from commit_case_ok[OF assms(1,2) c(1,2) e] show ?thesis
    unfolding persist_policy_admitted_case_def Let_def text_known c(2)
    using c(1) admission e by (simp add: act_bind_def lift_res_def)
qed

definition sample_admission_body :: obj where
  "sample_admission_body = [(''admission_status'', VStr ''ADMITTED''), (''case_id'', oget sample_case ''case_id''),
     (''workspace_projection_identity'', VStr ''w'')]"

definition sample_admission :: obj where
  "sample_admission = sample_admission_body @ [(''admission_identity'',
     VStr (''prospective_case_admission:'' @ content_hash sample_text_env sample_admission_body))]"

definition sample_id :: string where
  "sample_id = the_str (oget sample_case ''case_id'')"

lemma sample_id: "oget sample_case ''case_id'' = VStr sample_id"
  using created_case_fields(4)[OF sample_created] by (auto simp: sample_id_def)

lemma sample_persisted:
  "\<exists>envelope. persist_policy_admitted_case sample_text_env sample_case sample_admission []
     = (Inr envelope, [(stored_case_path sample_text_env sample_id, Json (VDict envelope))])"
proof -
  note c = created_case[OF sample_created]
  have body: "admission_body sample_admission = sample_admission_body"
    by (simp add: admission_body_def sample_admission_def sample_admission_body_def)
  have fields: "oget sample_admission ''admission_status'' = VStr ''ADMITTED''"
    "oget sample_admission ''case_id'' = oget sample_case ''case_id''"
    "oget sample_admission ''admission_identity'' = VStr (''prospective_case_admission:'' @ content_hash sample_text_env sample_admission_body)"
    "oget sample_admission ''workspace_projection_identity'' = VStr ''w''"
    by (simp_all add: sample_admission_def sample_admission_body_def)
  show ?thesis
    using persist_admitted_ok[of "[]" sample_text_env sample_id sample_case sample_time sample_admission] c sample_id fields body
    by (auto simp: check_timestamp_def sample_time_def)
qed

definition sample_claim :: obj where
  "sample_claim = [(''claim_id'', VStr ''e1''), (''claim_type'', VStr ''FACT''), (''section'', VStr ''THESIS''),
     (''authority_class'', VStr ''OFFICIAL''), (''supporting_evidence_ids'', VList [VStr ''e1'']),
     (''origin'', VStr ''DETERMINISTIC_DECISION_EVIDENCE'')]"

lemma sample_claims: "oitem sample_case ''original_claims'' = Inr (VList [VDict sample_claim])"
proof -
  have "oitem sample_body ''original_claims'' = Inr (VList [VDict sample_claim])" by code_simp
  then show ?thesis unfolding sample_case_def by (rule identified_item)
qed

lemma sample_claim_named: "\<forall>claim\<in>set [VDict sample_claim]. is_dict claim \<and> is_str (oget (the_dict claim) ''claim_id'')"
  by (simp add: sample_claim_def)

lemma no_events_yet: "appended_events env i [] = Inr []"
  by (simp add: appended_events_def json_files_def sorted_set_def)

theorem admitted_case_replays_witness:
  "\<exists>envelope t r e. persist_policy_admitted_case sample_text_env sample_case sample_admission [] = (Inr envelope, t)
     \<and> replay_case sample_text_env sample_id t = Inr r \<and> rp_case r = stored_form sample_case \<and> rp_events r = [e]"
  using sample_persisted admitted_case_replays[OF sample_created sample_claims sample_claim_named sample_id no_events_yet] by blast

section \<open>A sample append\<close>

definition stored_sample :: obj where "stored_sample = stored_form sample_case"

lemma stored_sample_values:
  "case_identity sample_text_env stored_sample" "oget stored_sample ''case_id'' = VStr sample_id"
  "oitem stored_sample ''known_at'' = Inr (VStr sample_time)" "original_claims stored_sample = Inr [VStr ''e1'']"
proof -
  note c = created_case[OF sample_created]
  show "case_identity sample_text_env stored_sample" "oget stored_sample ''case_id'' = VStr sample_id"
    using c(1) sample_id by (simp_all add: stored_sample_def oget_stored)
  have "oitem sample_case ''known_at'' = Inr (VStr sample_time)"
    using c(2) by (simp add: oitem_def oget_def sample_time_def split: option.splits)
  then show "oitem stored_sample ''known_at'' = Inr (VStr sample_time)" by (simp add: stored_sample_def)
  have "oitem (stored_form sample_claim) ''claim_id'' = Inr (VStr ''e1'')"
    by (rule oitem_stored_str) (simp add: sample_claim_def oitem_def)
  then show "original_claims stored_sample = Inr [VStr ''e1'']"
    using case_field_stored[OF sample_claims]
    by (simp add: original_claims_def stored_sample_def flip: stored_form_def' del: sort_keys.simps(7))
qed

lemma sample_later_update:
  assumes "s \<in> {''2026-08-23T09:00:00+07:00'', ''2026-08-24T09:00:00+07:00''}"
  shows "\<exists>u h. build_case_update sample_text_env stored_sample s s ''s'' ''OFFICIAL_DOCUMENT'' [] [] [] VNone False = Inr u
     \<and> append_case_update sample_text_env stored_sample [] u (VStr ''ACTIVE'') = Inr h \<and> oitem u ''observed_at'' = Inr (VStr s)
     \<and> is_ok (parse_time (VStr s))"
proof -
  have times: "case parse_time (VStr x) of Inl e \<Rightarrow> False
      | Inr t \<Rightarrow> (case parse_time (VStr sample_time) of Inl e \<Rightarrow> False | Inr k \<Rightarrow> same_kind t k \<and> instant k < instant t)"
    if "x \<in> set [''2026-08-23T09:00:00+07:00'', ''2026-08-24T09:00:00+07:00'']" for x
  proof -
    have "list_all (\<lambda>x. case parse_time (VStr x) of Inl e \<Rightarrow> False
      | Inr t \<Rightarrow> (case parse_time (VStr sample_time) of Inl e \<Rightarrow> False | Inr k \<Rightarrow> same_kind t k \<and> instant k < instant t))
      [''2026-08-23T09:00:00+07:00'', ''2026-08-24T09:00:00+07:00'']" by code_simp
    then show ?thesis using that by (simp only: list_all_iff)
  qed
  have "''ACTIVE'' \<in> set lifecycle_states" by (simp add: lifecycle_states_def)
  moreover obtain t k where "parse_time (VStr s) = Inr t" "parse_time (VStr sample_time) = Inr k" "same_kind t k" "instant k < instant t"
    using times[of s] assms by (auto split: sum.splits)
  ultimately show ?thesis
    using next_update[of sample_text_env stored_sample "[]" s t "VStr sample_time" k "[VStr ''e1'']" "[]" "''OFFICIAL_DOCUMENT''" "''s''" "''ACTIVE''"]
      stored_sample_values sample_case_values(4,5) by (auto simp: history_ok_def)
qed

lemma plan_built:
  assumes load: "load_case_envelope env i t = Inr envelope" "oitem envelope ''case'' = Inr (VDict c)" "oget c ''case_id'' = VStr i"
    and events: "case_events env i t = Inr events" "filterE update_event previous_update events = Inr ps"
    and u: "build_case_update env c s s source kind [] [] [] VNone False = Inr u"
    and h: "append_case_update env c ps u (VStr lifecycle) = Inr h"
    and time: "is_ok (parse_time (VStr s))" and source: "source \<in> set registered"
  shows "\<exists>e. plan_update env registered i u lifecycle t = Inr (h, e)
     \<and> make_event env (VStr i) ''CASE_UPDATE'' (VStr s) (VStr s) source (VList [VStr source]) (event_id (last events))
         [(''update'', VDict u), (''lifecycle_state'', VStr lifecycle)] False = Inr e"
proof -
  obtain body where body: "update_body c s s source kind [] [] [] VNone False = Inr body"
    and ub: "u = body @ [(''update_identity'', VStr (update_prefix @ content_hash env body))]"
    using build_case_update_Inr(7)[OF u] by blast
  have "oitem body ''fixture'' = Inr (VBool False)" "oitem body ''source_evidence_identity'' = Inr (VStr source)"
    "oitem body ''observed_at'' = Inr (VStr s)" "oitem body ''known_at'' = Inr (VStr s)"
    using body by (auto simp: update_body_def oitem_def res_simps split: option.splits)
  then have fields: "oget u ''fixture'' = VBool False" "oget u ''source_evidence_identity'' = VStr source"
    "oitem u ''observed_at'' = Inr (VStr s)" "oitem u ''known_at'' = Inr (VStr s)"
    unfolding ub by (simp_all add: oitem_def oget_def map_add_def split: option.splits)
  have own: "own_update env c (VDict u)" using h by (simp add: append_case_update_Inr)
  have "source \<noteq> []" by (rule build_case_update_Inr(3)[OF u])
  then have evidence: "check_evidence env registered u = Inr source"
    using source fields by (simp add: check_evidence_def text_or_empty_def to_text_def)
  have "check_timestamp (VStr s) = Inr ()" using time by (auto simp: check_timestamp_def elim!: is_okE)
  then obtain e where e: "make_event env (VStr i) ''CASE_UPDATE'' (VStr s) (VStr s) source (VList [VStr source]) (event_id (last events))
         [(''update'', VDict u), (''lifecycle_state'', VStr lifecycle)] False = Inr e"
    by (simp add: make_event_def Let_def)
  have "plan_update env registered i u lifecycle t = Inr (h, e)"
    using own e load(3) fields(1,3,4)
    by (simp add: plan_update_def load events evidence h own_update_def)
  then show ?thesis using e by blast
qed

definition sample_store :: "obj \<Rightarrow> store" where
  "sample_store envelope = [(stored_case_path sample_text_env sample_id, Json (VDict envelope))]"

lemma sample_plans:
  "\<exists>envelope r. replay_case sample_text_env sample_id (sample_store envelope) = Inr r \<and> rp_case r = stored_sample
     \<and> (\<forall>s\<in>{''2026-08-23T09:00:00+07:00'', ''2026-08-24T09:00:00+07:00''}. \<exists>u h e.
          build_case_update sample_text_env stored_sample s s ''s'' ''OFFICIAL_DOCUMENT'' [] [] [] VNone False = Inr u
          \<and> oitem u ''observed_at'' = Inr (VStr s) \<and> own_update sample_text_env stored_sample (VDict u)
          \<and> plan_update sample_text_env [''s''] sample_id u ''ACTIVE'' (sample_store envelope) = Inr (h, e)
          \<and> oget e ''observed_at'' = VStr s \<and> verify_event sample_text_env (VDict (stored_form e)) = Inr ()
          \<and> (\<exists>x. oget e ''event_id'' = VStr x))"
proof -
  obtain envelope where p: "persist_policy_admitted_case sample_text_env sample_case sample_admission []
      = (Inr envelope, sample_store envelope)"
    using sample_persisted unfolding sample_store_def by blast
  obtain state q where "oitem sample_case ''lifecycle_state'' = Inr (VStr state)"
      "oitem sample_case ''ai_human_provenance'' = Inr (VDict q)"
    using created_case_fields[OF sample_created] by blast
  from replay_admitted[OF this sample_claims sample_claim_named sample_id no_events_yet p]
  obtain r f where r: "replay_case sample_text_env sample_id (sample_store envelope) = Inr r" "rp_case r = stored_sample"
      "rp_events r = [f]" "rp_history r = identify_history sample_text_env (history_body stored_sample [] (oget sample_case ''lifecycle_state''))"
    unfolding stored_sample_def by blast
  from replay_case_Inr[OF r(1)] r(2,3) obtain env' start ps where
    l: "load_case_envelope sample_text_env sample_id (sample_store envelope) = Inr env'" "oitem env' ''case'' = Inr (VDict stored_sample)"
      "case_events sample_text_env sample_id (sample_store envelope) = Inr [f]"
      "foldE replay_event [f] ([], start) = Inr (ps, rp_lifecycle r)"
      "replay_history sample_text_env stored_sample ps (rp_lifecycle r) = Inr (rp_history r)"
    by auto
  have "ps = []"
  proof (rule ccontr)
    assume ps: "ps \<noteq> []"
    then have "append_case_update sample_text_env stored_sample (butlast ps) (the_dict (last ps)) (rp_lifecycle r) = Inr (rp_history r)"
      using l(5) by (auto simp: replay_history_def as_store_error_def raise_def split: sum.splits py_exc.splits exc_class.splits)
    then have "rp_history r = identify_history sample_text_env (history_body stored_sample
        (butlast ps @ [VDict (the_dict (last ps))]) (rp_lifecycle r))" by (simp add: append_case_update_Inr)
    then show False using r(4) by (simp add: identify_history_def history_body_def)
  qed
  then obtain b where "update_event f = Inr b" "\<not> b" using l(4) by (auto simp: replay_event_def bindE_eq_Inr split: if_splits)
  then have none: "filterE update_event previous_update [f] = Inr []" by simp
  have "\<exists>u h e. build_case_update sample_text_env stored_sample s s ''s'' ''OFFICIAL_DOCUMENT'' [] [] [] VNone False = Inr u
          \<and> oitem u ''observed_at'' = Inr (VStr s) \<and> own_update sample_text_env stored_sample (VDict u)
          \<and> plan_update sample_text_env [''s''] sample_id u ''ACTIVE'' (sample_store envelope) = Inr (h, e)
          \<and> oget e ''observed_at'' = VStr s \<and> verify_event sample_text_env (VDict (stored_form e)) = Inr ()
          \<and> (\<exists>x. oget e ''event_id'' = VStr x)"
    if s: "s \<in> {''2026-08-23T09:00:00+07:00'', ''2026-08-24T09:00:00+07:00''}" for s
  proof -
    obtain u h where u: "build_case_update sample_text_env stored_sample s s ''s'' ''OFFICIAL_DOCUMENT'' [] [] [] VNone False = Inr u"
      "append_case_update sample_text_env stored_sample [] u (VStr ''ACTIVE'') = Inr h" "oitem u ''observed_at'' = Inr (VStr s)"
      "is_ok (parse_time (VStr s))"
      using sample_later_update[OF s] by blast
    obtain e where e: "plan_update sample_text_env [''s''] sample_id u ''ACTIVE'' (sample_store envelope) = Inr (h, e)"
      "make_event sample_text_env (VStr sample_id) ''CASE_UPDATE'' (VStr s) (VStr s) ''s'' (VList [VStr ''s'']) (event_id (last [f]))
         [(''update'', VDict u), (''lifecycle_state'', VStr ''ACTIVE'')] False = Inr e"
      using plan_built[OF l(1,2) stored_sample_values(2) l(3) none u(1,2,4), of "[''s'']"] by auto
    have "own_update sample_text_env stored_sample (VDict u)" using u(2) by (simp add: append_case_update_Inr)
    then show ?thesis using u(1,3) e(1) make_event_Inr(5,7)[OF e(2)] verify_stored_event[OF e(2)] by blast
  qed
  then show ?thesis using r(1,2) by blast
qed

lemma oitem_oget: "oitem d k = Inr v \<Longrightarrow> oget d k = v"
  by (simp add: oitem_def oget_def split: option.splits)

lemma commit_event_ok:
  assumes "map_of s lock_path = None" "oget e ''event_id'' = VStr x" "map_of s (stored_event_path env x) = None"
  shows "commit_event env e s = (Inr (), s @ [(stored_event_path env x, Json (VDict (stored_form e)))])"
  using writer_write_ok[OF assms(1,3)] by (simp add: commit_event_def assms(2))

lemma sample_store_free: "map_of (sample_store envelope) lock_path = None" "map_of (sample_store envelope) (stored_event_path env x) = None"
  by (simp_all add: sample_store_def stored_case_path_def stored_event_path_def lock_path_def)

theorem replay_after_append_witness:
  "\<exists>s u h t r. append_update sample_text_env [''s''] sample_id u ''ACTIVE'' s = (Inr h, t)
     \<and> replay_case sample_text_env sample_id t = Inr r \<and> stored_form (rp_history r) = stored_form h
     \<and> rp_lifecycle r = VStr ''ACTIVE''"
proof -
  obtain envelope r where r: "replay_case sample_text_env sample_id (sample_store envelope) = Inr r" "rp_case r = stored_sample"
    and plans: "\<forall>s\<in>{''2026-08-23T09:00:00+07:00'', ''2026-08-24T09:00:00+07:00''}. \<exists>u h e.
          build_case_update sample_text_env stored_sample s s ''s'' ''OFFICIAL_DOCUMENT'' [] [] [] VNone False = Inr u
          \<and> oitem u ''observed_at'' = Inr (VStr s) \<and> own_update sample_text_env stored_sample (VDict u)
          \<and> plan_update sample_text_env [''s''] sample_id u ''ACTIVE'' (sample_store envelope) = Inr (h, e)
          \<and> oget e ''observed_at'' = VStr s \<and> verify_event sample_text_env (VDict (stored_form e)) = Inr ()
          \<and> (\<exists>x. oget e ''event_id'' = VStr x)"
    using sample_plans by blast
  define s where "s = ''2026-08-23T09:00:00+07:00''"
  have "s \<in> {''2026-08-23T09:00:00+07:00'', ''2026-08-24T09:00:00+07:00''}" by (simp add: s_def)
  from bspec[OF plans this] obtain u h e x where u: "build_case_update sample_text_env stored_sample s s ''s'' ''OFFICIAL_DOCUMENT'' [] [] [] VNone False = Inr u"
      "plan_update sample_text_env [''s''] sample_id u ''ACTIVE'' (sample_store envelope) = Inr (h, e)" "oget e ''event_id'' = VStr x"
    by blast
  let ?t = "sample_store envelope @ [(stored_event_path sample_text_env x, Json (VDict (stored_form e)))]"
  have "append_update sample_text_env [''s''] sample_id u ''ACTIVE'' (sample_store envelope) = (Inr h, ?t)"
    using u(2) commit_event_ok[OF sample_store_free(1) u(3) sample_store_free(2)]
    by (simp add: append_update_def reading_def act_bind_def act_return_def)
  from replay_after_append[OF sample_case_values(4,5) r(1) u(1)[folded r(2)] _ this] this show ?thesis
    by (simp, blast)
qed

theorem interleaved_appends_block_case_witness:
  "\<exists>s u u' h h' e e' t t'. plan_update sample_text_env [''s''] sample_id u ''ACTIVE'' s = Inr (h, e)
     \<and> plan_update sample_text_env [''s''] sample_id u' ''ACTIVE'' s = Inr (h', e')
     \<and> commit_event sample_text_env e s = (Inr (), t) \<and> commit_event sample_text_env e' t = (Inr (), t')
     \<and> is_ok (replay_case sample_text_env sample_id s) \<and> \<not> is_ok (replay_case sample_text_env sample_id t')"
proof -
  obtain envelope r where r: "replay_case sample_text_env sample_id (sample_store envelope) = Inr r" "rp_case r = stored_sample"
    and plans: "\<forall>s\<in>{''2026-08-23T09:00:00+07:00'', ''2026-08-24T09:00:00+07:00''}. \<exists>u h e.
          build_case_update sample_text_env stored_sample s s ''s'' ''OFFICIAL_DOCUMENT'' [] [] [] VNone False = Inr u
          \<and> oitem u ''observed_at'' = Inr (VStr s) \<and> own_update sample_text_env stored_sample (VDict u)
          \<and> plan_update sample_text_env [''s''] sample_id u ''ACTIVE'' (sample_store envelope) = Inr (h, e)
          \<and> oget e ''observed_at'' = VStr s \<and> verify_event sample_text_env (VDict (stored_form e)) = Inr ()
          \<and> (\<exists>x. oget e ''event_id'' = VStr x)"
    using sample_plans by blast
  define s1 s2 where "s1 = ''2026-08-23T09:00:00+07:00''" and "s2 = ''2026-08-24T09:00:00+07:00''"
  have s: "s1 \<in> {''2026-08-23T09:00:00+07:00'', ''2026-08-24T09:00:00+07:00''}"
    "s2 \<in> {''2026-08-23T09:00:00+07:00'', ''2026-08-24T09:00:00+07:00''}" "s1 \<noteq> s2" by (simp_all add: s1_def s2_def)
  from bspec[OF plans s(1)] obtain u h e x where u: "oitem u ''observed_at'' = Inr (VStr s1)"
      "own_update sample_text_env stored_sample (VDict u)"
      "plan_update sample_text_env [''s''] sample_id u ''ACTIVE'' (sample_store envelope) = Inr (h, e)"
      "oget e ''observed_at'' = VStr s1" "verify_event sample_text_env (VDict (stored_form e)) = Inr ()" "oget e ''event_id'' = VStr x"
    by blast
  from bspec[OF plans s(2)] obtain u' h' e' x' where u': "oitem u' ''observed_at'' = Inr (VStr s2)"
      "own_update sample_text_env stored_sample (VDict u')"
      "plan_update sample_text_env [''s''] sample_id u' ''ACTIVE'' (sample_store envelope) = Inr (h', e')"
      "oget e' ''observed_at'' = VStr s2" "verify_event sample_text_env (VDict (stored_form e')) = Inr ()" "oget e' ''event_id'' = VStr x'"
    by blast
  have "x \<noteq> x'"
  proof
    assume "x = x'"
    then have "oget (stored_form e) ''event_id'' = oget (stored_form e') ''event_id''" by (simp add: oget_stored u(6) u'(6))
    from verified_same_event[OF sample_case_values(4,5) u(5) u'(5) this, of "''observed_at''"]
    show False using s(3) by (simp add: oget_stored u(4) u'(4))
  qed
  then have ne: "stored_event_path sample_text_env x \<noteq> stored_event_path sample_text_env x'"
    by (simp add: stored_event_path_def sample_text_env_def)
  have ids: "oget u ''update_identity'' \<noteq> oget u' ''update_identity''"
  proof
    assume same: "oget u ''update_identity'' = oget u' ''update_identity''"
    then have "update_id (VDict u) = VStr (update_prefix @ content_hash sample_text_env (odel u' ''update_identity''))"
      using u'(2) by (simp add: update_id_def own_update_def identified_by_def)
    moreover have "oget (odel u' ''update_identity'') ''observed_at'' = VStr s2"
      using oitem_oget[OF u'(1)] by simp
    ultimately show False using updates_differ[OF sample_case_values(4,5) u(2)] u(1) s(3) by simp
  qed
  define t where "t = sample_store envelope @ [(stored_event_path sample_text_env x, Json (VDict (stored_form e)))]"
  have c: "commit_event sample_text_env e (sample_store envelope) = (Inr (), t)"
    unfolding t_def by (rule commit_event_ok[OF sample_store_free(1) u(6) sample_store_free(2)])
  have "map_of t lock_path = None" "map_of t (stored_event_path sample_text_env x') = None"
    using ne sample_store_free paths_distinct(2)[of sample_text_env x] by (auto simp: t_def map_add_def split: option.splits dest: sym)
  then obtain t' where c': "commit_event sample_text_env e' t = (Inr (), t')"
    using commit_event_ok[OF _ u'(6)] by blast
  have "\<not> is_ok (replay_case sample_text_env sample_id t')"
    using interleaved_appends_block_case[OF u(3) u'(3) c c' ids extending.refl] by blast
  then show ?thesis using u(3) u'(3) c c' r(1) by (intro exI conjI) (assumption | simp)+
qed

section \<open>A case cannot be changed under its identifier\<close>

text \<open>
  C13. Whatever happens to the files of a store, a case that can be loaded under an identifier is the one
  it was given for: two stores that load a case by the same identifier hold cases that agree in every
  field (up to the order of keys within it).  The hash has no collisions.
\<close>

theorem case_id_determines_case:
  assumes "inj (te_sha env)" "float_text (te_float env)"
    and "load_case_envelope env i s = Inr envelope" "load_case_envelope env i t = Inr envelope'"
  shows "\<exists>c c'. oget envelope ''case'' = VDict c \<and> oget envelope' ''case'' = VDict c'
    \<and> (\<forall>k. sort_keys (oget c k) = sort_keys (oget c' k))"
proof -
  from load_Inr(1)[OF assms(3)] load_Inr(1)[OF assms(4)] obtain c c' where
    c: "oget envelope ''case'' = VDict c" "oget c ''case_id'' = VStr i" "case_identity env c"
    and c': "oget envelope' ''case'' = VDict c'" "oget c' ''case_id'' = VStr i" "case_identity env c'" by blast
  have "content_hash env (case_body c) = content_hash env (case_body c')"
    using c(2,3) c'(2,3) by (auto simp: case_identity_def)
  then have "json_dumps (te_float env) (VDict (case_body c)) = json_dumps (te_float env) (VDict (case_body c'))"
    using injD[OF assms(1)] by (auto simp: content_hash_def canonical_def)
  note same = json_dumps_inject[OF assms(2) this]
  have "sort_keys (oget c k) = sort_keys (oget c' k)" for k
  proof (cases "k \<in> {''case_id'', ''case_content_identity''}")
    case True
    then show ?thesis using c(2,3) c'(2,3) by (auto simp: case_identity_def)
  next
    case False
    then have "sort_keys (oget c k) = sort_keys (oget (case_body c) k)" by (simp add: case_body_def)
    also have "\<dots> = sort_keys (oget (case_body c') k)" using same by (simp only: flip: oget_sort_keys)
    also have "\<dots> = sort_keys (oget c' k)" using False by (simp add: case_body_def)
    finally show ?thesis .
  qed
  then show ?thesis using c(1) c'(1) by blast
qed

theorem case_id_determines_case_witness:
  "\<exists>envelope envelope' t c. load_case_envelope sample_text_env sample_id (sample_store envelope) = Inr envelope'
     \<and> load_case_envelope sample_text_env sample_id t = Inr envelope' \<and> t \<noteq> sample_store envelope
     \<and> oget envelope' ''case'' = VDict c"
proof -
  obtain envelope r where "replay_case sample_text_env sample_id (sample_store envelope) = Inr r" using sample_plans by blast
  then obtain envelope' where l: "load_case_envelope sample_text_env sample_id (sample_store envelope) = Inr envelope'"
    using replay_case_Inr by blast
  let ?t = "sample_store envelope @ [(contract_path, Other)]"
  have "load_case_envelope sample_text_env sample_id ?t = Inr envelope'"
    unfolding l[symmetric] by (rule load_cong) (simp add: sample_store_def)
  with case_id_determines_case[OF sample_case_values(4,5) l this] l show ?thesis by fastforce
qed

theorem events_put_in_order_witness:
  "\<exists>e e'. (\<forall>x\<in>set [e', e]. verify_event sample_text_env x = Inr ()) \<and> e \<noteq> e'
     \<and> order_events [e', e] = Inr [e, e']"
proof -
  define s where "s = VStr ''2026-08-23T09:00:00+07:00''"
  have s: "check_timestamp s = Inr ()" unfolding s_def by code_simp
  have make: "\<exists>e. make_event sample_text_env i ''CASE_CREATED'' s s ''w'' (VList []) p [] False = Inr e" for i p
    by (simp add: make_event_def Let_def s)
  obtain d where d: "make_event sample_text_env (VStr ''c'') ''CASE_CREATED'' s s ''w'' (VList []) VNone [] False = Inr d"
    using make by blast
  obtain x where x: "oget d ''event_id'' = VStr x" using make_event_Inr(5)[OF d] by blast
  obtain d' where d': "make_event sample_text_env (VStr ''c'') ''CASE_CREATED'' s s ''w'' (VList []) (VStr x) [] False = Inr d'"
    using make by blast
  let ?e = "VDict (stored_form d)" and ?e' = "VDict (stored_form d')"
  note v = verify_stored_event[OF d] verify_stored_event[OF d']
  have fields: "prior_id ?e = VNone" "prior_id ?e' = VStr x" "event_id ?e = VStr x"
    using make_event_Inr(3)[OF d] make_event_Inr(3)[OF d'] x by (simp_all add: prior_id_def event_id_def oget_stored)
  have differ: "event_id ?e \<noteq> event_id ?e'"
  proof
    assume "event_id ?e = event_id ?e'"
    then have "oget (stored_form d) ''event_id'' = oget (stored_form d') ''event_id''" by (simp add: event_id_def)
    from verified_same_event[OF sample_case_values(4,5) v this, of "''prior_event_id''"]
    show False using fields(1,2) by (simp add: prior_id_def)
  qed
  have all: "\<forall>y\<in>set [?e', ?e]. verify_event sample_text_env y = Inr ()" using v by simp
  have "distinct (map event_id [?e', ?e]) \<and> in_order [?e, ?e'] \<and> mset [?e, ?e'] = mset [?e', ?e]"
    using differ fields by (auto simp: in_order_def less_Suc_eq)
  with events_put_in_order[OF all, of "[?e, ?e']"] have "order_events [?e', ?e] = Inr [?e, ?e']" by blast
  moreover have "?e \<noteq> ?e'" using differ by metis
  ultimately show ?thesis using all by (intro exI[of _ ?e] exI[of _ ?e'] conjI)
qed

end
