(* ===== verification/CaseAdmission.thy ===== *)
theory CaseAdmission
  imports CaseStore
begin

text \<open>
  The admission of cases: \<open>prospective_case_admission_policy.py\<close>.  Each card of a decision workspace is either
  admitted as a research case or refused with a reason; the admitted cases are then retained in the store of
  \<open>CaseStore\<close>.  A card whose material state already has an active case in the store is not admitted again.

  A workspace, its cards and the prices are mappings read from JSON.  The text of an exception, \<open>str(exc)\<close>,
  is the argument \<open>say\<close>.
\<close>

section \<open>Values\<close>

fun py_less :: "pyv \<Rightarrow> pyv \<Rightarrow> bool res" where
  \<comment> \<open>\<open>a < b\<close>\<close>
  "py_less (VStr a) (VStr b) = Inr (a < b)"
| "py_less (VList []) (VList ys) = Inr (ys \<noteq> [])"
| "py_less (VList (x # xs)) (VList []) = Inr False"
| "py_less (VList (x # xs)) (VList (y # ys)) = (if py_eq x y then py_less (VList xs) (VList ys) else py_less x y)"
| "py_less a b =
     (case (num_of a, num_of b) of
        (Some r, Some q) \<Rightarrow> Inr (r < q) | _ \<Rightarrow> raise TypeError ''not supported between instances'')"

fun insert_sorted :: "pyv \<Rightarrow> pyv list \<Rightarrow> pyv list" where
  "insert_sorted x [] = [x]"
| "insert_sorted x (y # ys) = (if py_less x y = Inr True then x # y # ys else y # insert_sorted x ys)"

fun all_comparable :: "pyv list \<Rightarrow> bool" where
  "all_comparable [] = True"
| "all_comparable (x # xs) \<longleftrightarrow> list_all (\<lambda>y. is_ok (py_less y x)) xs \<and> all_comparable xs"

definition sorted_tags :: "pyv list \<Rightarrow> pyv list res" where
  \<comment> \<open>\<open>sorted(xs)\<close>, which raises if two of the values cannot be compared\<close>
  "sorted_tags xs =
     (if all_comparable xs then Inr (foldl (\<lambda>ys x. insert_sorted x ys) [] xs)
      else raise TypeError ''not supported between instances'')"

definition dict_item :: "pyv \<Rightarrow> obj \<Rightarrow> obj res" where
  "dict_item pair d =
     bindE (py_iter pair) (\<lambda>kv.
       if length kv \<noteq> 2 then raise ValueError ''dictionary update sequence element has wrong length''
       else case kv ! 0 of VStr k \<Rightarrow> Inr (oset d k (kv ! 1)) | _ \<Rightarrow> raise TypeError ''key is not a string'')"

definition dict_of :: "pyv \<Rightarrow> obj res" where
  \<comment> \<open>\<open>dict(v)\<close> of a mapping or a sequence of pairs; the keys of a mapping are strings\<close>
  "dict_of v = (case v of VDict d \<Rightarrow> Inr d | _ \<Rightarrow> bindE (py_iter v) (\<lambda>pairs. foldE dict_item pairs []))"

definition identify :: "text_env \<Rightarrow> obj \<Rightarrow> string \<Rightarrow> string \<Rightarrow> obj" where
  \<comment> \<open>\<open>_identity\<close>\<close>
  "identify env payload prefix_text field = payload @ [(field, VStr (prefix_text @ content_hash env payload))]"

section \<open>The material state of a card\<close>

definition role_by_stance :: "(string \<times> string) list" where
  "role_by_stance =
     [(''INITIATE_RESEARCH_CANDIDATE'', ''ACTIVE_RESEARCH_THESIS''),
      (''ACCUMULATE_RESEARCH_CANDIDATE'', ''ACTIVE_RESEARCH_THESIS''),
      (''WAIT_FOR_CONFIRMATION'', ''WATCH_FOR_CONFIRMATION''),
      (''HIGH_RISK_SPECULATION_ONLY'', ''SPECULATIVE_RESEARCH_THESIS''),
      (''AVOID_NEW_ENTRY'', ''NEW_ENTRY_VETO_OBSERVATION'')]"

definition admissible :: "string list" where
  "admissible =
     [''INITIATE_RESEARCH_CANDIDATE'', ''ACCUMULATE_RESEARCH_CANDIDATE'', ''WAIT_FOR_CONFIRMATION'',
      ''HIGH_RISK_SPECULATION_ONLY'', ''AVOID_NEW_ENTRY'']"

definition or_empty :: "obj \<Rightarrow> string \<Rightarrow> pyv" where
  \<comment> \<open>\<open>d.get(k) or {}\<close>\<close>
  "or_empty d k = v_or (oget d k) (VDict [])"

definition part_of :: "pyv \<Rightarrow> string \<Rightarrow> pyv" where
  \<comment> \<open>\<open>v.get(k) if isinstance(v, Mapping) else None\<close>\<close>
  "part_of v k = (case v of VDict d \<Rightarrow> oget d k | _ \<Rightarrow> VNone)"

definition fields_of :: "pyv \<Rightarrow> string list \<Rightarrow> pyv res" where
  \<comment> \<open>\<open>{key: v.get(key) for key in keys}\<close>\<close>
  "fields_of v ks = bindE (mapE (\<lambda>k. bindE (attr_get v k) (\<lambda>x. Inr (k, x))) ks) (\<lambda>kvs. Inr (VDict kvs))"

definition boundary_fields :: "string list" where
  "boundary_fields = [''status'', ''boundary_type'', ''source_rule'', ''source_metric'', ''comparison_operator'', ''value'']"

definition semantic :: "obj \<Rightarrow> string \<Rightarrow> obj res" where
  "semantic entry role =
     (let invalidation = or_empty entry ''invalidation'';
          technical = v_or (part_of invalidation ''technical'') (VDict []);
          fundamental = v_or (part_of invalidation ''fundamental'') (VDict []) in
      bindE (bindE (py_iter (v_or (oget entry ''setup_tags'') (VList []))) sorted_tags) (\<lambda>tags.
      bindE (fields_of (or_empty entry ''confirmation'') boundary_fields) (\<lambda>confirmed.
      bindE (fields_of technical boundary_fields) (\<lambda>invalid.
      bindE (attr_get fundamental ''status'') (\<lambda>status.
      bindE (fields_of (or_empty entry ''valuation'')
               [''readiness'', ''relative_research_state'', ''supporting_methods'', ''share_basis'']) (\<lambda>valuation.
      bindE (fields_of (or_empty entry ''fundamental'') [''readiness'', ''state'', ''trajectory'', ''research_fitness'']) (\<lambda>state.
      bindE (fields_of (or_empty entry ''liquidity'')
               [''readiness'', ''descriptive_research_state'', ''exact_execution_capacity_status'']) (\<lambda>liquidity.
        Inr [(''case_role'', VStr role), (''research_stance'', oget entry ''research_stance''),
             (''research_stance_readiness'', oget entry ''research_stance_readiness''),
             (''entry_state'', oget entry ''entry_state''), (''entry_action'', oget entry ''entry_action''),
             (''setup_tags'', VList tags), (''confirmation'', confirmed), (''technical_invalidation'', invalid),
             (''fundamental_invalidation_status'', status), (''valuation'', valuation), (''fundamental'', state),
             (''liquidity'', liquidity)]))))))))"

definition material_decision_state_signature :: "text_env \<Rightarrow> obj \<Rightarrow> string \<Rightarrow> string res" where
  "material_decision_state_signature env entry role =
     bindE (semantic entry role) (\<lambda>m. Inr (''material_decision_state:'' @ content_hash env m))"

section \<open>The admitted case\<close>

definition boundary :: "text_env \<Rightarrow> string \<Rightarrow> pyv \<Rightarrow> pyv res" where
  "boundary env kind v =
     (case v of
        VDict d \<Rightarrow>
          bindE (member_of (oget d ''status'') [''READY'', ''CONDITIONAL'']) (\<lambda>usable. if \<not> usable then Inr VNone else
          let operator = oget d ''comparison_operator''; threshold = oget d ''value'' in
          bindE (if num_of threshold = None then Inr False
                 else member_of operator [''>='', ''>'', ''<='', ''<'', ''=='']) (\<lambda>exact.
          Inr (VDict
            [(''role'', VStr kind), (''kind'', VStr ''technical''),
             (''boundary_identity'', VStr (''workspace_boundary:'' @ content_hash env
                (map (\<lambda>k. (k, oget d k)) [''source_rule'', ''source_metric'', ''comparison_operator'', ''value'', ''boundary_type'']))),
             (''condition'', if exact then VDict [(''field'', VStr ''close''), (''operator'', operator), (''value'', threshold)] else VNone),
             (''source_rule'', oget d ''source_rule''), (''source_metric'', oget d ''source_metric''), (''status'', oget d ''status'')])))
      | _ \<Rightarrow> Inr VNone)"

definition t0_state :: "text_env \<Rightarrow> obj \<Rightarrow> string \<Rightarrow> string \<Rightarrow> obj \<Rightarrow> obj res" where
  "t0_state env entry session identity price =
     bindE (py_iter (v_or (oget entry ''setup_tags'') (VList []))) (\<lambda>tags.
     bindE (dict_of (or_empty entry ''fundamental'')) (\<lambda>fundamental.
     bindE (dict_of (or_empty entry ''valuation'')) (\<lambda>valuation.
     bindE (boundary env ''confirmation'' (oget entry ''confirmation'')) (\<lambda>confirmed.
     bindE (boundary env ''invalidation'' (part_of (or_empty entry ''invalidation'') ''technical'')) (\<lambda>invalid.
     bindE (dict_of (or_empty entry ''market_sector'')) (\<lambda>sector.
     bindE (dict_of (or_empty entry ''catalyst'')) (\<lambda>catalyst.
     bindE (dict_of (or_empty entry ''liquidity'')) (\<lambda>liquidity.
     bindE (dict_of (or_empty entry ''lineage'')) (\<lambda>lineage.
       Inr [(''completed_session'', VStr session), (''close'', VDict price), (''research_stance'', oget entry ''research_stance''),
            (''entry_state'', oget entry ''entry_state''), (''entry_action'', oget entry ''entry_action''), (''setup_tags'', VList tags),
            (''fundamental_state'', VDict fundamental), (''valuation_state'', VDict valuation),
            (''confirmation_boundary'', confirmed), (''invalidation_boundary'', invalid), (''market_sector_context'', VDict sector),
            (''catalyst_context'', VDict catalyst), (''liquidity_research_state'', VDict liquidity), (''lineage'', VDict lineage),
            (''workspace_projection_identity'', VStr identity)])))))))))"

definition policy_case_body :: "string \<Rightarrow> string \<Rightarrow> string \<Rightarrow> pyv \<Rightarrow> obj \<Rightarrow> obj \<Rightarrow> obj" where
  \<comment> \<open>the mapping \<open>body\<close>\<close>
  "policy_case_body session admitted_at identity ticker catalyst t0 =
     [(''schema_version'', VStr ''1.0.0''), (''contract_version'', VStr (case_method @ ''/case'')), (''ticker'', ticker),
      (''created_at'', VStr admitted_at), (''known_at'', VStr admitted_at), (''as_of'', VStr session),
      (''source_decision_workflow_identity'', VStr identity), (''source_ai_input_identity'', VNone),
      (''frozen_universe'', VStr session), (''frozen_strategy_research_lanes'', VDict []), (''frozen_scenario_axis'', VDict []),
      (''frozen_catalyst_evidence'', VDict catalyst), (''frozen_risks'', VList []), (''unresolved_questions'', VList []),
      (''blocked_capabilities'', VList []), (''original_evidence'', VList []), (''original_evidence_ids'', VList []),
      (''original_claims'', VList []), (''thesis_claim_ids'', VList []), (''counter_thesis_claim_ids'', VList []),
      (''ai_human_provenance'', VDict (provenance_of VNone VNone VNone
         (VStr ''NOT_APPLICABLE_DETERMINISTIC_POLICY_ADMISSION'') VNone (VList []))),
      (''lifecycle_state'', VStr ''OPEN''), (''outcome_measurement_t0'', VDict t0),
      (''authority_boundary'',
        VDict [(''research_snapshot_not_recommendation'', VBool True), (''no_historical_pit_backfill'', VBool True),
               (''price_movement_is_not_thesis_proof'', VBool True), (''portfolio_sizing_execution'', VStr ''NOT_EMITTED''),
               (''deterministic_policy_admission'', VBool True)])]"

definition policy_case :: "text_env \<Rightarrow> obj \<Rightarrow> string \<Rightarrow> string \<Rightarrow> string \<Rightarrow> obj \<Rightarrow> string \<Rightarrow> string \<Rightarrow> obj res" where
  "policy_case env entry session admitted_at identity price role signature =
     bindE (t0_state env entry session identity price) (\<lambda>t0.
     bindE (oitem entry ''ticker'') (\<lambda>ticker.
     bindE (dict_of (or_empty entry ''catalyst'')) (\<lambda>catalyst.
       Inr (identify_case env (policy_case_body session admitted_at identity ticker catalyst
         (t0 @ [(''case_role'', VStr role), (''material_decision_state_signature'', VStr signature)]))))))"

section \<open>The policy\<close>

definition closed_states :: "string list" where
  "closed_states = [''THESIS_INVALIDATED'', ''CLOSED_INCONCLUSIVE'', ''CLOSED_RESEARCH_COMPLETE'']"

type_synonym state_key = "pyv \<times> pyv \<times> pyv"

definition active_signature :: "text_env \<Rightarrow> store \<Rightarrow> string \<Rightarrow> state_key option res" where
  "active_signature env s i =
     bindE (replay_case env i s) (\<lambda>r. bindE (member_of (rp_lifecycle r) closed_states) (\<lambda>closed.
     if closed then Inr None else
     let t0 = or_empty (rp_case r) ''outcome_measurement_t0'' in
     bindE (attr_get t0 ''case_role'') (\<lambda>role. if \<not> v_true role then Inr None else
     bindE (attr_get t0 ''material_decision_state_signature'') (\<lambda>signature. if \<not> v_true signature then Inr None else
     bindE (oitem (rp_case r) ''ticker'') (\<lambda>ticker.
       if hashable ticker \<and> hashable role \<and> hashable signature then Inr (Some (ticker, role, signature))
       else raise TypeError ''unhashable type'')))))"

definition active_signatures :: "text_env \<Rightarrow> store option \<Rightarrow> state_key list res" where
  "active_signatures env files =
     (case files of None \<Rightarrow> Inr []
      | Some s \<Rightarrow> bindE (list_case_ids env s) (\<lambda>ids. bindE (mapE (active_signature env s) ids) (\<lambda>rows.
          Inr (map the (filter (\<lambda>r. r \<noteq> None) rows)))))"

definition price_retained :: "pyv \<Rightarrow> bool" where
  "price_retained price =
     (case price of VDict p \<Rightarrow> num_of (oget p ''close'') \<noteq> None \<and> v_true (oget p ''price_basis_identity'')
        \<and> v_true (oget p ''source_identity'')
      | _ \<Rightarrow> False)"

definition policy_method :: string where "policy_method = ''prospective_case_admission_policy/v1''"

definition refused :: "string \<Rightarrow> string \<Rightarrow> string \<Rightarrow> obj" where
  "refused ticker status reason = [(''ticker'', VStr ticker), (''admission_status'', VStr status), (''reason'', VStr reason)]"

definition admission_of :: "text_env \<Rightarrow> string \<Rightarrow> string \<Rightarrow> string \<Rightarrow> string \<Rightarrow> string \<Rightarrow> string \<Rightarrow> obj \<Rightarrow> obj" where
  "admission_of env session admitted_at identity ticker role signature c =
     identify env
       [(''contract_version'', VStr policy_method), (''admission_status'', VStr ''ADMITTED''), (''case_id'', oget c ''case_id''),
        (''ticker'', VStr ticker), (''case_role'', VStr role), (''material_decision_state_signature'', VStr signature),
        (''workspace_projection_identity'', VStr identity), (''latest_qualified_completed_session'', VStr session),
        (''admitted_at'', VStr admitted_at)]
       ''prospective_case_admission:'' ''admission_identity''
     @ [(''case'', VDict c)]"

definition decide_card ::
  "text_env \<Rightarrow> string \<Rightarrow> string \<Rightarrow> string \<Rightarrow> obj \<Rightarrow> state_key list \<Rightarrow> string \<times> pyv \<Rightarrow> obj res" where
  \<comment> \<open>the body of the loop over the cards\<close>
  "decide_card env session admitted_at identity prices existing kv =
     (let ticker = fst kv; entry = the_dict (snd kv); stance = oget entry ''research_stance'' in
      if \<not> is_dict (snd kv) \<or> oget entry ''ticker'' \<noteq> VStr ticker
      then Inr (refused ticker ''MALFORMED_CASE'' ''DECISION_RECORD_MALFORMED'')
      else if stance = VStr ''INSUFFICIENT_EVIDENCE''
      then Inr (refused ticker ''INSUFFICIENT_EVIDENCE_NOT_ADMITTED'' ''NO_EVALUABLE_RESEARCH_THESIS'')
      else bindE (member_of stance admissible) (\<lambda>known.
        if \<not> known then Inr (refused ticker ''MALFORMED_CASE'' ''UNSUPPORTED_RESEARCH_STANCE'') else
        let role = the (map_of role_by_stance (the_str stance)) in
        bindE (material_decision_state_signature env entry role) (\<lambda>signature.
        let state = [(''case_role'', VStr role), (''material_decision_state_signature'', VStr signature)] in
        if \<not> price_retained (oget prices ticker)
        then Inr (refused ticker ''MALFORMED_CASE'' ''T0_CLOSE_PRICE_BASIS_NOT_RETAINED'' @ state)
        else if (VStr ticker, VStr role, VStr signature) \<in> set existing
        then Inr ([(''ticker'', VStr ticker), (''admission_status'', VStr ''CASE_ALREADY_ACTIVE'')] @ state)
        else bindE (policy_case env entry session admitted_at identity (the_dict (oget prices ticker)) role signature) (\<lambda>c.
          Inr (admission_of env session admitted_at identity ticker role signature c)))))"

definition coverage_of :: "text_env \<Rightarrow> obj \<Rightarrow> obj list \<Rightarrow> obj res" where
  "coverage_of env cards decisions =
     bindE (bindE (mapE (\<lambda>kv. bindE (attr_get (snd kv) ''research_stance'') (\<lambda>v. Inr (VStr (to_text env v)))) cards) tally_names) (\<lambda>stances.
     bindE (tally_names (map (\<lambda>d. oget d ''admission_status'') decisions)) (\<lambda>statuses.
     bindE (tally_names (filter v_true (map (\<lambda>d. oget d ''case_role'') decisions))) (\<lambda>roles.
       Inr [(''decision_denominator'', VInt (int (length cards))), (''stance_distribution'', stances),
            (''admission_status'', statuses), (''case_role'', roles)])))"

definition admission_artifact :: "text_env \<Rightarrow> string \<Rightarrow> string \<Rightarrow> obj list \<Rightarrow> obj \<Rightarrow> obj" where
  "admission_artifact env session identity decisions coverage =
     identify env
       [(''schema_version'', VStr ''1.0.0''), (''contract_version'', VStr policy_method),
        (''latest_qualified_completed_session'', VStr session), (''workspace_projection_identity'', VStr identity),
        (''decisions'', VList (map VDict decisions)), (''coverage'', VDict coverage),
        (''authority_boundary'',
          VDict [(''no_cherry_picking'', VBool True), (''no_retroactive_case_creation'', VBool True),
                 (''no_probability_score_or_retuning'', VBool True), (''exact_execution_capacity_not_admission_gate'', VBool True)])]
       ''prospective_case_admission_artifact:'' ''artifact_identity''"

definition apply_admission_policy :: "text_env \<Rightarrow> obj \<Rightarrow> string \<Rightarrow> obj \<Rightarrow> string \<Rightarrow> store option \<Rightarrow> obj res" where
  "apply_admission_policy env workspace session prices admitted_at files =
     (if oget workspace ''contract_version'' \<noteq> VStr ''investment_decision_workspace_projection/v1''
      then raise AdmissionPolicyError ''NO_CURRENT_DECISION_PROJECTION''
      else if oget workspace ''as_of_session'' \<noteq> VStr session
      then raise AdmissionPolicyError ''DECISION_SESSION_NOT_LATEST_COMPLETED''
      else let identity = oget workspace ''artifact_identity''; cards = oget workspace ''cards'' in
      if \<not> is_str identity \<or> \<not> is_dict cards \<or> the_dict cards = []
      then raise AdmissionPolicyError ''INPUT_IDENTITY_MISMATCH''
      else bindE (active_signatures env files) (\<lambda>existing.
        bindE (mapE (decide_card env session admitted_at (the_str identity) prices existing) (sort_key fst (the_dict cards))) (\<lambda>decisions.
        bindE (coverage_of env (the_dict cards) decisions) (\<lambda>coverage.
          Inr (admission_artifact env session (the_str identity) decisions coverage)))))"

section \<open>Retaining the admitted cases\<close>

definition retained_row :: "obj \<Rightarrow> obj \<Rightarrow> pyv res" where
  "retained_row decision envelope =
     bindE (oitem decision ''ticker'') (\<lambda>ticker. bindE (oitem decision ''case_id'') (\<lambda>i.
     bindE (oitem envelope ''content_identity'') (\<lambda>e.
       Inr (VDict [(''ticker'', ticker), (''case_id'', i), (''store_envelope_identity'', e)]))))"

definition retain_decision :: "text_env \<Rightarrow> obj \<Rightarrow> (store, pyv) act" where
  \<comment> \<open>the body of the \<open>try\<close>\<close>
  "retain_decision env decision =
     act_bind (lift_res (bindE (oitem decision ''case'') (\<lambda>c. if is_dict c then Inr (the_dict c) else raise AttributeError ''items''))) (\<lambda>c.
     act_bind (persist_policy_admitted_case env c decision) (\<lambda>envelope. lift_res (retained_row decision envelope)))"

fun retain_decisions ::
  "text_env \<Rightarrow> (py_exc \<Rightarrow> string) \<Rightarrow> pyv list \<Rightarrow> pyv list \<Rightarrow> pyv list \<Rightarrow> (store, pyv list \<times> pyv list) act" where
  "retain_decisions env say [] retained errors = act_return (retained, errors)"
| "retain_decisions env say (d # ds) retained errors =
     act_bind (lift_res (attr_get d ''admission_status'')) (\<lambda>status.
       if status \<noteq> VStr ''ADMITTED'' then retain_decisions env say ds retained errors
       else (\<lambda>s. case retain_decision env (the_dict d) s of
           (Inr row, t) \<Rightarrow> retain_decisions env say ds (retained @ [row]) errors t
         | (Inl e, t) \<Rightarrow> retain_decisions env say ds retained
             (errors @ [VDict [(''ticker'', oget (the_dict d) ''ticker''), (''status'', VStr ''T0_RETENTION_FAILED''), (''reason'', VStr (say e))]]) t))"

definition retain_admitted_cases :: "text_env \<Rightarrow> (py_exc \<Rightarrow> string) \<Rightarrow> obj \<Rightarrow> (store, obj) act" where
  "retain_admitted_cases env say artifact =
     act_bind (lift_res (py_iter (v_or (oget artifact ''decisions'') (VList [])))) (\<lambda>ds.
     act_bind (retain_decisions env say ds [] []) (\<lambda>r.
       act_return (identify env
         [(''contract_version'', VStr (policy_method @ ''/retention'')),
          (''admission_artifact_identity'', oget artifact ''artifact_identity''), (''retained'', VList (fst r)),
          (''errors'', VList (snd r)), (''store_contract_identity'', oget (store_contract env) ''store_contract_identity'')]
         ''prospective_case_retention:'' ''retention_identity'')))"

section \<open>Decisions\<close>

definition decisions_of :: "obj \<Rightarrow> pyv list" where
  "decisions_of artifact = (case oget artifact ''decisions'' of VList ds \<Rightarrow> ds | _ \<Rightarrow> [])"

definition admitted :: "pyv \<Rightarrow> bool" where
  "admitted d \<longleftrightarrow> oget (the_dict d) ''admission_status'' = VStr ''ADMITTED''"

definition eligible_card :: "text_env \<Rightarrow> obj \<Rightarrow> state_key list \<Rightarrow> string \<times> pyv \<Rightarrow> obj \<Rightarrow> string \<Rightarrow> string \<Rightarrow> bool" where
  \<comment> \<open>a well-formed card whose stance is a thesis, whose price is retained and whose state has no active case\<close>
  "eligible_card env prices existing kv entry role signature \<longleftrightarrow>
     snd kv = VDict entry \<and> oget entry ''ticker'' = VStr (fst kv)
     \<and> (\<exists>stance. oget entry ''research_stance'' = VStr stance \<and> map_of role_by_stance stance = Some role)
     \<and> material_decision_state_signature env entry role = Inr signature
     \<and> price_retained (oget prices (fst kv)) \<and> (VStr (fst kv), VStr role, VStr signature) \<notin> set existing"

lemma admissible_roles: "stance \<in> set admissible \<longleftrightarrow> (\<exists>role. map_of role_by_stance stance = Some role)"
  by (auto simp: admissible_def role_by_stance_def)

lemma evidence_is_no_thesis: "map_of role_by_stance ''INSUFFICIENT_EVIDENCE'' = None"
  by (simp add: role_by_stance_def)

lemma admission_fields:
  "oget (admission_of env session time identity ticker role signature c) ''ticker'' = VStr ticker"
  "oget (admission_of env session time identity ticker role signature c) ''admission_status'' = VStr ''ADMITTED''"
  "oget (admission_of env session time identity ticker role signature c) ''case_id'' = oget c ''case_id''"
  "oget (admission_of env session time identity ticker role signature c) ''case_role'' = VStr role"
  "oget (admission_of env session time identity ticker role signature c) ''material_decision_state_signature'' = VStr signature"
  "oget (admission_of env session time identity ticker role signature c) ''case'' = VDict c"
  by (simp_all add: admission_of_def identify_def)

lemma admission_identified:
  "oget (admission_of env session time identity ticker role signature c) ''admission_identity''
     = VStr (''prospective_case_admission:'' @ content_hash env (admission_body (admission_of env session time identity ticker role signature c)))"
  by (simp add: admission_of_def identify_def admission_body_def)

lemma refused_fields:
  "oget (refused ticker status reason) ''ticker'' = VStr ticker"
  "oget (refused ticker status reason) ''admission_status'' = VStr status"
  "oget (refused ticker status reason @ state) ''ticker'' = VStr ticker"
  "oget (refused ticker status reason @ state) ''admission_status'' = VStr status"
  by (simp_all add: refused_def)

lemma member_of_eq: "member_of v xs = Inr b \<longleftrightarrow> \<not> is_list v \<and> \<not> is_dict v \<and> b = (v \<in> VStr ` set xs)"
  by (auto simp: member_of_def)

lemma decide_cases:
  assumes "decide_card env session time identity prices existing kv = Inr d"
  obtains (refused) status reason state where "d = refused (fst kv) status reason @ state"
      "status \<in> {''INSUFFICIENT_EVIDENCE_NOT_ADMITTED'', ''MALFORMED_CASE''}"
      "\<nexists>entry role signature. eligible_card env prices existing kv entry role signature"
    | (active) state where "d = [(''ticker'', VStr (fst kv)), (''admission_status'', VStr ''CASE_ALREADY_ACTIVE'')] @ state"
      "\<nexists>entry role signature. eligible_card env prices existing kv entry role signature"
    | (new) entry role signature c where "eligible_card env prices existing kv entry role signature"
      "policy_case env entry session time identity (the_dict (oget prices (fst kv))) role signature = Inr c"
      "d = admission_of env session time identity (fst kv) role signature c"
proof -
  show thesis
  proof (cases "is_dict (snd kv) \<and> oget (the_dict (snd kv)) ''ticker'' = VStr (fst kv)")
    case False
    then have "d = refused (fst kv) ''MALFORMED_CASE'' ''DECISION_RECORD_MALFORMED'' @ []"
      using assms by (auto simp: decide_card_def Let_def)
    then show thesis by (rule refused) (use False in \<open>auto simp: eligible_card_def\<close>)
  next
    case True
    then obtain entry where entry: "snd kv = VDict entry" "oget entry ''ticker'' = VStr (fst kv)" by (cases "snd kv") auto
    show thesis
    proof (cases "oget entry ''research_stance'' = VStr ''INSUFFICIENT_EVIDENCE''")
      case True
      then have "d = refused (fst kv) ''INSUFFICIENT_EVIDENCE_NOT_ADMITTED'' ''NO_EVALUABLE_RESEARCH_THESIS'' @ []"
        using assms entry by (simp add: decide_card_def)
      then show thesis by (rule refused) (use True entry in \<open>auto simp: eligible_card_def evidence_is_no_thesis\<close>)
    next
      case False
      note d = assms[unfolded decide_card_def Let_def entry pyv.sel, simplified False, simplified entry(2)]
      show thesis
      proof (cases "oget entry ''research_stance'' \<in> VStr ` set admissible")
        case unknown: False
        then have "d = refused (fst kv) ''MALFORMED_CASE'' ''UNSUPPORTED_RESEARCH_STANCE'' @ []"
          using d by (auto simp: bindE_eq_Inr member_of_eq)
        then show thesis by (rule refused) (use unknown entry admissible_roles in \<open>auto simp: eligible_card_def\<close>)
      next
        case True
        then obtain stance role where stance: "oget entry ''research_stance'' = VStr stance" "map_of role_by_stance stance = Some role"
          using admissible_roles by auto
        then have m: "VStr stance \<in> VStr ` set admissible" using True by simp
        from d True stance obtain signature where signature: "material_decision_state_signature env entry role = Inr signature"
          by (auto simp: bindE_eq_Inr member_of_eq)
        let ?state = "[(''case_role'', VStr role), (''material_decision_state_signature'', VStr signature)]"
        note d = d[unfolded stance pyv.sel option.sel signature bindE_Inr]
        have here: "eligible_card env prices existing kv e r x \<longleftrightarrow> e = entry \<and> r = role \<and> x = signature
            \<and> price_retained (oget prices (fst kv)) \<and> (VStr (fst kv), VStr role, VStr signature) \<notin> set existing" for e r x
          using entry stance signature by (auto simp: eligible_card_def)
        show thesis
        proof (cases "price_retained (oget prices (fst kv))")
          case unpriced: False
          then have "d = refused (fst kv) ''MALFORMED_CASE'' ''T0_CLOSE_PRICE_BASIS_NOT_RETAINED'' @ ?state"
            using d m unpriced by (auto simp: bindE_eq_Inr member_of_eq)
          then show thesis by (rule refused) (use unpriced here in auto)
        next
          case priced: True
          show thesis
          proof (cases "(VStr (fst kv), VStr role, VStr signature) \<in> set existing")
            case old: True
            then have "d = [(''ticker'', VStr (fst kv)), (''admission_status'', VStr ''CASE_ALREADY_ACTIVE'')] @ ?state"
              using d m priced old by (auto simp: bindE_eq_Inr member_of_eq)
            then show thesis by (rule active) (use old here in auto)
          next
            case fresh: False
            then obtain c where "policy_case env entry session time identity (the_dict (oget prices (fst kv))) role signature = Inr c"
              "d = admission_of env session time identity (fst kv) role signature c"
              using d m priced fresh by (auto simp: bindE_eq_Inr member_of_eq)
            then show thesis by (rule new[rotated]) (use fresh priced here in auto)
          qed
        qed
      qed
    qed
  qed
qed

definition decision_states :: "string list" where
  "decision_states = [''ADMITTED'', ''CASE_ALREADY_ACTIVE'', ''INSUFFICIENT_EVIDENCE_NOT_ADMITTED'', ''MALFORMED_CASE'']"

lemma refused_states:
  "status \<in> {''INSUFFICIENT_EVIDENCE_NOT_ADMITTED'', ''MALFORMED_CASE''} \<Longrightarrow> status \<noteq> ''ADMITTED'' \<and> status \<in> set decision_states"
  by (auto simp: decision_states_def)

lemma decided:
  assumes "decide_card env session time identity prices existing kv = Inr d"
  shows "oget d ''ticker'' = VStr (fst kv) \<and> (\<exists>status\<in>set decision_states. oget d ''admission_status'' = VStr status)"
    "admitted (VDict d) \<longleftrightarrow> (\<exists>entry role signature. eligible_card env prices existing kv entry role signature)"
    "admitted (VDict d) \<Longrightarrow> \<exists>entry role signature c. eligible_card env prices existing kv entry role signature
       \<and> policy_case env entry session time identity (the_dict (oget prices (fst kv))) role signature = Inr c
       \<and> d = admission_of env session time identity (fst kv) role signature c"
proof -
  have in_states: "''ADMITTED'' \<in> set decision_states" "''CASE_ALREADY_ACTIVE'' \<in> set decision_states"
    by (simp_all add: decision_states_def)
  have "oget d ''ticker'' = VStr (fst kv) \<and> (\<exists>status\<in>set decision_states. oget d ''admission_status'' = VStr status)
    \<and> (admitted (VDict d) \<longleftrightarrow> (\<exists>entry role signature. eligible_card env prices existing kv entry role signature))
    \<and> (admitted (VDict d) \<longrightarrow> (\<exists>entry role signature c. eligible_card env prices existing kv entry role signature
       \<and> policy_case env entry session time identity (the_dict (oget prices (fst kv))) role signature = Inr c
       \<and> d = admission_of env session time identity (fst kv) role signature c))"
    using assms
  proof (cases rule: decide_cases)
    case (refused status reason state)
    have fields: "oget d ''ticker'' = VStr (fst kv)" "oget d ''admission_status'' = VStr status"
      by (simp_all only: refused(1) refused_fields)
    then have "\<not> admitted (VDict d)" using refused_states[OF refused(2)] by (simp add: admitted_def)
    then show ?thesis using fields refused_states[OF refused(2)] refused(3) by blast
  next
    case (active state)
    then show ?thesis using in_states by (simp add: admitted_def)
  next
    case (new entry role signature c)
    then have fields: "oget d ''ticker'' = VStr (fst kv)" "oget d ''admission_status'' = VStr ''ADMITTED''"
      by (simp_all only: admission_fields)
    have "admitted (VDict d)" using fields by (simp add: admitted_def)
    then show ?thesis using fields in_states new by blast
  qed
  then show "oget d ''ticker'' = VStr (fst kv) \<and> (\<exists>status\<in>set decision_states. oget d ''admission_status'' = VStr status)"
    "admitted (VDict d) \<longleftrightarrow> (\<exists>entry role signature. eligible_card env prices existing kv entry role signature)"
    "admitted (VDict d) \<Longrightarrow> \<exists>entry role signature c. eligible_card env prices existing kv entry role signature
       \<and> policy_case env entry session time identity (the_dict (oget prices (fst kv))) role signature = Inr c
       \<and> d = admission_of env session time identity (fst kv) role signature c" by blast+
qed

lemma applied:
  assumes "apply_admission_policy env workspace session prices time files = Inr artifact"
  shows "\<exists>identity cards existing ds coverage. oget workspace ''artifact_identity'' = VStr identity
    \<and> oget workspace ''cards'' = VDict cards \<and> cards \<noteq> [] \<and> oget workspace ''as_of_session'' = VStr session
    \<and> active_signatures env files = Inr existing
    \<and> mapE (decide_card env session time identity prices existing) (sort_key fst cards) = Inr ds
    \<and> coverage_of env cards ds = Inr coverage \<and> oget artifact ''coverage'' = VDict coverage
    \<and> decisions_of artifact = map VDict ds"
proof -
  let ?c = "oget workspace ''cards''" and ?i = "the_str (oget workspace ''artifact_identity'')"
  from assms obtain existing ds coverage where a:
    "oget workspace ''as_of_session'' = VStr session" "is_str (oget workspace ''artifact_identity'')" "is_dict ?c" "the_dict ?c \<noteq> []"
    "active_signatures env files = Inr existing"
    "mapE (decide_card env session time ?i prices existing) (sort_key fst (the_dict ?c)) = Inr ds"
    "coverage_of env (the_dict ?c) ds = Inr coverage" "artifact = admission_artifact env session ?i ds coverage"
    unfolding apply_admission_policy_def Let_def if_raise_eq_Inr bindE_eq_Inr by blast
  obtain identity cards where "oget workspace ''artifact_identity'' = VStr identity" "?c = VDict cards"
    using a(2,3) by (auto elim!: is_str.elims is_dict.elims)
  moreover have "oget artifact ''coverage'' = VDict coverage" "decisions_of artifact = map VDict ds"
    by (simp_all add: a(8) admission_artifact_def identify_def decisions_of_def)
  ultimately show ?thesis using a by auto
qed

section \<open>Every card is decided\<close>

lemma map_sort_key: "map f (sort_key f xs) = sort (map f xs)"
  by (rule properties_for_sort[symmetric]) simp_all

lemma tally_names_total:
  assumes "tally_names xs = Inr v"
  shows "\<exists>t. v = VDict t \<and> sum_list (map (\<lambda>kv. the_int (snd kv)) t) = int (length xs)"
proof -
  let ?ys = "map the_str xs"
  let ?t = "map (\<lambda>k. (k, VInt (int (count_list ?ys k)))) (sorted_set ?ys)"
  have v: "v = VDict ?t" using assms by (auto simp: tally_names_def split: if_splits)
  have "sum_list (map (\<lambda>kv. the_int (snd kv)) ?t) = sum_list (map (\<lambda>k. int (count_list ?ys k)) (sorted_set ?ys))"
    by (simp add: comp_def)
  also have "\<dots> = (\<Sum>k\<in>set ?ys. int (count_list ?ys k))"
    by (subst sum_list_distinct_conv_sum_set) simp_all
  also have "\<dots> = int (length ?ys)" using sum_count_set[of ?ys "set ?ys"] by (simp flip: of_nat_sum)
  finally show ?thesis using v by simp
qed

lemma mapE_list_all2: "mapE f xs = Inr ys \<Longrightarrow> list_all2 (\<lambda>x y. f x = Inr y) xs ys"
  by (induction xs arbitrary: ys) (auto simp: res_simps)

text \<open>
  C16. The policy decides every card once, in the order of the tickers: it admits exactly the well-formed
  cards that carry a thesis, have a retained price and whose material state has no active case in the
  store, and the statuses it counts add up to the number of cards.
\<close>

theorem every_card_decided:
  assumes "apply_admission_policy env workspace session prices time files = Inr artifact"
  shows "\<exists>cards existing coverage counts. oget workspace ''cards'' = VDict cards \<and> active_signatures env files = Inr existing
    \<and> list_all2 (\<lambda>kv d. oget (the_dict d) ''ticker'' = VStr (fst kv)
          \<and> (\<exists>status\<in>set decision_states. oget (the_dict d) ''admission_status'' = VStr status)
          \<and> (admitted d \<longleftrightarrow> (\<exists>entry role signature. eligible_card env prices existing kv entry role signature)))
        (sort_key fst cards) (decisions_of artifact)
    \<and> oget artifact ''coverage'' = VDict coverage \<and> oget coverage ''admission_status'' = VDict counts
    \<and> sum_list (map (\<lambda>kv. the_int (snd kv)) counts) = int (length cards)"
proof -
  from applied[OF assms] obtain identity cards existing ds coverage where a: "oget workspace ''cards'' = VDict cards"
    "active_signatures env files = Inr existing"
    "mapE (decide_card env session time identity prices existing) (sort_key fst cards) = Inr ds"
    "coverage_of env cards ds = Inr coverage" "oget artifact ''coverage'' = VDict coverage" "decisions_of artifact = map VDict ds"
    by blast
  from a(4) obtain statuses where statuses: "tally_names (map (\<lambda>d. oget d ''admission_status'') ds) = Inr statuses"
    "oget coverage ''admission_status'' = statuses"
    unfolding coverage_of_def bindE_eq_Inr by auto
  from tally_names_total[OF statuses(1)] obtain counts where "statuses = VDict counts"
    "sum_list (map (\<lambda>kv. the_int (snd kv)) counts) = int (length ds)" by auto
  moreover have "length ds = length cards" using mapE_Inr_length[OF a(3)] by simp
  moreover have "list_all2 (\<lambda>kv d. oget (the_dict d) ''ticker'' = VStr (fst kv)
          \<and> (\<exists>status\<in>set decision_states. oget (the_dict d) ''admission_status'' = VStr status)
          \<and> (admitted d \<longleftrightarrow> (\<exists>entry role signature. eligible_card env prices existing kv entry role signature)))
        (sort_key fst cards) (map VDict ds)"
    unfolding list.rel_map using mapE_list_all2[OF a(3)]
    by (rule list_all2_mono) (use decided(1,2) in \<open>auto simp only: pyv.sel\<close>)
  ultimately show ?thesis using a statuses(2) by auto
qed

section \<open>A malformed card\<close>

text \<open>
  C18. A card that is no mapping is refused as malformed by the loop, but the distribution of stances reads
  an attribute of every card afterwards: the policy raises, and no card of the workspace is admitted.
\<close>

theorem malformed_card_aborts:
  assumes "oget workspace ''cards'' = VDict cards" "(ticker, v) \<in> set cards" "\<not> is_dict v"
  shows "decide_card env session time identity prices existing (ticker, v)
      = Inr (refused ticker ''MALFORMED_CASE'' ''DECISION_RECORD_MALFORMED'')
    \<and> \<not> is_ok (apply_admission_policy env workspace session prices time files)"
proof -
  have "\<not> is_ok (apply_admission_policy env workspace session prices time files)"
  proof
    assume "is_ok (apply_admission_policy env workspace session prices time files)"
    then obtain artifact where "apply_admission_policy env workspace session prices time files = Inr artifact" by (rule is_okE)
    from applied[OF this] obtain ds coverage where "coverage_of env cards ds = Inr coverage" using assms(1) by auto
    then obtain stances where "mapE (\<lambda>kv. bindE (attr_get (snd kv) ''research_stance'') (\<lambda>v. Inr (VStr (to_text env v)))) cards = Inr stances"
      unfolding coverage_of_def bindE_eq_Inr by blast
    then have "is_ok (bindE (attr_get v ''research_stance'') (\<lambda>v. Inr (VStr (to_text env v))))"
      using assms(2) unfolding mapE_Inr_iff by force
    then show False using assms(3) by (cases v) (simp_all add: attr_get_def raise_def)
  qed
  then show ?thesis using assms(3) by (simp add: decide_card_def)
qed

section \<open>The material state\<close>

definition material_fields :: "string list" where
  "material_fields = [''research_stance'', ''research_stance_readiness'', ''entry_state'', ''entry_action'', ''setup_tags'',
     ''confirmation'', ''invalidation'', ''valuation'', ''fundamental'', ''liquidity'']"

lemma semantic_oset:
  assumes "k \<notin> set material_fields"
  shows "semantic (oset entry k v) role = semantic entry role"
proof -
  have same: "oget (oset entry k v) f = oget entry f" if "f \<in> set material_fields" for f
    using assms that by (metis oget_oset)
  have named: "''research_stance'' \<in> set material_fields" "''research_stance_readiness'' \<in> set material_fields"
    "''entry_state'' \<in> set material_fields" "''entry_action'' \<in> set material_fields" "''setup_tags'' \<in> set material_fields"
    "''confirmation'' \<in> set material_fields" "''invalidation'' \<in> set material_fields" "''valuation'' \<in> set material_fields"
    "''fundamental'' \<in> set material_fields" "''liquidity'' \<in> set material_fields"
    by (simp_all add: material_fields_def)
  show ?thesis unfolding semantic_def or_empty_def by (simp only: named[THEN same])
qed

lemma semantic_Inr:
  assumes "semantic entry role = Inr m"
  shows "oget m ''case_role'' = VStr role" "oget m ''research_stance'' = oget entry ''research_stance''"
    "oget m ''entry_state'' = oget entry ''entry_state''" "oget m ''entry_action'' = oget entry ''entry_action''"
proof -
  from assms obtain a b c d e f g where m: "m = [(''case_role'', VStr role), (''research_stance'', oget entry ''research_stance''),
      (''research_stance_readiness'', oget entry ''research_stance_readiness''), (''entry_state'', oget entry ''entry_state''),
      (''entry_action'', oget entry ''entry_action''), (''setup_tags'', a), (''confirmation'', b), (''technical_invalidation'', c),
      (''fundamental_invalidation_status'', d), (''valuation'', e), (''fundamental'', f), (''liquidity'', g)]"
    unfolding semantic_def Let_def bindE_eq_Inr sum.inject by blast
  show "oget m ''case_role'' = VStr role" "oget m ''research_stance'' = oget entry ''research_stance''"
    "oget m ''entry_state'' = oget entry ''entry_state''" "oget m ''entry_action'' = oget entry ''entry_action''"
    by (simp_all add: m)
qed

text \<open>
  C17. The signature is the material state: changing any other field of a card, its texts, lineage, sector or
  catalyst, leaves it as it is, while cards of one signature have one role and agree in stance, entry state
  and entry action (up to the order of keys).  The hash has no collisions.
\<close>

theorem signature_is_material:
  assumes "inj (te_sha env)" "float_text (te_float env)" "material_decision_state_signature env entry role = Inr signature"
  shows "(\<forall>k v. k \<notin> set material_fields \<longrightarrow> material_decision_state_signature env (oset entry k v) role = Inr signature)
    \<and> (\<forall>other role'. material_decision_state_signature env other role' = Inr signature \<longrightarrow>
         role' = role \<and> (\<forall>k\<in>{''research_stance'', ''entry_state'', ''entry_action''}.
           sort_keys (oget other k) = sort_keys (oget entry k)))"
proof (intro conjI allI impI)
  show "material_decision_state_signature env (oset entry k v) role = Inr signature" if "k \<notin> set material_fields" for k v
    using assms(3) semantic_oset[OF that] by (simp add: material_decision_state_signature_def)
next
  fix other role'
  assume "material_decision_state_signature env other role' = Inr signature"
  then obtain m m' where m: "semantic entry role = Inr m" "semantic other role' = Inr m'"
    and "content_hash env m = content_hash env m'"
    using assms(3) by (auto simp: material_decision_state_signature_def bindE_eq_Inr)
  then have "json_dumps (te_float env) (VDict m) = json_dumps (te_float env) (VDict m')"
    using injD[OF assms(1)] by (auto simp: content_hash_def canonical_def)
  then have same: "sort_keys (oget m k) = sort_keys (oget m' k)" for k
    using json_dumps_inject[OF assms(2)] by (metis oget_sort_keys)
  note fields = semantic_Inr[OF m(1)] semantic_Inr[OF m(2)]
  show "role' = role" using same[of "''case_role''"] fields by simp
  show "\<forall>k\<in>{''research_stance'', ''entry_state'', ''entry_action''}. sort_keys (oget other k) = sort_keys (oget entry k)"
    using same[of "''research_stance''"] same[of "''entry_state''"] same[of "''entry_action''"] fields by simp
qed

section \<open>What the store makes of an admitted case\<close>

lemma t0_state_Inr:
  assumes "t0_state env entry session identity price = Inr t0"
  shows "oget (t0 @ [(''case_role'', r), (''material_decision_state_signature'', x)]) ''case_role'' = r"
    "oget (t0 @ [(''case_role'', r), (''material_decision_state_signature'', x)]) ''material_decision_state_signature'' = x"
    "oget (t0 @ [(''case_role'', r), (''material_decision_state_signature'', x)]) ''close'' = VDict price"
proof -
  from assms obtain a b c d e f g h i where t0: "t0 = [(''completed_session'', VStr session), (''close'', VDict price),
      (''research_stance'', oget entry ''research_stance''), (''entry_state'', oget entry ''entry_state''),
      (''entry_action'', oget entry ''entry_action''), (''setup_tags'', VList a), (''fundamental_state'', VDict b),
      (''valuation_state'', VDict c), (''confirmation_boundary'', d), (''invalidation_boundary'', e),
      (''market_sector_context'', VDict f), (''catalyst_context'', VDict g), (''liquidity_research_state'', VDict h),
      (''lineage'', VDict i), (''workspace_projection_identity'', VStr identity)]"
    unfolding t0_state_def bindE_eq_Inr sum.inject by blast
  show "oget (t0 @ [(''case_role'', r), (''material_decision_state_signature'', x)]) ''case_role'' = r"
    "oget (t0 @ [(''case_role'', r), (''material_decision_state_signature'', x)]) ''material_decision_state_signature'' = x"
    "oget (t0 @ [(''case_role'', r), (''material_decision_state_signature'', x)]) ''close'' = VDict price"
    by (simp_all add: t0)
qed

definition policy_t0 :: "obj \<Rightarrow> obj \<Rightarrow> string \<Rightarrow> string \<Rightarrow> bool" where
  \<comment> \<open>what the state at the time of admission says of price, role and material state\<close>
  "policy_t0 t0 price role signature \<longleftrightarrow> oget t0 ''close'' = VDict price \<and> oget t0 ''case_role'' = VStr role
     \<and> oget t0 ''material_decision_state_signature'' = VStr signature"

lemma policy_case_Inr:
  assumes "policy_case env entry session time identity price role signature = Inr c"
  shows "case_identity env c" "\<exists>i. oget c ''case_id'' = VStr i" "oitem c ''known_at'' = Inr (VStr time)"
    "oitem c ''as_of'' = Inr (VStr session)" "oitem c ''lifecycle_state'' = Inr (VStr ''OPEN'')"
    "\<exists>p. oitem c ''ai_human_provenance'' = Inr (VDict p)" "oitem c ''original_claims'' = Inr (VList [])"
    "oitem c ''ticker'' = oitem entry ''ticker''"
    "\<exists>t0. oitem c ''outcome_measurement_t0'' = Inr (VDict t0) \<and> policy_t0 t0 price role signature"
proof -
  from assms obtain t0 ticker catalyst where t0: "t0_state env entry session identity price = Inr t0"
    and ticker: "oitem entry ''ticker'' = Inr ticker"
    and c: "c = identify_case env (policy_case_body session time identity ticker catalyst
      (t0 @ [(''case_role'', VStr role), (''material_decision_state_signature'', VStr signature)]))" (is "_ = identify_case env ?b")
    unfolding policy_case_def bindE_eq_Inr by auto
  show "case_identity env c" unfolding c by (rule identify_case_ok) (simp_all add: policy_case_body_def)
  then show "\<exists>i. oget c ''case_id'' = VStr i" by (auto simp: case_identity_def)
  show "oitem c ''known_at'' = Inr (VStr time)" unfolding c by (rule identified_item) (simp add: policy_case_body_def oitem_def)
  show "oitem c ''as_of'' = Inr (VStr session)" unfolding c by (rule identified_item) (simp add: policy_case_body_def oitem_def)
  show "oitem c ''lifecycle_state'' = Inr (VStr ''OPEN'')" unfolding c by (rule identified_item) (simp add: policy_case_body_def oitem_def)
  show "oitem c ''original_claims'' = Inr (VList [])" unfolding c by (rule identified_item) (simp add: policy_case_body_def oitem_def)
  show "oitem c ''ticker'' = oitem entry ''ticker''"
    unfolding c ticker by (rule identified_item) (simp add: policy_case_body_def oitem_def)
  have "\<exists>p. oitem ?b ''ai_human_provenance'' = Inr (VDict p)" by (simp add: policy_case_body_def oitem_def)
  then show "\<exists>p. oitem c ''ai_human_provenance'' = Inr (VDict p)" unfolding c using identified_item by blast
  have "oitem ?b ''outcome_measurement_t0'' = Inr (VDict (t0 @ [(''case_role'', VStr role), (''material_decision_state_signature'', VStr signature)]))"
    by (simp add: policy_case_body_def oitem_def)
  then show "\<exists>t0. oitem c ''outcome_measurement_t0'' = Inr (VDict t0) \<and> policy_t0 t0 price role signature"
    unfolding c policy_t0_def using identified_item t0_state_Inr[OF t0] by blast
qed

text \<open>The facts of one admitted decision, and of the case that is in it.\<close>

definition decision_case :: "text_env \<Rightarrow> obj \<Rightarrow> string \<Rightarrow> string \<Rightarrow> pyv \<Rightarrow> obj \<Rightarrow> string \<Rightarrow> bool" where
  \<comment> \<open>the case an admitted decision carries, for the price the evidence has of its ticker\<close>
  "decision_case env prices session time d c i \<longleftrightarrow>
     is_dict d \<and> oget (the_dict d) ''case'' = VDict c \<and> oget (the_dict d) ''case_id'' = VStr i
     \<and> oget (the_dict d) ''admission_identity'' = VStr (''prospective_case_admission:'' @ content_hash env (admission_body (the_dict d)))
     \<and> case_identity env c \<and> oget c ''case_id'' = VStr i \<and> oitem c ''known_at'' = Inr (VStr time)
     \<and> oitem c ''as_of'' = Inr (VStr session) \<and> oitem c ''lifecycle_state'' = Inr (VStr ''OPEN'')
     \<and> (\<exists>p. oitem c ''ai_human_provenance'' = Inr (VDict p)) \<and> oitem c ''original_claims'' = Inr (VList [])
     \<and> (\<exists>ticker role signature t0. oget (the_dict d) ''ticker'' = VStr ticker \<and> oitem c ''ticker'' = Inr (VStr ticker)
          \<and> oget (the_dict d) ''case_role'' = VStr role \<and> oget (the_dict d) ''material_decision_state_signature'' = VStr signature
          \<and> role \<noteq> [] \<and> signature \<noteq> []
          \<and> price_retained (oget prices ticker) \<and> oitem c ''outcome_measurement_t0'' = Inr (VDict t0)
          \<and> policy_t0 t0 (the_dict (oget prices ticker)) role signature)"

lemma role_nonempty: "map_of role_by_stance stance = Some role \<Longrightarrow> role \<noteq> []"
  by (auto simp: role_by_stance_def split: if_splits)

lemma admitted_decision:
  assumes "apply_admission_policy env workspace session prices time files = Inr artifact"
    and "d \<in> set (decisions_of artifact)" "admitted d"
  shows "\<exists>c i. decision_case env prices session time d c i"
proof -
  from applied[OF assms(1)] obtain identity cards existing ds where
    ds: "mapE (decide_card env session time identity prices existing) (sort_key fst cards) = Inr ds"
    "decisions_of artifact = map VDict ds" by blast
  with assms(2) obtain dd where dd: "d = VDict dd" "dd \<in> set ds" by auto
  from mapE_Inr_set[OF ds(1) dd(2)] obtain kv where kv: "decide_card env session time identity prices existing kv = Inr dd" by blast
  from decided(3)[OF this] assms(3) dd(1) obtain entry role signature c where
    e: "eligible_card env prices existing kv entry role signature"
    and c: "policy_case env entry session time identity (the_dict (oget prices (fst kv))) role signature = Inr c"
    and d: "dd = admission_of env session time identity (fst kv) role signature c" by blast
  note p = policy_case_Inr[OF c]
  from p(2) obtain i where i: "oget c ''case_id'' = VStr i" by blast
  have "role \<noteq> []" using e role_nonempty by (auto simp: eligible_card_def)
  moreover have "signature \<noteq> []" using e by (auto simp: eligible_card_def material_decision_state_signature_def bindE_eq_Inr)
  moreover have "oitem entry ''ticker'' = Inr (VStr (fst kv))"
    using e by (auto simp: eligible_card_def oitem_def oget_def split: option.splits)
  moreover have "price_retained (oget prices (fst kv))" using e by (simp add: eligible_card_def)
  ultimately have "decision_case env prices session time d c i"
    unfolding decision_case_def dd(1) pyv.sel d admission_fields admission_identified
    using p i by auto
  then show ?thesis by blast
qed

section \<open>Adding cases to a store\<close>

definition case_files :: "text_env \<Rightarrow> store \<Rightarrow> bool" where
  "case_files env a \<longleftrightarrow> (\<forall>(p, f)\<in>set a. \<exists>i. p = stored_case_path env i)"

definition no_stray_events :: "text_env \<Rightarrow> store \<Rightarrow> bool" where
  \<comment> \<open>a case that is not in the store has no events there\<close>
  "no_stray_events env s \<longleftrightarrow> (\<forall>i. map_of s (stored_case_path env i) = None \<longrightarrow> appended_events env i s = Inr [])"

lemma case_files_append: "case_files env (a @ b) \<longleftrightarrow> case_files env a \<and> case_files env b"
  by (auto simp: case_files_def)

lemma appended_events_cases:
  assumes "case_files env a"
  shows "appended_events env i (s @ a) = appended_events env i s"
proof -
  have shape: "p ! 0 = ''cases''" if "(p, f) \<in> set a" for p f
    using assms that by (auto simp: case_files_def stored_case_path_def)
  have "filter (\<lambda>p. length p = 2 \<and> p ! 0 = ''events'' \<and> suffix ''.json'' (p ! 1)) (map fst a) = []"
    using shape by (auto simp: filter_empty_conv)
  then have files: "json_files ''events'' (s @ a) = json_files ''events'' s"
    unfolding json_files_def map_append filter_append by simp
  have "read_event env (s @ a) p = read_event env s p" if "p \<in> set (json_files ''events'' s)" for p
  proof -
    have "map_of a p = None" using that shape by (auto simp: json_files_def map_of_eq_None_iff)
    then have "map_of (s @ a) p = map_of s p" by (simp add: map_add_def split: option.splits)
    then show ?thesis by (simp add: read_event_def read_json_def)
  qed
  then have "mapE (read_event env (s @ a)) (json_files ''events'' s) = mapE (read_event env s) (json_files ''events'' s)"
    by (rule mapE_cong)
  then show ?thesis by (simp add: appended_events_eq files)
qed

lemma no_stray_events_cases: "no_stray_events env s \<Longrightarrow> case_files env a \<Longrightarrow> no_stray_events env (s @ a)"
  by (auto simp: no_stray_events_def appended_events_cases map_add_def split: option.splits)

lemma no_stray_events_empty: "no_stray_events env []"
  by (simp add: no_stray_events_def no_events_yet)

lemma no_stray_events_append:
  assumes "append_update env registered i u lifecycle s = (Inr h, t)" "no_stray_events env s"
  shows "no_stray_events env t"
  unfolding no_stray_events_def
proof (intro allI impI)
  fix j
  assume j: "map_of t (stored_case_path env j) = None"
  from append_update_Inr[OF assms(1)] obtain e where plan: "plan_update env registered i u lifecycle s = Inr (h, e)"
    and commit: "commit_event env e s = (Inr (), t)" by blast
  from plan_update_Inr[OF plan] obtain obsd known source prior payload fixture envelope where
    e: "make_event env (VStr i) ''CASE_UPDATE'' obsd known source (VList [VStr source]) prior payload fixture = Inr e"
    and load: "load_case_envelope env i s = Inr envelope" by blast
  note c = commit_event_Inr[OF commit make_event_Inr(5)[OF e]]
  have "map_of s (stored_case_path env j) = None" using j by (auto simp: c(3) map_add_def split: option.splits)
  moreover have "map_of s (stored_case_path env i) \<noteq> None"
    using load unfolding load_case_envelope_def Let_def if_raise_eq_Inr by blast
  ultimately have "appended_events env j s = Inr []" "j \<noteq> i" using assms(2) by (auto simp: no_stray_events_def)
  with appended_any[OF this(1) c(2) verify_stored_event[OF e]] show "appended_events env j t = Inr []"
    using make_event_Inr(1)[OF e] by (simp add: c(3) oget_stored)
qed

lemma replay_kept:
  assumes "case_files env a" "replay_case env i s = Inr r"
  shows "replay_case env i (s @ a) = Inr r"
proof -
  have "map_of s (stored_case_path env i) \<noteq> None"
  proof -
    obtain envelope where "load_case_envelope env i s = Inr envelope"
      using assms(2) unfolding replay_case_def bindE_eq_Inr by blast
    then show ?thesis unfolding load_case_envelope_def Let_def if_raise_eq_Inr by blast
  qed
  then have "load_case_envelope env i (s @ a) = load_case_envelope env i s"
    by (intro load_cong) (auto simp: map_add_def)
  then show ?thesis using assms(2) by (simp add: replay_case_def case_events_def appended_events_cases[OF assms(1)])
qed

definition gains_cases :: "text_env \<Rightarrow> store \<Rightarrow> store \<Rightarrow> bool" where
  \<comment> \<open>only case files are added\<close>
  "gains_cases env s t \<longleftrightarrow> (\<exists>a. case_files env a \<and> t = s @ a)"

lemma gains_nothing: "gains_cases env s s"
  unfolding gains_cases_def by (intro exI[of _ "[]"]) (simp add: case_files_def)

lemma gains_more:
  assumes "gains_cases env s t" "gains_cases env t u"
  shows "gains_cases env s u"
proof -
  obtain a b where "case_files env a" "t = s @ a" "case_files env b" "u = t @ b"
    using assms by (auto simp: gains_cases_def)
  then show ?thesis unfolding gains_cases_def by (intro exI[of _ "a @ b"]) (simp add: case_files_append)
qed

interpretation gaining: act_effect "gains_cases env" for env
  by unfold_locales (rule gains_nothing, rule gains_more)

lemma commit_case_gains: "act_keeps (gains_cases env) (commit_case env i body)"
  unfolding act_keeps_def
proof
  fix s :: store
  let ?p = "stored_case_path env (the_str i)"
  let ?f = "Json (sort_keys (VDict (body @ [(''content_identity'', VStr (envelope_prefix @ content_hash env body))])))"
  have absent: "filter (\<lambda>kv. fst kv \<noteq> lock_path) s = s" if "map_of s lock_path = None"
    using that by (force simp: filter_id_conv map_of_eq_None_iff)
  have "snd (commit_case env i body s) = s \<or> snd (commit_case env i body s) = s @ [(?p, ?f)]"
  proof (cases "map_of s lock_path = None")
    case True
    then show ?thesis using absent
      by (cases "map_of s ?p")
        (simp_all add: commit_case_def Let_def act_bind_def writer_def write_new_json_def reading_def raise_def map_add_def del: sort_keys.simps)
  next
    case False
    then show ?thesis by (simp add: commit_case_def Let_def act_bind_def writer_def raise_def del: sort_keys.simps)
  qed
  then show "gains_cases env s (snd (commit_case env i body s))"
    using gains_nothing by (auto simp: gains_cases_def case_files_def simp del: sort_keys.simps intro: exI[of _ "[(?p, ?f)]"])
qed

lemma persist_admitted_gains: "act_keeps (gains_cases env) (persist_policy_admitted_case env c admission)"
  unfolding persist_policy_admitted_case_def Let_def
  by (intro gaining.cases gaining.bind gaining.no_effect commit_case_gains) (simp_all add: lift_res_def)

lemma retain_decision_gains: "act_keeps (gains_cases env) (retain_decision env d)"
  unfolding retain_decision_def
  by (intro gaining.bind persist_admitted_gains gaining.no_effect) (simp_all add: lift_res_def)

section \<open>The store accepts what the policy admits\<close>

lemma persisted_replays:
  assumes d: "decision_case env prices session time d c i" and s: "no_stray_events env s"
    and persisted: "persist_policy_admitted_case env c (the_dict d) s = (Inr envelope, t)"
  shows "\<exists>r. replay_case env i t = Inr r \<and> rp_case r = stored_form c \<and> rp_lifecycle r = VStr ''OPEN''"
proof -
  from d obtain p where fields: "oitem c ''lifecycle_state'' = Inr (VStr ''OPEN'')" "oitem c ''ai_human_provenance'' = Inr (VDict p)"
    "oitem c ''original_claims'' = Inr (VList [])" "oget c ''case_id'' = VStr i"
    by (auto simp: decision_case_def)
  from admitted_event[OF persisted] obtain admitted e where
    "commit_case env (VStr i) (admitted_envelope c admitted e) s = (Inr envelope, t)" by (auto simp: fields(4))
  from commit_case_Inr(2)[OF this] s have "appended_events env i s = Inr []" by (simp add: no_stray_events_def)
  from replay_admitted[OF fields(1-3) _ fields(4) this persisted] fields(1) show ?thesis
    by (auto simp: oitem_oget)
qed

text \<open>
  C15. The policy and the store agree: with a valid time of admission, every decision it admits carries a
  case that the store accepts, wherever it has neither the case nor stray events of it nor a writer, and
  that then replays to itself, open, with the admitted state and the retained price it was admitted for.
\<close>

theorem admission_accepted_by_store:
  assumes "apply_admission_policy env workspace session prices time files = Inr artifact"
    and "d \<in> set (decisions_of artifact)" "admitted d" "is_ok (parse_time (VStr time))"
    and "no_stray_events env s" "map_of s lock_path = None" "oget (the_dict d) ''case_id'' = VStr i"
    and "map_of s (stored_case_path env i) = None"
  shows "\<exists>c envelope t r t0 ticker role signature. oget (the_dict d) ''case'' = VDict c
    \<and> persist_policy_admitted_case env c (the_dict d) s = (Inr envelope, t)
    \<and> replay_case env i t = Inr r \<and> rp_case r = stored_form c \<and> rp_lifecycle r = VStr ''OPEN''
    \<and> oget c ''known_at'' = VStr time \<and> oget c ''as_of'' = VStr session \<and> oget workspace ''as_of_session'' = VStr session
    \<and> oget (the_dict d) ''ticker'' = VStr ticker \<and> oget (the_dict d) ''case_role'' = VStr role
    \<and> oget (the_dict d) ''material_decision_state_signature'' = VStr signature
    \<and> oget c ''outcome_measurement_t0'' = VDict t0 \<and> policy_t0 t0 (the_dict (oget prices ticker)) role signature
    \<and> price_retained (oget prices ticker)"
proof -
  from admitted_decision[OF assms(1-3)] obtain c j where dc: "decision_case env prices session time d c j" by blast
  then have j: "j = i" using assms(7) by (simp add: decision_case_def)
  note dc = dc[unfolded j]
  have "check_timestamp (VStr time) = Inr ()" using assms(4) by (auto simp: check_timestamp_def elim!: is_okE)
  then obtain envelope t where persisted: "persist_policy_admitted_case env c (the_dict d) s = (Inr envelope, t)"
    using persist_admitted_ok[OF assms(6,8), of c time "the_dict d"] dc assms(3)
    by (auto simp: decision_case_def admitted_def oitem_oget)
  have "oget workspace ''as_of_session'' = VStr session" using applied[OF assms(1)] by blast
  with persisted_replays[OF dc assms(5) persisted] persisted dc show ?thesis
    unfolding decision_case_def using oitem_oget by meson
qed

section \<open>A retained case is not admitted again\<close>

lemma retain_decision_Inr:
  assumes "retain_decision env d s = (Inr row, t)"
  shows "\<exists>c envelope. oget d ''case'' = VDict c \<and> persist_policy_admitted_case env c d s = (Inr envelope, t)
    \<and> oget (the_dict row) ''case_id'' = oget d ''case_id''"
proof -
  from assms obtain c envelope where c: "oitem d ''case'' = Inr (VDict c)"
    "persist_policy_admitted_case env c d s = (Inr envelope, t)" "retained_row d envelope = Inr row"
    unfolding retain_decision_def by (auto simp: act_bind_eq_Inr lift_res_def bindE_eq_Inr elim!: is_dict.elims)
  from c(3) obtain ticker i e where "oitem d ''case_id'' = Inr i"
    "row = VDict [(''ticker'', ticker), (''case_id'', i), (''store_envelope_identity'', e)]"
    unfolding retained_row_def by (auto simp: bindE_eq_Inr)
  then have "oget (the_dict row) ''case_id'' = oget d ''case_id''" by (simp add: oitem_oget)
  with c oitem_oget[OF c(1)] show ?thesis by blast
qed

definition row_retained :: "text_env \<Rightarrow> pyv list \<Rightarrow> store \<Rightarrow> store \<Rightarrow> pyv \<Rightarrow> bool" where
  \<comment> \<open>the row reports the retention of one of the decisions, somewhere between the two stores\<close>
  "row_retained env ds s t row \<longleftrightarrow> (\<exists>d\<in>set ds. \<exists>u v. admitted d \<and> gains_cases env s u
     \<and> retain_decision env (the_dict d) u = (Inr row, v) \<and> gains_cases env v t)"

lemma row_retained_later: "gains_cases env s u \<Longrightarrow> row_retained env ds u t row \<Longrightarrow> row_retained env (d # ds) s t row"
  unfolding row_retained_def using gains_more by (meson list.set_intros(2))

lemma retain_decisions_rows:
  assumes "retain_decisions env say ds retained errors s = (Inr (retained', errors'), t)"
  shows "gains_cases env s t \<and> (\<exists>rows. retained' = retained @ rows \<and> (\<forall>row\<in>set rows. row_retained env ds s t row))"
  using assms
proof (induction ds arbitrary: retained errors s)
  case Nil
  then show ?case using gains_nothing by simp
next
  case (Cons d ds)
  from Cons.prems obtain status where status: "attr_get d ''admission_status'' = Inr status"
    by (auto simp: act_bind_eq_Inr lift_res_def)
  then have a: "admitted d \<longleftrightarrow> status = VStr ''ADMITTED''" by (auto simp: attr_get_def admitted_def split: pyv.splits)
  obtain r u where r: "retain_decision env (the_dict d) s = (r, u)" by fastforce
  have u: "gains_cases env s u" using retain_decision_gains[of env "the_dict d"] r by (metis act_keeps_def snd_conv)
  show ?case
  proof (cases "admitted d")
    case False
    then have "retain_decisions env say ds retained errors s = (Inr (retained', errors'), t)"
      using Cons.prems status a by (simp add: act_bind_def lift_res_def)
    from Cons.IH[OF this] show ?thesis using row_retained_later[OF gains_nothing] by auto
  next
    case admitted: True
    show ?thesis
    proof (cases r)
      case (Inl e)
      then obtain errors'' where "retain_decisions env say ds retained errors'' u = (Inr (retained', errors'), t)"
        using Cons.prems status a admitted r by (simp add: act_bind_def lift_res_def)
      from Cons.IH[OF this] show ?thesis using gains_more[OF u] row_retained_later[OF u] by auto
    next
      case (Inr row)
      then have "retain_decisions env say ds (retained @ [row]) errors u = (Inr (retained', errors'), t)"
        using Cons.prems status a admitted r by (simp add: act_bind_def lift_res_def)
      from Cons.IH[OF this] obtain rows where rows: "gains_cases env u t" "retained' = retained @ row # rows"
        "\<forall>row\<in>set rows. row_retained env ds u t row" by auto
      have "row_retained env (d # ds) s t row"
        using admitted gains_nothing r Inr rows(1) unfolding row_retained_def by (auto intro!: bexI[of _ d])
      then have "\<forall>x\<in>set (row # rows). row_retained env (d # ds) s t x" using rows(3) row_retained_later[OF u] by auto
      moreover have "gains_cases env s t" using u rows(1) by (rule gains_more)
      ultimately show ?thesis using rows(2) by blast
    qed
  qed
qed

lemma case_listed:
  assumes "load_case_envelope env i s = Inr envelope" "list_case_ids env s = Inr ids"
  shows "i \<in> set ids"
proof -
  let ?p = "stored_case_path env i"
  let ?f = "\<lambda>p. bindE (read_json p s) (\<lambda>d. bindE (attr_get (oget_default d ''case'' (VDict [])) ''case_id'') (\<lambda>raw.
                if is_str raw then bindE (load_case_envelope env (the_str raw) s) (\<lambda>_. Inr raw) else Inr raw))"
  have present: "map_of s ?p \<noteq> None" and read: "read_json ?p s = Inr envelope"
    and named: "attr_get (oget_default envelope ''case'' (VDict [])) ''case_id'' = Inr (VStr i)"
    using assms(1) unfolding load_case_envelope_def Let_def if_raise_eq_Inr bindE_eq_Inr by auto
  have "suffix ''.json'' (te_sha env i @ ''.json'')" by (rule suffixI) (rule HOL.refl)
  then have "?p \<in> set (json_files ''cases'' s)"
    using present by (auto simp: json_files_def stored_case_path_def map_of_eq_None_iff)
  moreover obtain raws where raws: "mapE ?f (json_files ''cases'' s) = Inr raws" "ids = sort (map the_str raws)"
    using assms(2) unfolding list_case_ids_def by (auto simp: bindE_eq_Inr)
  moreover have "?f ?p = Inr (VStr i)" using read named assms(1) by simp
  ultimately have "VStr i \<in> set raws" unfolding mapE_Inr_iff by force
  then show ?thesis using raws(2) by force
qed

lemma active_of_replay:
  assumes d: "decision_case env prices session time d c i"
    and r: "replay_case env i s = Inr r" "rp_case r = stored_form c" "rp_lifecycle r = VStr ''OPEN''"
  shows "active_signature env s i = Inr (Some (oget (the_dict d) ''ticker'', oget (the_dict d) ''case_role'',
    oget (the_dict d) ''material_decision_state_signature''))"
proof -
  from d obtain ticker role signature t0 where f: "oget (the_dict d) ''ticker'' = VStr ticker" "oitem c ''ticker'' = Inr (VStr ticker)"
    "oget (the_dict d) ''case_role'' = VStr role" "oget (the_dict d) ''material_decision_state_signature'' = VStr signature"
    "role \<noteq> []" "signature \<noteq> []" "oitem c ''outcome_measurement_t0'' = Inr (VDict t0)"
    "oget t0 ''case_role'' = VStr role" "oget t0 ''material_decision_state_signature'' = VStr signature"
    unfolding decision_case_def policy_t0_def by blast
  have t0: "oget (stored_form c) ''outcome_measurement_t0'' = VDict (stored_form t0)"
    using oitem_oget[OF f(7)] by (simp add: oget_stored stored_form_def')
  have "stored_form t0 \<noteq> []"
  proof
    assume "stored_form t0 = []"
    then have "oget (stored_form t0) ''case_role'' = VNone" by simp
    then show False using f(8) by (simp add: oget_stored)
  qed
  then have "or_empty (rp_case r) ''outcome_measurement_t0'' = VDict (stored_form t0)"
    by (simp add: or_empty_def r(2) t0)
  moreover have "attr_get (VDict (stored_form t0)) ''case_role'' = Inr (VStr role)"
    "attr_get (VDict (stored_form t0)) ''material_decision_state_signature'' = Inr (VStr signature)"
    using f(8,9) by (simp_all add: attr_get_def oget_stored)
  moreover have "oitem (rp_case r) ''ticker'' = Inr (VStr ticker)" using f(2) by (simp add: r(2))
  moreover have "member_of (rp_lifecycle r) closed_states = Inr False"
    by (simp add: r(3) member_of_def closed_states_def image_iff)
  ultimately show ?thesis using f(5,6) by (simp add: active_signature_def r(1) f(1,3,4))
qed

definition same_state :: "pyv \<Rightarrow> pyv \<Rightarrow> bool" where
  \<comment> \<open>decisions on one ticker in one role and material state\<close>
  "same_state d e \<longleftrightarrow> (\<forall>k\<in>{''ticker'', ''case_role'', ''material_decision_state_signature''}. oget (the_dict d) k = oget (the_dict e) k)"

lemma admitted_not_active:
  assumes "apply_admission_policy env workspace session prices time files = Inr artifact"
    and "d \<in> set (decisions_of artifact)" "admitted d" "active_signatures env files = Inr existing"
  shows "(oget (the_dict d) ''ticker'', oget (the_dict d) ''case_role'', oget (the_dict d) ''material_decision_state_signature'')
    \<notin> set existing"
proof -
  from applied[OF assms(1)] assms(4) obtain identity cards ds where
    ds: "mapE (decide_card env session time identity prices existing) (sort_key fst cards) = Inr ds"
    "decisions_of artifact = map VDict ds" by auto
  with assms(2) obtain dd where dd: "d = VDict dd" "dd \<in> set ds" by auto
  from mapE_Inr_set[OF ds(1) dd(2)] obtain kv where "decide_card env session time identity prices existing kv = Inr dd" by blast
  from decided(3)[OF this] assms(3) dd(1) obtain entry role signature c where
    "eligible_card env prices existing kv entry role signature"
    "dd = admission_of env session time identity (fst kv) role signature c" by blast
  then show ?thesis unfolding dd(1) pyv.sel by (simp only: admission_fields eligible_card_def) blast
qed

lemma applied_decisions:
  assumes "apply_admission_policy env workspace session prices time files = Inr artifact"
  shows "oget artifact ''decisions'' = VList (decisions_of artifact)"
proof -
  from assms obtain identity ds coverage where "artifact = admission_artifact env session identity ds coverage"
    unfolding apply_admission_policy_def Let_def if_raise_eq_Inr bindE_eq_Inr by blast
  then show ?thesis by (simp add: admission_artifact_def identify_def decisions_of_def)
qed

text \<open>
  C14. Retention makes admission idempotent: for every case that a run reports as retained, no later run over
  whatever workspace, session and prices admits the same ticker in the same role and material state, as
  long as the store only gained further cases.
\<close>

theorem retained_not_admitted_again:
  assumes "apply_admission_policy env workspace session prices time files = Inr artifact"
    and "retain_admitted_cases env say artifact s = (Inr report, t)" "no_stray_events env s"
    and "oget report ''retained'' = VList rows" "row \<in> set rows" "gains_cases env t u"
  shows "\<exists>d\<in>set (decisions_of artifact). admitted d \<and> oget (the_dict d) ''case_id'' = oget (the_dict row) ''case_id''
    \<and> (\<forall>workspace' session' prices' time' artifact'.
        apply_admission_policy env workspace' session' prices' time' (Some u) = Inr artifact' \<longrightarrow>
        (\<forall>d'\<in>set (decisions_of artifact'). admitted d' \<longrightarrow> \<not> same_state d d'))"
proof -
  from assms(2) obtain ds r where ds: "py_iter (v_or (oget artifact ''decisions'') (VList [])) = Inr ds"
    and r: "retain_decisions env say ds [] [] s = (Inr r, t)" and report: "oget report ''retained'' = VList (fst r)"
    unfolding retain_admitted_cases_def by (auto simp: act_bind_eq_Inr lift_res_def identify_def)
  have "ds = decisions_of artifact"
    using ds applied_decisions[OF assms(1)] by (cases "decisions_of artifact") (auto simp: v_or_def)
  from retain_decisions_rows[of env say ds "[]" "[]" s "fst r" "snd r" t] r report assms(4,5)
  have row: "row_retained env ds s t row" by auto
  then obtain d v w where d: "d \<in> set ds" "admitted d" "gains_cases env s v"
      "retain_decision env (the_dict d) v = (Inr row, w)" "gains_cases env w t"
    unfolding row_retained_def by blast
  have din: "d \<in> set (decisions_of artifact)" using d(1) \<open>ds = decisions_of artifact\<close> by simp
  from admitted_decision[OF assms(1) din d(2)] obtain c i where c: "decision_case env prices session time d c i" by blast
  from retain_decision_Inr[OF d(4)] c obtain envelope where
    p: "persist_policy_admitted_case env c (the_dict d) v = (Inr envelope, w)" "oget (the_dict row) ''case_id'' = oget (the_dict d) ''case_id''"
    by (auto simp: decision_case_def)
  have "no_stray_events env v" using assms(3) d(3) no_stray_events_cases by (auto simp: gains_cases_def)
  from persisted_replays[OF c this p(1)] obtain q where
    q: "replay_case env i w = Inr q" "rp_case q = stored_form c" "rp_lifecycle q = VStr ''OPEN''" by blast
  have "gains_cases env w u" using d(5) assms(6) by (rule gains_more)
  then have q1: "replay_case env i u = Inr q" using q(1) replay_kept by (auto simp: gains_cases_def)
  note active = active_of_replay[OF c q1 q(2,3)]
  obtain e where load: "load_case_envelope env i u = Inr e" using q1 unfolding replay_case_def bindE_eq_Inr by blast
  have "\<not> same_state d d'"
    if a: "apply_admission_policy env workspace' session' prices' time' (Some u) = Inr artifact'"
      and d': "d' \<in> set (decisions_of artifact')" "admitted d'" for workspace' session' prices' time' artifact' d'
  proof
    assume same: "same_state d d'"
    from applied[OF a] obtain existing where ex: "active_signatures env (Some u) = Inr existing" by blast
    then obtain ids sigs where ids: "list_case_ids env u = Inr ids" "mapE (active_signature env u) ids = Inr sigs"
      "existing = map the (filter (\<lambda>r. r \<noteq> None) sigs)"
      unfolding active_signatures_def by (auto simp: bindE_eq_Inr)
    have "projr (active_signature env u i) \<in> set sigs"
      using case_listed[OF load ids(1)] ids(2) unfolding mapE_Inr_iff by force
    then have "(oget (the_dict d) ''ticker'', oget (the_dict d) ''case_role'', oget (the_dict d) ''material_decision_state_signature'') \<in> set existing"
      unfolding ids(3) active by force
    moreover have "oget (the_dict d) k = oget (the_dict d') k"
      if "k \<in> {''ticker'', ''case_role'', ''material_decision_state_signature''}" for k
      using same that unfolding same_state_def by blast
    ultimately show False using admitted_not_active[OF a d' ex] by (metis insertCI)
  qed
  then show ?thesis using din d(2) p(2) by (intro bexI[of _ d]) auto
qed

section \<open>A sample workspace\<close>

definition sample_card :: obj where
  "sample_card = [(''ticker'', VStr ''A''), (''research_stance'', VStr ''WAIT_FOR_CONFIRMATION'')]"

definition sample_workspace :: obj where
  "sample_workspace =
     [(''contract_version'', VStr ''investment_decision_workspace_projection/v1''), (''as_of_session'', VStr ''2026-08-21''),
      (''artifact_identity'', VStr ''w''), (''cards'', VDict [(''A'', VDict sample_card)])]"

definition sample_prices :: obj where
  "sample_prices = [(''A'', VDict [(''close'', VInt 10), (''price_basis_identity'', VStr ''b''), (''source_identity'', VStr ''s'')])]"

lemma sample_decided:
  "\<exists>signature c. decide_card sample_text_env session time identity sample_prices [] (''A'', VDict sample_card)
     = Inr (admission_of sample_text_env session time identity ''A'' ''WATCH_FOR_CONFIRMATION'' signature c)
   \<and> material_decision_state_signature sample_text_env sample_card ''WATCH_FOR_CONFIRMATION'' = Inr signature
   \<and> (\<exists>i. oget c ''case_id'' = VStr i)"
proof -
  have "is_ok (semantic sample_card ''WATCH_FOR_CONFIRMATION'')" by code_simp
  then obtain m where "semantic sample_card ''WATCH_FOR_CONFIRMATION'' = Inr m" by (rule is_okE)
  then obtain signature where signature: "material_decision_state_signature sample_text_env sample_card ''WATCH_FOR_CONFIRMATION'' = Inr signature"
    by (simp add: material_decision_state_signature_def)
  let ?price = "the_dict (oget sample_prices ''A'')"
  have "oget sample_card ''setup_tags'' = VNone" "oget sample_card ''confirmation'' = VNone" "oget sample_card ''invalidation'' = VNone"
    "oget sample_card ''fundamental'' = VNone" "oget sample_card ''valuation'' = VNone" "oget sample_card ''market_sector'' = VNone"
    "oget sample_card ''catalyst'' = VNone" "oget sample_card ''liquidity'' = VNone" "oget sample_card ''lineage'' = VNone"
    by (simp_all add: sample_card_def)
  note empty = this
  have "is_ok (t0_state sample_text_env sample_card session identity ?price)"
    by (simp add: t0_state_def empty or_empty_def part_of_def boundary_def dict_of_def)
  then obtain t0 where t0: "t0_state sample_text_env sample_card session identity ?price = Inr t0" by (rule is_okE)
  have "oitem sample_card ''ticker'' = Inr (VStr ''A'')" by (simp add: sample_card_def oitem_def)
  then obtain c where c: "policy_case sample_text_env sample_card session time identity ?price ''WATCH_FOR_CONFIRMATION'' signature = Inr c"
    by (simp add: policy_case_def t0 empty or_empty_def dict_of_def)
  have "price_retained (oget sample_prices ''A'')" "oget sample_card ''ticker'' = VStr ''A''"
    "oget sample_card ''research_stance'' = VStr ''WAIT_FOR_CONFIRMATION''"
    by (simp_all add: price_retained_def sample_prices_def sample_card_def)
  moreover have "member_of (VStr ''WAIT_FOR_CONFIRMATION'') admissible = Inr True"
    "the (map_of role_by_stance ''WAIT_FOR_CONFIRMATION'') = ''WATCH_FOR_CONFIRMATION''"
    by (simp_all add: member_of_def admissible_def role_by_stance_def)
  ultimately have "decide_card sample_text_env session time identity sample_prices [] (''A'', VDict sample_card)
     = Inr (admission_of sample_text_env session time identity ''A'' ''WATCH_FOR_CONFIRMATION'' signature c)"
    by (simp add: decide_card_def signature c)
  then show ?thesis using signature policy_case_Inr(2)[OF c] by blast
qed

lemma tally_one: "is_ok (tally_names [VStr x])"
  by (simp add: tally_names_def)

lemma sample_applied:
  "\<exists>artifact d i. apply_admission_policy sample_text_env sample_workspace ''2026-08-21'' sample_prices time (Some []) = Inr artifact
     \<and> decisions_of artifact = [d] \<and> admitted d \<and> oget (the_dict d) ''case_id'' = VStr i"
proof -
  obtain signature c i where d: "decide_card sample_text_env ''2026-08-21'' time ''w'' sample_prices [] (''A'', VDict sample_card)
     = Inr (admission_of sample_text_env ''2026-08-21'' time ''w'' ''A'' ''WATCH_FOR_CONFIRMATION'' signature c)" (is "_ = Inr ?d")
    and i: "oget c ''case_id'' = VStr i"
    using sample_decided[of "''2026-08-21''" time "''w''"] by blast
  have w: "oget sample_workspace ''contract_version'' = VStr ''investment_decision_workspace_projection/v1''"
    "oget sample_workspace ''as_of_session'' = VStr ''2026-08-21''" "oget sample_workspace ''artifact_identity'' = VStr ''w''"
    "oget sample_workspace ''cards'' = VDict [(''A'', VDict sample_card)]"
    by (simp_all add: sample_workspace_def)
  have none: "active_signatures sample_text_env (Some []) = Inr []"
    by (simp add: active_signatures_def list_case_ids_def json_files_def sorted_set_def)
  have "to_text sample_text_env (oget sample_card ''research_stance'') = ''WAIT_FOR_CONFIRMATION''"
    by (simp add: sample_card_def to_text_def)
  then obtain coverage where cov: "coverage_of sample_text_env [(''A'', VDict sample_card)] [?d] = Inr coverage"
    using tally_one[of "''WAIT_FOR_CONFIRMATION''"] tally_one[of "''ADMITTED''"] tally_one[of "''WATCH_FOR_CONFIRMATION''"]
    by (auto simp: coverage_of_def attr_get_def admission_fields elim!: is_okE)
  have sorted: "sort_key fst [(''A'', VDict sample_card)] = [(''A'', VDict sample_card)]" by simp
  have "apply_admission_policy sample_text_env sample_workspace ''2026-08-21'' sample_prices time (Some [])
      = Inr (admission_artifact sample_text_env ''2026-08-21'' ''w'' [?d] coverage)"
    unfolding apply_admission_policy_def w Let_def none pyv.sel sorted by (simp add: d cov)
  moreover have "decisions_of (admission_artifact sample_text_env ''2026-08-21'' ''w'' [?d] coverage) = [VDict ?d]"
    by (simp add: decisions_of_def admission_artifact_def identify_def)
  moreover have "admitted (VDict ?d)" by (simp add: admitted_def admission_fields)
  moreover have "oget (the_dict (VDict ?d)) ''case_id'' = VStr i" by (simp add: admission_fields i)
  ultimately show ?thesis by blast
qed

lemma oget_oitem: "oget d k = v \<Longrightarrow> v \<noteq> VNone \<Longrightarrow> oitem d k = Inr v"
  by (auto simp: oget_def oitem_def split: option.splits)

lemma retain_decision_ok:
  assumes d: "decision_case env prices session time d c i" "admitted d" "is_ok (parse_time (VStr time))"
    and s: "map_of s lock_path = None" "map_of s (stored_case_path env i) = None"
  shows "\<exists>row t. retain_decision env (the_dict d) s = (Inr row, t)"
proof -
  have "check_timestamp (VStr time) = Inr ()" using d(3) by (auto simp: check_timestamp_def elim!: is_okE)
  then obtain envelope t where persisted: "persist_policy_admitted_case env c (the_dict d) s = (Inr envelope, t)"
    using persist_admitted_ok[OF s, of c time "the_dict d"] d(1,2) by (auto simp: decision_case_def admitted_def oitem_oget)
  obtain admitted e where "commit_case env (VStr i) (admitted_envelope c admitted e) s = (Inr envelope, t)"
    using admitted_event[OF persisted] d(1) by (auto simp: decision_case_def)
  from commit_case_Inr(1)[OF this] have "identified_by env envelope ''content_identity'' envelope_prefix"
    unfolding load_case_envelope_def Let_def if_raise_eq_Inr bindE_eq_Inr by blast
  then obtain x where "oitem envelope ''content_identity'' = Inr (VStr x)"
    using oget_oitem by (auto simp: identified_by_def)
  moreover obtain ticker where "oitem (the_dict d) ''ticker'' = Inr (VStr ticker)" "oitem (the_dict d) ''case_id'' = Inr (VStr i)"
    "oitem (the_dict d) ''case'' = Inr (VDict c)"
    using d(1) unfolding decision_case_def by (metis oget_oitem pyv.distinct(7) pyv.distinct(11))
  ultimately show ?thesis using persisted by (simp add: retain_decision_def retained_row_def act_bind_def lift_res_def)
qed

lemma sample_time_ok: "is_ok (parse_time (VStr sample_time))"
  using created_case(3)[OF sample_created] by (auto simp: sample_time_def)

theorem every_card_decided_witness:
  "\<exists>artifact d coverage counts. apply_admission_policy sample_text_env sample_workspace ''2026-08-21'' sample_prices sample_time (Some []) = Inr artifact
     \<and> decisions_of artifact = [d] \<and> admitted d \<and> oget artifact ''coverage'' = VDict coverage
     \<and> oget coverage ''admission_status'' = VDict counts \<and> sum_list (map (\<lambda>kv. the_int (snd kv)) counts) = 1"
proof -
  obtain artifact d where a: "apply_admission_policy sample_text_env sample_workspace ''2026-08-21'' sample_prices sample_time (Some []) = Inr artifact"
    "decisions_of artifact = [d]" "admitted d" using sample_applied by blast
  have "oget sample_workspace ''cards'' = VDict [(''A'', VDict sample_card)]" by (simp add: sample_workspace_def)
  with every_card_decided[OF a(1)] a show ?thesis by auto
qed

theorem malformed_card_aborts_witness:
  "\<not> is_ok (apply_admission_policy sample_text_env (oset sample_workspace ''cards'' (VDict [(''A'', VDict sample_card), (''B'', VNone)]))
     ''2026-08-21'' sample_prices sample_time None)"
  using malformed_card_aborts[of "oset sample_workspace ''cards'' (VDict [(''A'', VDict sample_card), (''B'', VNone)])"
    "[(''A'', VDict sample_card), (''B'', VNone)]" "''B''" VNone] by simp

theorem signature_is_material_witness:
  "\<exists>signature. material_decision_state_signature sample_text_env sample_card ''WATCH_FOR_CONFIRMATION'' = Inr signature
     \<and> material_decision_state_signature sample_text_env (oset sample_card ''lineage'' (VStr ''x'')) ''WATCH_FOR_CONFIRMATION'' = Inr signature
     \<and> material_decision_state_signature sample_text_env (oset sample_card ''entry_state'' (VStr ''x'')) ''WATCH_FOR_CONFIRMATION'' \<noteq> Inr signature"
proof -
  obtain signature where s: "material_decision_state_signature sample_text_env sample_card ''WATCH_FOR_CONFIRMATION'' = Inr signature"
    using sample_decided by blast
  have "''lineage'' \<notin> set material_fields" by (simp add: material_fields_def)
  moreover have "sort_keys (oget (oset sample_card ''entry_state'' (VStr ''x'')) ''entry_state'')
      \<noteq> sort_keys (oget sample_card ''entry_state'')" by (simp add: sample_card_def)
  ultimately show ?thesis using signature_is_material[OF sample_case_values(4,5) s] s by blast
qed

theorem admission_accepted_by_store_witness:
  "\<exists>artifact d c envelope t i r. apply_admission_policy sample_text_env sample_workspace ''2026-08-21'' sample_prices sample_time (Some []) = Inr artifact
     \<and> decisions_of artifact = [d] \<and> persist_policy_admitted_case sample_text_env c (the_dict d) [] = (Inr envelope, t)
     \<and> replay_case sample_text_env i t = Inr r \<and> rp_lifecycle r = VStr ''OPEN''"
proof -
  obtain artifact d i where a: "apply_admission_policy sample_text_env sample_workspace ''2026-08-21'' sample_prices sample_time (Some []) = Inr artifact"
    "decisions_of artifact = [d]" "admitted d" "oget (the_dict d) ''case_id'' = VStr i" using sample_applied by blast
  have "d \<in> set (decisions_of artifact)" "map_of [] lock_path = None" "map_of [] (stored_case_path sample_text_env i) = None"
    by (simp_all add: a(2))
  from admission_accepted_by_store[OF a(1) this(1) a(3) sample_time_ok no_stray_events_empty this(2) a(4) this(3)] a(1,2)
  show ?thesis by blast
qed

theorem retained_not_admitted_again_witness:
  "\<exists>artifact report t row. apply_admission_policy sample_text_env sample_workspace ''2026-08-21'' sample_prices sample_time (Some []) = Inr artifact
     \<and> retain_admitted_cases sample_text_env exc_message artifact [] = (Inr report, t) \<and> oget report ''retained'' = VList [row]
     \<and> (\<exists>d\<in>set (decisions_of artifact). admitted d \<and> list_all (\<lambda>d'. \<not> (admitted d' \<and> same_state d d'))
       (case apply_admission_policy sample_text_env sample_workspace ''2026-08-21'' sample_prices sample_time (Some t) of
          Inl e \<Rightarrow> [] | Inr a \<Rightarrow> decisions_of a))"
proof -
  obtain artifact d where a: "apply_admission_policy sample_text_env sample_workspace ''2026-08-21'' sample_prices sample_time (Some []) = Inr artifact"
    "decisions_of artifact = [d]" "admitted d" using sample_applied by blast
  have "d \<in> set (decisions_of artifact)" by (simp add: a(2))
  from admitted_decision[OF a(1) this a(3)] obtain c i where c: "decision_case sample_text_env sample_prices ''2026-08-21'' sample_time d c i" by blast
  obtain row t where row: "retain_decision sample_text_env (the_dict d) [] = (Inr row, t)"
    using retain_decision_ok[OF c a(3) sample_time_ok, of "[]"] by auto
  have "attr_get d ''admission_status'' = Inr (VStr ''ADMITTED'')"
    using a(3) c by (auto simp: admitted_def decision_case_def attr_get_def elim!: is_dict.elims)
  then have "retain_decisions sample_text_env exc_message [d] [] [] [] = (Inr ([row], []), t)"
    by (simp add: act_bind_def lift_res_def row)
  then obtain report where r: "retain_admitted_cases sample_text_env exc_message artifact [] = (Inr report, t)"
      "oget report ''retained'' = VList [row]"
    using applied_decisions[OF a(1)] a(2)
    by (auto simp: retain_admitted_cases_def act_bind_def lift_res_def v_or_def identify_def)
  from retained_not_admitted_again[OF a(1) r(1) no_stray_events_empty r(2) _ gains_nothing, of row]
  obtain e where e: "e \<in> set (decisions_of artifact)" "admitted e"
    "\<forall>workspace' session' prices' time' artifact'.
        apply_admission_policy sample_text_env workspace' session' prices' time' (Some t) = Inr artifact' \<longrightarrow>
        (\<forall>d'\<in>set (decisions_of artifact'). admitted d' \<longrightarrow> \<not> same_state e d')" by auto
  have "list_all (\<lambda>d'. \<not> (admitted d' \<and> same_state e d'))
       (case apply_admission_policy sample_text_env sample_workspace ''2026-08-21'' sample_prices sample_time (Some t) of
          Inl e \<Rightarrow> [] | Inr a \<Rightarrow> decisions_of a)"
  proof (cases "apply_admission_policy sample_text_env sample_workspace ''2026-08-21'' sample_prices sample_time (Some t)")
    case (Inr a)
    with e(3) have "\<forall>d'\<in>set (decisions_of a). admitted d' \<longrightarrow> \<not> same_state e d'" by blast
    then show ?thesis by (auto simp: Inr list_all_iff)
  qed simp
  then show ?thesis using a(1) r e(1,2) by blast
qed

end
