(* ===== verification/Spec2Isabelle.thy ===== *)
theory Spec2Isabelle
  imports AsofLedger LandingResume ExecutionGuard AcquisitionBudget OpportunityRanking QualificationTiers SessionBars ShareAuthority FactorChain MarketGate TapePagination CaseAdmission
begin

text \<open>
  Verification of the deterministic core of \<open>stock-core-private\<close> (Stock Lookup), a producer of research
  evidence on Vietnamese equities.  The repository collects market, financial and corporate evidence,
  retains it content-addressed with its provenance, qualifies it, and derives decisions and prospective
  research cases from it.  Modelled are the modules whose contracts the others rely on, in the layers below.

  \<^bold>\<open>Language.\<close>  \<open>Prelude\<close> holds Python exceptions as values of a sum type (\<open>res\<close>, \<open>raise\<close>, \<open>bindE\<close>,
  \<open>mapE\<close>, \<open>foldE\<close>) and the string operations; \<open>PyTime\<close> the parsers and the arithmetic of \<open>datetime\<close>;
  \<open>PyValue\<close> the untyped values of JSON documents (\<open>pyv\<close>, with \<open>oget\<close> for \<open>d.get(k)\<close> and \<open>oitem\<close> for
  \<open>d[k]\<close>) and their truth, equality, attribute access and text; \<open>PyFloat\<close> the rounding of IEEE doubles;
  \<open>CanonicalJson\<close> that the canonical text \<open>json.dumps(sort_keys=True)\<close> of a value determines it up to the order
  of items (\<open>same_value\<close>), on which every content identity of the repository rests.

  \<^bold>\<open>Acquisition.\<close>  \<open>AcquisitionBudget\<close> is \<open>official_acquisition_budget.py\<close> with \<open>fetch\<close> of
  \<open>hose_public_xhr_and_periodic_series_recon.py\<close>: the state of a budget, its requests, the read loop, and a
  session of fetchers that share it; the locale \<open>budget_invariant\<close> carries an invariant of the budget
  through every operation.  \<open>Landing\<close> is the document half of \<open>stocklookup_core/acquisition/\<close>
  (\<open>acquisition_landing_contract.py\<close>, \<open>_identity\<close>, \<open>_isolation\<close>, \<open>_atomic_io\<close>, \<open>_quarantine\<close>, \<open>_retention\<close>),
  \<open>LandingBatch\<close> the batch half (\<open>acquisition_landing_checkpoint.py\<close>).  \<open>LandingSafety\<close> shows what they
  never do, once for each relation between file systems through the locales \<open>io_effect\<close>, \<open>retain_effect\<close>
  and \<open>landing_effect\<close>; \<open>LandingResume\<close> what they achieve: the outcome of each document, the consistency of
  manifest, store and report, and the convergence of a resumed run with an uninterrupted one.

  \<^bold>\<open>Evidence.\<close>  In \<open>stocklookup_core/evidence/\<close>: \<open>TemporalRetention\<close> (\<open>temporal_retention.py\<close>, the receipt
  at the byte boundary), \<open>Bitemporal\<close> (\<open>bitemporal_semantic_contract.py\<close>, when evidence became knowable),
  \<open>AsofLedger\<close> (\<open>asof_query_ledger.py\<close>, queries as of a cutoff), \<open>QualificationTiers\<close>
  (\<open>evidence_qualification_tiers.py\<close>), \<open>ShareTransition\<close> (\<open>share_transition_bridge.py\<close>) and
  \<open>ShareAuthority\<close> (\<open>current_share_authority.py\<close>) on common-share counts, \<open>CorporateLedger\<close>
  (\<open>official_corporate_action_ledger.py\<close>) and \<open>FactorChain\<close>
  (\<open>qualified_corporate_action_factor_chain.py\<close>) on corporate actions; and \<open>SessionBars\<close>
  (\<open>session_bar_integrity.py\<close>).  They show that nothing is used before it was knowable, that what is called
  qualified is backed by what it claims, and when results do not depend on the order of the evidence.

  \<^bold>\<open>Market sessions.\<close>  \<open>MarketGate\<close> is \<open>completed_market_session_gate.py\<close>: both gates from their arguments to
  their records, and the check that skips the network.  The predicate \<open>backed\<close> says what evidence must show;
  the lemmas reduce every branch of the gates to it.  \<open>TapePagination\<close> is
  \<open>stocklookup_core/evidence/vci_intraday_pagination.py\<close> with the scan and the offline replay of
  \<open>tools/run_vci_intraday_pagination.py\<close> and the parser of \<open>vci_direct_basis_pilot.py\<close>.  The provider is a
  parameter; \<open>serves\<close> is the cursor semantics the module states of it and \<open>genuine_tape\<close> the counter on its
  rows.  The invariant \<open>tracks\<close> of the loop gives what a run has retrieved, \<open>figures_close\<close> what its figures
  measure, and \<open>step_sparse\<close> that it advances.

  \<^bold>\<open>Provider runtime and decision.\<close>  \<open>ProviderRuntime\<close> is \<open>provider_runtime_state.py\<close> (launch policy,
  classification of failures and of observed responses, environment of a worker), \<open>ExecutionGuard\<close>
  \<open>provider_execution_guard.py\<close> as a step relation over one process, \<open>OpportunityRanking\<close>
  \<open>stocklookup_core/decision/opportunity_ranking.py\<close>.

  \<^bold>\<open>Research cases.\<close>  \<open>CaseLedger\<close> is \<open>stocklookup_core/research/prospective_research_case_learning_ledger.py\<close>:
  a case freezes what was known when it was created, its history grows by updates, and the learning ledger
  counts what they say.  \<open>CaseStore\<close> is \<open>durable_prospective_research_case_store.py\<close> beside it: files in a
  store, events that name their predecessor, replay.  The relation \<open>recorded\<close> is the set of histories the
  ledger can build; \<open>replay_after_append\<close> shows that the store implements it.  \<open>CaseAdmission\<close> is
  \<open>prospective_case_admission_policy.py\<close>, which decides the cards of a workspace against the active cases of a
  store and retains what it admits; it shows that the store accepts every admitted case and that a retained
  one is not admitted again.

  \<^bold>\<open>Correspondence.\<close>  A dataclass is a \<^theory_text>\<open>record\<close> of the same fields, an enumeration a \<^theory_text>\<open>datatype\<close>, a
  mapping read from JSON an association list in insertion order, an operation a function of the same name
  where Isabelle allows it.  An operation that can raise returns a sum, one that writes files takes and
  returns the files, so that what was written before an exception is kept.  Every \<open>raise\<close> and early return
  of the source is a branch.

  \<^bold>\<open>Parameters.\<close>  Code outside the repository is an argument: SHA-256, the text Python prints for floats and
  containers (\<open>text_env\<close>, \<open>rep\<close>), the clock, the zone database (\<open>zone\<close>, \<open>gate_env\<close>), path resolution, the network
  connection of a budget, the provider and JSON parser of a scan (\<open>tape_env\<close>), the resolver of knowledge cutoffs.  Where a property needs more of one than that
  it is a function, the statement says so: a hash without collisions is \<open>inj (te_sha env)\<close>, texts of floats
  that tell them from each other and from whole numbers are \<open>float_text\<close>.  The guard of provider operations
  takes the registry as an argument; its properties are about \<open>operations\<close>, the one of the module.

  \<^bold>\<open>Termination.\<close>  Nothing runs on fuel that the code does not have: the scan of a tape is bounded by its own
  request budget, and \<open>sparse_scan_completes\<close> says how much is enough.  The loop that reads a response body is a \<^theory_text>\<open>function\<close> with the
  measure of the bytes and the budget left (\<open>reading_terminates\<close>); the loop along a chain of events may run
  forever on events whose identifiers collide, so it is a \<^theory_text>\<open>partial_function\<close> into options, and
  \<open>events_put_in_order\<close> shows that it returns on every list of verified events and which order it finds.

  \<^bold>\<open>Not modelled.\<close>  Failures of the operating system itself, directories, temporary files and concurrent
  writes below the granularity of an operation; NaN and infinities; the second transport that runs inside a
  budget (\<open>hnx_enumerable_universe_kllh_event_disclosure_scaleout.py\<close>); logging and command lines; the exporters and pipelines that arrange results
  in documents (\<open>export_ai_bundle.py\<close>, \<open>canonical_post_close_pipeline.py\<close> and the products under
  \<open>stocklookup_core/decision\<close>, \<open>portfolio\<close> and \<open>valuation\<close>), which add tables and texts to what the modelled
  modules decide; the extraction of facts from documents by text patterns and OCR, whose correctness is a
  matter of data; of the session gate the calendar receipts by knowledge cutoff and the loading of evidence
  files, of the pilot of the provider the transport and the daily bars; network adapters and the build of the provider runtime, which talk to services and to
  the operating system.
\<close>

end
